(* ===== verification/Prelude.thy ===== *)
theory Prelude
  imports Main "HOL-Library.Word"
begin

text \<open>
  Shared vocabulary of the development: the machine integers of the C sources, the library
  error codes of \<^verbatim>\<open>lib/includes/ngtcp2/ngtcp2.h\<close>, results with error values, byte buffers with
  bounds-checked reads and writes, the allocator, and the generic lemmas the components use.

  A C function that returns an error code is a function into \<open>'a res\<close>: \<open>Inr v\<close> is success,
  \<open>Inl (LibErr e)\<close> a negative library error code, \<open>Inl AssertFail\<close> a failed \<^verbatim>\<open>assert\<close> and
  \<open>Inl OutOfBounds\<close> an access outside the buffer that was passed in or through a dangling or null pointer
  (undefined behaviour in C); \<open>Inl OutOfFuel\<close> is a loop that needs more passes than it was given.
  These are never a result the library means to produce: that they cannot occur is a
  theorem about each function, not a convention of the model.
\<close>

unbundle bit_operations_syntax

section \<open>Machine integers\<close>

type_synonym u8 = "8 word"
type_synonym u16 = "16 word"
type_synonym u32 = "32 word"
type_synonym u64 = "64 word"
type_synonym bytes = "u8 list"

text \<open>
  Lengths and positions inside one buffer are \<open>nat\<close>; an addition or multiplication of
  \<^verbatim>\<open>size_t\<close> values that the peer can influence is written with its wrap-around.
\<close>

definition szadd :: "nat \<Rightarrow> nat \<Rightarrow> nat" where
  "szadd a b = (a + b) mod 2 ^ 64"

definition szmul :: "nat \<Rightarrow> nat \<Rightarrow> nat" where
  "szmul a b = (a * b) mod 2 ^ 64"

definition szsub :: "nat \<Rightarrow> nat \<Rightarrow> nat" where
  "szsub a b = (a + 2 ^ 64 - b) mod 2 ^ 64"

lemma szsub_small [simp]: "b \<le> a \<Longrightarrow> a < 2 ^ 64 \<Longrightarrow> szsub a b = a - b"
proof -
  assume ab: "b \<le> a" "a < 2 ^ 64"
  then have "a + 2 ^ 64 - b = a - b + 2 ^ 64" by linarith
  then show ?thesis using ab by (simp only: szsub_def mod_add_self2 mod_less less_imp_diff_less)
qed

lemma szadd_small [simp]: "a + b < 2 ^ 64 \<Longrightarrow> szadd a b = a + b"
  by (simp add: szadd_def)

lemma szmul_small [simp]: "a * b < 2 ^ 64 \<Longrightarrow> szmul a b = a * b"
  by (simp add: szmul_def)

definition UINT64_MAX :: u64 where
  "UINT64_MAX = - 1"

lemma le_UINT64_MAX [simp]: "x \<le> UINT64_MAX"
  by (simp add: UINT64_MAX_def)

lemma unat_UINT64_MAX: "unat UINT64_MAX = 2 ^ 64 - 1"
  by (simp add: UINT64_MAX_def unsigned_minus_1_eq_mask mask_eq_exp_minus_1)

lemma unat_UINT64_MAX_1: "unat (UINT64_MAX - 1) = 2 ^ 64 - 2"
  by (simp add: UINT64_MAX_def unat_sub word_le_nat_alt unsigned_minus_1_eq_mask mask_eq_exp_minus_1)

lemma unat_u64_bound: "unat (x :: u64) < 2 ^ 64"
  using unsigned_less [of x] by simp

lemma unat_of_nat64: "n < 2 ^ 64 \<Longrightarrow> unat (of_nat n :: u64) = n"
  by (simp add: unat_of_nat take_bit_nat_eq_self)

lemma unat_u32_bound: "unat (x :: u32) < 2 ^ 32"
  using unsigned_less [where 'a = nat, of x] by simp

lemma unat_u16_bound: "unat (x :: u16) < 2 ^ 16"
  using unsigned_less [where 'a = nat, of x] by simp

lemma unat_u8_bound: "unat (x :: u8) < 2 ^ 8"
  using unsigned_less [where 'a = nat, of x] by simp

lemma unat_ucast_le: "unat (ucast (w :: 'a :: len word) :: 'b :: len word) \<le> unat w"
  by (simp add: unsigned_ucast_eq)

lemma less_UINT64_MAX: "x < UINT64_MAX \<longleftrightarrow> unat x < 2 ^ 64 - 1"
  by (simp add: word_less_nat_alt unat_UINT64_MAX)

lemma word_diff_eq_0_iff [simp]: "((a :: 'a :: len word) - b = 0) = (a = b)"
  by simp

section \<open>Error codes and results\<close>

datatype lib_error =
    NGTCP2_ERR_INVALID_ARGUMENT
  | NGTCP2_ERR_UNKNOWN_PKT_TYPE
  | NGTCP2_ERR_NOBUF
  | NGTCP2_ERR_BAD_PKT_HASH
  | NGTCP2_ERR_PROTO
  | NGTCP2_ERR_INVALID_STATE
  | NGTCP2_ERR_ACK_FRAME
  | NGTCP2_ERR_STREAM_ID_BLOCKED
  | NGTCP2_ERR_STREAM_IN_USE
  | NGTCP2_ERR_STREAM_DATA_BLOCKED
  | NGTCP2_ERR_FLOW_CONTROL
  | NGTCP2_ERR_PKT_TIMEOUT
  | NGTCP2_ERR_STREAM_ID
  | NGTCP2_ERR_FINAL_OFFSET
  | NGTCP2_ERR_TLS_HANDSHAKE
  | NGTCP2_ERR_PKT_NUM_EXHAUSTED
  | NGTCP2_ERR_REQUIRED_TRANSPORT_PARAM
  | NGTCP2_ERR_MALFORMED_TRANSPORT_PARAM
  | NGTCP2_ERR_FRAME_FORMAT
  | NGTCP2_ERR_TLS_DECRYPT
  | NGTCP2_ERR_STREAM_SHUT_WR
  | NGTCP2_ERR_STREAM_NOT_FOUND
  | NGTCP2_ERR_VERSION_NEGOTIATION
  | NGTCP2_ERR_TLS_FATAL_ALERT_GENERATED
  | NGTCP2_ERR_TLS_FATAL_ALERT_RECEIVED
  | NGTCP2_ERR_STREAM_STATE
  | NGTCP2_ERR_NOKEY
  | NGTCP2_ERR_EARLY_DATA_REJECTED
  | NGTCP2_ERR_FATAL
  | NGTCP2_ERR_NOMEM
  | NGTCP2_ERR_CALLBACK_FAILURE
  | NGTCP2_ERR_INTERNAL

datatype err = LibErr lib_error | AssertFail | OutOfBounds | OutOfFuel

type_synonym 'a res = "err + 'a"

text \<open>The \<^verbatim>\<open>int rv\<close> of a function that has no other result: \<open>None\<close> is 0.\<close>

type_synonym rv = "lib_error option"

abbreviation fail :: "lib_error \<Rightarrow> 'a res" where
  "fail e \<equiv> Inl (LibErr e)"

definition rbind :: "'a res \<Rightarrow> ('a \<Rightarrow> 'b res) \<Rightarrow> 'b res" where
  "rbind m f = (case m of Inl e \<Rightarrow> Inl e | Inr x \<Rightarrow> f x)"

definition rassert :: "bool \<Rightarrow> 'a res \<Rightarrow> 'a res" where
  "rassert b k = (if b then k else Inl AssertFail)"

lemma rbind_simps [simp]:
  "rbind (Inl e) f = Inl e"
  "rbind (Inr x) f = f x"
  by (simp_all add: rbind_def)

lemma rassert_simps [simp]:
  "rassert True k = k"
  "rassert False k = Inl AssertFail"
  by (simp_all add: rassert_def)

lemma rbind_cong [fundef_cong]:
  "m = m' \<Longrightarrow> (\<And>x. m' = Inr x \<Longrightarrow> f x = f' x) \<Longrightarrow> rbind m f = rbind m' f'"
  by (cases m') simp_all

lemma rbind_assoc: "rbind (rbind m f) g = rbind m (\<lambda>x. rbind (f x) g)"
  by (simp add: rbind_def split: sum.splits)

lemma rbind_eq_Inr: "rbind m f = Inr y \<longleftrightarrow> (\<exists>x. m = Inr x \<and> f x = Inr y)"
  by (cases m) auto

lemma rassert_eq_Inr [simp]: "rassert b k = Inr y \<longleftrightarrow> b \<and> k = Inr y"
  by (simp add: rassert_def)

text \<open>
  \<open>rspec m Q\<close>: the computation ends with a library error code or with a value that satisfies \<open>Q\<close>;
  it never ends with a failed assertion and never with an access outside a buffer.
\<close>

definition rspec :: "'a res \<Rightarrow> ('a \<Rightarrow> bool) \<Rightarrow> bool" where
  "rspec m Q = (case m of Inr x \<Rightarrow> Q x | Inl e \<Rightarrow> \<exists>l. e = LibErr l)"

lemma rspec_simps [simp]:
  "rspec (Inr x) Q = Q x"
  "rspec (Inl (LibErr e)) Q"
  "\<not> rspec (Inl AssertFail) Q"
  "\<not> rspec (Inl OutOfBounds) Q"
  "\<not> rspec (Inl OutOfFuel) Q"
  by (simp_all add: rspec_def)

lemma rspec_rassert [simp]: "rspec (rassert b k) Q \<longleftrightarrow> b \<and> rspec k Q"
  by (simp add: rassert_def)

lemma rspec_rbind: "rspec m P \<Longrightarrow> (\<And>x. m = Inr x \<Longrightarrow> P x \<Longrightarrow> rspec (f x) Q) \<Longrightarrow> rspec (rbind m f) Q"
  by (cases m) (auto simp: rspec_def)

lemma rspec_rbindI: "rspec m (\<lambda>x. rspec (f x) Q) \<Longrightarrow> rspec (rbind m f) Q"
  by (cases m) (auto simp: rspec_def)

lemma rspec_if: "(b \<Longrightarrow> rspec x Q) \<Longrightarrow> (\<not> b \<Longrightarrow> rspec y Q) \<Longrightarrow> rspec (if b then x else y) Q"
  by simp

lemma rspec_mono: "rspec m P \<Longrightarrow> (\<And>x. P x \<Longrightarrow> Q x) \<Longrightarrow> rspec m Q"
  by (auto simp: rspec_def split: sum.splits)

text \<open>
  \<^verbatim>\<open>rv = f(...); if (rv != 0) return rv;\<close> for functions that return an error code and change a state: the state
  is kept when the error is returned.
\<close>

definition rv_then :: "(rv \<times> 's) res \<Rightarrow> ('s \<Rightarrow> (rv \<times> 's) res) \<Rightarrow> (rv \<times> 's) res" where
  "rv_then r k = rbind r (\<lambda>(rv, s). if rv \<noteq> None then Inr (rv, s) else k s)"

lemma rv_then_simps [simp]:
  "rv_then (Inl e) k = Inl e"
  "rv_then (Inr (None, s)) k = k s"
  "rv_then (Inr (Some l, s)) k = Inr (Some l, s)"
  by (simp_all add: rv_then_def)

lemma rv_then_cong [fundef_cong]:
  "r = r' \<Longrightarrow> (\<And>s. r' = Inr (None, s) \<Longrightarrow> k s = k' s) \<Longrightarrow> rv_then r k = rv_then r' k'"
  by (cases r') (auto simp: rv_then_def)

section \<open>Byte buffers\<close>

text \<open>
  \<open>rd buf p\<close> is \<^verbatim>\<open>buf[p]\<close>; \<open>rdn buf p n\<close> the \<^verbatim>\<open>n\<close> bytes a \<^verbatim>\<open>memcpy\<close> reads at \<^verbatim>\<open>buf + p\<close>;
  \<open>wr (buf, p) bs\<close> stores the bytes \<open>bs\<close> at \<^verbatim>\<open>buf + p\<close> and moves the write position behind them, as
  \<^verbatim>\<open>ngtcp2_cpymem\<close> and the \<^verbatim>\<open>ngtcp2_put_*\<close> functions do.
\<close>

definition rd :: "bytes \<Rightarrow> nat \<Rightarrow> u8 res" where
  "rd buf p = (if p < length buf then Inr (buf ! p) else Inl OutOfBounds)"

definition rdn :: "bytes \<Rightarrow> nat \<Rightarrow> nat \<Rightarrow> bytes res" where
  "rdn buf p n = (if p + n \<le> length buf then Inr (take n (drop p buf)) else Inl OutOfBounds)"

type_synonym cursor = "bytes \<times> nat"

definition wr :: "cursor \<Rightarrow> bytes \<Rightarrow> cursor res" where
  "wr c bs = (case c of (buf, p) \<Rightarrow>
     if p + length bs \<le> length buf
     then Inr (take p buf @ bs @ drop (p + length bs) buf, p + length bs)
     else Inl OutOfBounds)"

lemma rd_in [simp]: "p < length buf \<Longrightarrow> rd buf p = Inr (buf ! p)"
  by (simp add: rd_def)

lemma rdn_in [simp]: "p + n \<le> length buf \<Longrightarrow> rdn buf p n = Inr (take n (drop p buf))"
  by (simp add: rdn_def)

lemma wr_in:
  "p + length bs \<le> length buf \<Longrightarrow>
   wr (buf, p) bs = Inr (take p buf @ bs @ drop (p + length bs) buf, p + length bs)"
  by (simp add: wr_def)

text \<open>Two consecutive stores are one store of the concatenation, in bounds or not.\<close>

lemma wr_wr: "rbind (wr c a) (\<lambda>c'. wr c' b) = wr c (a @ b)"
proof (cases c)
  case (Pair buf p)
  show ?thesis
  proof (cases "p + length a \<le> length buf")
    case True
    then show ?thesis
      by (auto simp: Pair wr_def min_absorb2 min_absorb1 add.commute add.left_commute)
  next
    case False
    then show ?thesis by (simp add: Pair wr_def)
  qed
qed

lemma wr_wr_bind: "rbind (wr c a) (\<lambda>c'. rbind (wr c' b) k) = rbind (wr c (a @ b)) k"
  by (simp add: wr_wr [symmetric] rbind_assoc)

lemma wr_Nil: "snd c \<le> length (fst c) \<Longrightarrow> wr c [] = Inr c"
  by (cases c) (simp add: wr_def)

text \<open>\<open>holds_at buf p bs\<close>: the buffer holds the bytes \<open>bs\<close> at position \<open>p\<close>.\<close>

definition holds_at :: "bytes \<Rightarrow> nat \<Rightarrow> bytes \<Rightarrow> bool" where
  "holds_at buf p bs = (p + length bs \<le> length buf \<and> take (length bs) (drop p buf) = bs)"

lemma holds_at_append:
  "holds_at buf p (a @ b) \<longleftrightarrow> holds_at buf p a \<and> holds_at buf (p + length a) b"
  by (auto simp: holds_at_def take_add add.commute add.left_commute)

lemma holds_at_prefix: "holds_at (bs @ rest) 0 bs"
  by (simp add: holds_at_def)

lemma holds_at_decomp:
  "holds_at buf p bs \<Longrightarrow> \<exists>pre post. buf = pre @ bs @ post \<and> length pre = p"
  by (metis holds_at_def append_take_drop_id length_take min_absorb2 add_leD1)

lemma holds_at_len: "holds_at buf p bs \<Longrightarrow> p + length bs \<le> length buf"
  by (simp add: holds_at_def)

lemma rdn_at: "holds_at buf p bs \<Longrightarrow> n = length bs \<Longrightarrow> rdn buf p n = Inr bs"
  by (simp add: holds_at_def rdn_def)

lemma rd_at: "holds_at buf p (b # bs) \<Longrightarrow> rd buf p = Inr b"
  by (drule holds_at_decomp) (auto simp: rd_def)

lemma holds_at_Nil: "holds_at buf p [] \<longleftrightarrow> p \<le> length buf"
  by (simp add: holds_at_def)

lemma holds_at_Cons:
  "holds_at buf p (b # bs) \<longleftrightarrow> p < length buf \<and> buf ! p = b \<and> holds_at buf (Suc p) bs"
proof -
  have "p < length buf \<Longrightarrow> drop p buf = buf ! p # drop (Suc p) buf"
    by (rule Cons_nth_drop_Suc [symmetric])
  then show ?thesis by (auto simp: holds_at_def)
qed

lemmas holds_at_simps = holds_at_Nil holds_at_Cons holds_at_append

section \<open>The allocator\<close>

text \<open>
  \<^verbatim>\<open>ngtcp2_mem\<close> is supplied by the application. What the library sees of it is whether each
  request is granted: \<open>m k\<close> tells whether the \<open>k\<close>-th request from now on succeeds. \<open>malloc m\<close>
  makes one request.
\<close>

type_synonym mem = "nat \<Rightarrow> bool"

definition malloc :: "mem \<Rightarrow> bool \<times> mem" where
  "malloc m = (m 0, \<lambda>k. m (Suc k))"

definition mem_ok :: "mem \<Rightarrow> bool" where
  "mem_ok m = (\<forall>k. m k)"

lemma malloc_mem_ok: "mem_ok m \<Longrightarrow> malloc m = (True, m)"
  by (auto simp: malloc_def mem_ok_def)

lemma mem_ok_True: "mem_ok (\<lambda>_. True)"
  by (simp add: mem_ok_def)

section \<open>Generic lemmas\<close>

lemma take_drop_append [simp]:
  "take n (drop (length xs) (xs @ ys)) = take n ys"
  by simp

end
