(* ===== verification/Conv.thy ===== *)
theory Conv
  imports Prelude
begin

text \<open>
  \<^verbatim>\<open>lib/ngtcp2_conv.c\<close>, \<^verbatim>\<open>lib/ngtcp2_conv.h\<close> and \<^verbatim>\<open>lib/ngtcp2_str.c\<close>: integers in network byte
  order and the variable-length integers of QUIC. The sources move an integer through its object
  representation (\<^verbatim>\<open>memcpy\<close>, a union, a cast to \<^verbatim>\<open>uint8_t *\<close>) and swap its bytes; this theory models a
  little-endian host, where \<open>mem_bytes\<close> is the object representation, \<open>mem_word\<close> reads one back and
  \<^verbatim>\<open>ntohl\<close>/\<^verbatim>\<open>ntohs\<close> reverse it.
\<close>

section \<open>Object representation of integers\<close>

definition mem_bytes :: "nat \<Rightarrow> 'a :: len word \<Rightarrow> bytes" where
  "mem_bytes k w = map (\<lambda>i. ucast (drop_bit (8 * i) w)) [0 ..< k]"

primrec mem_word :: "bytes \<Rightarrow> 'a :: len word" where
  "mem_word [] = 0"
| "mem_word (b # bs) = ucast b OR push_bit 8 (mem_word bs)"

definition be_bytes :: "nat \<Rightarrow> 'a :: len word \<Rightarrow> bytes" where
  "be_bytes k w = rev (mem_bytes k w)"

definition be_word :: "bytes \<Rightarrow> 'a :: len word" where
  "be_word bs = mem_word (rev bs)"

lemma length_mem_bytes [simp]: "length (mem_bytes k w) = k"
  by (simp add: mem_bytes_def)

lemma length_be_bytes [simp]: "length (be_bytes k w) = k"
  by (simp add: be_bytes_def)

lemma bit_mem_word:
  "bit (mem_word bs :: 'a :: len word) i \<longleftrightarrow>
   i < LENGTH('a) \<and> i div 8 < length bs \<and> bit (bs ! (i div 8)) (i mod 8)"
proof (induction bs arbitrary: i)
  case Nil
  then show ?case by simp
next
  case (Cons b bs)
  show ?case
  proof (cases "i < 8")
    case True
    then show ?thesis
      by (auto simp: bit_or_iff bit_push_bit_iff bit_ucast_iff)
  next
    case False
    then obtain j where j: "i = j + 8" using le_add_diff_inverse2 [of 8 i] by (metis not_less)
    have "(j + 8) div 8 = Suc (j div 8)" by simp
    moreover have "\<not> bit b (j + 8)" using bit_imp_le_length [of b "j + 8"] by auto
    ultimately show ?thesis using Cons.IH [of j]
      by (auto simp: j bit_or_iff bit_push_bit_iff bit_ucast_iff)
  qed
qed

lemma mem_bytes_mem_word:
  assumes "8 * length bs \<le> LENGTH('a :: len)"
  shows "mem_bytes (length bs) (mem_word bs :: 'a word) = bs"
proof (rule nth_equalityI)
  fix i assume "i < length (mem_bytes (length bs) (mem_word bs :: 'a word))"
  then have i: "i < length bs" by simp
  show "mem_bytes (length bs) (mem_word bs :: 'a word) ! i = bs ! i"
  proof (rule bit_word_eqI)
    fix n assume "n < LENGTH(8)"
    then show "bit (mem_bytes (length bs) (mem_word bs :: 'a word) ! i) n = bit (bs ! i) n"
      using i assms by (auto simp: mem_bytes_def bit_ucast_iff bit_drop_bit_eq bit_mem_word)
  qed
qed simp

lemma bit_nth_mem_bytes:
  "i < k \<Longrightarrow> bit (mem_bytes k w ! i) n \<longleftrightarrow> n < 8 \<and> bit w (8 * i + n)"
  by (simp add: mem_bytes_def bit_ucast_iff bit_drop_bit_eq)

lemma mem_word_mem_bytes:
  assumes "\<And>n. 8 * k \<le> n \<Longrightarrow> \<not> bit w n"
  shows "mem_word (mem_bytes k w) = (w :: 'a :: len word)"
proof (rule bit_word_eqI)
  fix n assume n: "n < LENGTH('a)"
  show "bit (mem_word (mem_bytes k w) :: 'a word) n = bit w n"
  proof (cases "n div 8 < k")
    case True
    then show ?thesis using n by (simp add: bit_mem_word bit_nth_mem_bytes)
  next
    case False
    then show ?thesis using assms [of n] by (simp add: bit_mem_word)
  qed
qed

lemma mem_word_append:
  "8 * length xs \<le> LENGTH('a) \<Longrightarrow>
   mem_word (xs @ ys) = (mem_word xs :: 'a :: len word) OR push_bit (8 * length xs) (mem_word ys)"
proof (rule bit_word_eqI)
  fix n assume l: "8 * length xs \<le> LENGTH('a)" and n: "n < LENGTH('a)"
  show "bit (mem_word (xs @ ys) :: 'a word) n =
        bit (mem_word xs OR push_bit (8 * length xs) (mem_word ys) :: 'a word) n"
  proof (cases "n div 8 < length xs")
    case True
    then show ?thesis using n
      by (auto simp: bit_or_iff bit_push_bit_iff bit_mem_word nth_append)
  next
    case False
    then obtain j where j: "n = 8 * length xs + j"
      by (metis add.commute div_less_iff_less_mult le_add_diff_inverse2 linorder_not_less
          mult.commute zero_less_numeral)
    show ?thesis using n
      by (auto simp: j bit_or_iff bit_push_bit_iff bit_mem_word nth_append)
  qed
qed

section \<open>Byte swapping\<close>

definition ntohs :: "u16 \<Rightarrow> u16" where
  "ntohs w = mem_word (rev (mem_bytes 2 w))"

definition ntohl :: "u32 \<Rightarrow> u32" where
  "ntohl w = mem_word (rev (mem_bytes 4 w))"

definition bswap64 :: "u64 \<Rightarrow> u64" where
  "bswap64 n = push_bit 32 (ucast (ntohl (ucast n))) OR ucast (ntohl (ucast (drop_bit 32 n)))"

lemma ntohs_mem_word: "length bs = 2 \<Longrightarrow> ntohs (mem_word bs) = be_word bs"
  using mem_bytes_mem_word [of bs, where 'a = 16] by (simp add: ntohs_def be_word_def)

lemma ntohl_mem_word: "length bs = 4 \<Longrightarrow> ntohl (mem_word bs) = be_word bs"
  using mem_bytes_mem_word [of bs, where 'a = 32] by (simp add: ntohl_def be_word_def)

lemma ucast_mem_word:
  assumes "8 * length bs \<le> LENGTH('a)" and "8 * length bs \<le> LENGTH('b)"
  shows "ucast (mem_word bs :: 'a :: len word) = (mem_word bs :: 'b :: len word)"
  using assms by (intro bit_word_eqI) (auto simp: bit_ucast_iff bit_mem_word)

lemma mem_word_split8:
  assumes "length bs = 8"
  shows "ucast (mem_word bs :: u64) = (mem_word (take 4 bs) :: u32)"
    and "ucast (drop_bit 32 (mem_word bs :: u64)) = (mem_word (drop 4 bs) :: u32)"
proof -
  have "(32 + n) div 8 = 4 + n div 8" "(32 + n) mod 8 = n mod 8" for n :: nat
    by presburger+
  then show "ucast (mem_word bs :: u64) = (mem_word (take 4 bs) :: u32)"
    "ucast (drop_bit 32 (mem_word bs :: u64)) = (mem_word (drop 4 bs) :: u32)"
    using assms
    by (intro bit_word_eqI; auto simp: bit_ucast_iff bit_mem_word bit_drop_bit_eq)+
qed

lemma bswap64_mem_word:
  assumes "length bs = 8"
  shows "bswap64 (mem_word bs) = be_word bs"
proof -
  have "be_word bs = (mem_word (rev (drop 4 bs) @ rev (take 4 bs)) :: u64)"
    by (simp add: be_word_def rev_append [symmetric])
  also have "\<dots> = mem_word (rev (drop 4 bs)) OR push_bit 32 (mem_word (rev (take 4 bs)))"
    using assms by (simp add: mem_word_append)
  finally have "be_word bs =
      (push_bit 32 (mem_word (rev (take 4 bs))) OR mem_word (rev (drop 4 bs)) :: u64)"
    by (simp add: or.commute)
  moreover have "(ucast (ntohl (mem_word (take 4 bs))) :: u64) = mem_word (rev (take 4 bs))"
    "(ucast (ntohl (mem_word (drop 4 bs))) :: u64) = mem_word (rev (drop 4 bs))"
    using assms by (simp_all add: ntohl_mem_word be_word_def ucast_mem_word)
  ultimately show ?thesis using assms
    by (simp add: bswap64_def mem_word_split8)
qed

lemma be_word_be_bytes:
  "(\<And>n. 8 * k \<le> n \<Longrightarrow> \<not> bit w n) \<Longrightarrow> be_word (be_bytes k w) = (w :: 'a :: len word)"
  by (simp add: be_word_def be_bytes_def mem_word_mem_bytes)

lemma not_bit_beyond: "LENGTH('a) \<le> n \<Longrightarrow> \<not> bit (w :: 'a :: len word) n"
  using bit_imp_le_length [of w n] by auto

lemma be_word_be_bytes_full [simp]:
  "be_word (be_bytes 2 (a :: u16)) = a"
  "be_word (be_bytes 4 (b :: u32)) = b"
  "be_word (be_bytes 8 (c :: u64)) = c"
  by (simp_all add: be_word_be_bytes not_bit_beyond)

lemma be_bytes_be_word:
  "8 * length bs \<le> LENGTH('a) \<Longrightarrow> be_bytes (length bs) (be_word bs :: 'a :: len word) = bs"
  using mem_bytes_mem_word [of "rev bs", where 'a = 'a] by (simp add: be_bytes_def be_word_def)

lemma mem_bytes_swap:
  "mem_bytes 2 (ntohs a) = be_bytes 2 a"
  "mem_bytes 4 (ntohl b) = be_bytes 4 b"
  using mem_bytes_mem_word [of "rev (mem_bytes 2 a)", where 'a = 16]
    mem_bytes_mem_word [of "rev (mem_bytes 4 b)", where 'a = 32]
  by (simp_all add: ntohs_def ntohl_def be_bytes_def)

lemma mem_bytes_bswap64: "mem_bytes 8 (bswap64 c) = be_bytes 8 c"
proof -
  have "c = mem_word (mem_bytes 8 c)"
    using mem_word_mem_bytes [of 8 c] bit_imp_le_length [of c] by fastforce
  then have "bswap64 c = be_word (mem_bytes 8 c)"
    using bswap64_mem_word [of "mem_bytes 8 c"] by simp
  then show ?thesis
    using mem_bytes_mem_word [of "rev (mem_bytes 8 c)", where 'a = 64]
    by (simp add: be_word_def be_bytes_def)
qed

section \<open>Reading and writing integers\<close>

definition ngtcp2_cpymem :: "cursor \<Rightarrow> bytes \<Rightarrow> nat \<Rightarrow> cursor res" where
  "ngtcp2_cpymem c src n = rbind (rdn src 0 n) (\<lambda>bs. wr c bs)"

definition ngtcp2_get_uint64 :: "bytes \<Rightarrow> nat \<Rightarrow> u64 res" where
  "ngtcp2_get_uint64 buf p = rbind (rdn buf p 8) (\<lambda>bs. Inr (bswap64 (mem_word bs)))"

definition ngtcp2_get_uint48 :: "bytes \<Rightarrow> nat \<Rightarrow> u64 res" where
  "ngtcp2_get_uint48 buf p = rbind (rdn buf p 6) (\<lambda>bs. Inr (bswap64 (mem_word ([0, 0] @ bs))))"

definition ngtcp2_get_uint32 :: "bytes \<Rightarrow> nat \<Rightarrow> u32 res" where
  "ngtcp2_get_uint32 buf p = rbind (rdn buf p 4) (\<lambda>bs. Inr (ntohl (mem_word bs)))"

definition ngtcp2_get_uint24 :: "bytes \<Rightarrow> nat \<Rightarrow> u32 res" where
  "ngtcp2_get_uint24 buf p = rbind (rdn buf p 3) (\<lambda>bs. Inr (ntohl (mem_word ([0] @ bs))))"

definition ngtcp2_get_uint16 :: "bytes \<Rightarrow> nat \<Rightarrow> u16 res" where
  "ngtcp2_get_uint16 buf p = rbind (rdn buf p 2) (\<lambda>bs. Inr (ntohs (mem_word bs)))"

definition varintlen_def :: "nat list" where
  "varintlen_def = [1, 2, 4, 8]"

text \<open>\<^verbatim>\<open>n.b[0] &= 0x3f\<close> on the union that holds the copied bytes.\<close>

definition mask_head :: "bytes \<Rightarrow> bytes" where
  "mask_head bs = bs[0 := bs ! 0 AND 0x3f]"

definition ngtcp2_get_varint :: "bytes \<Rightarrow> nat \<Rightarrow> (u64 \<times> nat) res" where
  "ngtcp2_get_varint buf p =
     rbind (rd buf p) (\<lambda>b.
       let plen = varintlen_def ! unat (drop_bit 6 b) in
       if plen = 1 then Inr (ucast b, plen)
       else if plen = 2 then
         rbind (rdn buf p 2) (\<lambda>bs. Inr (ucast (ntohs (mem_word (mask_head bs))), plen))
       else if plen = 4 then
         rbind (rdn buf p 4) (\<lambda>bs. Inr (ucast (ntohl (mem_word (mask_head bs))), plen))
       else if plen = 8 then
         rbind (rdn buf p 8) (\<lambda>bs. Inr (bswap64 (mem_word (mask_head bs)), plen))
       else Inl AssertFail)"

definition ngtcp2_get_varint_len :: "bytes \<Rightarrow> nat \<Rightarrow> nat res" where
  "ngtcp2_get_varint_len buf p =
     rbind (rd buf p) (\<lambda>b. Inr (varintlen_def ! unat (drop_bit 6 b)))"

definition ngtcp2_put_uint64be :: "cursor \<Rightarrow> u64 \<Rightarrow> cursor res" where
  "ngtcp2_put_uint64be c n = ngtcp2_cpymem c (mem_bytes 8 (bswap64 n)) 8"

definition ngtcp2_put_uint48be :: "cursor \<Rightarrow> u64 \<Rightarrow> cursor res" where
  "ngtcp2_put_uint48be c n = ngtcp2_cpymem c (drop 2 (mem_bytes 8 (bswap64 n))) 6"

definition ngtcp2_put_uint32be :: "cursor \<Rightarrow> u32 \<Rightarrow> cursor res" where
  "ngtcp2_put_uint32be c n = ngtcp2_cpymem c (mem_bytes 4 (ntohl n)) 4"

definition ngtcp2_put_uint24be :: "cursor \<Rightarrow> u32 \<Rightarrow> cursor res" where
  "ngtcp2_put_uint24be c n = ngtcp2_cpymem c (drop 1 (mem_bytes 4 (ntohl n))) 3"

definition ngtcp2_put_uint16be :: "cursor \<Rightarrow> u16 \<Rightarrow> cursor res" where
  "ngtcp2_put_uint16be c n = ngtcp2_cpymem c (mem_bytes 2 (ntohs n)) 2"

text \<open>\<^verbatim>\<open>*p |= msk\<close> after the integer has been written at \<^verbatim>\<open>p\<close>.\<close>

definition or_at :: "nat \<Rightarrow> u8 \<Rightarrow> cursor \<Rightarrow> cursor res" where
  "or_at p msk c = (case c of (buf, q) \<Rightarrow>
     rbind (rd buf p) (\<lambda>b. Inr (buf[p := b OR msk], q)))"

definition ngtcp2_put_varint :: "cursor \<Rightarrow> u64 \<Rightarrow> cursor res" where
  "ngtcp2_put_varint c n =
     (if n < 64 then wr c [ucast n]
      else if n < 16384 then rbind (ngtcp2_put_uint16be c (ucast n)) (or_at (snd c) 0x40)
      else if n < 1073741824 then rbind (ngtcp2_put_uint32be c (ucast n)) (or_at (snd c) 0x80)
      else rassert (n < 4611686018427387904)
             (rbind (ngtcp2_put_uint64be c n) (or_at (snd c) 0xc0)))"

definition ngtcp2_put_varint_len :: "u64 \<Rightarrow> nat res" where
  "ngtcp2_put_varint_len n =
     (if n < 64 then Inr 1
      else if n < 16384 then Inr 2
      else if n < 1073741824 then Inr 4
      else rassert (n < 4611686018427387904) (Inr 8))"

section \<open>What the readers return\<close>

lemma get_uint_be:
  "p + 8 \<le> length buf \<Longrightarrow> ngtcp2_get_uint64 buf p = Inr (be_word (take 8 (drop p buf)))"
  "p + 4 \<le> length buf \<Longrightarrow> ngtcp2_get_uint32 buf p = Inr (be_word (take 4 (drop p buf)))"
  "p + 2 \<le> length buf \<Longrightarrow> ngtcp2_get_uint16 buf p = Inr (be_word (take 2 (drop p buf)))"
  by (simp_all add: ngtcp2_get_uint64_def ngtcp2_get_uint32_def ngtcp2_get_uint16_def
      bswap64_mem_word ntohl_mem_word ntohs_mem_word)

lemma be_word_zeros: "be_word (0 # bs) = (be_word bs :: 'a :: len word)"
proof (rule bit_word_eqI)
  fix n assume "n < LENGTH('a)"
  then show "bit (be_word (0 # bs) :: 'a word) n = bit (be_word bs :: 'a word) n"
    by (auto simp: be_word_def bit_mem_word nth_append)
qed

lemma get_uint_be_short:
  "p + 6 \<le> length buf \<Longrightarrow> ngtcp2_get_uint48 buf p = Inr (be_word (take 6 (drop p buf)))"
  "p + 3 \<le> length buf \<Longrightarrow> ngtcp2_get_uint24 buf p = Inr (be_word (take 3 (drop p buf)))"
  using bswap64_mem_word [of "[0, 0] @ take 6 (drop p buf)"]
    ntohl_mem_word [of "[0] @ take 3 (drop p buf)"]
  by (simp_all add: ngtcp2_get_uint48_def ngtcp2_get_uint24_def be_word_zeros)

lemma put_uint_be:
  "ngtcp2_put_uint64be c n = wr c (be_bytes 8 n)"
  "ngtcp2_put_uint32be c l = wr c (be_bytes 4 l)"
  "ngtcp2_put_uint16be c s = wr c (be_bytes 2 s)"
  by (simp_all add: ngtcp2_put_uint64be_def ngtcp2_put_uint32be_def ngtcp2_put_uint16be_def
      ngtcp2_cpymem_def mem_bytes_bswap64 mem_bytes_swap)

lemma drop_be_bytes: "i \<le> k \<Longrightarrow> drop i (be_bytes k w) = be_bytes (k - i) w"
  by (rule nth_equalityI) (auto simp: be_bytes_def mem_bytes_def rev_nth)

lemma put_uint_be_short:
  "ngtcp2_put_uint48be c n = wr c (be_bytes 6 n)"
  "ngtcp2_put_uint24be c l = wr c (be_bytes 3 l)"
  by (simp_all add: ngtcp2_put_uint48be_def ngtcp2_put_uint24be_def
      ngtcp2_cpymem_def mem_bytes_bswap64 mem_bytes_swap drop_be_bytes)

section \<open>Variable-length integers\<close>

definition MAX_VARINT :: nat where
  "MAX_VARINT = 2 ^ 62 - 1"

definition or_head :: "u8 \<Rightarrow> bytes \<Rightarrow> bytes" where
  "or_head msk bs = bs[0 := bs ! 0 OR msk]"

text \<open>The encoding of QUIC: the two top bits of the first byte give the length.\<close>

definition varint_bytes :: "u64 \<Rightarrow> bytes" where
  "varint_bytes n =
     (if n < 64 then [ucast n]
      else if n < 16384 then or_head 0x40 (be_bytes 2 n)
      else if n < 1073741824 then or_head 0x80 (be_bytes 4 n)
      else or_head 0xc0 (be_bytes 8 n))"

definition varint_len :: "u64 \<Rightarrow> nat" where
  "varint_len n = length (varint_bytes n)"

lemma varint_len_eq:
  "varint_len n = (if n < 64 then 1 else if n < 16384 then 2 else if n < 1073741824 then 4 else 8)"
  by (simp add: varint_len_def varint_bytes_def or_head_def)

lemma length_varint_bytes [simp]: "length (varint_bytes n) = varint_len n"
  by (simp add: varint_len_def)

lemma varint_len_bounds: "1 \<le> varint_len n" "varint_len n \<le> 8"
  by (simp_all add: varint_len_eq)

lemma put_varint_len_eq:
  "ngtcp2_put_varint_len n = rassert (n < 4611686018427387904) (Inr (varint_len n))"
proof (cases "n < 1073741824")
  case True
  then have "n < 4611686018427387904"
    by (rule less_trans) simp
  then show ?thesis by (simp add: ngtcp2_put_varint_len_def varint_len_eq rassert_def)
next
  case False
  then have "\<not> n < 16384" "\<not> n < 64"
    by (auto simp: not_less elim!: order_trans [rotated])
  then show ?thesis using False by (simp add: ngtcp2_put_varint_len_def varint_len_eq)
qed

lemma or_at_wr:
  assumes "bs \<noteq> []"
  shows "rbind (wr c bs) (or_at (snd c) msk) = wr c (or_head msk bs)"
proof (cases c)
  case (Pair buf p)
  from assms obtain b bs' where bs: "bs = b # bs'" by (cases bs) auto
  show ?thesis
    by (auto simp: Pair wr_def or_at_def or_head_def bs nth_append list_update_append min_def)
qed

lemma be_bytes_ucast:
  assumes "8 * k \<le> LENGTH('b :: len)"
  shows "be_bytes k (ucast (w :: 'a :: len word) :: 'b word) = be_bytes k w"
proof -
  have "mem_bytes k (ucast w :: 'b word) = mem_bytes k w"
  proof (rule nth_equalityI)
    fix i assume "i < length (mem_bytes k (ucast w :: 'b word))"
    then have "i < k" by simp
    then show "mem_bytes k (ucast w :: 'b word) ! i = mem_bytes k w ! i"
      using assms by (intro bit_word_eqI) (auto simp: bit_nth_mem_bytes bit_ucast_iff)
  qed simp
  then show ?thesis by (simp add: be_bytes_def)
qed

lemma be_bytes_neq_Nil [simp]: "0 < k \<Longrightarrow> be_bytes k w \<noteq> []"
  by (metis length_be_bytes less_numeral_extra(3) list.size(3))

lemma put_varint_eq:
  "ngtcp2_put_varint c n =
   (if n < 4611686018427387904 then wr c (varint_bytes n) else Inl AssertFail)"
proof (cases "n < 4611686018427387904")
  case True
  then show ?thesis
    by (simp add: ngtcp2_put_varint_def put_uint_be or_at_wr be_bytes_ucast varint_bytes_def)
next
  case False
  then have "\<not> n < 1073741824" "\<not> n < 16384" "\<not> n < 64"
    by (auto simp: not_less elim!: order_trans [rotated])
  then show ?thesis using False by (simp add: ngtcp2_put_varint_def)
qed

lemma drop_bit_6_less_4: "unat (drop_bit 6 (b :: u8)) < 4"
  using unat_u8_bound [of b] by (simp add: drop_bit_eq_div unat_div)

lemma varintlen_cases: "varintlen_def ! unat (drop_bit 6 (b :: u8)) \<in> {1, 2, 4, 8}"
proof -
  have "unat (drop_bit 6 b) \<in> {0, 1, 2, 3}" using drop_bit_6_less_4 [of b] by auto
  then show ?thesis by (auto simp: varintlen_def_def)
qed

lemma get_varint_len_ok:
  assumes "p < length buf"
  obtains n where "ngtcp2_get_varint_len buf p = Inr n" "n \<in> {1, 2, 4, 8}"
  using assms varintlen_cases [of "buf ! p"] by (simp add: ngtcp2_get_varint_len_def)

lemma get_varint_len_in: "ngtcp2_get_varint_len buf p = Inr n \<Longrightarrow> p < length buf"
  by (simp add: ngtcp2_get_varint_len_def rd_def split: if_splits)

lemma unat_ucast_16: "unat (ucast (w :: u16) :: u64) < 2 ^ 62"
  by (rule le_less_trans [OF unat_ucast_le less_trans [OF unat_u16_bound]]) simp

lemma unat_ucast_32: "unat (ucast (w :: u32) :: u64) < 2 ^ 62"
  by (rule le_less_trans [OF unat_ucast_le less_trans [OF unat_u32_bound]]) simp

lemma unat_ucast_8: "unat (ucast (w :: u8) :: u64) < 2 ^ 62"
  by (rule le_less_trans [OF unat_ucast_le less_trans [OF unat_u8_bound]]) simp

lemma unat_less_bits:
  assumes "\<And>i. k \<le> i \<Longrightarrow> \<not> bit (v :: u64) i"
  shows "unat v < 2 ^ k"
proof -
  have "v = take_bit k v"
    by (rule bit_word_eqI) (metis assms bit_take_bit_iff not_less)
  then have "unat v = take_bit k (unat v)"
    by (metis unsigned_take_bit_eq)
  then show ?thesis by (metis take_bit_nat_less_exp)
qed

lemma be_word_mask_head_bound:
  assumes "length bs = 8"
  shows "unat (be_word (mask_head bs) :: u64) < 2 ^ 62"
proof (rule unat_less_bits)
  fix i :: nat assume i: "62 \<le> i"
  show "\<not> bit (be_word (mask_head bs) :: u64) i"
  proof (cases "i < 64")
    case True
    with i have "i = 62 \<or> i = 63" by auto
    then show ?thesis using assms
      by (auto simp: be_word_def mask_head_def bit_mem_word rev_nth bit_and_iff)
  next
    case False
    then show ?thesis by (simp add: be_word_def bit_mem_word)
  qed
qed

lemma length_mask_head [simp]: "length (mask_head bs) = length bs"
  by (simp add: mask_head_def)

lemma get_varint_ok:
  assumes len: "ngtcp2_get_varint_len buf p = Inr n" and fits: "p + n \<le> length buf"
  obtains v where "ngtcp2_get_varint buf p = Inr (v, n)" "unat v < 2 ^ 62"
proof -
  have p: "p < length buf" using get_varint_len_in [OF len] .
  have n: "varintlen_def ! unat (drop_bit 6 (buf ! p)) = n"
    using len p by (simp add: ngtcp2_get_varint_len_def)
  have "n \<in> {1, 2, 4, 8}" using varintlen_cases [of "buf ! p"] n by simp
  then show ?thesis using p n fits that unat_ucast_8 unat_ucast_16 unat_ucast_32
      be_word_mask_head_bound [of "take 8 (drop p buf)"]
    by (auto simp: ngtcp2_get_varint_def bswap64_mem_word length_mask_head)
qed

lemma head_or_mask:
  assumes "drop_bit 6 (h :: u8) = 0" and "msk \<in> {0x40, 0x80, 0xc0}"
  shows "(h OR msk) AND 0x3f = h" and "drop_bit 6 (h OR msk) = drop_bit 6 msk"
proof -
  have "(mask 6 :: u8) = 0x3f" by (simp add: mask_eq_exp_minus_1)
  moreover have "take_bit 6 h = h" using bits_ident [of 6 h] assms(1) by simp
  ultimately have h: "h AND 0x3f = h" by (metis take_bit_eq_mask)
  have "msk AND 0x3f = (0 :: u8)" using assms(2) by auto
  then show "(h OR msk) AND 0x3f = h"
    using h by (simp add: bit.conj_disj_distrib2)
  show "drop_bit 6 (h OR msk) = drop_bit 6 msk"
    using assms(1) by (simp add: drop_bit_or)
qed

lemma mask_or_head:
  assumes "bs \<noteq> []" and "drop_bit 6 (bs ! 0) = 0" and "msk \<in> {0x40, 0x80, 0xc0}"
  shows "mask_head (or_head msk bs) = bs" and "drop_bit 6 (or_head msk bs ! 0) = drop_bit 6 msk"
  using assms head_or_mask [OF assms(2,3)]
  by (cases bs; simp add: mask_head_def or_head_def)+

lemma be_bytes_head:
  assumes "0 < k" and "8 * k \<le> 64" and "unat (n :: u64) < 2 ^ (8 * k - 2)"
  shows "drop_bit 6 (be_bytes k n ! 0) = 0"
proof (rule bit_word_eqI)
  fix i assume i: "i < LENGTH(8)"
  have "\<not> bit n (8 * (k - 1) + (6 + i))"
  proof -
    have "unat n < 2 ^ (8 * (k - 1) + (6 + i))"
      by (rule less_le_trans [OF assms(3)]) (use assms(1) in simp)
    then have "\<not> bit (unat n) (8 * (k - 1) + (6 + i))"
      by (simp add: bit_iff_odd)
    then show ?thesis by (simp add: bit_unsigned_iff)
  qed
  then show "bit (drop_bit 6 (be_bytes k n ! 0)) i = bit (0 :: u8) i"
    using assms(1) by (simp add: be_bytes_def rev_nth bit_drop_bit_eq bit_nth_mem_bytes)
qed

lemma not_bit_above: "unat (n :: u64) < 2 ^ k \<Longrightarrow> k \<le> i \<Longrightarrow> \<not> bit n i"
proof
  assume "unat n < 2 ^ k" "k \<le> i" "bit n i"
  then have "unat n < 2 ^ i" using power_increasing [of k i "2 :: nat"] by linarith
  then have "\<not> bit (unat n) i" by (simp add: bit_iff_odd)
  then show False using \<open>bit n i\<close> by (simp add: bit_unsigned_iff)
qed

lemma be_word_be_bytes_ucast:
  assumes "unat (n :: u64) < 2 ^ (8 * k)" and "8 * k \<le> LENGTH('a :: len)" and "8 * k \<le> 64"
  shows "ucast (be_word (be_bytes k n) :: 'a word) = n"
proof -
  have "ucast (be_word (be_bytes k n) :: 'a word) = (be_word (be_bytes k n) :: u64)"
    unfolding be_word_def by (rule ucast_mem_word) (use assms in simp_all)
  also have "\<dots> = n"
    by (rule be_word_be_bytes) (use assms(1) not_bit_above in blast)
  finally show ?thesis .
qed

lemma varint_head:
  assumes "unat n < 2 ^ 62"
  shows "varintlen_def ! unat (drop_bit 6 (varint_bytes n ! 0)) = varint_len n"
    and "64 \<le> n \<Longrightarrow> mask_head (varint_bytes n) = be_bytes (varint_len n) n"
proof -
  note H = be_bytes_head mask_or_head
  have "varintlen_def ! unat (drop_bit 6 (varint_bytes n ! 0)) = varint_len n \<and>
        (64 \<le> n \<longrightarrow> mask_head (varint_bytes n) = be_bytes (varint_len n) n)"
  proof (cases "n < 64")
    case True
    then have "unat (ucast n :: u8) < 64"
      using unat_ucast_le [of n, where 'b = 8] by (simp add: word_less_nat_alt)
    then have "drop_bit 6 (ucast n :: u8) = 0"
      by (simp add: drop_bit_eq_div word_unat_eq_iff unat_div)
    then show ?thesis using True
      by (auto simp: varint_bytes_def varint_len_eq varintlen_def_def)
  next
    case False
    have b: "n < 16384 \<Longrightarrow> drop_bit 6 (be_bytes 2 n ! 0) = 0"
      "n < 1073741824 \<Longrightarrow> drop_bit 6 (be_bytes 4 n ! 0) = 0"
      "drop_bit 6 (be_bytes 8 n ! 0) = 0"
      using assms by (auto intro!: be_bytes_head simp: word_less_nat_alt)
    have d: "unat (drop_bit 6 (0x40 :: u8)) = 1" "unat (drop_bit 6 (0x80 :: u8)) = 2"
      "unat (drop_bit 6 (0xc0 :: u8)) = 3"
      by (simp_all add: drop_bit_eq_div unat_div)
    show ?thesis using False b d
      by (simp add: varint_bytes_def varint_len_eq mask_or_head varintlen_def_def)
  qed
  then show "varintlen_def ! unat (drop_bit 6 (varint_bytes n ! 0)) = varint_len n"
    and "64 \<le> n \<Longrightarrow> mask_head (varint_bytes n) = be_bytes (varint_len n) n" by auto
qed

lemma varint_bytes_nth0: "(pre @ varint_bytes n @ post) ! length pre = varint_bytes n ! 0"
  by (metis length_varint_bytes nth_append_length_plus nth_append_left add.right_neutral
      less_le_trans zero_less_one varint_len_bounds(1))

lemma get_varint_len_bytes:
  assumes "unat n < 2 ^ 62"
  shows "ngtcp2_get_varint_len (pre @ varint_bytes n @ post) (length pre) = Inr (varint_len n)"
proof -
  have "length pre < length (pre @ varint_bytes n @ post)"
    using varint_len_bounds(1) [of n] by simp
  then show ?thesis
    using varint_head(1) [OF assms]
    by (simp add: ngtcp2_get_varint_len_def varint_bytes_nth0)
qed

lemma get_varint_bytes:
  assumes "unat n < 2 ^ 62"
  shows "ngtcp2_get_varint (pre @ varint_bytes n @ post) (length pre) = Inr (n, varint_len n)"
proof -
  have p: "length pre < length (pre @ varint_bytes n @ post)"
    using varint_len_bounds(1) [of n] by simp
  have tk: "take (varint_len n) (drop (length pre) (pre @ varint_bytes n @ post)) = varint_bytes n"
    by simp
  note h = varint_head [OF assms]
  show ?thesis
  proof (cases "n < 64")
    case True
    then have "ucast (ucast n :: u8) = n"
      using be_word_be_bytes_ucast [of n 1, where 'a = 8]
      by (simp add: be_word_def be_bytes_def mem_bytes_def word_less_nat_alt)
    then show ?thesis using p h(1) True
      by (simp add: ngtcp2_get_varint_def varint_bytes_nth0)
        (simp add: varint_bytes_def varint_len_eq)
  next
    case False
    then have m: "mask_head (varint_bytes n) = be_bytes (varint_len n) n" using h(2) by simp
    have u: "n < 16384 \<Longrightarrow> ucast (be_word (be_bytes 2 n) :: u16) = n"
      "n < 1073741824 \<Longrightarrow> ucast (be_word (be_bytes 4 n) :: u32) = n"
      by (rule be_word_be_bytes_ucast; simp add: word_less_nat_alt)+
    have "varint_len n \<in> {2, 4, 8}" using False by (simp add: varint_len_eq)
    then show ?thesis using p h(1) tk m u False
      by (auto simp: ngtcp2_get_varint_def varint_bytes_nth0 ntohs_mem_word ntohl_mem_word
          bswap64_mem_word split: if_splits)
        (auto simp: varint_len_eq split: if_splits)
  qed
qed

lemma less_max_varint: "n < 4611686018427387904 \<longleftrightarrow> unat (n :: u64) < 2 ^ 62"
  by (simp add: word_less_nat_alt)

lemma get_varint_cases:
  "ngtcp2_get_varint buf p =
   (if \<exists>n. ngtcp2_get_varint_len buf p = Inr n \<and> p + n \<le> length buf
    then ngtcp2_get_varint buf p else Inl OutOfBounds)"
proof (cases "p < length buf")
  case True
  then obtain n where n: "ngtcp2_get_varint_len buf p = Inr n" "n \<in> {1, 2, 4, 8}"
    by (rule get_varint_len_ok)
  then show ?thesis using True
    by (auto simp: ngtcp2_get_varint_def ngtcp2_get_varint_len_def rdn_def)
next
  case False
  then show ?thesis by (simp add: ngtcp2_get_varint_def ngtcp2_get_varint_len_def rd_def)
qed

text \<open>Reading a value where its encoding is in the buffer.\<close>

lemma get_varint_at:
  assumes "holds_at buf p (varint_bytes n)" and "unat n < 2 ^ 62"
  shows "ngtcp2_get_varint buf p = Inr (n, varint_len n)"
    and "ngtcp2_get_varint_len buf p = Inr (varint_len n)"
  using holds_at_decomp [OF assms(1)] get_varint_bytes [OF assms(2)]
    get_varint_len_bytes [OF assms(2)] by auto

lemma get_uint_at:
  "holds_at buf p (be_bytes 8 n) \<Longrightarrow> ngtcp2_get_uint64 buf p = Inr n"
  "holds_at buf p (be_bytes 4 l) \<Longrightarrow> ngtcp2_get_uint32 buf p = Inr l"
  "holds_at buf p (be_bytes 2 s) \<Longrightarrow> ngtcp2_get_uint16 buf p = Inr s"
  by (simp_all add: holds_at_def get_uint_be)

lemma get_varint_rspec:
  assumes "ngtcp2_get_varint_len buf p = Inr n" and "p + n \<le> length buf"
  shows "rspec (ngtcp2_get_varint buf p) (\<lambda>(v, k). k = n \<and> unat v < 2 ^ 62)"
  by (rule get_varint_ok [OF assms]) simp

section \<open>Properties\<close>

text \<open>
  C16. Varint round trip: every value up to \<open>2 ^ 62 - 1\<close> is written by \<^verbatim>\<open>ngtcp2_put_varint\<close> in the number
  of bytes \<^verbatim>\<open>ngtcp2_put_varint_len\<close> announces, touching no other byte of the buffer, and
  \<^verbatim>\<open>ngtcp2_get_varint\<close> reads back the value and the length.
\<close>

theorem varint_roundtrip:
  assumes "unat n < 2 ^ 62" and "p + varint_len n \<le> length buf"
  shows "\<exists>buf'. ngtcp2_put_varint (buf, p) n = Inr (buf', p + varint_len n) \<and>
           length buf' = length buf \<and> take p buf' = take p buf \<and>
           drop (p + varint_len n) buf' = drop (p + varint_len n) buf \<and>
           ngtcp2_get_varint buf' p = Inr (n, varint_len n) \<and>
           ngtcp2_put_varint_len n = Inr (varint_len n)"
proof -
  let ?buf = "take p buf @ varint_bytes n @ drop (p + varint_len n) buf"
  have "ngtcp2_put_varint (buf, p) n = Inr (?buf, p + varint_len n)"
    using assms by (simp add: put_varint_eq less_max_varint wr_def)
  moreover have "ngtcp2_get_varint ?buf p = Inr (n, varint_len n)"
    using get_varint_bytes [OF assms(1), of "take p buf"] assms(2) by (simp add: min_absorb2)
  ultimately show ?thesis using assms
    by (intro exI [of _ ?buf]) (simp add: put_varint_len_eq less_max_varint)
qed

theorem varint_roundtrip_witness:
  "\<exists>buf'. ngtcp2_put_varint ([1, 2, 3, 4, 5], 1) 15293 = Inr (buf', 1 + varint_len 15293) \<and>
     ngtcp2_get_varint buf' 1 = Inr (15293, varint_len 15293)"
  using varint_roundtrip [of 15293 1 "[1, 2, 3, 4, 5]"] by (auto simp: varint_len_eq)

text \<open>
  \<^verbatim>\<open>ngtcp2_get_varint\<close> on arbitrary input: its switch never reaches the failing assertion; it reads
  outside the buffer exactly when the buffer ends before the announced length; otherwise the
  length is the one \<^verbatim>\<open>ngtcp2_get_varint_len\<close> announces and the value is below \<open>2 ^ 62\<close>.
\<close>

theorem get_varint_bounds:
  "case ngtcp2_get_varint buf p of
     Inr (v, n) \<Rightarrow> unat v < 2 ^ 62 \<and> n \<in> {1, 2, 4, 8} \<and> p + n \<le> length buf \<and>
                   ngtcp2_get_varint_len buf p = Inr n
   | Inl e \<Rightarrow> e = OutOfBounds \<and>
       (p \<ge> length buf \<or> (\<exists>n. ngtcp2_get_varint_len buf p = Inr n \<and> length buf < p + n))"
proof (cases "\<exists>n. ngtcp2_get_varint_len buf p = Inr n \<and> p + n \<le> length buf")
  case True
  then obtain n where n: "ngtcp2_get_varint_len buf p = Inr n" "p + n \<le> length buf" by blast
  then obtain v where "ngtcp2_get_varint buf p = Inr (v, n)" "unat v < 2 ^ 62"
    by (rule get_varint_ok)
  moreover have "n \<in> {1, 2, 4, 8}"
    using n(1) get_varint_len_in [OF n(1)] get_varint_len_ok by (metis sum.inject(2))
  ultimately show ?thesis using n by simp
next
  case False
  then have "ngtcp2_get_varint buf p = Inl OutOfBounds" using get_varint_cases by presburger
  moreover have "length buf \<le> p \<or> (\<exists>n. ngtcp2_get_varint_len buf p = Inr n)"
    using get_varint_len_ok [of p buf] by (metis not_le)
  ultimately show ?thesis using False by (auto simp: not_le)
qed

text \<open>
  Fixed-width integers are stored most significant byte first and read back unchanged, at every
  position of a buffer with room for them.
\<close>

theorem put_get_uint:
  assumes "p + 8 \<le> length buf"
  shows "(\<exists>b. ngtcp2_put_uint64be (buf, p) n = Inr (b, p + 8) \<and> ngtcp2_get_uint64 b p = Inr n \<and>
              b ! p = ucast (drop_bit 56 n)) \<and>
         (\<exists>b. ngtcp2_put_uint32be (buf, p) l = Inr (b, p + 4) \<and> ngtcp2_get_uint32 b p = Inr l \<and>
              b ! p = ucast (drop_bit 24 l)) \<and>
         (\<exists>b. ngtcp2_put_uint16be (buf, p) s = Inr (b, p + 2) \<and> ngtcp2_get_uint16 b p = Inr s \<and>
              b ! p = ucast (drop_bit 8 s))"
proof -
  have hd: "(take p buf @ be_bytes k w @ x) ! p = ucast (drop_bit (8 * (k - 1)) w)"
    if "0 < k" for k x and w :: "'a :: len word"
    using assms that by (simp add: nth_append be_bytes_def rev_nth mem_bytes_def)
  show ?thesis
    using assms hd [of 8 n] hd [of 4 l] hd [of 2 s]
    by (simp add: put_uint_be wr_def get_uint_be min_absorb2)
qed

theorem put_get_uint_witness:
  "(\<exists>b. ngtcp2_put_uint64be ([0, 0, 0, 0, 0, 0, 0, 0, 0], 1) 258 = Inr (b, 1 + 8) \<and>
        ngtcp2_get_uint64 b 1 = Inr 258 \<and> b ! 1 = ucast (drop_bit 56 (258 :: u64)))"
  using put_get_uint [of 1 "[0, 0, 0, 0, 0, 0, 0, 0, 0]" 258 0 0] by simp

end
