(* ===== verification/Pkt_Hd.thy ===== *)
theory Pkt_Hd
  imports Conv
begin

text \<open>
  \<^verbatim>\<open>lib/ngtcp2_pkt.c\<close>, first part: packet headers. \<^verbatim>\<open>dest\<close> is the returned record; an encoder takes the
  position \<^verbatim>\<open>out\<close> in a buffer and the number \<^verbatim>\<open>outlen\<close> of bytes it may use, and returns the buffer and
  the position behind the header (the C function returns the difference of the two positions).
\<close>

section \<open>Constants and the header record\<close>

abbreviation NGTCP2_HEADER_FORM_BIT :: u8 where "NGTCP2_HEADER_FORM_BIT \<equiv> 0x80"
abbreviation NGTCP2_OMIT_CONN_ID_BIT :: u8 where "NGTCP2_OMIT_CONN_ID_BIT \<equiv> 0x40"
abbreviation NGTCP2_KEY_PHASE_BIT :: u8 where "NGTCP2_KEY_PHASE_BIT \<equiv> 0x20"
abbreviation NGTCP2_LONG_TYPE_MASK :: u8 where "NGTCP2_LONG_TYPE_MASK \<equiv> 0x7f"
abbreviation NGTCP2_SHORT_TYPE_MASK :: u8 where "NGTCP2_SHORT_TYPE_MASK \<equiv> 0x1f"
abbreviation NGTCP2_LONG_HEADERLEN :: nat where "NGTCP2_LONG_HEADERLEN \<equiv> 17"

abbreviation NGTCP2_PKT_FLAG_LONG_FORM :: u8 where "NGTCP2_PKT_FLAG_LONG_FORM \<equiv> 0x01"
abbreviation NGTCP2_PKT_FLAG_OMIT_CONN_ID :: u8 where "NGTCP2_PKT_FLAG_OMIT_CONN_ID \<equiv> 0x02"
abbreviation NGTCP2_PKT_FLAG_KEY_PHASE :: u8 where "NGTCP2_PKT_FLAG_KEY_PHASE \<equiv> 0x04"

abbreviation NGTCP2_PKT_VERSION_NEGOTIATION :: u8 where "NGTCP2_PKT_VERSION_NEGOTIATION \<equiv> 0x00"
abbreviation NGTCP2_PKT_INITIAL :: u8 where "NGTCP2_PKT_INITIAL \<equiv> 0x7F"
abbreviation NGTCP2_PKT_RETRY :: u8 where "NGTCP2_PKT_RETRY \<equiv> 0x7E"
abbreviation NGTCP2_PKT_HANDSHAKE :: u8 where "NGTCP2_PKT_HANDSHAKE \<equiv> 0x7D"
abbreviation NGTCP2_PKT_0RTT_PROTECTED :: u8 where "NGTCP2_PKT_0RTT_PROTECTED \<equiv> 0x7C"
abbreviation NGTCP2_PKT_01 :: u8 where "NGTCP2_PKT_01 \<equiv> 0x1F"
abbreviation NGTCP2_PKT_02 :: u8 where "NGTCP2_PKT_02 \<equiv> 0x1E"
abbreviation NGTCP2_PKT_03 :: u8 where "NGTCP2_PKT_03 \<equiv> 0x1D"

record ngtcp2_pkt_hd =
  hd_flags :: u8
  hd_type :: u8
  hd_conn_id :: u64
  hd_pkt_num :: u64
  hd_version :: u32

definition ngtcp2_pkt_hd_init :: "u8 \<Rightarrow> u8 \<Rightarrow> u64 \<Rightarrow> u64 \<Rightarrow> u32 \<Rightarrow> ngtcp2_pkt_hd" where
  "ngtcp2_pkt_hd_init flags ty conn_id pkt_num version =
     \<lparr>hd_flags = flags, hd_type = ty, hd_conn_id = conn_id, hd_pkt_num = pkt_num,
      hd_version = version\<rparr>"

section \<open>Decoding\<close>

definition ngtcp2_pkt_decode_hd_long :: "bytes \<Rightarrow> (ngtcp2_pkt_hd \<times> nat) res" where
  "ngtcp2_pkt_decode_hd_long pkt =
     (if length pkt < NGTCP2_LONG_HEADERLEN then fail NGTCP2_ERR_INVALID_ARGUMENT
      else rbind (rd pkt 0) (\<lambda>b0.
        if b0 AND NGTCP2_HEADER_FORM_BIT = 0 then fail NGTCP2_ERR_INVALID_ARGUMENT
        else rbind (ngtcp2_get_uint32 pkt 9) (\<lambda>version.
          let ty = b0 AND NGTCP2_LONG_TYPE_MASK;
              known = (ty = NGTCP2_PKT_INITIAL \<or> ty = NGTCP2_PKT_RETRY \<or>
                       ty = NGTCP2_PKT_HANDSHAKE \<or> ty = NGTCP2_PKT_0RTT_PROTECTED)
          in if \<not> known \<and> version \<noteq> 0 then fail NGTCP2_ERR_UNKNOWN_PKT_TYPE
             else rbind (ngtcp2_get_uint64 pkt 1) (\<lambda>conn_id.
               rbind (ngtcp2_get_uint32 pkt 13) (\<lambda>pkt_num.
                 Inr (\<lparr>hd_flags = NGTCP2_PKT_FLAG_LONG_FORM,
                       hd_type = (if known then ty else NGTCP2_PKT_VERSION_NEGOTIATION),
                       hd_conn_id = conn_id, hd_pkt_num = ucast pkt_num,
                       hd_version = version\<rparr>, NGTCP2_LONG_HEADERLEN))))))"

text \<open>The number of packet number bytes of a short header type; \<open>None\<close> for an unknown type.\<close>

definition short_pkt_num_len :: "u8 \<Rightarrow> nat option" where
  "short_pkt_num_len ty =
     (if ty = NGTCP2_PKT_01 then Some 1 else if ty = NGTCP2_PKT_02 then Some 2
      else if ty = NGTCP2_PKT_03 then Some 4 else None)"

text \<open>The second \<^verbatim>\<open>switch\<close> of the decoder: the packet number at position \<open>p\<close>.\<close>

definition get_short_pkt_num :: "bytes \<Rightarrow> nat \<Rightarrow> u8 \<Rightarrow> u64 res" where
  "get_short_pkt_num pkt p ty =
     (if ty = NGTCP2_PKT_01 then rbind (rd pkt p) (\<lambda>b. Inr (ucast b))
      else if ty = NGTCP2_PKT_02 then rbind (ngtcp2_get_uint16 pkt p) (\<lambda>n. Inr (ucast n))
      else rbind (ngtcp2_get_uint32 pkt p) (\<lambda>n. Inr (ucast n)))"

definition ngtcp2_pkt_decode_hd_short :: "bytes \<Rightarrow> (ngtcp2_pkt_hd \<times> nat) res" where
  "ngtcp2_pkt_decode_hd_short pkt =
     rbind (rd pkt 0) (\<lambda>b0.
       if b0 AND NGTCP2_HEADER_FORM_BIT \<noteq> 0 then fail NGTCP2_ERR_INVALID_ARGUMENT
       else
         let omit = (b0 AND NGTCP2_OMIT_CONN_ID_BIT \<noteq> 0);
             flags = (if omit then NGTCP2_PKT_FLAG_OMIT_CONN_ID else 0);
             len = (if omit then 1 else 9);
             flags = (if b0 AND NGTCP2_KEY_PHASE_BIT \<noteq> 0
                      then flags OR NGTCP2_PKT_FLAG_KEY_PHASE else flags);
             ty = b0 AND NGTCP2_SHORT_TYPE_MASK
         in case short_pkt_num_len ty of
              None \<Rightarrow> fail NGTCP2_ERR_UNKNOWN_PKT_TYPE
            | Some k \<Rightarrow>
                let len = len + k in
                if length pkt < len then fail NGTCP2_ERR_INVALID_ARGUMENT
                else
                  rbind (if flags AND NGTCP2_PKT_FLAG_OMIT_CONN_ID \<noteq> 0 then Inr (0, 1)
                         else rbind (ngtcp2_get_uint64 pkt 1) (\<lambda>c. Inr (c, 9))) (\<lambda>(conn_id, p).
                  rbind (get_short_pkt_num pkt p ty) (\<lambda>pkt_num.
                    Inr (\<lparr>hd_flags = flags, hd_type = ty, hd_conn_id = conn_id,
                          hd_pkt_num = pkt_num, hd_version = 0\<rparr>, len))))"

definition ngtcp2_pkt_decode_hd :: "bytes \<Rightarrow> (ngtcp2_pkt_hd \<times> nat) res" where
  "ngtcp2_pkt_decode_hd pkt =
     (if length pkt = 0 then fail NGTCP2_ERR_INVALID_ARGUMENT
      else rbind (rd pkt 0) (\<lambda>b0.
        if b0 AND NGTCP2_HEADER_FORM_BIT \<noteq> 0 then ngtcp2_pkt_decode_hd_long pkt
        else ngtcp2_pkt_decode_hd_short pkt))"

section \<open>Encoding\<close>

definition ngtcp2_pkt_encode_hd_long :: "cursor \<Rightarrow> nat \<Rightarrow> ngtcp2_pkt_hd \<Rightarrow> cursor res" where
  "ngtcp2_pkt_encode_hd_long out outlen h =
     (if outlen < NGTCP2_LONG_HEADERLEN then fail NGTCP2_ERR_NOBUF
      else rbind (wr out [NGTCP2_HEADER_FORM_BIT OR hd_type h]) (\<lambda>p.
        rbind (ngtcp2_put_uint64be p (hd_conn_id h)) (\<lambda>p.
        rbind (ngtcp2_put_uint32be p (hd_version h)) (\<lambda>p.
        rbind (ngtcp2_put_uint32be p (ucast (hd_pkt_num h))) (\<lambda>p.
          rassert (snd p - snd out = NGTCP2_LONG_HEADERLEN) (Inr p))))))"

definition ngtcp2_pkt_encode_hd_short :: "cursor \<Rightarrow> nat \<Rightarrow> ngtcp2_pkt_hd \<Rightarrow> cursor res" where
  "ngtcp2_pkt_encode_hd_short out outlen h =
     (let need_conn_id = (hd_flags h AND NGTCP2_PKT_FLAG_OMIT_CONN_ID = 0);
          len = (if need_conn_id then 9 else 1)
      in case short_pkt_num_len (hd_type h) of
           None \<Rightarrow> fail NGTCP2_ERR_INVALID_ARGUMENT
         | Some k \<Rightarrow>
             let len = len + k in
             if outlen < len then fail NGTCP2_ERR_NOBUF
             else
               let b = hd_type h;
                   b = (if \<not> need_conn_id then b OR NGTCP2_OMIT_CONN_ID_BIT else b);
                   b = (if hd_flags h AND NGTCP2_PKT_FLAG_KEY_PHASE \<noteq> 0
                        then b OR NGTCP2_KEY_PHASE_BIT else b)
               in rbind (wr out [b]) (\<lambda>p.
                  rbind (if need_conn_id then ngtcp2_put_uint64be p (hd_conn_id h) else Inr p) (\<lambda>p.
                  rbind (if hd_type h = NGTCP2_PKT_01 then wr p [ucast (hd_pkt_num h)]
                         else if hd_type h = NGTCP2_PKT_02 then
                           ngtcp2_put_uint16be p (ucast (hd_pkt_num h))
                         else ngtcp2_put_uint32be p (ucast (hd_pkt_num h))) (\<lambda>p.
                    rassert (snd p - snd out = len) (Inr p)))))"

section \<open>What the encoders write\<close>

definition hd_long_bytes :: "ngtcp2_pkt_hd \<Rightarrow> bytes" where
  "hd_long_bytes h = [NGTCP2_HEADER_FORM_BIT OR hd_type h] @ be_bytes 8 (hd_conn_id h) @
     be_bytes 4 (hd_version h) @ be_bytes 4 (hd_pkt_num h)"

definition hd_short_first :: "ngtcp2_pkt_hd \<Rightarrow> u8" where
  "hd_short_first h = hd_type h OR
     (if hd_flags h AND NGTCP2_PKT_FLAG_OMIT_CONN_ID = 0 then 0 else NGTCP2_OMIT_CONN_ID_BIT) OR
     (if hd_flags h AND NGTCP2_PKT_FLAG_KEY_PHASE = 0 then 0 else NGTCP2_KEY_PHASE_BIT)"

definition hd_short_bytes :: "ngtcp2_pkt_hd \<Rightarrow> nat \<Rightarrow> bytes" where
  "hd_short_bytes h k = [hd_short_first h] @
     (if hd_flags h AND NGTCP2_PKT_FLAG_OMIT_CONN_ID = 0 then be_bytes 8 (hd_conn_id h) else []) @
     be_bytes k (hd_pkt_num h)"

lemma length_hd_bytes [simp]:
  "length (hd_long_bytes h) = 17"
  "length (hd_short_bytes h k) =
     (if hd_flags h AND NGTCP2_PKT_FLAG_OMIT_CONN_ID = 0 then 9 + k else 1 + k)"
  by (simp_all add: hd_long_bytes_def hd_short_bytes_def)

lemma rbind_wr_end:
  assumes "length bs = n"
  shows "rbind (wr out bs) (\<lambda>p. rassert (snd p - snd out = n) (Inr p)) = wr out bs"
  using assms by (cases out) (simp add: wr_def)

lemma encode_hd_long_eq:
  "ngtcp2_pkt_encode_hd_long out outlen h =
   (if outlen < 17 then fail NGTCP2_ERR_NOBUF else wr out (hd_long_bytes h))"
  by (simp add: ngtcp2_pkt_encode_hd_long_def put_uint_be be_bytes_ucast wr_wr_bind rbind_wr_end
      hd_long_bytes_def)

lemma be_bytes_1: "be_bytes (Suc 0) w = [ucast w]"
  by (simp add: be_bytes_def mem_bytes_def)

lemma short_pkt_num_len_Some:
  "short_pkt_num_len ty = Some k \<longleftrightarrow>
   (ty = NGTCP2_PKT_01 \<and> k = 1) \<or> (ty = NGTCP2_PKT_02 \<and> k = 2) \<or> (ty = NGTCP2_PKT_03 \<and> k = 4)"
  by (auto simp: short_pkt_num_len_def)

lemma encode_hd_short_eq:
  assumes "short_pkt_num_len (hd_type h) = Some k"
  shows "ngtcp2_pkt_encode_hd_short out outlen h =
   (if outlen < length (hd_short_bytes h k) then fail NGTCP2_ERR_NOBUF
    else wr out (hd_short_bytes h k))"
proof -
  have b: "(let b = hd_type h;
      b = (if \<not> (hd_flags h AND NGTCP2_PKT_FLAG_OMIT_CONN_ID = 0) then b OR NGTCP2_OMIT_CONN_ID_BIT else b)
    in if hd_flags h AND NGTCP2_PKT_FLAG_KEY_PHASE \<noteq> 0 then b OR NGTCP2_KEY_PHASE_BIT else b)
    = hd_short_first h"
    by (simp add: hd_short_first_def or.assoc)
  have pn: "(if hd_type h = NGTCP2_PKT_01 then wr p [ucast (hd_pkt_num h)]
     else if hd_type h = NGTCP2_PKT_02 then ngtcp2_put_uint16be p (ucast (hd_pkt_num h))
     else ngtcp2_put_uint32be p (ucast (hd_pkt_num h))) = wr p (be_bytes k (hd_pkt_num h))" for p
    using assms by (auto simp: short_pkt_num_len_Some put_uint_be be_bytes_ucast be_bytes_1)
  show ?thesis
    unfolding ngtcp2_pkt_encode_hd_short_def Let_def assms option.case pn
    using b [unfolded Let_def]
    by (simp add: put_uint_be wr_wr_bind rbind_wr_end hd_short_bytes_def)
qed

section \<open>Decoding what was encoded\<close>

lemma ucast_trunc:
  fixes n :: u64
  shows "ucast (be_word (be_bytes k n) :: 'a :: len word) = take_bit (min LENGTH('a) (8 * k)) n"
proof (rule bit_word_eqI)
  fix i assume i: "i < LENGTH(64)"
  show "bit (ucast (be_word (be_bytes k n) :: 'a word) :: u64) i =
        bit (take_bit (min LENGTH('a) (8 * k)) n) i"
    using i by (auto simp: bit_ucast_iff be_word_def be_bytes_def bit_mem_word bit_take_bit_iff
        bit_nth_mem_bytes min_def)
qed

lemma decode_hd_long_at:
  assumes "holds_at pkt 0 (hd_long_bytes h)"
    and "hd_type h \<in> {NGTCP2_PKT_INITIAL, NGTCP2_PKT_RETRY, NGTCP2_PKT_HANDSHAKE,
                      NGTCP2_PKT_0RTT_PROTECTED}"
  shows "ngtcp2_pkt_decode_hd_long pkt =
     Inr (h\<lparr>hd_flags := NGTCP2_PKT_FLAG_LONG_FORM, hd_pkt_num := take_bit 32 (hd_pkt_num h)\<rparr>, 17)"
proof -
  have at: "rd pkt 0 = Inr (0x80 OR hd_type h)" "holds_at pkt 1 (be_bytes 8 (hd_conn_id h))"
    "holds_at pkt 9 (be_bytes 4 (hd_version h))" "holds_at pkt 13 (be_bytes 4 (hd_pkt_num h))"
    using assms(1) by (simp_all add: hd_long_bytes_def holds_at_simps)
  have len: "\<not> length pkt < 17" using holds_at_len [OF assms(1)] by simp
  have pn: "ngtcp2_get_uint32 pkt 13 = Inr (be_word (be_bytes 4 (hd_pkt_num h)))"
    using at(4) by (simp add: holds_at_def get_uint_be)
  have ty: "(0x80 OR hd_type h) AND 0x80 \<noteq> 0" "(0x80 OR hd_type h) AND 0x7f = hd_type h"
    using assms(2) by auto
  have tr: "ucast (be_word (be_bytes 4 (hd_pkt_num h)) :: u32) = take_bit 32 (hd_pkt_num h)"
    by (simp add: ucast_trunc)
  show ?thesis
    unfolding ngtcp2_pkt_decode_hd_long_def
    using len at(1) get_uint_at(1) [OF at(2)] get_uint_at(2) [OF at(3)] pn
      assms(2) tr by (simp only: if_False rbind_simps Let_def ty) simp
qed

lemma hd_short_first_bits:
  assumes "short_pkt_num_len (hd_type h) = Some k"
  shows "hd_short_first h AND NGTCP2_HEADER_FORM_BIT = 0"
    and "hd_short_first h AND NGTCP2_OMIT_CONN_ID_BIT = 0 \<longleftrightarrow>
         hd_flags h AND NGTCP2_PKT_FLAG_OMIT_CONN_ID = 0"
    and "hd_short_first h AND NGTCP2_KEY_PHASE_BIT = 0 \<longleftrightarrow>
         hd_flags h AND NGTCP2_PKT_FLAG_KEY_PHASE = 0"
    and "hd_short_first h AND NGTCP2_SHORT_TYPE_MASK = hd_type h"
  using assms by (auto simp: short_pkt_num_len_Some hd_short_first_def)

definition short_flags :: "ngtcp2_pkt_hd \<Rightarrow> u8" where
  "short_flags h =
     (if hd_flags h AND NGTCP2_PKT_FLAG_OMIT_CONN_ID = 0 then 0 else NGTCP2_PKT_FLAG_OMIT_CONN_ID) OR
     (if hd_flags h AND NGTCP2_PKT_FLAG_KEY_PHASE = 0 then 0 else NGTCP2_PKT_FLAG_KEY_PHASE)"

lemma and_exp_cases: "x AND 2 ^ n = (if x AND 2 ^ n = 0 then 0 else 2 ^ n)" for x :: u8
proof -
  have "x AND 2 ^ n = (if bit x n then 2 ^ n else 0)"
    by (rule bit_word_eqI) (auto simp: bit_and_iff bit_exp_iff)
  then show ?thesis by simp
qed

lemma short_flags_eq:
  "short_flags h = hd_flags h AND (NGTCP2_PKT_FLAG_OMIT_CONN_ID OR NGTCP2_PKT_FLAG_KEY_PHASE)"
proof -
  have "y = (if y = 0 then 0 else (c :: u8)) \<longleftrightarrow> y = 0 \<or> y = c" for y c by simp
  then have "x AND 2 = 0 \<or> x AND 2 = 2" "x AND 4 = 0 \<or> x AND 4 = 4" for x :: u8
    using and_exp_cases [of x 1] and_exp_cases [of x 2] by (simp_all add: power2_eq_square)
  from this [of "hd_flags h"] show ?thesis
    unfolding short_flags_def bit.conj_disj_distrib by auto
qed

lemma get_pkt_num_at:
  assumes "holds_at pkt p (be_bytes k n)" and "short_pkt_num_len ty = Some k"
  shows "get_short_pkt_num pkt p ty = Inr (take_bit (8 * k) n)"
proof -
  consider "ty = NGTCP2_PKT_01" "k = 1" | "ty = NGTCP2_PKT_02" "k = 2" | "ty = NGTCP2_PKT_03" "k = 4"
    using assms(2) by (auto simp: short_pkt_num_len_Some)
  then show ?thesis
  proof cases
    case 1
    then have "rd pkt p = Inr (be_word (be_bytes 1 n))"
      using assms(1) by (simp add: be_bytes_1 holds_at_simps be_word_def)
    then show ?thesis using 1 by (simp add: get_short_pkt_num_def ucast_trunc)
  next
    case 2
    then show ?thesis using assms(1) by (simp add: get_short_pkt_num_def holds_at_def get_uint_be ucast_trunc)
  next
    case 3
    then show ?thesis using assms(1) by (simp add: get_short_pkt_num_def holds_at_def get_uint_be ucast_trunc)
  qed
qed

lemma decode_hd_short_at:
  assumes at: "holds_at pkt 0 (hd_short_bytes h k)" and k: "short_pkt_num_len (hd_type h) = Some k"
  shows "ngtcp2_pkt_decode_hd_short pkt =
     Inr (\<lparr>hd_flags = short_flags h, hd_type = hd_type h,
           hd_conn_id = (if hd_flags h AND NGTCP2_PKT_FLAG_OMIT_CONN_ID = 0 then hd_conn_id h else 0),
           hd_pkt_num = take_bit (8 * k) (hd_pkt_num h), hd_version = 0\<rparr>,
          length (hd_short_bytes h k))"
proof -
  note bits = hd_short_first_bits [OF k]
  have len: "length (hd_short_bytes h k) \<le> length pkt" using holds_at_len [OF at] by simp
  have rd: "rd pkt 0 = Inr (hd_short_first h)"
    using at by (simp add: hd_short_bytes_def holds_at_simps)
  show ?thesis
  proof (cases "hd_flags h AND NGTCP2_PKT_FLAG_OMIT_CONN_ID = 0")
    case True
    then have c: "holds_at pkt 1 (be_bytes 8 (hd_conn_id h))"
      "holds_at pkt 9 (be_bytes k (hd_pkt_num h))"
      using at by (simp_all add: hd_short_bytes_def holds_at_simps)
    have g: "ngtcp2_get_uint64 pkt 1 = Inr (hd_conn_id h)" by (rule get_uint_at(1) [OF c(1)])
    from True len have nl: "\<not> length pkt < 9 + k" by simp
    show ?thesis
      unfolding ngtcp2_pkt_decode_hd_short_def rd
      using nl True g get_pkt_num_at [OF c(2) k]
      by (simp add: bits k short_flags_def Let_def)
  next
    case False
    then have c: "holds_at pkt 1 (be_bytes k (hd_pkt_num h))"
      using at by (simp add: hd_short_bytes_def holds_at_simps)
    from False len have nl: "\<not> length pkt < 1 + k" by simp
    show ?thesis
      unfolding ngtcp2_pkt_decode_hd_short_def rd
      using nl False get_pkt_num_at [OF c k, unfolded One_nat_def]
      by (simp add: bits k short_flags_def Let_def)
  qed
qed

lemma decode_hd_first:
  assumes "rd pkt 0 = Inr b"
  shows "ngtcp2_pkt_decode_hd pkt =
    (if b AND NGTCP2_HEADER_FORM_BIT \<noteq> 0 then ngtcp2_pkt_decode_hd_long pkt
     else ngtcp2_pkt_decode_hd_short pkt)"
proof -
  have "length pkt \<noteq> 0" using assms by (simp add: rd_def split: if_splits)
  then show ?thesis using assms by (simp add: ngtcp2_pkt_decode_hd_def)
qed

section \<open>Headers of arbitrary packets\<close>

lemma decode_hd_long_rspec:
  "rspec (ngtcp2_pkt_decode_hd_long pkt) (\<lambda>(h, n). n = 17 \<and> n \<le> length pkt)"
proof (cases "length pkt < 17")
  case True
  then show ?thesis by (simp add: ngtcp2_pkt_decode_hd_long_def)
next
  case False
  then have "rd pkt 0 = Inr (pkt ! 0)" by (intro rd_in) linarith
  with False show ?thesis by (simp add: ngtcp2_pkt_decode_hd_long_def Let_def get_uint_be)
qed

lemma decode_hd_short_rspec:
  assumes "pkt \<noteq> []"
  shows "rspec (ngtcp2_pkt_decode_hd_short pkt) (\<lambda>(h, n). 2 \<le> n \<and> n \<le> 13 \<and> n \<le> length pkt)"
proof -
  have "0 < length pkt" using assms by simp
  then show ?thesis
    by (auto simp: ngtcp2_pkt_decode_hd_short_def get_short_pkt_num_def Let_def get_uint_be short_pkt_num_len_Some
        split: option.split)
qed

section \<open>Properties\<close>

text \<open>
  C17. Long header round trip: a header of a known long type is written in 17 bytes at the given position
  and decoded again to the same header; of the packet number the low 32 bits survive.
\<close>

theorem hd_long_roundtrip:
  assumes "17 \<le> outlen" and "outlen \<le> length out"
    and "hd_type h \<in> {NGTCP2_PKT_INITIAL, NGTCP2_PKT_RETRY, NGTCP2_PKT_HANDSHAKE,
                      NGTCP2_PKT_0RTT_PROTECTED}"
  shows "\<exists>out'. ngtcp2_pkt_encode_hd_long (out, 0) outlen h = Inr (out', 17) \<and>
     ngtcp2_pkt_decode_hd out' =
       Inr (h\<lparr>hd_flags := NGTCP2_PKT_FLAG_LONG_FORM, hd_pkt_num := take_bit 32 (hd_pkt_num h)\<rparr>, 17)"
proof -
  let ?out = "hd_long_bytes h @ drop 17 out"
  have enc: "ngtcp2_pkt_encode_hd_long (out, 0) outlen h = Inr (?out, 17)"
    using assms(1,2) by (simp add: encode_hd_long_eq wr_def)
  note at = holds_at_prefix [of "hd_long_bytes h" "drop 17 out"]
  have rd: "rd ?out 0 = Inr (0x80 OR hd_type h)" by (simp add: hd_long_bytes_def)
  have "(0x80 OR hd_type h) AND 0x80 \<noteq> 0" using assms(3) by auto
  then show ?thesis
    using enc decode_hd_long_at [OF at assms(3)] decode_hd_first [OF rd] by simp
qed

theorem hd_long_roundtrip_witness:
  "\<exists>out'. ngtcp2_pkt_encode_hd_long (replicate 17 0, 0) 17
       \<lparr>hd_flags = 1, hd_type = 0x7f, hd_conn_id = 7, hd_pkt_num = 9, hd_version = 5\<rparr> = Inr (out', 17) \<and>
     ngtcp2_pkt_decode_hd out' =
       Inr (\<lparr>hd_flags = 1, hd_type = 0x7f, hd_conn_id = 7, hd_pkt_num = 9, hd_version = 5\<rparr>, 17)"
  using hd_long_roundtrip [of 17 "replicate 17 0"
      "\<lparr>hd_flags = 1, hd_type = 0x7f, hd_conn_id = 7, hd_pkt_num = 9, hd_version = 5\<rparr>"] by simp

text \<open>
  C18. Short header round trip: for each of the three packet number lengths, with or without connection
  ID and with either key phase, the header is written in the announced number of bytes and decoded
  to the same type, connection ID (0 when omitted) and flags; of the packet number the bits that
  the type provides for survive.
\<close>

theorem hd_short_roundtrip:
  assumes "short_pkt_num_len (hd_type h) = Some k" and "13 \<le> outlen" and "outlen \<le> length out"
  shows "\<exists>out' n. ngtcp2_pkt_encode_hd_short (out, 0) outlen h = Inr (out', n) \<and>
     n = (if hd_flags h AND NGTCP2_PKT_FLAG_OMIT_CONN_ID = 0 then 9 else 1) + k \<and>
     ngtcp2_pkt_decode_hd out' =
       Inr (\<lparr>hd_flags = hd_flags h AND (NGTCP2_PKT_FLAG_OMIT_CONN_ID OR NGTCP2_PKT_FLAG_KEY_PHASE),
             hd_type = hd_type h,
             hd_conn_id = (if hd_flags h AND NGTCP2_PKT_FLAG_OMIT_CONN_ID = 0 then hd_conn_id h else 0),
             hd_pkt_num = take_bit (8 * k) (hd_pkt_num h), hd_version = 0\<rparr>, n)"
proof -
  let ?bs = "hd_short_bytes h k"
  let ?out = "?bs @ drop (length ?bs) out"
  have "k \<le> 4" using assms(1) by (auto simp: short_pkt_num_len_Some)
  then have L: "length ?bs \<le> outlen" using assms(2) by simp
  then have enc: "ngtcp2_pkt_encode_hd_short (out, 0) outlen h = Inr (?out, length ?bs)"
    using assms(3) by (simp add: encode_hd_short_eq [OF assms(1)] wr_def del: length_hd_bytes)
  have rd: "rd ?out 0 = Inr (hd_short_first h)" by (simp add: hd_short_bytes_def)
  have fl: "short_flags h =
      hd_flags h AND (NGTCP2_PKT_FLAG_OMIT_CONN_ID OR NGTCP2_PKT_FLAG_KEY_PHASE)"
    by (rule short_flags_eq)
  have "ngtcp2_pkt_decode_hd ?out = ngtcp2_pkt_decode_hd_short ?out"
    using rd hd_short_first_bits(1) [OF assms(1)]
    by (simp add: ngtcp2_pkt_decode_hd_def hd_short_bytes_def)
  then show ?thesis
    using enc decode_hd_short_at [OF holds_at_prefix assms(1)] fl by simp
qed

theorem hd_short_roundtrip_witness:
  "\<exists>out' n. ngtcp2_pkt_encode_hd_short (replicate 13 0, 0) 13
       \<lparr>hd_flags = 2, hd_type = 0x1e, hd_conn_id = 7, hd_pkt_num = 9, hd_version = 5\<rparr> = Inr (out', n) \<and>
     ngtcp2_pkt_decode_hd out' =
       Inr (\<lparr>hd_flags = 2, hd_type = 0x1e, hd_conn_id = 0, hd_pkt_num = 9, hd_version = 0\<rparr>, n)"
  using hd_short_roundtrip [of "\<lparr>hd_flags = 2, hd_type = 0x1e, hd_conn_id = 7, hd_pkt_num = 9,
      hd_version = 5\<rparr>" 2 13 "replicate 13 0"] by (auto simp: short_pkt_num_len_def)

text \<open>
  \<^verbatim>\<open>ngtcp2_pkt_decode_hd\<close> on arbitrary bytes, the empty packet included, never reads outside the
  packet; when it succeeds, the header length it returns lies between 2 and 17 and within the packet.
\<close>

theorem decode_hd_safe:
  "rspec (ngtcp2_pkt_decode_hd pkt) (\<lambda>(h, n). 2 \<le> n \<and> n \<le> 17 \<and> n \<le> length pkt)"
proof (cases "pkt = []")
  case True
  then show ?thesis by (simp add: ngtcp2_pkt_decode_hd_def)
next
  case False
  have "rspec (ngtcp2_pkt_decode_hd_long pkt) (\<lambda>(h, n). 2 \<le> n \<and> n \<le> 17 \<and> n \<le> length pkt)"
    "rspec (ngtcp2_pkt_decode_hd_short pkt) (\<lambda>(h, n). 2 \<le> n \<and> n \<le> 17 \<and> n \<le> length pkt)"
    by (rule rspec_mono [OF decode_hd_long_rspec], force)
      (rule rspec_mono [OF decode_hd_short_rspec [OF False]], force)
  then show ?thesis using False by (simp add: ngtcp2_pkt_decode_hd_def)
qed

end
