(* ===== verification/Pkt_Frame.thy ===== *)
theory Pkt_Frame
  imports Pkt_Hd
begin

text \<open>
  \<^verbatim>\<open>lib/ngtcp2_pkt.c\<close>, second part: the frame types of \<^verbatim>\<open>ngtcp2.h\<close> and the frame decoders. A decoder gets
  the payload from \<^verbatim>\<open>payload[0]\<close> on (\<^verbatim>\<open>payloadlen\<close> is its length) and returns the frame and the number of
  bytes it took. A pointer into the payload together with its length is the byte list it denotes.
\<close>

section \<open>The frames\<close>

abbreviation NGTCP2_FRAME_PADDING :: u8 where "NGTCP2_FRAME_PADDING \<equiv> 0x00"
abbreviation NGTCP2_FRAME_RST_STREAM :: u8 where "NGTCP2_FRAME_RST_STREAM \<equiv> 0x01"
abbreviation NGTCP2_FRAME_CONNECTION_CLOSE :: u8 where "NGTCP2_FRAME_CONNECTION_CLOSE \<equiv> 0x02"
abbreviation NGTCP2_FRAME_APPLICATION_CLOSE :: u8 where "NGTCP2_FRAME_APPLICATION_CLOSE \<equiv> 0x03"
abbreviation NGTCP2_FRAME_MAX_DATA :: u8 where "NGTCP2_FRAME_MAX_DATA \<equiv> 0x04"
abbreviation NGTCP2_FRAME_MAX_STREAM_DATA :: u8 where "NGTCP2_FRAME_MAX_STREAM_DATA \<equiv> 0x05"
abbreviation NGTCP2_FRAME_MAX_STREAM_ID :: u8 where "NGTCP2_FRAME_MAX_STREAM_ID \<equiv> 0x06"
abbreviation NGTCP2_FRAME_PING :: u8 where "NGTCP2_FRAME_PING \<equiv> 0x07"
abbreviation NGTCP2_FRAME_BLOCKED :: u8 where "NGTCP2_FRAME_BLOCKED \<equiv> 0x08"
abbreviation NGTCP2_FRAME_STREAM_BLOCKED :: u8 where "NGTCP2_FRAME_STREAM_BLOCKED \<equiv> 0x09"
abbreviation NGTCP2_FRAME_STREAM_ID_BLOCKED :: u8 where "NGTCP2_FRAME_STREAM_ID_BLOCKED \<equiv> 0x0a"
abbreviation NGTCP2_FRAME_NEW_CONNECTION_ID :: u8 where "NGTCP2_FRAME_NEW_CONNECTION_ID \<equiv> 0x0b"
abbreviation NGTCP2_FRAME_STOP_SENDING :: u8 where "NGTCP2_FRAME_STOP_SENDING \<equiv> 0x0c"
abbreviation NGTCP2_FRAME_PONG :: u8 where "NGTCP2_FRAME_PONG \<equiv> 0x0d"
abbreviation NGTCP2_FRAME_ACK :: u8 where "NGTCP2_FRAME_ACK \<equiv> 0x0e"
abbreviation NGTCP2_FRAME_STREAM :: u8 where "NGTCP2_FRAME_STREAM \<equiv> 0x10"

abbreviation NGTCP2_STREAM_FIN_BIT :: u8 where "NGTCP2_STREAM_FIN_BIT \<equiv> 0x01"
abbreviation NGTCP2_STREAM_LEN_BIT :: u8 where "NGTCP2_STREAM_LEN_BIT \<equiv> 0x02"
abbreviation NGTCP2_STREAM_OFF_BIT :: u8 where "NGTCP2_STREAM_OFF_BIT \<equiv> 0x04"

abbreviation NGTCP2_MAX_ACK_BLKS :: nat where "NGTCP2_MAX_ACK_BLKS \<equiv> 255"
abbreviation NGTCP2_STATELESS_RESET_TOKENLEN :: nat where "NGTCP2_STATELESS_RESET_TOKENLEN \<equiv> 16"

record ngtcp2_stream =
  st_flags :: u8
  st_fin :: bool
  st_stream_id :: u64
  st_offset :: u64
  st_datalen :: nat
  st_data :: bytes

record ngtcp2_ack_blk =
  gap :: u64
  blklen :: u64

record ngtcp2_ack =
  largest_ack :: u64
  ack_delay :: u64
  first_ack_blklen :: u64
  num_blks :: nat
  blks :: "ngtcp2_ack_blk list"

record ngtcp2_padding =
  pad_len :: nat

record ngtcp2_rst_stream =
  rst_stream_id :: u64
  rst_app_error_code :: u16
  rst_final_offset :: u64

record ngtcp2_connection_close =
  cc_error_code :: u16
  cc_reasonlen :: nat
  cc_reason :: bytes

record ngtcp2_application_close =
  ac_app_error_code :: u16
  ac_reasonlen :: nat
  ac_reason :: bytes

record ngtcp2_max_data =
  md_max_data :: u64

record ngtcp2_max_stream_data =
  msd_stream_id :: u64
  msd_max_stream_data :: u64

record ngtcp2_max_stream_id =
  msi_max_stream_id :: u64

record ngtcp2_ping =
  ping_datalen :: nat
  ping_data :: bytes

record ngtcp2_blocked =
  bl_offset :: u64

record ngtcp2_stream_blocked =
  sb_stream_id :: u64
  sb_offset :: u64

record ngtcp2_stream_id_blocked =
  sib_stream_id :: u64

record ngtcp2_new_connection_id =
  nci_seq :: u16
  nci_conn_id :: u64
  nci_stateless_reset_token :: bytes

record ngtcp2_stop_sending =
  ss_stream_id :: u64
  ss_app_error_code :: u16

record ngtcp2_pong =
  pong_datalen :: nat
  pong_data :: bytes

text \<open>
  The union \<^verbatim>\<open>ngtcp2_frame\<close>: the constructor is the \<^verbatim>\<open>type\<close> field all members share; \<open>FrOther\<close> is a frame
  whose type byte names no frame type (an encoder may be called with one).
\<close>

datatype ngtcp2_frame =
    FrStream ngtcp2_stream
  | FrAck ngtcp2_ack
  | FrPadding ngtcp2_padding
  | FrRstStream ngtcp2_rst_stream
  | FrConnectionClose ngtcp2_connection_close
  | FrApplicationClose ngtcp2_application_close
  | FrMaxData ngtcp2_max_data
  | FrMaxStreamData ngtcp2_max_stream_data
  | FrMaxStreamId ngtcp2_max_stream_id
  | FrPing ngtcp2_ping
  | FrBlocked ngtcp2_blocked
  | FrStreamBlocked ngtcp2_stream_blocked
  | FrStreamIdBlocked ngtcp2_stream_id_blocked
  | FrNewConnectionId ngtcp2_new_connection_id
  | FrStopSending ngtcp2_stop_sending
  | FrPong ngtcp2_pong
  | FrOther u8

section \<open>The decoders\<close>

text \<open>
  The step every decoder repeats: the length \<^verbatim>\<open>n\<close> of the variable-length integer at \<^verbatim>\<open>p\<close> is added to
  \<^verbatim>\<open>len\<close> (which counted one byte for it), and the payload must hold \<^verbatim>\<open>len\<close> bytes.
\<close>

definition frame_varint_len :: "bytes \<Rightarrow> nat \<Rightarrow> nat \<Rightarrow> (nat \<times> nat) res" where
  "frame_varint_len payload p len =
     rbind (ngtcp2_get_varint_len payload p) (\<lambda>n.
       let len = szadd len (n - 1) in
       if length payload < len then fail NGTCP2_ERR_FRAME_FORMAT else Inr (n, len))"

definition ngtcp2_pkt_decode_stream_frame :: "bytes \<Rightarrow> (ngtcp2_stream \<times> nat) res" where
  "ngtcp2_pkt_decode_stream_frame payload =
     (let len = 2 in
      if length payload < len then fail NGTCP2_ERR_FRAME_FORMAT
      else rbind (rd payload 0) (\<lambda>ty.
        let off = (ty AND NGTCP2_STREAM_OFF_BIT \<noteq> 0);
            lenb = (ty AND NGTCP2_STREAM_LEN_BIT \<noteq> 0);
            p = 1
        in
        rbind (frame_varint_len payload p len) (\<lambda>(n, len).
        let p = p + n in
        rbind (if off then
                 let len = szadd len 1 in
                 if length payload < len then fail NGTCP2_ERR_FRAME_FORMAT
                 else rbind (frame_varint_len payload p len) (\<lambda>(n, len). Inr (p + n, len))
               else Inr (p, len)) (\<lambda>(p, len).
        rbind (if lenb then
                 let len = szadd len 1 in
                 if length payload < len then fail NGTCP2_ERR_FRAME_FORMAT
                 else rbind (frame_varint_len payload p len) (\<lambda>(n, len).
                   rbind (ngtcp2_get_varint payload p) (\<lambda>(datalen, n).
                     let len = szadd len (unat datalen) in
                     if length payload < len then fail NGTCP2_ERR_FRAME_FORMAT else Inr len))
               else Inr len) (\<lambda>len.
        rbind (ngtcp2_get_varint payload 1) (\<lambda>(stream_id, n).
        let p = 1 + n in
        rbind (if off then rbind (ngtcp2_get_varint payload p) (\<lambda>(v, n). Inr (v, p + n))
               else Inr (0, p)) (\<lambda>(offset, p).
        let fr = \<lparr>st_flags = ty AND NOT NGTCP2_FRAME_STREAM,
                  st_fin = (ty AND NGTCP2_STREAM_FIN_BIT \<noteq> 0),
                  st_stream_id = stream_id, st_offset = offset, st_datalen = 0, st_data = []\<rparr>
        in
        if lenb then
          rbind (ngtcp2_get_varint payload p) (\<lambda>(datalen, n).
          let p = p + n in
          rbind (rdn payload p (unat datalen)) (\<lambda>data.
          rassert (p + unat datalen = len)
            (Inr (fr\<lparr>st_datalen := unat datalen, st_data := data\<rparr>, len))))
        else
          let datalen = length payload - p in
          rbind (rdn payload p datalen) (\<lambda>data.
            Inr (fr\<lparr>st_datalen := datalen, st_data := data\<rparr>, length payload)))))))))"

text \<open>The three loops of the ACK decoder over pairs of Gap and Additional ACK Block.\<close>

fun check_ack_blks :: "bytes \<Rightarrow> nat \<Rightarrow> nat \<Rightarrow> nat \<Rightarrow> (nat \<times> nat) res" where
  "check_ack_blks payload 0 p len = Inr (p, len)"
| "check_ack_blks payload (Suc k) p len =
     rbind (frame_varint_len payload p len) (\<lambda>(n, len).
     let p = p + n in
     rbind (frame_varint_len payload p len) (\<lambda>(n, len).
       check_ack_blks payload k (p + n) len))"

fun read_ack_blks :: "bytes \<Rightarrow> nat \<Rightarrow> nat \<Rightarrow> (ngtcp2_ack_blk list \<times> nat) res" where
  "read_ack_blks payload 0 p = Inr ([], p)"
| "read_ack_blks payload (Suc k) p =
     rbind (ngtcp2_get_varint payload p) (\<lambda>(g, n).
     let p = p + n in
     rbind (ngtcp2_get_varint payload p) (\<lambda>(b, n).
     rbind (read_ack_blks payload k (p + n)) (\<lambda>(bl, p).
       Inr (\<lparr>gap = g, blklen = b\<rparr> # bl, p))))"

fun skip_ack_blks :: "bytes \<Rightarrow> nat \<Rightarrow> nat \<Rightarrow> nat res" where
  "skip_ack_blks payload 0 p = Inr p"
| "skip_ack_blks payload (Suc k) p =
     rbind (ngtcp2_get_varint_len payload p) (\<lambda>n.
     let p = p + n in
     rbind (ngtcp2_get_varint_len payload p) (\<lambda>n.
       skip_ack_blks payload k (p + n)))"

definition ngtcp2_pkt_decode_ack_frame :: "bytes \<Rightarrow> (ngtcp2_ack \<times> nat) res" where
  "ngtcp2_pkt_decode_ack_frame payload =
     (let len = 5 in
      if length payload < len then fail NGTCP2_ERR_FRAME_FORMAT
      else
        let p = 1 in
        rbind (frame_varint_len payload p len) (\<lambda>(n, len).
        let p = p + n in
        rbind (frame_varint_len payload p len) (\<lambda>(n, len).
        let p = p + n in
        rbind (frame_varint_len payload p len) (\<lambda>(n, len).
        rbind (ngtcp2_get_varint payload p) (\<lambda>(nb, n).
        let nblks = unat nb; len = szadd len (szmul nblks 2) in
        if length payload < len then fail NGTCP2_ERR_FRAME_FORMAT
        else
          let p = p + n in
          rbind (frame_varint_len payload p len) (\<lambda>(n, len).
          rbind (check_ack_blks payload nblks (p + n) len) (\<lambda>(_, len).
          let max_num_blks = min NGTCP2_MAX_ACK_BLKS nblks; p = 1 in
          rbind (ngtcp2_get_varint payload p) (\<lambda>(largest, n).
          let p = p + n in
          rbind (ngtcp2_get_varint payload p) (\<lambda>(delay, n).
          let p = p + n in
          rbind (ngtcp2_get_varint_len payload p) (\<lambda>n.
          let p = p + n in
          rbind (ngtcp2_get_varint payload p) (\<lambda>(first, n).
          rbind (read_ack_blks payload max_num_blks (p + n)) (\<lambda>(bl, p).
          rbind (skip_ack_blks payload (nblks - max_num_blks) p) (\<lambda>p.
          rassert (p = len)
            (Inr (\<lparr>largest_ack = largest, ack_delay = delay, first_ack_blklen = first,
                   num_blks = max_num_blks, blks = bl\<rparr>, len)))))))))))))))"

definition ngtcp2_pkt_decode_padding_frame :: "bytes \<Rightarrow> (ngtcp2_padding \<times> nat) res" where
  "ngtcp2_pkt_decode_padding_frame payload =
     rassert (0 < length payload)
       (let n = 1 + length (takeWhile (\<lambda>b. b = NGTCP2_FRAME_PADDING) (drop 1 payload)) in
        Inr (\<lparr>pad_len = n\<rparr>, n))"

definition ngtcp2_pkt_decode_rst_stream_frame :: "bytes \<Rightarrow> (ngtcp2_rst_stream \<times> nat) res" where
  "ngtcp2_pkt_decode_rst_stream_frame payload =
     (let len = 5 in
      if length payload < len then fail NGTCP2_ERR_FRAME_FORMAT
      else
        rbind (frame_varint_len payload 1 len) (\<lambda>(n, len).
        let p = 1 + n + 2 in
        rbind (frame_varint_len payload p len) (\<lambda>(n, len).
        rbind (ngtcp2_get_varint payload 1) (\<lambda>(sid, n).
        let p = 1 + n in
        rbind (ngtcp2_get_uint16 payload p) (\<lambda>ec.
        let p = p + 2 in
        rbind (ngtcp2_get_varint payload p) (\<lambda>(fo, n).
        rassert (p + n = len)
          (Inr (\<lparr>rst_stream_id = sid, rst_app_error_code = ec, rst_final_offset = fo\<rparr>, len))))))))"

definition ngtcp2_pkt_decode_connection_close_frame ::
    "bytes \<Rightarrow> (ngtcp2_connection_close \<times> nat) res" where
  "ngtcp2_pkt_decode_connection_close_frame payload =
     (let len = 4 in
      if length payload < len then fail NGTCP2_ERR_FRAME_FORMAT
      else
        let p = 3 in
        rbind (frame_varint_len payload p len) (\<lambda>(n, len).
        rbind (ngtcp2_get_varint payload p) (\<lambda>(rl, n).
        let reasonlen = unat rl; len = szadd len reasonlen in
        if length payload < len then fail NGTCP2_ERR_FRAME_FORMAT
        else
          rbind (ngtcp2_get_uint16 payload 1) (\<lambda>ec.
          let p = 3 + n in
          rbind (if reasonlen = 0 then Inr ([], p)
                 else rbind (rdn payload p reasonlen) (\<lambda>r. Inr (r, p + reasonlen))) (\<lambda>(reason, p).
          rassert (p = len)
            (Inr (\<lparr>cc_error_code = ec, cc_reasonlen = reasonlen, cc_reason = reason\<rparr>, len)))))))"

definition ngtcp2_pkt_decode_application_close_frame ::
    "bytes \<Rightarrow> (ngtcp2_application_close \<times> nat) res" where
  "ngtcp2_pkt_decode_application_close_frame payload =
     (let len = 4 in
      if length payload < len then fail NGTCP2_ERR_FRAME_FORMAT
      else
        let p = 3 in
        rbind (frame_varint_len payload p len) (\<lambda>(n, len).
        rbind (ngtcp2_get_varint payload p) (\<lambda>(rl, n).
        let reasonlen = unat rl; len = szadd len reasonlen in
        if length payload < len then fail NGTCP2_ERR_FRAME_FORMAT
        else
          rbind (ngtcp2_get_uint16 payload 1) (\<lambda>ec.
          let p = 3 + n in
          rbind (if reasonlen = 0 then Inr ([], p)
                 else rbind (rdn payload p reasonlen) (\<lambda>r. Inr (r, p + reasonlen))) (\<lambda>(reason, p).
          rassert (p = len)
            (Inr (\<lparr>ac_app_error_code = ec, ac_reasonlen = reasonlen, ac_reason = reason\<rparr>, len)))))))"

definition ngtcp2_pkt_decode_max_data_frame :: "bytes \<Rightarrow> (ngtcp2_max_data \<times> nat) res" where
  "ngtcp2_pkt_decode_max_data_frame payload =
     (let len = 2 in
      if length payload < len then fail NGTCP2_ERR_FRAME_FORMAT
      else
        rbind (frame_varint_len payload 1 len) (\<lambda>(n, len).
        rbind (ngtcp2_get_varint payload 1) (\<lambda>(v, n).
        rassert (1 + n = len) (Inr (\<lparr>md_max_data = v\<rparr>, len)))))"

definition ngtcp2_pkt_decode_max_stream_data_frame ::
    "bytes \<Rightarrow> (ngtcp2_max_stream_data \<times> nat) res" where
  "ngtcp2_pkt_decode_max_stream_data_frame payload =
     (let len = 3 in
      if length payload < len then fail NGTCP2_ERR_FRAME_FORMAT
      else
        rbind (frame_varint_len payload 1 len) (\<lambda>(n, len).
        rbind (frame_varint_len payload (1 + n) len) (\<lambda>(n, len).
        rbind (ngtcp2_get_varint payload 1) (\<lambda>(sid, n).
        let p = 1 + n in
        rbind (ngtcp2_get_varint payload p) (\<lambda>(v, n).
        rassert (p + n = len)
          (Inr (\<lparr>msd_stream_id = sid, msd_max_stream_data = v\<rparr>, len)))))))"

definition ngtcp2_pkt_decode_max_stream_id_frame ::
    "bytes \<Rightarrow> (ngtcp2_max_stream_id \<times> nat) res" where
  "ngtcp2_pkt_decode_max_stream_id_frame payload =
     (let len = 2 in
      if length payload < len then fail NGTCP2_ERR_FRAME_FORMAT
      else
        rbind (frame_varint_len payload 1 len) (\<lambda>(n, len).
        rbind (ngtcp2_get_varint payload 1) (\<lambda>(v, n).
        rassert (1 + n = len) (Inr (\<lparr>msi_max_stream_id = v\<rparr>, len)))))"

definition ngtcp2_pkt_decode_ping_frame :: "bytes \<Rightarrow> (ngtcp2_ping \<times> nat) res" where
  "ngtcp2_pkt_decode_ping_frame payload =
     (let len = 2 in
      if length payload < len then fail NGTCP2_ERR_FRAME_FORMAT
      else rbind (rd payload 1) (\<lambda>b.
        let len = szadd len (unat b) in
        if length payload < len then fail NGTCP2_ERR_FRAME_FORMAT
        else
          let datalen = unat b; p = 2 in
          rbind (if datalen \<noteq> 0
                 then rbind (rdn payload p datalen) (\<lambda>d. Inr (d, p + datalen))
                 else Inr ([], p)) (\<lambda>(data, p).
          rassert (p = len) (Inr (\<lparr>ping_datalen = datalen, ping_data = data\<rparr>, len)))))"

definition ngtcp2_pkt_decode_blocked_frame :: "bytes \<Rightarrow> (ngtcp2_blocked \<times> nat) res" where
  "ngtcp2_pkt_decode_blocked_frame payload =
     (let len = 2 in
      if length payload < len then fail NGTCP2_ERR_FRAME_FORMAT
      else
        rbind (frame_varint_len payload 1 len) (\<lambda>(n, len).
        rbind (ngtcp2_get_varint payload 1) (\<lambda>(v, n).
        rassert (1 + n = len) (Inr (\<lparr>bl_offset = v\<rparr>, len)))))"

definition ngtcp2_pkt_decode_stream_blocked_frame ::
    "bytes \<Rightarrow> (ngtcp2_stream_blocked \<times> nat) res" where
  "ngtcp2_pkt_decode_stream_blocked_frame payload =
     (let len = 3 in
      if length payload < len then fail NGTCP2_ERR_FRAME_FORMAT
      else
        rbind (frame_varint_len payload 1 len) (\<lambda>(n, len).
        rbind (frame_varint_len payload (1 + n) len) (\<lambda>(n, len).
        rbind (ngtcp2_get_varint payload 1) (\<lambda>(sid, n).
        let p = 1 + n in
        rbind (ngtcp2_get_varint payload p) (\<lambda>(v, n).
        rassert (p + n = len)
          (Inr (\<lparr>sb_stream_id = sid, sb_offset = v\<rparr>, len)))))))"

definition ngtcp2_pkt_decode_stream_id_blocked_frame ::
    "bytes \<Rightarrow> (ngtcp2_stream_id_blocked \<times> nat) res" where
  "ngtcp2_pkt_decode_stream_id_blocked_frame payload =
     (let len = 2 in
      if length payload < len then fail NGTCP2_ERR_FRAME_FORMAT
      else
        rbind (frame_varint_len payload 1 len) (\<lambda>(n, len).
        rbind (ngtcp2_get_varint payload 1) (\<lambda>(v, n).
        rassert (1 + n = len) (Inr (\<lparr>sib_stream_id = v\<rparr>, len)))))"

definition ngtcp2_pkt_decode_new_connection_id_frame ::
    "bytes \<Rightarrow> (ngtcp2_new_connection_id \<times> nat) res" where
  "ngtcp2_pkt_decode_new_connection_id_frame payload =
     (let len = 1 + 1 + 8 + 16 in
      if length payload < len then fail NGTCP2_ERR_FRAME_FORMAT
      else
        rbind (frame_varint_len payload 1 len) (\<lambda>(n, len).
        rbind (ngtcp2_get_varint payload 1) (\<lambda>(v, n).
        let p = 1 + n in
        rbind (ngtcp2_get_uint64 payload p) (\<lambda>cid.
        let p = p + 8 in
        rbind (rdn payload p NGTCP2_STATELESS_RESET_TOKENLEN) (\<lambda>tok.
        rassert (p + NGTCP2_STATELESS_RESET_TOKENLEN = len)
          (Inr (\<lparr>nci_seq = ucast v, nci_conn_id = cid, nci_stateless_reset_token = tok\<rparr>, len)))))))"

definition ngtcp2_pkt_decode_stop_sending_frame ::
    "bytes \<Rightarrow> (ngtcp2_stop_sending \<times> nat) res" where
  "ngtcp2_pkt_decode_stop_sending_frame payload =
     (let len = 4 in
      if length payload < len then fail NGTCP2_ERR_FRAME_FORMAT
      else
        rbind (frame_varint_len payload 1 len) (\<lambda>(n, len).
        rbind (ngtcp2_get_varint payload 1) (\<lambda>(sid, n).
        let p = 1 + n in
        rbind (ngtcp2_get_uint16 payload p) (\<lambda>ec.
        rassert (p + 2 = len)
          (Inr (\<lparr>ss_stream_id = sid, ss_app_error_code = ec\<rparr>, len))))))"

definition ngtcp2_pkt_decode_pong_frame :: "bytes \<Rightarrow> (ngtcp2_pong \<times> nat) res" where
  "ngtcp2_pkt_decode_pong_frame payload =
     (let len = 2 in
      if length payload < len then fail NGTCP2_ERR_FRAME_FORMAT
      else rbind (rd payload 1) (\<lambda>b.
        let len = szadd len (unat b) in
        if length payload < len then fail NGTCP2_ERR_FRAME_FORMAT
        else
          let datalen = unat b; p = 2 in
          rbind (if datalen \<noteq> 0
                 then rbind (rdn payload p datalen) (\<lambda>d. Inr (d, p + datalen))
                 else Inr ([], p)) (\<lambda>(data, p).
          rassert (p = len) (Inr (\<lparr>pong_datalen = datalen, pong_data = data\<rparr>, len)))))"

definition has_mask :: "u8 \<Rightarrow> u8 \<Rightarrow> bool" where
  "has_mask b msk = (b AND msk = msk)"

definition as_frame :: "('a \<Rightarrow> ngtcp2_frame) \<Rightarrow> ('a \<times> nat) res \<Rightarrow> (ngtcp2_frame option \<times> nat) res" where
  "as_frame C m = rbind m (\<lambda>(x, n). Inr (Some (C x), n))"

text \<open>With an empty payload the decoder returns 0 and leaves \<^verbatim>\<open>dest\<close> alone: no frame.\<close>

definition ngtcp2_pkt_decode_frame :: "bytes \<Rightarrow> (ngtcp2_frame option \<times> nat) res" where
  "ngtcp2_pkt_decode_frame payload =
     (if length payload = 0 then Inr (None, 0)
      else rbind (rd payload 0) (\<lambda>ty.
        if has_mask ty NGTCP2_FRAME_STREAM then
          as_frame FrStream (ngtcp2_pkt_decode_stream_frame payload)
        else if has_mask ty NGTCP2_FRAME_ACK then
          as_frame FrAck (ngtcp2_pkt_decode_ack_frame payload)
        else if ty = NGTCP2_FRAME_PADDING then
          as_frame FrPadding (ngtcp2_pkt_decode_padding_frame payload)
        else if ty = NGTCP2_FRAME_RST_STREAM then
          as_frame FrRstStream (ngtcp2_pkt_decode_rst_stream_frame payload)
        else if ty = NGTCP2_FRAME_CONNECTION_CLOSE then
          as_frame FrConnectionClose (ngtcp2_pkt_decode_connection_close_frame payload)
        else if ty = NGTCP2_FRAME_APPLICATION_CLOSE then
          as_frame FrApplicationClose (ngtcp2_pkt_decode_application_close_frame payload)
        else if ty = NGTCP2_FRAME_MAX_DATA then
          as_frame FrMaxData (ngtcp2_pkt_decode_max_data_frame payload)
        else if ty = NGTCP2_FRAME_MAX_STREAM_DATA then
          as_frame FrMaxStreamData (ngtcp2_pkt_decode_max_stream_data_frame payload)
        else if ty = NGTCP2_FRAME_MAX_STREAM_ID then
          as_frame FrMaxStreamId (ngtcp2_pkt_decode_max_stream_id_frame payload)
        else if ty = NGTCP2_FRAME_PING then
          as_frame FrPing (ngtcp2_pkt_decode_ping_frame payload)
        else if ty = NGTCP2_FRAME_BLOCKED then
          as_frame FrBlocked (ngtcp2_pkt_decode_blocked_frame payload)
        else if ty = NGTCP2_FRAME_STREAM_BLOCKED then
          as_frame FrStreamBlocked (ngtcp2_pkt_decode_stream_blocked_frame payload)
        else if ty = NGTCP2_FRAME_STREAM_ID_BLOCKED then
          as_frame FrStreamIdBlocked (ngtcp2_pkt_decode_stream_id_blocked_frame payload)
        else if ty = NGTCP2_FRAME_NEW_CONNECTION_ID then
          as_frame FrNewConnectionId (ngtcp2_pkt_decode_new_connection_id_frame payload)
        else if ty = NGTCP2_FRAME_STOP_SENDING then
          as_frame FrStopSending (ngtcp2_pkt_decode_stop_sending_frame payload)
        else if ty = NGTCP2_FRAME_PONG then
          as_frame FrPong (ngtcp2_pkt_decode_pong_frame payload)
        else fail NGTCP2_ERR_FRAME_FORMAT))"

section \<open>Decoding arbitrary payloads\<close>

text \<open>Rules for the safety of a decoder that runs its steps one after the other.\<close>

lemma frame_varint_len_rule:
  assumes "p < length payload" and "len \<le> length payload" and "length payload < 2 ^ 63"
    and "\<And>n. 1 \<le> n \<Longrightarrow> ngtcp2_get_varint_len payload p = Inr n \<Longrightarrow>
      len + n - 1 \<le> length payload \<Longrightarrow> rspec (k n (len + n - 1)) Q"
  shows "rspec (rbind (frame_varint_len payload p len) (\<lambda>(n, len). k n len)) Q"
proof -
  obtain n where n: "ngtcp2_get_varint_len payload p = Inr n" "n \<in> {1, 2, 4, 8}"
    using get_varint_len_ok [OF assms(1)] .
  then have "szadd len (n - 1) = len + n - 1" using assms(2,3) by auto
  moreover have "1 \<le> n" using n(2) by auto
  ultimately show ?thesis using n assms(4) [OF _ n(1)] by (simp add: frame_varint_len_def Let_def)
qed

lemma get_varint_rule:
  assumes "ngtcp2_get_varint_len payload p = Inr n" and "p + n \<le> length payload"
    and "\<And>v. unat v < 2 ^ 62 \<Longrightarrow> ngtcp2_get_varint payload p = Inr (v, n) \<Longrightarrow> rspec (k v n) Q"
  shows "rspec (rbind (ngtcp2_get_varint payload p) (\<lambda>(v, n). k v n)) Q"
proof -
  obtain v where "ngtcp2_get_varint payload p = Inr (v, n)" "unat v < 2 ^ 62"
    using get_varint_ok [OF assms(1,2)] .
  then show ?thesis using assms(3) by simp
qed

lemma get_uint_rule:
  "p + 2 \<le> length payload \<Longrightarrow> (\<And>v. rspec (k v) Q) \<Longrightarrow>
   rspec (rbind (ngtcp2_get_uint16 payload p) k) Q"
  "p + 8 \<le> length payload \<Longrightarrow> (\<And>v. rspec (l v) Q) \<Longrightarrow>
   rspec (rbind (ngtcp2_get_uint64 payload p) l) Q"
  by (simp_all add: get_uint_be)

lemma rdn_rule:
  "p + n \<le> length payload \<Longrightarrow> (\<And>d. length d = n \<Longrightarrow> rspec (k d) Q) \<Longrightarrow>
   rspec (rbind (rdn payload p n) k) Q"
  by simp

lemma rd_rule:
  "p < length payload \<Longrightarrow> (\<And>b. rspec (k b) Q) \<Longrightarrow> rspec (rbind (rd payload p) k) Q"
  by simp

lemma get_varint_len_rule:
  "ngtcp2_get_varint_len payload p = Inr n \<Longrightarrow> rspec (k n) Q \<Longrightarrow>
   rspec (rbind (ngtcp2_get_varint_len payload p) k) Q"
  by simp

lemma size_check_rule:
  assumes "len \<le> length payload" and "d < 2 ^ 63" and "length payload < 2 ^ 63"
    and "len + d \<le> length payload \<Longrightarrow> rspec (rbind (k (len + d)) g) Q"
  shows "rspec (rbind (let len = szadd len d in
    if length payload < len then fail e else k len) g) Q"
  using assms by (simp add: Let_def)

lemma size_check_end_rule:
  assumes "len \<le> length payload" and "d < 2 ^ 63" and "length payload < 2 ^ 63"
    and "len + d \<le> length payload \<Longrightarrow> rspec (k (len + d)) Q"
  shows "rspec (let len = szadd len d in if length payload < len then fail e else k len) Q"
  using assms by (simp add: Let_def)

lemma rspec_Let: "rspec (k x) Q \<Longrightarrow> rspec (Let x k) Q"
  by simp

lemma rspec_bind_if:
  "(b \<Longrightarrow> rspec (rbind x k) Q) \<Longrightarrow> (\<not> b \<Longrightarrow> rspec (rbind y k) Q) \<Longrightarrow>
   rspec (rbind (if b then x else y) k) Q"
  by simp

lemma rspec_bind_assoc:
  "rspec (rbind m (\<lambda>(a, b). rbind (f a b) g)) Q \<Longrightarrow> rspec (rbind (rbind m (\<lambda>(a, b). f a b)) g) Q"
  "rspec (rbind m' (\<lambda>a. rbind (f' a) g)) Q \<Longrightarrow> rspec (rbind (rbind m' f') g) Q"
  by (simp_all add: rbind_assoc case_prod_unfold)

lemma rspec_bind_ret:
  "rspec (k a b) Q \<Longrightarrow> rspec (rbind (Inr (a, b)) (\<lambda>(a, b). k a b)) Q"
  "rspec (k' x) Q \<Longrightarrow> rspec (rbind (Inr x) k') Q"
  by simp_all

lemma varint_size: "unat v < 2 ^ 62 \<Longrightarrow> unat (v :: u64) < 2 ^ 63"
  by simp

lemmas decode_rules = frame_varint_len_rule get_uint_rule rdn_rule rd_rule size_check_rule
  size_check_end_rule rspec_if rspec_bind_if rspec_bind_assoc rspec_bind_ret rspec_Let

lemma check_ack_blks_rspec:
  assumes "length payload < 2 ^ 63" and "len = p + 2 * k" and "len \<le> length payload"
  shows "rspec (check_ack_blks payload k p len)
    (\<lambda>(q, len). q = len \<and> len \<le> length payload \<and> skip_ack_blks payload k p = Inr q)"
  using assms(2,3)
proof (induction k arbitrary: p len)
  case 0
  then show ?case by simp
next
  case (Suc k)
  show ?case
    unfolding check_ack_blks.simps Let_def
    by (intro frame_varint_len_rule rspec_mono [OF Suc.IH])
      (use Suc.prems assms(1) in \<open>auto simp: Let_def\<close>)
qed

lemma skip_ack_blks_le: "skip_ack_blks payload k p = Inr q \<Longrightarrow> p \<le> q"
proof (induction k arbitrary: p)
  case (Suc k)
  then show ?case
    by (auto simp: rbind_eq_Inr Let_def) (metis add_leD1 add_leD1)
qed simp

lemma read_skip_ack_blks:
  assumes "skip_ack_blks payload k p = Inr q" and "q \<le> length payload" and "j \<le> k"
  shows "\<exists>bl r. read_ack_blks payload j p = Inr (bl, r) \<and> length bl = j \<and>
     list_all (\<lambda>b. unat (gap b) < 2 ^ 62 \<and> unat (blklen b) < 2 ^ 62) bl \<and>
     skip_ack_blks payload (k - j) r = Inr q"
  using assms
proof (induction j arbitrary: k p)
  case (Suc j)
  then obtain k' where k: "k = Suc k'" "j \<le> k'" by (cases k) auto
  with Suc.prems obtain n m where nm: "ngtcp2_get_varint_len payload p = Inr n"
    "ngtcp2_get_varint_len payload (p + n) = Inr m" "skip_ack_blks payload k' (p + n + m) = Inr q"
    by (auto simp: rbind_eq_Inr Let_def)
  have "p + n + m \<le> length payload" using skip_ack_blks_le [OF nm(3)] Suc.prems(2) by simp
  then obtain u v where "ngtcp2_get_varint payload p = Inr (u, n)"
    "ngtcp2_get_varint payload (p + n) = Inr (v, m)" "unat u < 2 ^ 62" "unat v < 2 ^ 62"
    using get_varint_ok [OF nm(1)] get_varint_ok [OF nm(2)] by (metis add_leD1)
  then show ?case using Suc.IH [OF nm(3) Suc.prems(2) k(2)] k by auto
qed simp

text \<open>
  What every decoder guarantees: it returns a library error or a frame that took at least one byte
  and at most the payload.
\<close>

abbreviation within :: "bytes \<Rightarrow> 'a \<times> nat \<Rightarrow> bool" where
  "within payload \<equiv> (\<lambda>(fr, n). 0 < n \<and> n \<le> length payload)"

lemma decode_rst_stream_rspec:
  assumes "length payload < 2 ^ 63"
  shows "rspec (ngtcp2_pkt_decode_rst_stream_frame payload) (within payload)"
  using assms unfolding ngtcp2_pkt_decode_rst_stream_frame_def
  by - (rule decode_rules | (rule get_varint_rule, assumption) | (erule varint_size) |
      (auto; fail))+

lemma decode_max_data_rspec:
  assumes "length payload < 2 ^ 63"
  shows "rspec (ngtcp2_pkt_decode_max_data_frame payload) (within payload)"
  using assms unfolding ngtcp2_pkt_decode_max_data_frame_def
  by - (rule decode_rules | (rule get_varint_rule, assumption) | (erule varint_size) |
      (auto; fail))+

lemma decode_max_stream_data_rspec:
  assumes "length payload < 2 ^ 63"
  shows "rspec (ngtcp2_pkt_decode_max_stream_data_frame payload) (within payload)"
  using assms unfolding ngtcp2_pkt_decode_max_stream_data_frame_def
  by - (rule decode_rules | (rule get_varint_rule, assumption) | (erule varint_size) |
      (auto; fail))+

lemma decode_max_stream_id_rspec:
  assumes "length payload < 2 ^ 63"
  shows "rspec (ngtcp2_pkt_decode_max_stream_id_frame payload)
    (\<lambda>(fr, n). 0 < n \<and> n \<le> length payload \<and> unat (msi_max_stream_id fr) < 2 ^ 62)"
  using assms unfolding ngtcp2_pkt_decode_max_stream_id_frame_def
  by - (rule decode_rules | (rule get_varint_rule, assumption) | (erule varint_size) |
      (auto; fail))+

lemma decode_blocked_rspec:
  assumes "length payload < 2 ^ 63"
  shows "rspec (ngtcp2_pkt_decode_blocked_frame payload) (within payload)"
  using assms unfolding ngtcp2_pkt_decode_blocked_frame_def
  by - (rule decode_rules | (rule get_varint_rule, assumption) | (erule varint_size) |
      (auto; fail))+

lemma decode_stream_blocked_rspec:
  assumes "length payload < 2 ^ 63"
  shows "rspec (ngtcp2_pkt_decode_stream_blocked_frame payload) (within payload)"
  using assms unfolding ngtcp2_pkt_decode_stream_blocked_frame_def
  by - (rule decode_rules | (rule get_varint_rule, assumption) | (erule varint_size) |
      (auto; fail))+

lemma decode_stream_id_blocked_rspec:
  assumes "length payload < 2 ^ 63"
  shows "rspec (ngtcp2_pkt_decode_stream_id_blocked_frame payload) (within payload)"
  using assms unfolding ngtcp2_pkt_decode_stream_id_blocked_frame_def
  by - (rule decode_rules | (rule get_varint_rule, assumption) | (erule varint_size) |
      (auto; fail))+

lemma decode_new_connection_id_rspec:
  assumes "length payload < 2 ^ 63"
  shows "rspec (ngtcp2_pkt_decode_new_connection_id_frame payload)
    (\<lambda>(fr, n). 0 < n \<and> n \<le> length payload \<and> length (nci_stateless_reset_token fr) = 16)"
  using assms unfolding ngtcp2_pkt_decode_new_connection_id_frame_def
  by - (rule decode_rules | (rule get_varint_rule, assumption) | (erule varint_size) |
      (auto; fail))+

lemma decode_stop_sending_rspec:
  assumes "length payload < 2 ^ 63"
  shows "rspec (ngtcp2_pkt_decode_stop_sending_frame payload) (within payload)"
  using assms unfolding ngtcp2_pkt_decode_stop_sending_frame_def
  by - (rule decode_rules | (rule get_varint_rule, assumption) | (erule varint_size) |
      (auto; fail))+

lemma decode_connection_close_rspec:
  assumes "length payload < 2 ^ 63"
  shows "rspec (ngtcp2_pkt_decode_connection_close_frame payload)
    (\<lambda>(fr, n). 0 < n \<and> n \<le> length payload \<and> length (cc_reason fr) = cc_reasonlen fr)"
  using assms unfolding ngtcp2_pkt_decode_connection_close_frame_def
  by - (rule decode_rules | (rule get_varint_rule, assumption) | (erule varint_size) |
      (auto; fail))+

lemma decode_application_close_rspec:
  assumes "length payload < 2 ^ 63"
  shows "rspec (ngtcp2_pkt_decode_application_close_frame payload)
    (\<lambda>(fr, n). 0 < n \<and> n \<le> length payload \<and> length (ac_reason fr) = ac_reasonlen fr)"
  using assms unfolding ngtcp2_pkt_decode_application_close_frame_def
  by - (rule decode_rules | (rule get_varint_rule, assumption) | (erule varint_size) |
      (auto; fail))+

lemma decode_ping_rspec:
  "rspec (ngtcp2_pkt_decode_ping_frame payload)
    (\<lambda>(fr, n). 0 < n \<and> n \<le> length payload \<and> length (ping_data fr) = ping_datalen fr)"
proof -
  have "szadd 2 (unat b) = 2 + unat b" for b :: u8
    using unat_u8_bound [of b] by simp
  then show ?thesis by (auto simp: ngtcp2_pkt_decode_ping_frame_def Let_def)
qed

lemma decode_pong_rspec:
  "rspec (ngtcp2_pkt_decode_pong_frame payload)
    (\<lambda>(fr, n). 0 < n \<and> n \<le> length payload \<and> length (pong_data fr) = pong_datalen fr)"
proof -
  have "szadd 2 (unat b) = 2 + unat b" for b :: u8
    using unat_u8_bound [of b] by simp
  then show ?thesis by (auto simp: ngtcp2_pkt_decode_pong_frame_def Let_def)
qed

lemma decode_padding_rspec:
  assumes "payload \<noteq> []"
  shows "rspec (ngtcp2_pkt_decode_padding_frame payload) (within payload)"
proof -
  have "length (takeWhile (\<lambda>b. b = 0) (drop 1 payload)) \<le> length payload - 1"
    using length_takeWhile_le [of "\<lambda>b. b = 0" "drop 1 payload"] by simp
  then show ?thesis using assms
    by (cases payload) (auto simp: ngtcp2_pkt_decode_padding_frame_def Let_def)
qed

lemma decode_stream_rspec:
  assumes "length payload < 2 ^ 63"
  shows "rspec (ngtcp2_pkt_decode_stream_frame payload)
    (\<lambda>(fr, n). 0 < n \<and> n \<le> length payload \<and> length (st_data fr) = st_datalen fr \<and> st_datalen fr \<le> length payload)"
  using assms unfolding ngtcp2_pkt_decode_stream_frame_def
  by - (rule decode_rules | (rule get_varint_rule, assumption) | (erule varint_size) |
      (auto; fail))+

lemma check_ack_blks_rule:
  assumes "length payload < 2 ^ 63" and "len = p + 2 * k" and "len \<le> length payload"
    and "\<And>len. len \<le> length payload \<Longrightarrow> p \<le> len \<Longrightarrow> skip_ack_blks payload k p = Inr len \<Longrightarrow>
      rspec (f len len) Q"
  shows "rspec (rbind (check_ack_blks payload k p len) (\<lambda>(p, len). f p len)) Q"
  by (rule rspec_rbind [OF check_ack_blks_rspec [OF assms(1-3)]]) (use assms(4) skip_ack_blks_le in auto)

lemma ack_blks_rule:
  assumes "skip_ack_blks payload k p = Inr len" and "len \<le> length payload" and "j \<le> k"
    and "\<And>bl. length bl = j \<Longrightarrow> list_all (\<lambda>b. unat (gap b) < 2 ^ 62 \<and> unat (blklen b) < 2 ^ 62) bl \<Longrightarrow> rspec (f bl len) Q"
  shows "rspec (rbind (read_ack_blks payload j p) (\<lambda>(bl, p).
    rbind (skip_ack_blks payload (k - j) p) (f bl))) Q"
  using read_skip_ack_blks [OF assms(1-3)] assms(4) by auto

lemma num_blks_rule:
  assumes "unat (nb :: u64) < 2 ^ 62" and "len \<le> length payload" and "length payload < 2 ^ 63"
    and "len + 2 * unat nb \<le> length payload \<Longrightarrow> rspec (k (len + 2 * unat nb)) Q"
  shows "rspec (let len = szadd len (szmul (unat nb) 2) in
    if length payload < len then fail e else k len) Q"
proof -
  have "szmul (unat nb) 2 = 2 * unat nb" using assms(1) by simp
  then show ?thesis using assms by (simp add: Let_def mult.commute)
qed

lemma decode_ack_rspec:
  assumes "length payload < 2 ^ 63"
  shows "rspec (ngtcp2_pkt_decode_ack_frame payload)
    (\<lambda>(fr, n). 0 < n \<and> n \<le> length payload \<and> length (blks fr) = num_blks fr \<and> num_blks fr \<le> 255 \<and>
       unat (largest_ack fr) < 2 ^ 62 \<and> unat (ack_delay fr) < 2 ^ 62 \<and> unat (first_ack_blklen fr) < 2 ^ 62 \<and>
       list_all (\<lambda>b. unat (gap b) < 2 ^ 62 \<and> unat (blklen b) < 2 ^ 62) (blks fr))"
  using assms unfolding ngtcp2_pkt_decode_ack_frame_def
  by - (((rule num_blks_rule, assumption) | rule check_ack_blks_rule |
      (rule ack_blks_rule, assumption) | (rule get_varint_len_rule, assumption) | rule decode_rules | (rule get_varint_rule, assumption) |
      (auto; fail))+)

text \<open>What a decoded frame looks like: its length fields describe its data.\<close>

fun frame_lengths :: "ngtcp2_frame \<Rightarrow> bool" where
  "frame_lengths (FrStream fr) = (length (st_data fr) = st_datalen fr)"
| "frame_lengths (FrAck fr) = (length (blks fr) = num_blks fr \<and> num_blks fr \<le> NGTCP2_MAX_ACK_BLKS)"
| "frame_lengths (FrConnectionClose fr) = (length (cc_reason fr) = cc_reasonlen fr)"
| "frame_lengths (FrApplicationClose fr) = (length (ac_reason fr) = ac_reasonlen fr)"
| "frame_lengths (FrPing fr) = (length (ping_data fr) = ping_datalen fr)"
| "frame_lengths (FrPong fr) = (length (pong_data fr) = pong_datalen fr)"
| "frame_lengths (FrNewConnectionId fr) = (length (nci_stateless_reset_token fr) = 16)"
| "frame_lengths (FrOther t) = False"
| "frame_lengths _ = True"

text \<open>The numbers of a decoded frame are variable-length integers, its data is in the payload.\<close>

fun frame_fits :: "nat \<Rightarrow> ngtcp2_frame \<Rightarrow> bool" where
  "frame_fits n (FrStream fr) = (st_datalen fr \<le> n)"
| "frame_fits n (FrAck fr) =
     (unat (largest_ack fr) < 2 ^ 62 \<and> unat (ack_delay fr) < 2 ^ 62 \<and> unat (first_ack_blklen fr) < 2 ^ 62 \<and>
      list_all (\<lambda>b. unat (gap b) < 2 ^ 62 \<and> unat (blklen b) < 2 ^ 62) (blks fr))"
| "frame_fits n (FrMaxStreamId fr) = (unat (msi_max_stream_id fr) < 2 ^ 62)"
| "frame_fits n _ = True"

lemma as_frame_rspec:
  assumes "rspec m (\<lambda>(x, n). 0 < n \<and> n \<le> length payload \<and> frame_lengths (C x) \<and> frame_fits (length payload) (C x))"
  shows "rspec (as_frame C m) (\<lambda>(fr, n). \<exists>f. fr = Some f \<and> frame_lengths f \<and> frame_fits (length payload) f \<and> 0 < n \<and> n \<le> length payload)"
  unfolding as_frame_def by (rule rspec_rbind [OF assms]) auto

lemma decode_frame_fits:
  assumes "payload \<noteq> []" and "length payload < 2 ^ 63"
  shows "rspec (ngtcp2_pkt_decode_frame payload)
    (\<lambda>(fr, n). \<exists>f. fr = Some f \<and> frame_lengths f \<and> frame_fits (length payload) f \<and> 0 < n \<and> n \<le> length payload)"
proof -
  have "rd payload 0 = Inr (payload ! 0)" "length payload \<noteq> 0" using assms(1) by simp_all
  then show ?thesis
    unfolding ngtcp2_pkt_decode_frame_def
    using decode_stream_rspec [OF assms(2)] decode_ack_rspec [OF assms(2)]
      decode_padding_rspec [OF assms(1)] decode_rst_stream_rspec [OF assms(2)]
      decode_connection_close_rspec [OF assms(2)] decode_application_close_rspec [OF assms(2)]
      decode_max_data_rspec [OF assms(2)] decode_max_stream_data_rspec [OF assms(2)]
      decode_max_stream_id_rspec [OF assms(2)] decode_ping_rspec decode_blocked_rspec [OF assms(2)]
      decode_stream_blocked_rspec [OF assms(2)] decode_stream_id_blocked_rspec [OF assms(2)]
      decode_new_connection_id_rspec [OF assms(2)] decode_stop_sending_rspec [OF assms(2)]
      decode_pong_rspec
    by (simp only: rbind_simps if_False) (intro rspec_if as_frame_rspec; simp)
qed

lemma decode_frame_rspec:
  assumes "payload \<noteq> []" and "length payload < 2 ^ 63"
  shows "rspec (ngtcp2_pkt_decode_frame payload)
    (\<lambda>(fr, n). \<exists>f. fr = Some f \<and> frame_lengths f \<and> 0 < n \<and> n \<le> length payload)"
  using decode_frame_fits [OF assms] by (auto simp: rspec_def split: sum.splits)

section \<open>Properties\<close>

text \<open>
  C19. Frame decoding is memory safe and makes progress: on every non-empty payload (shorter than
  \<open>2 ^ 63\<close> bytes) the dispatcher and the sixteen decoders, the ACK block loops included, read only
  inside the payload, no assertion fails, no length computation wraps, and the result is an error
  code or a frame that takes between 1 byte and the whole payload, whose length fields describe
  its data; an ACK frame has at most 255 blocks.
\<close>

theorem decode_frame_safe:
  assumes "payload \<noteq> []" and "length payload < 2 ^ 63"
  shows "rspec (ngtcp2_pkt_decode_frame payload)
    (\<lambda>(fr, n). \<exists>f. fr = Some f \<and> frame_lengths f \<and> 0 < n \<and> n \<le> length payload)"
  using decode_frame_rspec [OF assms] .

theorem decode_frame_safe_witness:
  "rspec (ngtcp2_pkt_decode_frame [0x0e, 5, 0, 1, 2, 0, 1])
    (\<lambda>(fr, n). \<exists>f. fr = Some f \<and> frame_lengths f \<and> 0 < n \<and>
       n \<le> length [0x0e :: u8, 5, 0, 1, 2, 0, 1])"
  by (rule decode_frame_safe) simp_all

end
