(* ===== verification/Pkt_Encode.thy ===== *)
theory Pkt_Encode
  imports Pkt_Frame
begin

text \<open>
  \<^verbatim>\<open>lib/ngtcp2_pkt.c\<close>, third part: the frame encoders. An encoder takes the position \<^verbatim>\<open>out\<close> in a buffer, the
  number \<^verbatim>\<open>outlen\<close> of bytes it may use and the frame; it returns the buffer and the position behind the
  frame (the C function returns the difference of the two positions). The encoders compute the
  length first and refuse with \<^verbatim>\<open>NGTCP2_ERR_NOBUF\<close> before the first byte is stored.
\<close>

section \<open>The encoders\<close>

definition ngtcp2_pkt_encode_stream_frame ::
    "cursor \<Rightarrow> nat \<Rightarrow> ngtcp2_stream \<Rightarrow> (cursor \<times> ngtcp2_stream) res" where
  "ngtcp2_pkt_encode_stream_frame out outlen fr =
     (let len = 1; flags = NGTCP2_STREAM_LEN_BIT;
          flags = (if st_fin fr then flags OR NGTCP2_STREAM_FIN_BIT else flags)
      in
      rbind (if st_offset fr \<noteq> 0 then
               rbind (ngtcp2_put_varint_len (st_offset fr)) (\<lambda>l.
                 Inr (flags OR NGTCP2_STREAM_OFF_BIT, szadd len l))
             else Inr (flags, len)) (\<lambda>(flags, len).
      rbind (ngtcp2_put_varint_len (st_stream_id fr)) (\<lambda>l.
      let len = szadd len l in
      rbind (ngtcp2_put_varint_len (of_nat (st_datalen fr))) (\<lambda>l.
      let len = szadd (szadd len l) (st_datalen fr) in
      if outlen < len then fail NGTCP2_ERR_NOBUF
      else
        rbind (wr out [flags OR NGTCP2_FRAME_STREAM]) (\<lambda>p.
        rbind (ngtcp2_put_varint p (st_stream_id fr)) (\<lambda>p.
        rbind (if st_offset fr \<noteq> 0 then ngtcp2_put_varint p (st_offset fr) else Inr p) (\<lambda>p.
        rbind (ngtcp2_put_varint p (of_nat (st_datalen fr))) (\<lambda>p.
        rbind (if st_datalen fr \<noteq> 0 then ngtcp2_cpymem p (st_data fr) (st_datalen fr)
               else Inr p) (\<lambda>p.
        rassert (snd p - snd out = len) (Inr (p, fr\<lparr>st_flags := flags\<rparr>)))))))))))"

fun ack_blks_len :: "ngtcp2_ack_blk list \<Rightarrow> nat \<Rightarrow> nat \<Rightarrow> nat res" where
  "ack_blks_len bl 0 len = Inr len"
| "ack_blks_len [] (Suc k) len = Inl OutOfBounds"
| "ack_blks_len (b # bl) (Suc k) len =
     rbind (ngtcp2_put_varint_len (gap b)) (\<lambda>l.
     let len = szadd len l in
     rbind (ngtcp2_put_varint_len (blklen b)) (\<lambda>l.
       ack_blks_len bl k (szadd len l)))"

fun put_ack_blks :: "ngtcp2_ack_blk list \<Rightarrow> nat \<Rightarrow> cursor \<Rightarrow> cursor res" where
  "put_ack_blks bl 0 p = Inr p"
| "put_ack_blks [] (Suc k) p = Inl OutOfBounds"
| "put_ack_blks (b # bl) (Suc k) p =
     rbind (ngtcp2_put_varint p (gap b)) (\<lambda>p.
     rbind (ngtcp2_put_varint p (blklen b)) (\<lambda>p.
       put_ack_blks bl k p))"

definition ngtcp2_pkt_encode_ack_frame :: "cursor \<Rightarrow> nat \<Rightarrow> ngtcp2_ack \<Rightarrow> cursor res" where
  "ngtcp2_pkt_encode_ack_frame out outlen fr =
     rbind (ngtcp2_put_varint_len (largest_ack fr)) (\<lambda>l1.
     rbind (ngtcp2_put_varint_len (ack_delay fr)) (\<lambda>l2.
     rbind (ngtcp2_put_varint_len (of_nat (num_blks fr))) (\<lambda>l3.
     rbind (ngtcp2_put_varint_len (first_ack_blklen fr)) (\<lambda>l4.
     rbind (ack_blks_len (blks fr) (num_blks fr) (1 + l1 + l2 + l3 + l4)) (\<lambda>len.
     if outlen < len then fail NGTCP2_ERR_NOBUF
     else
       rbind (wr out [NGTCP2_FRAME_ACK]) (\<lambda>p.
       rbind (ngtcp2_put_varint p (largest_ack fr)) (\<lambda>p.
       rbind (ngtcp2_put_varint p (ack_delay fr)) (\<lambda>p.
       rbind (ngtcp2_put_varint p (of_nat (num_blks fr))) (\<lambda>p.
       rbind (ngtcp2_put_varint p (first_ack_blklen fr)) (\<lambda>p.
       rbind (put_ack_blks (blks fr) (num_blks fr) p) (\<lambda>p.
       rassert (snd p - snd out = len) (Inr p))))))))))))"

definition ngtcp2_pkt_encode_padding_frame :: "cursor \<Rightarrow> nat \<Rightarrow> ngtcp2_padding \<Rightarrow> cursor res" where
  "ngtcp2_pkt_encode_padding_frame out outlen fr =
     (if outlen < pad_len fr then fail NGTCP2_ERR_NOBUF else wr out (replicate (pad_len fr) 0))"

definition ngtcp2_pkt_encode_rst_stream_frame ::
    "cursor \<Rightarrow> nat \<Rightarrow> ngtcp2_rst_stream \<Rightarrow> cursor res" where
  "ngtcp2_pkt_encode_rst_stream_frame out outlen fr =
     rbind (ngtcp2_put_varint_len (rst_stream_id fr)) (\<lambda>l1.
     rbind (ngtcp2_put_varint_len (rst_final_offset fr)) (\<lambda>l2.
     let len = 1 + l1 + 2 + l2 in
     if outlen < len then fail NGTCP2_ERR_NOBUF
     else
       rbind (wr out [NGTCP2_FRAME_RST_STREAM]) (\<lambda>p.
       rbind (ngtcp2_put_varint p (rst_stream_id fr)) (\<lambda>p.
       rbind (ngtcp2_put_uint16be p (rst_app_error_code fr)) (\<lambda>p.
       rbind (ngtcp2_put_varint p (rst_final_offset fr)) (\<lambda>p.
       rassert (snd p - snd out = len) (Inr p)))))))"

definition ngtcp2_pkt_encode_connection_close_frame ::
    "cursor \<Rightarrow> nat \<Rightarrow> ngtcp2_connection_close \<Rightarrow> cursor res" where
  "ngtcp2_pkt_encode_connection_close_frame out outlen fr =
     rbind (ngtcp2_put_varint_len (of_nat (cc_reasonlen fr))) (\<lambda>l.
     let len = szadd (1 + 2 + l) (cc_reasonlen fr) in
     if outlen < len then fail NGTCP2_ERR_NOBUF
     else
       rbind (wr out [NGTCP2_FRAME_CONNECTION_CLOSE]) (\<lambda>p.
       rbind (ngtcp2_put_uint16be p (cc_error_code fr)) (\<lambda>p.
       rbind (ngtcp2_put_varint p (of_nat (cc_reasonlen fr))) (\<lambda>p.
       rbind (if cc_reasonlen fr \<noteq> 0 then ngtcp2_cpymem p (cc_reason fr) (cc_reasonlen fr)
              else Inr p) (\<lambda>p.
       rassert (snd p - snd out = len) (Inr p))))))"

definition ngtcp2_pkt_encode_application_close_frame ::
    "cursor \<Rightarrow> nat \<Rightarrow> ngtcp2_application_close \<Rightarrow> cursor res" where
  "ngtcp2_pkt_encode_application_close_frame out outlen fr =
     rbind (ngtcp2_put_varint_len (of_nat (ac_reasonlen fr))) (\<lambda>l.
     let len = szadd (1 + 2 + l) (ac_reasonlen fr) in
     if outlen < len then fail NGTCP2_ERR_NOBUF
     else
       rbind (wr out [NGTCP2_FRAME_APPLICATION_CLOSE]) (\<lambda>p.
       rbind (ngtcp2_put_uint16be p (ac_app_error_code fr)) (\<lambda>p.
       rbind (ngtcp2_put_varint p (of_nat (ac_reasonlen fr))) (\<lambda>p.
       rbind (if ac_reasonlen fr \<noteq> 0 then ngtcp2_cpymem p (ac_reason fr) (ac_reasonlen fr)
              else Inr p) (\<lambda>p.
       rassert (snd p - snd out = len) (Inr p))))))"

definition ngtcp2_pkt_encode_max_data_frame :: "cursor \<Rightarrow> nat \<Rightarrow> ngtcp2_max_data \<Rightarrow> cursor res" where
  "ngtcp2_pkt_encode_max_data_frame out outlen fr =
     rbind (ngtcp2_put_varint_len (md_max_data fr)) (\<lambda>l.
     let len = 1 + l in
     if outlen < len then fail NGTCP2_ERR_NOBUF
     else
       rbind (wr out [NGTCP2_FRAME_MAX_DATA]) (\<lambda>p.
       rbind (ngtcp2_put_varint p (md_max_data fr)) (\<lambda>p.
       rassert (snd p - snd out = len) (Inr p))))"

definition ngtcp2_pkt_encode_max_stream_data_frame ::
    "cursor \<Rightarrow> nat \<Rightarrow> ngtcp2_max_stream_data \<Rightarrow> cursor res" where
  "ngtcp2_pkt_encode_max_stream_data_frame out outlen fr =
     rbind (ngtcp2_put_varint_len (msd_stream_id fr)) (\<lambda>l1.
     rbind (ngtcp2_put_varint_len (msd_max_stream_data fr)) (\<lambda>l2.
     let len = 1 + l1 + l2 in
     if outlen < len then fail NGTCP2_ERR_NOBUF
     else
       rbind (wr out [NGTCP2_FRAME_MAX_STREAM_DATA]) (\<lambda>p.
       rbind (ngtcp2_put_varint p (msd_stream_id fr)) (\<lambda>p.
       rbind (ngtcp2_put_varint p (msd_max_stream_data fr)) (\<lambda>p.
       rassert (snd p - snd out = len) (Inr p))))))"

definition ngtcp2_pkt_encode_max_stream_id_frame ::
    "cursor \<Rightarrow> nat \<Rightarrow> ngtcp2_max_stream_id \<Rightarrow> cursor res" where
  "ngtcp2_pkt_encode_max_stream_id_frame out outlen fr =
     rbind (ngtcp2_put_varint_len (msi_max_stream_id fr)) (\<lambda>l.
     let len = 1 + l in
     if outlen < len then fail NGTCP2_ERR_NOBUF
     else
       rbind (wr out [NGTCP2_FRAME_MAX_STREAM_ID]) (\<lambda>p.
       rbind (ngtcp2_put_varint p (msi_max_stream_id fr)) (\<lambda>p.
       rassert (snd p - snd out = len) (Inr p))))"

definition ngtcp2_pkt_encode_ping_frame :: "cursor \<Rightarrow> nat \<Rightarrow> ngtcp2_ping \<Rightarrow> cursor res" where
  "ngtcp2_pkt_encode_ping_frame out outlen fr =
     (let len = szadd 2 (ping_datalen fr) in
      if outlen < len then fail NGTCP2_ERR_NOBUF
      else
        rbind (wr out [NGTCP2_FRAME_PING]) (\<lambda>p.
        rbind (wr p [of_nat (ping_datalen fr)]) (\<lambda>p.
        rbind (if ping_datalen fr \<noteq> 0 then ngtcp2_cpymem p (ping_data fr) (ping_datalen fr)
               else Inr p) (\<lambda>p.
        rassert (snd p - snd out = len) (Inr p)))))"

definition ngtcp2_pkt_encode_blocked_frame :: "cursor \<Rightarrow> nat \<Rightarrow> ngtcp2_blocked \<Rightarrow> cursor res" where
  "ngtcp2_pkt_encode_blocked_frame out outlen fr =
     rbind (ngtcp2_put_varint_len (bl_offset fr)) (\<lambda>l.
     let len = 1 + l in
     if outlen < len then fail NGTCP2_ERR_NOBUF
     else
       rbind (wr out [NGTCP2_FRAME_BLOCKED]) (\<lambda>p.
       rbind (ngtcp2_put_varint p (bl_offset fr)) (\<lambda>p.
       rassert (snd p - snd out = len) (Inr p))))"

definition ngtcp2_pkt_encode_stream_blocked_frame ::
    "cursor \<Rightarrow> nat \<Rightarrow> ngtcp2_stream_blocked \<Rightarrow> cursor res" where
  "ngtcp2_pkt_encode_stream_blocked_frame out outlen fr =
     rbind (ngtcp2_put_varint_len (sb_stream_id fr)) (\<lambda>l1.
     rbind (ngtcp2_put_varint_len (sb_offset fr)) (\<lambda>l2.
     let len = 1 + l1 + l2 in
     if outlen < len then fail NGTCP2_ERR_NOBUF
     else
       rbind (wr out [NGTCP2_FRAME_STREAM_BLOCKED]) (\<lambda>p.
       rbind (ngtcp2_put_varint p (sb_stream_id fr)) (\<lambda>p.
       rbind (ngtcp2_put_varint p (sb_offset fr)) (\<lambda>p.
       rassert (snd p - snd out = len) (Inr p))))))"

definition ngtcp2_pkt_encode_stream_id_blocked_frame ::
    "cursor \<Rightarrow> nat \<Rightarrow> ngtcp2_stream_id_blocked \<Rightarrow> cursor res" where
  "ngtcp2_pkt_encode_stream_id_blocked_frame out outlen fr =
     rbind (ngtcp2_put_varint_len (sib_stream_id fr)) (\<lambda>l.
     let len = 1 + l in
     if outlen < len then fail NGTCP2_ERR_NOBUF
     else
       rbind (wr out [NGTCP2_FRAME_STREAM_ID_BLOCKED]) (\<lambda>p.
       rbind (ngtcp2_put_varint p (sib_stream_id fr)) (\<lambda>p.
       rassert (snd p - snd out = len) (Inr p))))"

definition ngtcp2_pkt_encode_new_connection_id_frame ::
    "cursor \<Rightarrow> nat \<Rightarrow> ngtcp2_new_connection_id \<Rightarrow> cursor res" where
  "ngtcp2_pkt_encode_new_connection_id_frame out outlen fr =
     rbind (ngtcp2_put_varint_len (ucast (nci_seq fr))) (\<lambda>l.
     let len = 1 + l + 8 + NGTCP2_STATELESS_RESET_TOKENLEN in
     if outlen < len then fail NGTCP2_ERR_NOBUF
     else
       rbind (wr out [NGTCP2_FRAME_NEW_CONNECTION_ID]) (\<lambda>p.
       rbind (ngtcp2_put_varint p (ucast (nci_seq fr))) (\<lambda>p.
       rbind (ngtcp2_put_uint64be p (nci_conn_id fr)) (\<lambda>p.
       rbind (ngtcp2_cpymem p (nci_stateless_reset_token fr) NGTCP2_STATELESS_RESET_TOKENLEN) (\<lambda>p.
       rassert (snd p - snd out = len) (Inr p))))))"

definition ngtcp2_pkt_encode_stop_sending_frame ::
    "cursor \<Rightarrow> nat \<Rightarrow> ngtcp2_stop_sending \<Rightarrow> cursor res" where
  "ngtcp2_pkt_encode_stop_sending_frame out outlen fr =
     rbind (ngtcp2_put_varint_len (ss_stream_id fr)) (\<lambda>l.
     let len = 1 + l + 2 in
     if outlen < len then fail NGTCP2_ERR_NOBUF
     else
       rbind (wr out [NGTCP2_FRAME_STOP_SENDING]) (\<lambda>p.
       rbind (ngtcp2_put_varint p (ss_stream_id fr)) (\<lambda>p.
       rbind (ngtcp2_put_uint16be p (ss_app_error_code fr)) (\<lambda>p.
       rassert (snd p - snd out = len) (Inr p)))))"

definition ngtcp2_pkt_encode_pong_frame :: "cursor \<Rightarrow> nat \<Rightarrow> ngtcp2_pong \<Rightarrow> cursor res" where
  "ngtcp2_pkt_encode_pong_frame out outlen fr =
     (let len = szadd 2 (pong_datalen fr) in
      if outlen < len then fail NGTCP2_ERR_NOBUF
      else
        rbind (wr out [NGTCP2_FRAME_PONG]) (\<lambda>p.
        rbind (wr p [of_nat (pong_datalen fr)]) (\<lambda>p.
        rbind (if pong_datalen fr \<noteq> 0 then ngtcp2_cpymem p (pong_data fr) (pong_datalen fr)
               else Inr p) (\<lambda>p.
        rassert (snd p - snd out = len) (Inr p)))))"

text \<open>The encoder may store into the frame: the flags of a STREAM frame it has written.\<close>

definition keep_frame :: "ngtcp2_frame \<Rightarrow> cursor res \<Rightarrow> (cursor \<times> ngtcp2_frame) res" where
  "keep_frame fr m = rbind m (\<lambda>p. Inr (p, fr))"

definition ngtcp2_pkt_encode_frame ::
    "cursor \<Rightarrow> nat \<Rightarrow> ngtcp2_frame \<Rightarrow> (cursor \<times> ngtcp2_frame) res" where
  "ngtcp2_pkt_encode_frame out outlen fr =
     (case fr of
        FrStream x \<Rightarrow> rbind (ngtcp2_pkt_encode_stream_frame out outlen x) (\<lambda>(p, x). Inr (p, FrStream x))
      | FrAck x \<Rightarrow> keep_frame fr (ngtcp2_pkt_encode_ack_frame out outlen x)
      | FrPadding x \<Rightarrow> keep_frame fr (ngtcp2_pkt_encode_padding_frame out outlen x)
      | FrRstStream x \<Rightarrow> keep_frame fr (ngtcp2_pkt_encode_rst_stream_frame out outlen x)
      | FrConnectionClose x \<Rightarrow> keep_frame fr (ngtcp2_pkt_encode_connection_close_frame out outlen x)
      | FrApplicationClose x \<Rightarrow> keep_frame fr (ngtcp2_pkt_encode_application_close_frame out outlen x)
      | FrMaxData x \<Rightarrow> keep_frame fr (ngtcp2_pkt_encode_max_data_frame out outlen x)
      | FrMaxStreamData x \<Rightarrow> keep_frame fr (ngtcp2_pkt_encode_max_stream_data_frame out outlen x)
      | FrMaxStreamId x \<Rightarrow> keep_frame fr (ngtcp2_pkt_encode_max_stream_id_frame out outlen x)
      | FrPing x \<Rightarrow> keep_frame fr (ngtcp2_pkt_encode_ping_frame out outlen x)
      | FrBlocked x \<Rightarrow> keep_frame fr (ngtcp2_pkt_encode_blocked_frame out outlen x)
      | FrStreamBlocked x \<Rightarrow> keep_frame fr (ngtcp2_pkt_encode_stream_blocked_frame out outlen x)
      | FrStreamIdBlocked x \<Rightarrow> keep_frame fr (ngtcp2_pkt_encode_stream_id_blocked_frame out outlen x)
      | FrNewConnectionId x \<Rightarrow> keep_frame fr (ngtcp2_pkt_encode_new_connection_id_frame out outlen x)
      | FrStopSending x \<Rightarrow> keep_frame fr (ngtcp2_pkt_encode_stop_sending_frame out outlen x)
      | FrPong x \<Rightarrow> keep_frame fr (ngtcp2_pkt_encode_pong_frame out outlen x)
      | FrOther t \<Rightarrow> fail NGTCP2_ERR_INVALID_ARGUMENT)"

section \<open>What the encoders write\<close>

definition ack_blk_bytes :: "ngtcp2_ack_blk list \<Rightarrow> bytes" where
  "ack_blk_bytes bl = concat (map (\<lambda>b. varint_bytes (gap b) @ varint_bytes (blklen b)) bl)"

definition stream_type :: "ngtcp2_stream \<Rightarrow> u8" where
  "stream_type fr = NGTCP2_FRAME_STREAM OR NGTCP2_STREAM_LEN_BIT OR
     (if st_fin fr then NGTCP2_STREAM_FIN_BIT else 0) OR
     (if st_offset fr \<noteq> 0 then NGTCP2_STREAM_OFF_BIT else 0)"

text \<open>The wire format.\<close>

fun frame_bytes :: "ngtcp2_frame \<Rightarrow> bytes" where
  "frame_bytes (FrStream fr) = stream_type fr # varint_bytes (st_stream_id fr) @
     (if st_offset fr \<noteq> 0 then varint_bytes (st_offset fr) else []) @
     varint_bytes (of_nat (st_datalen fr)) @ st_data fr"
| "frame_bytes (FrAck fr) = 0x0e # varint_bytes (largest_ack fr) @ varint_bytes (ack_delay fr) @
     varint_bytes (of_nat (num_blks fr)) @ varint_bytes (first_ack_blklen fr) @
     ack_blk_bytes (blks fr)"
| "frame_bytes (FrPadding fr) = replicate (pad_len fr) 0"
| "frame_bytes (FrRstStream fr) = 0x01 # varint_bytes (rst_stream_id fr) @
     be_bytes 2 (rst_app_error_code fr) @ varint_bytes (rst_final_offset fr)"
| "frame_bytes (FrConnectionClose fr) = 0x02 # be_bytes 2 (cc_error_code fr) @
     varint_bytes (of_nat (cc_reasonlen fr)) @ cc_reason fr"
| "frame_bytes (FrApplicationClose fr) = 0x03 # be_bytes 2 (ac_app_error_code fr) @
     varint_bytes (of_nat (ac_reasonlen fr)) @ ac_reason fr"
| "frame_bytes (FrMaxData fr) = 0x04 # varint_bytes (md_max_data fr)"
| "frame_bytes (FrMaxStreamData fr) = 0x05 # varint_bytes (msd_stream_id fr) @
     varint_bytes (msd_max_stream_data fr)"
| "frame_bytes (FrMaxStreamId fr) = 0x06 # varint_bytes (msi_max_stream_id fr)"
| "frame_bytes (FrPing fr) = 0x07 # of_nat (ping_datalen fr) # ping_data fr"
| "frame_bytes (FrBlocked fr) = 0x08 # varint_bytes (bl_offset fr)"
| "frame_bytes (FrStreamBlocked fr) = 0x09 # varint_bytes (sb_stream_id fr) @
     varint_bytes (sb_offset fr)"
| "frame_bytes (FrStreamIdBlocked fr) = 0x0a # varint_bytes (sib_stream_id fr)"
| "frame_bytes (FrNewConnectionId fr) = 0x0b # varint_bytes (ucast (nci_seq fr)) @
     be_bytes 8 (nci_conn_id fr) @ nci_stateless_reset_token fr"
| "frame_bytes (FrStopSending fr) = 0x0c # varint_bytes (ss_stream_id fr) @
     be_bytes 2 (ss_app_error_code fr)"
| "frame_bytes (FrPong fr) = 0x0d # of_nat (pong_datalen fr) # pong_data fr"
| "frame_bytes (FrOther t) = []"

text \<open>
  The frames that have an encoding: integers are below \<open>2 ^ 62\<close>, the length fields describe the data,
  and PING and PONG data have a length that fits in one byte.
\<close>

abbreviation varint_ok :: "u64 \<Rightarrow> bool" where
  "varint_ok v \<equiv> unat v < 2 ^ 62"

fun wf_frame :: "ngtcp2_frame \<Rightarrow> bool" where
  "wf_frame (FrStream fr) = (varint_ok (st_stream_id fr) \<and> varint_ok (st_offset fr) \<and>
     length (st_data fr) = st_datalen fr \<and> st_datalen fr < 2 ^ 62)"
| "wf_frame (FrAck fr) = (varint_ok (largest_ack fr) \<and> varint_ok (ack_delay fr) \<and>
     varint_ok (first_ack_blklen fr) \<and> length (blks fr) = num_blks fr \<and> num_blks fr \<le> 255 \<and>
     list_all (\<lambda>b. varint_ok (gap b) \<and> varint_ok (blklen b)) (blks fr))"
| "wf_frame (FrPadding fr) = (0 < pad_len fr)"
| "wf_frame (FrRstStream fr) = (varint_ok (rst_stream_id fr) \<and> varint_ok (rst_final_offset fr))"
| "wf_frame (FrConnectionClose fr) = (length (cc_reason fr) = cc_reasonlen fr \<and> cc_reasonlen fr < 2 ^ 62)"
| "wf_frame (FrApplicationClose fr) = (length (ac_reason fr) = ac_reasonlen fr \<and> ac_reasonlen fr < 2 ^ 62)"
| "wf_frame (FrMaxData fr) = varint_ok (md_max_data fr)"
| "wf_frame (FrMaxStreamData fr) = (varint_ok (msd_stream_id fr) \<and> varint_ok (msd_max_stream_data fr))"
| "wf_frame (FrMaxStreamId fr) = varint_ok (msi_max_stream_id fr)"
| "wf_frame (FrPing fr) = (length (ping_data fr) = ping_datalen fr \<and> ping_datalen fr < 256)"
| "wf_frame (FrBlocked fr) = varint_ok (bl_offset fr)"
| "wf_frame (FrStreamBlocked fr) = (varint_ok (sb_stream_id fr) \<and> varint_ok (sb_offset fr))"
| "wf_frame (FrStreamIdBlocked fr) = varint_ok (sib_stream_id fr)"
| "wf_frame (FrNewConnectionId fr) = (length (nci_stateless_reset_token fr) = 16)"
| "wf_frame (FrStopSending fr) = varint_ok (ss_stream_id fr)"
| "wf_frame (FrPong fr) = (length (pong_data fr) = pong_datalen fr \<and> pong_datalen fr < 256)"
| "wf_frame (FrOther t) = False"

text \<open>The frame as the encoder leaves it: a STREAM frame gets the flags that were written.\<close>

fun encoded_frame :: "ngtcp2_frame \<Rightarrow> ngtcp2_frame" where
  "encoded_frame (FrStream fr) = FrStream (fr\<lparr>st_flags := stream_type fr AND NOT NGTCP2_FRAME_STREAM\<rparr>)"
| "encoded_frame fr = fr"

lemma put_varint_ok:
  assumes "varint_ok v"
  shows "ngtcp2_put_varint c v = wr c (varint_bytes v)" "ngtcp2_put_varint_len v = Inr (varint_len v)"
  using assms by (simp_all add: put_varint_eq put_varint_len_eq less_max_varint)

lemma varint_ok_of_nat: "n < 2 ^ 62 \<Longrightarrow> varint_ok (of_nat n)" "n < 2 ^ 62 \<Longrightarrow> unat (of_nat n :: u64) = n"
  by (simp_all add: unat_of_nat take_bit_nat_eq_self)

lemma varint_ok_ucast: "varint_ok (ucast (w :: u16))"
  using unat_ucast_16 by simp

lemma cpymem_all: "length bs = n \<Longrightarrow> ngtcp2_cpymem c bs n = wr c bs"
  by (simp add: ngtcp2_cpymem_def)

lemma wr_opt_bind:
  "length bs = n \<Longrightarrow> rbind (wr c a) (\<lambda>p. rbind (if 0 < n then ngtcp2_cpymem p bs n else Inr p) k) =
     rbind (wr c (a @ bs)) k"
  by (cases "n = 0") (simp_all add: cpymem_all wr_wr_bind)

lemma rbind_wr_assert:
  assumes "length bs = n"
  shows "rbind (wr out bs) (\<lambda>p. rassert (snd p - snd out = n) (k p)) = rbind (wr out bs) k"
  using assms by (cases out) (simp add: wr_def)

lemmas encode_simps = put_varint_ok put_uint_be cpymem_all wr_wr_bind rbind_wr_end wr_opt_bind
  Let_def varint_ok_of_nat put_varint_ok [OF varint_ok_ucast]

definition wr_or_nobuf :: "cursor \<Rightarrow> nat \<Rightarrow> bytes \<Rightarrow> cursor res" where
  "wr_or_nobuf out outlen bs = (if outlen < length bs then fail NGTCP2_ERR_NOBUF else wr out bs)"

lemma encode_rst_stream_eq:
  assumes "wf_frame (FrRstStream fr)"
  shows "ngtcp2_pkt_encode_rst_stream_frame out outlen fr = wr_or_nobuf out outlen (frame_bytes (FrRstStream fr))"
  using assms by (simp add: ngtcp2_pkt_encode_rst_stream_frame_def wr_or_nobuf_def encode_simps)

lemma encode_connection_close_eq:
  assumes "wf_frame (FrConnectionClose fr)"
  shows "ngtcp2_pkt_encode_connection_close_frame out outlen fr = wr_or_nobuf out outlen (frame_bytes (FrConnectionClose fr))"
  using assms varint_len_bounds(2) [of "of_nat (cc_reasonlen fr)"]
  by (simp add: ngtcp2_pkt_encode_connection_close_frame_def wr_or_nobuf_def encode_simps)

lemma encode_application_close_eq:
  assumes "wf_frame (FrApplicationClose fr)"
  shows "ngtcp2_pkt_encode_application_close_frame out outlen fr = wr_or_nobuf out outlen (frame_bytes (FrApplicationClose fr))"
  using assms varint_len_bounds(2) [of "of_nat (ac_reasonlen fr)"]
  by (simp add: ngtcp2_pkt_encode_application_close_frame_def wr_or_nobuf_def encode_simps)

lemma encode_max_data_eq:
  assumes "wf_frame (FrMaxData fr)"
  shows "ngtcp2_pkt_encode_max_data_frame out outlen fr = wr_or_nobuf out outlen (frame_bytes (FrMaxData fr))"
  using assms by (simp add: ngtcp2_pkt_encode_max_data_frame_def wr_or_nobuf_def encode_simps)

lemma encode_max_stream_data_eq:
  assumes "wf_frame (FrMaxStreamData fr)"
  shows "ngtcp2_pkt_encode_max_stream_data_frame out outlen fr = wr_or_nobuf out outlen (frame_bytes (FrMaxStreamData fr))"
  using assms by (simp add: ngtcp2_pkt_encode_max_stream_data_frame_def wr_or_nobuf_def encode_simps)

lemma encode_max_stream_id_eq:
  assumes "wf_frame (FrMaxStreamId fr)"
  shows "ngtcp2_pkt_encode_max_stream_id_frame out outlen fr = wr_or_nobuf out outlen (frame_bytes (FrMaxStreamId fr))"
  using assms by (simp add: ngtcp2_pkt_encode_max_stream_id_frame_def wr_or_nobuf_def encode_simps)

lemma encode_ping_eq:
  assumes "wf_frame (FrPing fr)"
  shows "ngtcp2_pkt_encode_ping_frame out outlen fr = wr_or_nobuf out outlen (frame_bytes (FrPing fr))"
  using assms by (simp add: ngtcp2_pkt_encode_ping_frame_def wr_or_nobuf_def encode_simps)

lemma encode_blocked_eq:
  assumes "wf_frame (FrBlocked fr)"
  shows "ngtcp2_pkt_encode_blocked_frame out outlen fr = wr_or_nobuf out outlen (frame_bytes (FrBlocked fr))"
  using assms by (simp add: ngtcp2_pkt_encode_blocked_frame_def wr_or_nobuf_def encode_simps)

lemma encode_stream_blocked_eq:
  assumes "wf_frame (FrStreamBlocked fr)"
  shows "ngtcp2_pkt_encode_stream_blocked_frame out outlen fr = wr_or_nobuf out outlen (frame_bytes (FrStreamBlocked fr))"
  using assms by (simp add: ngtcp2_pkt_encode_stream_blocked_frame_def wr_or_nobuf_def encode_simps)

lemma encode_stream_id_blocked_eq:
  assumes "wf_frame (FrStreamIdBlocked fr)"
  shows "ngtcp2_pkt_encode_stream_id_blocked_frame out outlen fr = wr_or_nobuf out outlen (frame_bytes (FrStreamIdBlocked fr))"
  using assms by (simp add: ngtcp2_pkt_encode_stream_id_blocked_frame_def wr_or_nobuf_def encode_simps)

lemma encode_new_connection_id_eq:
  assumes "wf_frame (FrNewConnectionId fr)"
  shows "ngtcp2_pkt_encode_new_connection_id_frame out outlen fr = wr_or_nobuf out outlen (frame_bytes (FrNewConnectionId fr))"
  using assms by (simp add: ngtcp2_pkt_encode_new_connection_id_frame_def wr_or_nobuf_def encode_simps)

lemma encode_stop_sending_eq:
  assumes "wf_frame (FrStopSending fr)"
  shows "ngtcp2_pkt_encode_stop_sending_frame out outlen fr = wr_or_nobuf out outlen (frame_bytes (FrStopSending fr))"
  using assms by (simp add: ngtcp2_pkt_encode_stop_sending_frame_def wr_or_nobuf_def encode_simps)

lemma encode_pong_eq:
  assumes "wf_frame (FrPong fr)"
  shows "ngtcp2_pkt_encode_pong_frame out outlen fr = wr_or_nobuf out outlen (frame_bytes (FrPong fr))"
  using assms by (simp add: ngtcp2_pkt_encode_pong_frame_def wr_or_nobuf_def encode_simps)

lemma encode_padding_eq:
  assumes "wf_frame (FrPadding fr)"
  shows "ngtcp2_pkt_encode_padding_frame out outlen fr = wr_or_nobuf out outlen (frame_bytes (FrPadding fr))"
  using assms by (simp add: ngtcp2_pkt_encode_padding_frame_def wr_or_nobuf_def encode_simps)

lemma encode_stream_eq:
  assumes "wf_frame (FrStream fr)"
  shows "ngtcp2_pkt_encode_stream_frame out outlen fr =
    rbind (wr_or_nobuf out outlen (frame_bytes (FrStream fr)))
      (\<lambda>p. Inr (p, fr\<lparr>st_flags := stream_type fr AND NOT NGTCP2_FRAME_STREAM\<rparr>))"
  using assms varint_len_bounds(2) [of "of_nat (st_datalen fr)"] varint_len_bounds(2) [of "st_offset fr"]
    varint_len_bounds(2) [of "st_stream_id fr"]
  by (cases "st_fin fr"; cases "st_offset fr = 0")
    (simp_all add: ngtcp2_pkt_encode_stream_frame_def wr_or_nobuf_def encode_simps stream_type_def
      rbind_wr_assert add.commute add.left_commute)

lemma ack_blk_bytes_simps [simp]:
  "ack_blk_bytes [] = []"
  "ack_blk_bytes (b # bl) = varint_bytes (gap b) @ varint_bytes (blklen b) @ ack_blk_bytes bl"
  by (simp_all add: ack_blk_bytes_def)

lemma length_ack_blk_bytes: "length (ack_blk_bytes bl) \<le> 16 * length bl"
proof (induction bl)
  case (Cons b bl)
  then show ?case using varint_len_bounds(2) [of "gap b"] varint_len_bounds(2) [of "blklen b"] by simp
qed simp

lemma ack_blks_len_eq:
  assumes "list_all (\<lambda>b. varint_ok (gap b) \<and> varint_ok (blklen b)) bl"
    and "len + 16 * length bl < 2 ^ 64"
  shows "ack_blks_len bl (length bl) len = Inr (len + length (ack_blk_bytes bl))"
  using assms
proof (induction bl arbitrary: len)
  case (Cons b bl)
  have "varint_len (gap b) \<le> 8" "varint_len (blklen b) \<le> 8" by (rule varint_len_bounds)+
  then show ?case using Cons by (simp add: put_varint_ok Let_def)
qed simp

lemma put_ack_blks_eq:
  assumes "list_all (\<lambda>b. varint_ok (gap b) \<and> varint_ok (blklen b)) bl"
  shows "rbind (wr c a) (\<lambda>p. rbind (put_ack_blks bl (length bl) p) k) = rbind (wr c (a @ ack_blk_bytes bl)) k"
  using assms
proof (induction bl arbitrary: a)
  case (Cons b bl)
  then show ?case by (simp add: put_varint_ok rbind_assoc wr_wr_bind)
qed simp

lemma encode_ack_eq:
  assumes "wf_frame (FrAck fr)"
  shows "ngtcp2_pkt_encode_ack_frame out outlen fr = wr_or_nobuf out outlen (frame_bytes (FrAck fr))"
proof -
  let ?n = "of_nat (num_blks fr) :: u64"
  have k: "num_blks fr = length (blks fr)" "length (blks fr) \<le> 255"
    using assms by simp_all
  have n: "varint_ok ?n" by (rule varint_ok_of_nat) (use k in simp)
  have "1 + varint_len (largest_ack fr) + varint_len (ack_delay fr) + varint_len ?n +
      varint_len (first_ack_blklen fr) + 16 * length (blks fr) < 2 ^ 64"
    using k(2) varint_len_bounds(2) [of "largest_ack fr"] varint_len_bounds(2) [of "ack_delay fr"]
      varint_len_bounds(2) [of ?n] varint_len_bounds(2) [of "first_ack_blklen fr"] by simp
  then show ?thesis
    using assms n k(1) unfolding ngtcp2_pkt_encode_ack_frame_def wr_or_nobuf_def
    by (simp add: put_varint_ok ack_blks_len_eq put_ack_blks_eq wr_wr_bind rbind_wr_end)
qed

lemma encode_frame_eq:
  assumes "wf_frame fr"
  shows "ngtcp2_pkt_encode_frame out outlen fr =
    rbind (wr_or_nobuf out outlen (frame_bytes fr)) (\<lambda>p. Inr (p, encoded_frame fr))"
  using assms
  by (cases fr)
    (simp_all add: ngtcp2_pkt_encode_frame_def keep_frame_def encode_stream_eq encode_ack_eq
      encode_padding_eq encode_rst_stream_eq encode_connection_close_eq encode_application_close_eq
      encode_max_data_eq encode_max_stream_data_eq encode_max_stream_id_eq encode_ping_eq
      encode_blocked_eq encode_stream_blocked_eq encode_stream_id_blocked_eq
      encode_new_connection_id_eq encode_stop_sending_eq encode_pong_eq rbind_assoc
      wf_frame.simps(17) del: frame_bytes.simps wf_frame.simps(1-16))

section \<open>Decoding what was encoded\<close>

lemma frame_varint_len_at:
  assumes "holds_at payload p (varint_bytes v)" and "varint_ok v"
    and "len + varint_len v - 1 \<le> length payload" and "length payload < 2 ^ 63"
  shows "frame_varint_len payload p len = Inr (varint_len v, len + varint_len v - 1)"
proof -
  have "1 \<le> varint_len v" "varint_len v \<le> 8" by (rule varint_len_bounds)+
  then show ?thesis
    using assms get_varint_at(2) [OF assms(1,2)] by (simp add: frame_varint_len_def Let_def)
qed

lemmas decode_at_simps = frame_varint_len_at get_varint_at get_uint_at rdn_at varint_ok_of_nat

lemma decode_rst_stream_at:
  assumes "wf_frame (FrRstStream fr)" and "holds_at payload 0 (frame_bytes (FrRstStream fr))"
    and "length payload < 2 ^ 63"
  shows "ngtcp2_pkt_decode_rst_stream_frame payload = Inr (fr, length (frame_bytes (FrRstStream fr)))"
  using assms holds_at_len [OF assms(2)]
    varint_len_bounds(1) [of "rst_stream_id fr"] varint_len_bounds(1) [of "rst_final_offset fr"]
  by (simp add: holds_at_simps, elim conjE) (simp add: ngtcp2_pkt_decode_rst_stream_frame_def decode_at_simps Let_def)

lemma decode_max_data_at:
  assumes "wf_frame (FrMaxData fr)" and "holds_at payload 0 (frame_bytes (FrMaxData fr))"
    and "length payload < 2 ^ 63"
  shows "ngtcp2_pkt_decode_max_data_frame payload = Inr (fr, length (frame_bytes (FrMaxData fr)))"
  using assms holds_at_len [OF assms(2)]
    varint_len_bounds(1) [of "md_max_data fr"]
  by (simp add: holds_at_simps, elim conjE) (simp add: ngtcp2_pkt_decode_max_data_frame_def decode_at_simps Let_def)

lemma decode_max_stream_data_at:
  assumes "wf_frame (FrMaxStreamData fr)" and "holds_at payload 0 (frame_bytes (FrMaxStreamData fr))"
    and "length payload < 2 ^ 63"
  shows "ngtcp2_pkt_decode_max_stream_data_frame payload = Inr (fr, length (frame_bytes (FrMaxStreamData fr)))"
  using assms holds_at_len [OF assms(2)]
    varint_len_bounds(1) [of "msd_stream_id fr"] varint_len_bounds(1) [of "msd_max_stream_data fr"]
  by (simp add: holds_at_simps, elim conjE) (simp add: ngtcp2_pkt_decode_max_stream_data_frame_def decode_at_simps Let_def)

lemma decode_max_stream_id_at:
  assumes "wf_frame (FrMaxStreamId fr)" and "holds_at payload 0 (frame_bytes (FrMaxStreamId fr))"
    and "length payload < 2 ^ 63"
  shows "ngtcp2_pkt_decode_max_stream_id_frame payload = Inr (fr, length (frame_bytes (FrMaxStreamId fr)))"
  using assms holds_at_len [OF assms(2)]
    varint_len_bounds(1) [of "msi_max_stream_id fr"]
  by (simp add: holds_at_simps, elim conjE) (simp add: ngtcp2_pkt_decode_max_stream_id_frame_def decode_at_simps Let_def)

lemma decode_blocked_at:
  assumes "wf_frame (FrBlocked fr)" and "holds_at payload 0 (frame_bytes (FrBlocked fr))"
    and "length payload < 2 ^ 63"
  shows "ngtcp2_pkt_decode_blocked_frame payload = Inr (fr, length (frame_bytes (FrBlocked fr)))"
  using assms holds_at_len [OF assms(2)]
    varint_len_bounds(1) [of "bl_offset fr"]
  by (simp add: holds_at_simps, elim conjE) (simp add: ngtcp2_pkt_decode_blocked_frame_def decode_at_simps Let_def)

lemma decode_stream_blocked_at:
  assumes "wf_frame (FrStreamBlocked fr)" and "holds_at payload 0 (frame_bytes (FrStreamBlocked fr))"
    and "length payload < 2 ^ 63"
  shows "ngtcp2_pkt_decode_stream_blocked_frame payload = Inr (fr, length (frame_bytes (FrStreamBlocked fr)))"
  using assms holds_at_len [OF assms(2)]
    varint_len_bounds(1) [of "sb_stream_id fr"] varint_len_bounds(1) [of "sb_offset fr"]
  by (simp add: holds_at_simps, elim conjE) (simp add: ngtcp2_pkt_decode_stream_blocked_frame_def decode_at_simps Let_def)

lemma decode_stream_id_blocked_at:
  assumes "wf_frame (FrStreamIdBlocked fr)" and "holds_at payload 0 (frame_bytes (FrStreamIdBlocked fr))"
    and "length payload < 2 ^ 63"
  shows "ngtcp2_pkt_decode_stream_id_blocked_frame payload = Inr (fr, length (frame_bytes (FrStreamIdBlocked fr)))"
  using assms holds_at_len [OF assms(2)]
    varint_len_bounds(1) [of "sib_stream_id fr"]
  by (simp add: holds_at_simps, elim conjE) (simp add: ngtcp2_pkt_decode_stream_id_blocked_frame_def decode_at_simps Let_def)

lemma decode_stop_sending_at:
  assumes "wf_frame (FrStopSending fr)" and "holds_at payload 0 (frame_bytes (FrStopSending fr))"
    and "length payload < 2 ^ 63"
  shows "ngtcp2_pkt_decode_stop_sending_frame payload = Inr (fr, length (frame_bytes (FrStopSending fr)))"
  using assms holds_at_len [OF assms(2)]
    varint_len_bounds(1) [of "ss_stream_id fr"]
  by (simp add: holds_at_simps, elim conjE) (simp add: ngtcp2_pkt_decode_stop_sending_frame_def decode_at_simps Let_def)

lemma decode_connection_close_at:
  assumes "wf_frame (FrConnectionClose fr)" and "holds_at payload 0 (frame_bytes (FrConnectionClose fr))"
    and "length payload < 2 ^ 63"
  shows "ngtcp2_pkt_decode_connection_close_frame payload = Inr (fr, length (frame_bytes (FrConnectionClose fr)))"
  using assms holds_at_len [OF assms(2)] varint_len_bounds(1) [of "of_nat (cc_reasonlen fr)"]
  by (simp add: holds_at_simps, elim conjE,
      simp add: ngtcp2_pkt_decode_connection_close_frame_def decode_at_simps Let_def numeral_3_eq_3)
    (auto simp: holds_at_def intro!: ngtcp2_connection_close.equality)

lemma decode_application_close_at:
  assumes "wf_frame (FrApplicationClose fr)" and "holds_at payload 0 (frame_bytes (FrApplicationClose fr))"
    and "length payload < 2 ^ 63"
  shows "ngtcp2_pkt_decode_application_close_frame payload = Inr (fr, length (frame_bytes (FrApplicationClose fr)))"
  using assms holds_at_len [OF assms(2)] varint_len_bounds(1) [of "of_nat (ac_reasonlen fr)"]
  by (simp add: holds_at_simps, elim conjE,
      simp add: ngtcp2_pkt_decode_application_close_frame_def decode_at_simps Let_def numeral_3_eq_3)
    (auto simp: holds_at_def intro!: ngtcp2_application_close.equality)

lemma decode_ping_at:
  assumes "wf_frame (FrPing fr)" and "holds_at payload 0 (frame_bytes (FrPing fr))"
  shows "ngtcp2_pkt_decode_ping_frame payload = Inr (fr, length (frame_bytes (FrPing fr)))"
proof -
  have "unat (of_nat (ping_datalen fr) :: u8) = ping_datalen fr"
    using assms(1) by (simp add: unat_of_nat take_bit_nat_eq_self)
  then show ?thesis
    using assms holds_at_len [OF assms(2)]
    by (simp add: holds_at_simps, elim conjE,
        simp add: ngtcp2_pkt_decode_ping_frame_def decode_at_simps Let_def numeral_2_eq_2)
      (auto simp: holds_at_def intro!: ngtcp2_ping.equality)
qed

lemma decode_pong_at:
  assumes "wf_frame (FrPong fr)" and "holds_at payload 0 (frame_bytes (FrPong fr))"
  shows "ngtcp2_pkt_decode_pong_frame payload = Inr (fr, length (frame_bytes (FrPong fr)))"
proof -
  have "unat (of_nat (pong_datalen fr) :: u8) = pong_datalen fr"
    using assms(1) by (simp add: unat_of_nat take_bit_nat_eq_self)
  then show ?thesis
    using assms holds_at_len [OF assms(2)]
    by (simp add: holds_at_simps, elim conjE,
        simp add: ngtcp2_pkt_decode_pong_frame_def decode_at_simps Let_def numeral_2_eq_2)
      (auto simp: holds_at_def intro!: ngtcp2_pong.equality)
qed

lemma decode_new_connection_id_at:
  assumes "wf_frame (FrNewConnectionId fr)" and "holds_at payload 0 (frame_bytes (FrNewConnectionId fr))"
    and "length payload < 2 ^ 63"
  shows "ngtcp2_pkt_decode_new_connection_id_frame payload =
    Inr (fr, length (frame_bytes (FrNewConnectionId fr)))"
proof -
  let ?v = "ucast (nci_seq fr) :: u64"
  have "ucast ?v = nci_seq fr" by (rule bit_word_eqI) (simp add: bit_ucast_iff)
  moreover have "varint_ok ?v" by (rule varint_ok_ucast)
  ultimately show ?thesis
    using assms holds_at_len [OF assms(2)] varint_len_bounds(1) [of ?v]
    by (simp add: holds_at_simps del: unsigned_ucast_eq, elim conjE,
        simp add: ngtcp2_pkt_decode_new_connection_id_frame_def decode_at_simps Let_def
          del: unsigned_ucast_eq)
      (auto simp: holds_at_def intro!: ngtcp2_new_connection_id.equality)
qed

lemma stream_type_bits:
  "stream_type fr AND NGTCP2_STREAM_OFF_BIT = 0 \<longleftrightarrow> st_offset fr = 0"
  "stream_type fr AND NGTCP2_STREAM_LEN_BIT \<noteq> 0"
  "stream_type fr AND NGTCP2_STREAM_FIN_BIT = 0 \<longleftrightarrow> \<not> st_fin fr"
  "has_mask (stream_type fr) NGTCP2_FRAME_STREAM"
  by (simp_all add: stream_type_def has_mask_def)

lemma decode_stream_at:
  assumes wf: "wf_frame (FrStream fr)" and at: "holds_at payload 0 (frame_bytes (FrStream fr))"
    and l: "length payload < 2 ^ 63"
  shows "ngtcp2_pkt_decode_stream_frame payload =
    Inr (fr\<lparr>st_flags := stream_type fr AND NOT NGTCP2_FRAME_STREAM\<rparr>, length (frame_bytes (FrStream fr)))"
proof -
  let ?dl = "of_nat (st_datalen fr) :: u64"
  let ?m = "varint_len (st_stream_id fr)" and ?d = "varint_len ?dl"
  have dl: "varint_ok ?dl" "unat ?dl = st_datalen fr" "length (st_data fr) = st_datalen fr"
    using wf by (simp_all add: varint_ok_of_nat)
  have ok: "varint_ok (st_stream_id fr)" "varint_ok (st_offset fr)" using wf by simp_all
  have rd: "rd payload 0 = Inr (stream_type fr)" using at by (simp add: holds_at_simps)
  have at1: "holds_at payload 1 (varint_bytes (st_stream_id fr))" using at by (simp add: holds_at_simps)
  note b = varint_len_bounds(1) [of "st_stream_id fr"] varint_len_bounds(1) [of ?dl]
    varint_len_bounds(1) [of "st_offset fr"]
  show ?thesis
  proof (cases "st_offset fr = 0")
    case True
    have at3: "holds_at payload (1 + ?m) (varint_bytes ?dl)"
      and at4: "holds_at payload (1 + ?m + ?d) (st_data fr)"
      using at True by (simp_all add: holds_at_simps)
    have len: "1 + ?m + ?d + st_datalen fr \<le> length payload" using holds_at_len [OF at4] dl by simp
    have f: "frame_varint_len payload 1 2 = Inr (?m, 1 + ?m)"
      "frame_varint_len payload (1 + ?m) (2 + ?m) = Inr (?d, 1 + ?m + ?d)"
      using frame_varint_len_at [OF at1 ok(1), of 2] frame_varint_len_at [OF at3 dl(1), of "2 + ?m"]
        len l b by simp_all
    show ?thesis
      unfolding ngtcp2_pkt_decode_stream_frame_def
      using len l b True f dl get_varint_at(1) [OF at1 ok(1)] get_varint_at(1) [OF at3 dl(1)]
        rdn_at [OF at4 refl]
      by (simp add: rd Let_def stream_type_bits)
  next
    case False
    let ?o = "varint_len (st_offset fr)"
    have at2: "holds_at payload (1 + ?m) (varint_bytes (st_offset fr))"
      and at3: "holds_at payload (1 + ?m + ?o) (varint_bytes ?dl)"
      and at4: "holds_at payload (1 + ?m + ?o + ?d) (st_data fr)"
      using at False by (simp_all add: holds_at_simps)
    have len: "1 + ?m + ?o + ?d + st_datalen fr \<le> length payload" using holds_at_len [OF at4] dl by simp
    have f: "frame_varint_len payload 1 2 = Inr (?m, 1 + ?m)"
      "frame_varint_len payload (1 + ?m) (2 + ?m) = Inr (?o, 1 + ?m + ?o)"
      "frame_varint_len payload (1 + ?m + ?o) (2 + ?m + ?o) = Inr (?d, 1 + ?m + ?o + ?d)"
      using frame_varint_len_at [OF at1 ok(1), of 2] frame_varint_len_at [OF at2 ok(2), of "2 + ?m"]
        frame_varint_len_at [OF at3 dl(1), of "2 + ?m + ?o"] len l b by simp_all
    show ?thesis
      unfolding ngtcp2_pkt_decode_stream_frame_def
      using len l b False f dl get_varint_at(1) [OF at1 ok(1)] get_varint_at(1) [OF at2 ok(2)]
        get_varint_at(1) [OF at3 dl(1)] rdn_at [OF at4 refl]
      by (simp add: rd Let_def stream_type_bits)
  qed
qed

lemma length_ack_blk_bytes_ge: "2 * length bl \<le> length (ack_blk_bytes bl)"
proof (induction bl)
  case (Cons b bl)
  then show ?case using varint_len_bounds(1) [of "gap b"] varint_len_bounds(1) [of "blklen b"] by simp
qed simp

lemma check_ack_blks_at:
  assumes "list_all (\<lambda>b. varint_ok (gap b) \<and> varint_ok (blklen b)) bl"
    and "holds_at payload p (ack_blk_bytes bl)" and "length payload < 2 ^ 63"
    and "len = p + 2 * length bl"
  shows "check_ack_blks payload (length bl) p len =
    Inr (p + length (ack_blk_bytes bl), p + length (ack_blk_bytes bl))"
  using assms
proof (induction bl arbitrary: p len)
  case (Cons b bl)
  let ?m = "varint_len (gap b)" and ?n = "varint_len (blklen b)"
  have at: "holds_at payload p (varint_bytes (gap b))"
    "holds_at payload (p + ?m) (varint_bytes (blklen b))"
    "holds_at payload (p + ?m + ?n) (ack_blk_bytes bl)"
    using Cons.prems(2) by (simp_all add: holds_at_append add.assoc)
  have "p + ?m + ?n + 2 * length bl \<le> length payload"
    using holds_at_len [OF at(3)] length_ack_blk_bytes_ge [of bl] by simp
  moreover have "1 \<le> ?m" "1 \<le> ?n" by (rule varint_len_bounds)+
  ultimately show ?case
    using Cons.prems Cons.IH [OF _ at(3) assms(3), of "p + 2 * length bl + ?m + ?n"]
    by (simp add: frame_varint_len_at [OF at(1)] frame_varint_len_at [OF at(2)] Let_def add.assoc)
qed simp

lemma read_ack_blks_at:
  assumes "list_all (\<lambda>b. varint_ok (gap b) \<and> varint_ok (blklen b)) bl"
    and "holds_at payload p (ack_blk_bytes bl)"
  shows "read_ack_blks payload (length bl) p = Inr (bl, p + length (ack_blk_bytes bl))"
  using assms
proof (induction bl arbitrary: p)
  case (Cons b bl)
  have at: "holds_at payload p (varint_bytes (gap b))"
    "holds_at payload (p + varint_len (gap b)) (varint_bytes (blklen b))"
    "holds_at payload (p + varint_len (gap b) + varint_len (blklen b)) (ack_blk_bytes bl)"
    using Cons.prems(2) by (simp_all add: holds_at_append add.assoc)
  then show ?case
    using Cons.prems Cons.IH [OF _ at(3)]
    by (simp add: get_varint_at [OF at(1)] get_varint_at [OF at(2)] Let_def)
qed simp

lemma decode_ack_at:
  assumes wf: "wf_frame (FrAck fr)" and at: "holds_at payload 0 (frame_bytes (FrAck fr))"
    and l: "length payload < 2 ^ 63"
  shows "ngtcp2_pkt_decode_ack_frame payload = Inr (fr, length (frame_bytes (FrAck fr)))"
proof -
  let ?nb = "of_nat (num_blks fr) :: u64"
  let ?a = "varint_len (largest_ack fr)" and ?d = "varint_len (ack_delay fr)" and ?n = "varint_len ?nb"
    and ?f = "varint_len (first_ack_blklen fr)" and ?L = "length (ack_blk_bytes (blks fr))"
  have k: "length (blks fr) = num_blks fr" "num_blks fr \<le> 255" using wf by simp_all
  have small: "num_blks fr < 2 ^ 62" using k(2) by simp
  note nb = varint_ok_of_nat [OF small]
  have ok: "varint_ok (largest_ack fr)" "varint_ok (ack_delay fr)" "varint_ok (first_ack_blklen fr)"
    and okb: "list_all (\<lambda>b. varint_ok (gap b) \<and> varint_ok (blklen b)) (blks fr)"
    using wf by simp_all
  have at1: "holds_at payload 1 (varint_bytes (largest_ack fr))"
    and at2: "holds_at payload (1 + ?a) (varint_bytes (ack_delay fr))"
    and at3: "holds_at payload (1 + ?a + ?d) (varint_bytes ?nb)"
    and at4: "holds_at payload (1 + ?a + ?d + ?n) (varint_bytes (first_ack_blklen fr))"
    and at5: "holds_at payload (1 + ?a + ?d + ?n + ?f) (ack_blk_bytes (blks fr))"
    using at by (simp_all add: holds_at_simps)
  have len: "1 + ?a + ?d + ?n + ?f + ?L \<le> length payload" using holds_at_len [OF at5] by simp
  have L: "2 * num_blks fr \<le> ?L" using length_ack_blk_bytes_ge [of "blks fr"] k(1) by simp
  have b: "1 \<le> ?a" "1 \<le> ?d" "1 \<le> ?n" "1 \<le> ?f" by (rule varint_len_bounds)+
  let ?k = "2 * num_blks fr"
  have f: "frame_varint_len payload 1 5 = Inr (?a, 4 + ?a)"
    "frame_varint_len payload (1 + ?a) (4 + ?a) = Inr (?d, 3 + ?a + ?d)"
    "frame_varint_len payload (1 + ?a + ?d) (3 + ?a + ?d) = Inr (?n, 2 + ?a + ?d + ?n)"
    "frame_varint_len payload (1 + ?a + ?d + ?n) (2 + ?a + ?d + ?n + ?k) =
       Inr (?f, 1 + ?a + ?d + ?n + ?f + ?k)"
    using frame_varint_len_at [OF at1 ok(1), of 5] frame_varint_len_at [OF at2 ok(2), of "4 + ?a"]
      frame_varint_len_at [OF at3 nb(1), of "3 + ?a + ?d"]
      frame_varint_len_at [OF at4 ok(3), of "2 + ?a + ?d + ?n + ?k"] len L l b by simp_all
  have c: "check_ack_blks payload (num_blks fr) (1 + ?a + ?d + ?n + ?f) (1 + ?a + ?d + ?n + ?f + ?k) =
      Inr (1 + ?a + ?d + ?n + ?f + ?L, 1 + ?a + ?d + ?n + ?f + ?L)"
    using check_ack_blks_at [OF okb at5 l refl] k(1) by simp
  have r: "read_ack_blks payload (num_blks fr) (1 + ?a + ?d + ?n + ?f) =
      Inr (blks fr, 1 + ?a + ?d + ?n + ?f + ?L)"
    using read_ack_blks_at [OF okb at5] k(1) by simp
  have z: "szadd (2 + ?a + ?d + ?n) (szmul (unat ?nb) 2) = 2 + ?a + ?d + ?n + ?k"
    using len L l k(2) nb(2) by simp
  have s: "(length payload < 5) = False" "(length payload < 2 + ?a + ?d + ?n + ?k) = False" using len b L by simp_all
  have m: "min 255 (num_blks fr) = num_blks fr" using k(2) by simp
  note g = get_varint_at(1) [OF at1 ok(1)] get_varint_at(1) [OF at2 ok(2)] get_varint_at [OF at3 nb(1)]
    get_varint_at(1) [OF at4 ok(3)]
  show ?thesis
    unfolding ngtcp2_pkt_decode_ack_frame_def Let_def
    by (simp only: f c g z s rbind_simps prod.case if_False) (simp add: nb(2) m r [simplified] c [simplified] k)
qed

text \<open>Contiguous PADDING frames are one frame for the decoder: the byte after the padding is not 0.\<close>

lemma decode_padding_at:
  assumes "0 < pad_len fr" and "rest = [] \<or> hd rest \<noteq> 0"
  shows "ngtcp2_pkt_decode_padding_frame (replicate (pad_len fr) 0 @ rest) = Inr (fr, pad_len fr)"
proof -
  obtain k where k: "pad_len fr = Suc k" using assms(1) gr0_conv_Suc by auto
  have "takeWhile (\<lambda>b. b = 0) (replicate k 0 @ rest) = replicate k 0"
    using assms(2) by (cases rest) (simp_all add: takeWhile_append)
  then show ?thesis using k by (simp add: ngtcp2_pkt_decode_padding_frame_def Let_def)
qed

definition may_follow :: "ngtcp2_frame \<Rightarrow> bytes \<Rightarrow> bool" where
  "may_follow fr rest = (case fr of FrPadding _ \<Rightarrow> rest = [] \<or> hd rest \<noteq> 0 | _ \<Rightarrow> True)"

lemma decode_frame_at:
  assumes wf: "wf_frame fr" and nx: "may_follow fr rest"
    and l: "length (frame_bytes fr @ rest) < 2 ^ 63"
  shows "ngtcp2_pkt_decode_frame (frame_bytes fr @ rest) =
    Inr (Some (encoded_frame fr), length (frame_bytes fr))"
proof -
  note at = holds_at_prefix [of "frame_bytes fr" rest]
  show ?thesis
  proof (cases fr)
    case (FrStream x)
    then show ?thesis
      using decode_stream_at [of x] wf at l stream_type_bits(4) [of x]
      by (simp add: ngtcp2_pkt_decode_frame_def as_frame_def)
  next
    case (FrAck x)
    then show ?thesis
      using decode_ack_at [of x] wf at l
      by (simp add: ngtcp2_pkt_decode_frame_def as_frame_def has_mask_def)
  next
    case (FrPadding x)
    then have "0 < pad_len x" "rest = [] \<or> hd rest \<noteq> 0" using wf nx by (auto simp: may_follow_def)
    then show ?thesis
      using decode_padding_at [of x rest] FrPadding
      by (cases "pad_len x") (simp_all add: ngtcp2_pkt_decode_frame_def as_frame_def has_mask_def)
  next
    case (FrRstStream x)
    then show ?thesis
      using decode_rst_stream_at [of x] wf at l
      by (simp add: ngtcp2_pkt_decode_frame_def as_frame_def has_mask_def)
  next
    case (FrConnectionClose x)
    then show ?thesis
      using decode_connection_close_at [of x] wf at l
      by (simp add: ngtcp2_pkt_decode_frame_def as_frame_def has_mask_def)
  next
    case (FrApplicationClose x)
    then show ?thesis
      using decode_application_close_at [of x] wf at l
      by (simp add: ngtcp2_pkt_decode_frame_def as_frame_def has_mask_def)
  next
    case (FrMaxData x)
    then show ?thesis
      using decode_max_data_at [of x] wf at l
      by (simp add: ngtcp2_pkt_decode_frame_def as_frame_def has_mask_def)
  next
    case (FrMaxStreamData x)
    then show ?thesis
      using decode_max_stream_data_at [of x] wf at l
      by (simp add: ngtcp2_pkt_decode_frame_def as_frame_def has_mask_def)
  next
    case (FrMaxStreamId x)
    then show ?thesis
      using decode_max_stream_id_at [of x] wf at l
      by (simp add: ngtcp2_pkt_decode_frame_def as_frame_def has_mask_def)
  next
    case (FrPing x)
    then show ?thesis
      using decode_ping_at [of x] wf at l
      by (simp add: ngtcp2_pkt_decode_frame_def as_frame_def has_mask_def)
  next
    case (FrBlocked x)
    then show ?thesis
      using decode_blocked_at [of x] wf at l
      by (simp add: ngtcp2_pkt_decode_frame_def as_frame_def has_mask_def)
  next
    case (FrStreamBlocked x)
    then show ?thesis
      using decode_stream_blocked_at [of x] wf at l
      by (simp add: ngtcp2_pkt_decode_frame_def as_frame_def has_mask_def)
  next
    case (FrStreamIdBlocked x)
    then show ?thesis
      using decode_stream_id_blocked_at [of x] wf at l
      by (simp add: ngtcp2_pkt_decode_frame_def as_frame_def has_mask_def)
  next
    case (FrNewConnectionId x)
    then show ?thesis
      using decode_new_connection_id_at [of x] wf at l
      by (simp add: ngtcp2_pkt_decode_frame_def as_frame_def has_mask_def)
  next
    case (FrStopSending x)
    then show ?thesis
      using decode_stop_sending_at [of x] wf at l
      by (simp add: ngtcp2_pkt_decode_frame_def as_frame_def has_mask_def)
  next
    case (FrPong x)
    then show ?thesis
      using decode_pong_at [of x] wf at l
      by (simp add: ngtcp2_pkt_decode_frame_def as_frame_def has_mask_def)
  next
    case (FrOther t)
    then show ?thesis using wf by simp
  qed
qed

section \<open>The frames of a packet\<close>

text \<open>
  The loop \<^verbatim>\<open>for (; payloadlen;)\<close> by which the packet handlers of \<^verbatim>\<open>lib/ngtcp2_conn.c\<close> take a payload
  apart: each pass decodes one frame and moves behind it. The handling of a frame is left out.
  \<open>None\<close>: the passes allowed did not suffice.
\<close>

fun frame_loop :: "(bytes \<Rightarrow> ('f option \<times> nat) res) \<Rightarrow> nat \<Rightarrow> bytes \<Rightarrow> 'f list res option" where
  "frame_loop dec 0 payload = (if payload = [] then Some (Inr []) else None)"
| "frame_loop dec (Suc k) payload =
     (if payload = [] then Some (Inr [])
      else case dec payload of
             Inl e \<Rightarrow> Some (Inl e)
           | Inr (fr, nread) \<Rightarrow>
               map_option (\<lambda>r. rbind r (\<lambda>fs. Inr (case fr of None \<Rightarrow> fs | Some f \<Rightarrow> f # fs)))
                 (frame_loop dec k (drop nread payload)))"

text \<open>
  What the loop needs of a frame codec, on any type of frames: a decoded frame takes at least one
  byte and no more than there are, and an encoded frame is decoded whatever admissible bytes follow.
\<close>

locale frame_codec =
  fixes enc :: "'f \<Rightarrow> bytes" and dec :: "bytes \<Rightarrow> ('f option \<times> nat) res"
    and wf :: "'f \<Rightarrow> bool" and follow :: "'f \<Rightarrow> bytes \<Rightarrow> bool" and canon :: "'f \<Rightarrow> 'f"
    and good :: "'f \<Rightarrow> bool" and maxlen :: nat
  assumes dec_safe: "payload \<noteq> [] \<Longrightarrow> length payload < maxlen \<Longrightarrow>
      rspec (dec payload) (\<lambda>(fr, n). \<exists>f. fr = Some f \<and> good f \<and> 0 < n \<and> n \<le> length payload)"
    and enc_nonempty: "wf f \<Longrightarrow> enc f \<noteq> []"
    and dec_enc: "wf f \<Longrightarrow> follow f rest \<Longrightarrow> length (enc f @ rest) < maxlen \<Longrightarrow>
      dec (enc f @ rest) = Inr (Some (canon f), length (enc f))"
begin

lemma loop_returns:
  assumes "length payload \<le> k" and "length payload < maxlen"
  shows "\<exists>r. frame_loop dec k payload = Some r \<and> rspec r (list_all good)"
  using assms
proof (induction k arbitrary: payload)
  case (Suc k)
  show ?case
  proof (cases "payload = []")
    case False
    note safe = dec_safe [OF False Suc.prems(2)]
    show ?thesis
    proof (cases "dec payload")
      case (Inl e)
      with safe show ?thesis using False by (simp add: rspec_def)
    next
      case (Inr a)
      with safe obtain f n where d: "dec payload = Inr (Some f, n)" "good f" "0 < n" "n \<le> length payload"
        by (cases a) auto
      have dl: "length (drop n payload) \<le> k" "length (drop n payload) < maxlen"
        using Suc.prems d(3,4) by auto
      obtain r where "frame_loop dec k (drop n payload) = Some r" "rspec r (list_all good)"
        using Suc.IH [OF dl] by blast
      then show ?thesis using d False by (cases r) (auto simp: rspec_def)
    qed
  qed simp
qed simp

fun followed :: "'f list \<Rightarrow> bool" where
  "followed [] = True"
| "followed (f # fs) = (follow f (concat (map enc fs)) \<and> followed fs)"

lemma loop_enc:
  assumes "list_all wf fs" and "followed fs" and "length (concat (map enc fs)) < maxlen"
    and "length fs \<le> k"
  shows "frame_loop dec k (concat (map enc fs)) = Some (Inr (map canon fs))"
  using assms
proof (induction fs arbitrary: k)
  case Nil
  then show ?case by (cases k) simp_all
next
  case (Cons f fs)
  then obtain k' where k: "k = Suc k'" "length fs \<le> k'" by (cases k) auto
  have "dec (enc f @ concat (map enc fs)) = Inr (Some (canon f), length (enc f))"
    using Cons.prems by (intro dec_enc) simp_all
  moreover have "frame_loop dec k' (concat (map enc fs)) = Some (Inr (map canon fs))"
    using Cons.IH Cons.prems k by simp
  ultimately show ?case using Cons.prems enc_nonempty [of f] k by simp
qed

end

lemma frame_bytes_nonempty: "wf_frame fr \<Longrightarrow> frame_bytes fr \<noteq> []"
  by (cases fr) auto

interpretation frames: frame_codec frame_bytes ngtcp2_pkt_decode_frame wf_frame may_follow
  encoded_frame frame_lengths "2 ^ 63"
  by unfold_locales (rule decode_frame_rspec frame_bytes_nonempty decode_frame_at; assumption)+

fun no_adjacent_padding :: "ngtcp2_frame list \<Rightarrow> bool" where
  "no_adjacent_padding (FrPadding x # FrPadding y # fs) = False"
| "no_adjacent_padding (f # fs) = no_adjacent_padding fs"
| "no_adjacent_padding [] = True"

lemma hd_frame_bytes:
  assumes "wf_frame fr" and "\<And>x. fr \<noteq> FrPadding x"
  shows "hd (frame_bytes fr @ rest) \<noteq> 0"
  using assms by (cases fr) (auto simp: stream_type_def)

lemma followed_no_adjacent_padding:
  assumes "list_all wf_frame fs" and "no_adjacent_padding fs"
  shows "frames.followed fs"
  using assms
proof (induction fs)
  case (Cons f fs)
  have "no_adjacent_padding fs"
    using Cons.prems(2) by (cases "(f # fs)" rule: no_adjacent_padding.cases) simp_all
  moreover have "may_follow f (concat (map frame_bytes fs))"
  proof (cases f)
    case (FrPadding x)
    show ?thesis
    proof (cases fs)
      case (Cons g gs)
      have "g \<noteq> FrPadding y" for y using Cons.prems FrPadding Cons by auto
      then show ?thesis
        using hd_frame_bytes [of g] Cons Cons.prems FrPadding by (simp add: may_follow_def)
    qed (simp add: may_follow_def FrPadding)
  qed (simp_all add: may_follow_def)
  ultimately show ?case using Cons by simp
qed simp

section \<open>Properties\<close>

text \<open>
  C20. Frame round trip: every well-formed frame of the sixteen kinds, encoded at any position of a buffer
  with enough room, occupies exactly the bytes of its wire format and touches no others; decoding
  from that position gives back the frame (as the encoder left it) and its length, whatever
  follows it in the buffer (padding must not be followed by more padding).
\<close>

theorem frame_roundtrip:
  assumes "wf_frame fr" and "length (frame_bytes fr) \<le> outlen" and "pos + outlen \<le> length buf"
    and "length buf < 2 ^ 63" and "may_follow fr (drop (pos + length (frame_bytes fr)) buf)"
  shows "\<exists>buf'. ngtcp2_pkt_encode_frame (buf, pos) outlen fr =
            Inr ((buf', pos + length (frame_bytes fr)), encoded_frame fr) \<and>
          length buf' = length buf \<and> take pos buf' = take pos buf \<and>
          drop (pos + length (frame_bytes fr)) buf' = drop (pos + length (frame_bytes fr)) buf \<and>
          ngtcp2_pkt_decode_frame (drop pos buf') =
            Inr (Some (encoded_frame fr), length (frame_bytes fr))"
proof -
  let ?bs = "frame_bytes fr" and ?rest = "drop (pos + length (frame_bytes fr)) buf"
  let ?buf = "take pos buf @ ?bs @ ?rest"
  have "ngtcp2_pkt_encode_frame (buf, pos) outlen fr =
      Inr ((?buf, pos + length ?bs), encoded_frame fr)"
    using assms(1-3) by (simp add: encode_frame_eq wr_or_nobuf_def wr_def)
  moreover have "ngtcp2_pkt_decode_frame (?bs @ ?rest) = Inr (Some (encoded_frame fr), length ?bs)"
    using assms by (intro decode_frame_at) auto
  ultimately show ?thesis using assms(2,3)
    by (intro exI [of _ ?buf]) (simp add: min_absorb2)
qed

theorem frame_roundtrip_witness:
  "\<exists>buf'. ngtcp2_pkt_encode_frame (replicate 9 7, 1) 8 (FrMaxData \<lparr>md_max_data = 300\<rparr>) =
       Inr ((buf', 4), FrMaxData \<lparr>md_max_data = 300\<rparr>) \<and>
     ngtcp2_pkt_decode_frame (drop 1 buf') = Inr (Some (FrMaxData \<lparr>md_max_data = 300\<rparr>), 3)"
  using frame_roundtrip [of "FrMaxData \<lparr>md_max_data = 300\<rparr>" 8 1 "replicate 9 7"]
  by (auto simp: varint_len_eq may_follow_def)



text \<open>
  Packet payload round trip: the concatenated encodings of any sequence of well-formed frames (no two
  PADDING frames next to each other) are taken apart by the frame loop into the same sequence.
\<close>

theorem payload_roundtrip:
  assumes "list_all wf_frame fs" and "no_adjacent_padding fs"
    and "length (concat (map frame_bytes fs)) < 2 ^ 63" and "length fs \<le> k"
  shows "frame_loop ngtcp2_pkt_decode_frame k (concat (map frame_bytes fs)) =
         Some (Inr (map encoded_frame fs))"
  using frames.loop_enc followed_no_adjacent_padding assms by blast

theorem payload_roundtrip_witness:
  "frame_loop ngtcp2_pkt_decode_frame 2 (concat (map frame_bytes
       [FrMaxData \<lparr>md_max_data = 300\<rparr>, FrPadding \<lparr>pad_len = 3\<rparr>])) =
     Some (Inr [FrMaxData \<lparr>md_max_data = 300\<rparr>, FrPadding \<lparr>pad_len = 3\<rparr>])"
  using payload_roundtrip [of "[FrMaxData \<lparr>md_max_data = 300\<rparr>, FrPadding \<lparr>pad_len = 3\<rparr>]" 2]
  by (simp add: varint_len_eq)

text \<open>
  C22. The frame loop ends on every payload, however malformed: as many passes as the payload has bytes
  suffice, and the outcome is an error code or a list of frames with consistent length fields.
\<close>

theorem payload_loop_ends:
  assumes "length payload < 2 ^ 63"
  shows "\<exists>r. frame_loop ngtcp2_pkt_decode_frame (length payload) payload = Some r \<and>
             rspec r (list_all frame_lengths)"
  using frames.loop_returns assms by blast

theorem payload_loop_ends_witness:
  "\<exists>r. frame_loop ngtcp2_pkt_decode_frame (length [0x1f :: u8, 0, 0, 0]) [0x1f, 0, 0, 0] = Some r \<and>
       rspec r (list_all frame_lengths)"
  by (rule payload_loop_ends) simp

end
