(* ===== verification/Pkt_Misc.thy ===== *)
theory Pkt_Misc
  imports Pkt_Encode
begin

text \<open>
  \<^verbatim>\<open>lib/ngtcp2_pkt.c\<close>, last part: Version Negotiation and Stateless Reset packets, the recovery of a full
  packet number from the truncated one, and the validation of ACK frames.
\<close>

section \<open>Version Negotiation\<close>

fun put_versions :: "u32 list \<Rightarrow> cursor \<Rightarrow> cursor res" where
  "put_versions [] p = Inr p"
| "put_versions (v # sv) p = rbind (ngtcp2_put_uint32be p v) (put_versions sv)"

definition ngtcp2_pkt_write_version_negotiation ::
    "cursor \<Rightarrow> nat \<Rightarrow> u8 \<Rightarrow> u64 \<Rightarrow> u32 list \<Rightarrow> cursor res" where
  "ngtcp2_pkt_write_version_negotiation dest destlen unused_random conn_id sv =
     (let len = szadd 13 (szmul (length sv) 4) in
      if destlen < len then fail NGTCP2_ERR_NOBUF
      else
        rbind (wr dest [0x80 OR unused_random]) (\<lambda>p.
        rbind (ngtcp2_put_uint64be p conn_id) (\<lambda>p.
        rbind (ngtcp2_put_uint32be p 0) (\<lambda>p.
        rbind (put_versions sv p) (\<lambda>p.
        rassert (snd p - snd dest = len) (Inr p))))))"

text \<open>The loop \<^verbatim>\<open>for (; payload != end; payload += 4)\<close>; the assertion before it makes it end.\<close>

function decode_versions :: "bytes \<Rightarrow> nat \<Rightarrow> u32 list res" where
  "decode_versions payload p =
     (if p \<ge> length payload then Inr []
      else rbind (ngtcp2_get_uint32 payload p) (\<lambda>v.
           rbind (decode_versions payload (p + 4)) (\<lambda>vs. Inr (v # vs))))"
  by pat_completeness auto
termination by (relation "measure (\<lambda>(payload, p). length payload - p)") auto

declare decode_versions.simps [simp del]

definition ngtcp2_pkt_decode_version_negotiation :: "bytes \<Rightarrow> (u32 list \<times> nat) res" where
  "ngtcp2_pkt_decode_version_negotiation payload =
     rassert (length payload mod 4 = 0)
       (rbind (decode_versions payload 0) (\<lambda>vs. Inr (vs, length payload div 4)))"

section \<open>Stateless Reset\<close>

record ngtcp2_pkt_stateless_reset =
  sr_stateless_reset_token :: bytes
  sr_rand :: bytes
  sr_randlen :: nat

definition ngtcp2_pkt_decode_stateless_reset :: "bytes \<Rightarrow> ngtcp2_pkt_stateless_reset res" where
  "ngtcp2_pkt_decode_stateless_reset payload =
     (if length payload < NGTCP2_STATELESS_RESET_TOKENLEN then fail NGTCP2_ERR_INVALID_ARGUMENT
      else
        let randlen = length payload - NGTCP2_STATELESS_RESET_TOKENLEN in
        rbind (rdn payload 0 randlen) (\<lambda>r.
        rbind (rdn payload randlen NGTCP2_STATELESS_RESET_TOKENLEN) (\<lambda>t.
          Inr \<lparr>sr_stateless_reset_token = t, sr_rand = r, sr_randlen = randlen\<rparr>)))"

definition ngtcp2_pkt_write_stateless_reset ::
    "cursor \<Rightarrow> nat \<Rightarrow> ngtcp2_pkt_hd \<Rightarrow> bytes \<Rightarrow> bytes \<Rightarrow> nat \<Rightarrow> cursor res" where
  "ngtcp2_pkt_write_stateless_reset dest destlen h token rnd randlen =
     rbind (ngtcp2_pkt_encode_hd_short dest destlen h) (\<lambda>p.
       let left = destlen - (snd p - snd dest) in
       if left < NGTCP2_STATELESS_RESET_TOKENLEN then fail NGTCP2_ERR_NOBUF
       else
         let randlen = min (left - NGTCP2_STATELESS_RESET_TOKENLEN) randlen in
         rbind (ngtcp2_cpymem p rnd randlen) (\<lambda>p.
           ngtcp2_cpymem p token NGTCP2_STATELESS_RESET_TOKENLEN))"

section \<open>Packet numbers\<close>

definition ngtcp2_pkt_adjust_pkt_num :: "u64 \<Rightarrow> u64 \<Rightarrow> nat \<Rightarrow> u64" where
  "ngtcp2_pkt_adjust_pkt_num max_pkt_num pkt_num n =
     (let k = (if max_pkt_num = UINT64_MAX then max_pkt_num else max_pkt_num + 1);
          u = k AND NOT (push_bit n 1 - 1);
          a = u OR pkt_num;
          b = (u + push_bit n 1) OR pkt_num;
          a1 = (if k < a then a - k else k - a);
          b1 = (if k < b then b - k else k - b)
      in if a1 < b1 then a else b)"

section \<open>ACK validation\<close>

fun validate_ack_blks :: "u64 \<Rightarrow> ngtcp2_ack_blk list \<Rightarrow> nat \<Rightarrow> rv res" where
  "validate_ack_blks largest bl 0 = Inr None"
| "validate_ack_blks largest [] (Suc k) = Inl OutOfBounds"
| "validate_ack_blks largest (b # bl) (Suc k) =
     (if largest < gap b + 2 then Inr (Some NGTCP2_ERR_ACK_FRAME)
      else let largest = largest - (gap b + 2) in
        if largest < blklen b then Inr (Some NGTCP2_ERR_ACK_FRAME)
        else validate_ack_blks (largest - blklen b) bl k)"

definition ngtcp2_pkt_validate_ack :: "ngtcp2_ack \<Rightarrow> rv res" where
  "ngtcp2_pkt_validate_ack fr =
     (if largest_ack fr < first_ack_blklen fr then Inr (Some NGTCP2_ERR_ACK_FRAME)
      else validate_ack_blks (largest_ack fr - first_ack_blklen fr) (blks fr) (num_blks fr))"

section \<open>Lemmas on Version Negotiation and Stateless Reset\<close>

definition version_bytes :: "u32 list \<Rightarrow> bytes" where
  "version_bytes sv = concat (map (be_bytes 4) sv)"

lemma version_bytes_simps [simp]:
  "version_bytes [] = []" "version_bytes (v # sv) = be_bytes 4 v @ version_bytes sv"
  by (simp_all add: version_bytes_def)

lemma length_version_bytes [simp]: "length (version_bytes sv) = 4 * length sv"
  by (induction sv) simp_all

lemma put_versions_eq:
  "rbind (wr c a) (\<lambda>p. rbind (put_versions sv p) k) = rbind (wr c (a @ version_bytes sv)) k"
proof (induction sv arbitrary: a)
  case (Cons v sv)
  then show ?case by (simp add: put_uint_be rbind_assoc wr_wr_bind)
qed simp

lemma write_version_negotiation_eq:
  assumes "length sv < 2 ^ 61"
  shows "ngtcp2_pkt_write_version_negotiation dest destlen rnd conn_id sv =
    wr_or_nobuf dest destlen
      ((0x80 OR rnd) # be_bytes 8 conn_id @ be_bytes 4 (0 :: u32) @ version_bytes sv)"
  using assms
  by (simp add: ngtcp2_pkt_write_version_negotiation_def wr_or_nobuf_def put_versions_eq encode_simps
      mult.commute)

lemma decode_versions_at:
  "holds_at payload p (version_bytes sv) \<Longrightarrow> p + 4 * length sv = length payload \<Longrightarrow>
   decode_versions payload p = Inr sv"
proof (induction sv arbitrary: p)
  case Nil
  then show ?case by (simp add: decode_versions.simps)
next
  case (Cons v sv)
  have at: "holds_at payload p (be_bytes 4 v)" "holds_at payload (p + 4) (version_bytes sv)"
    using Cons.prems by (simp_all add: holds_at_append)
  show ?case
    using Cons.prems(2) get_uint_at(2) [OF at(1)] Cons.IH [OF at(2)]
    by (subst decode_versions.simps) simp
qed

section \<open>Lemmas on packet numbers\<close>

lemma push_bit_one: "push_bit n (1 :: u64) - 1 = mask n"
  by (simp add: push_bit_eq_mult mask_eq_exp_minus_1)

lemma unat_clear_low:
  fixes k :: u64
  shows "unat (k AND NOT (mask n)) = unat k - unat k mod 2 ^ n"
proof -
  have "(k AND NOT (mask n)) OR take_bit n k = k"
    by (rule bit_word_eqI) (auto simp: bit_simps)
  moreover have "(k AND NOT (mask n)) AND take_bit n k = 0"
    by (rule bit_word_eqI) (auto simp: bit_simps)
  ultimately have "k AND NOT (mask n) = k - take_bit n k"
    by (metis disjunctive_add_eq_or add_diff_cancel_right')
  moreover have "unat (take_bit n k) = unat k mod 2 ^ n"
    by (subst unsigned_take_bit_eq) (rule take_bit_eq_mod)
  ultimately show ?thesis
    by (simp add: unat_sub word_le_nat_alt)
qed

lemma unat_or_low:
  fixes u p :: u64
  assumes "2 ^ n dvd unat u" and "unat p < 2 ^ n" and "unat u + unat p < 2 ^ 64"
  shows "unat (u OR p) = unat u + unat p"
proof -
  have "unat u AND unat p = 0"
  proof (rule bit_eqI)
    fix i
    show "bit (unat u AND unat p) i = bit (0 :: nat) i"
    proof (cases "i < n")
      case True
      then have "\<not> bit (unat u) i"
        using assms(1) by (metis bit_take_bit_iff bit_0_eq bot_apply bot_bool_def take_bit_eq_0_iff)
      then show ?thesis by (simp add: bit_and_iff)
    next
      case False
      then have "\<not> bit (unat p) i"
        using assms(2) by (metis bit_take_bit_iff take_bit_nat_eq_self)
      then show ?thesis by (simp add: bit_and_iff)
    qed
  qed
  then have "unat (u OR p) = unat u + unat p"
    by (simp add: unsigned_or_eq disjunctive_add_eq_or)
  then show ?thesis .
qed

definition dist :: "nat \<Rightarrow> nat \<Rightarrow> nat" where
  "dist x y = (if x < y then y - x else x - y)"

lemma unat_dist: "unat (if (k :: u64) < a then a - k else k - a) = dist (unat k) (unat a)"
  by (simp add: dist_def word_less_nat_alt unat_sub word_le_nat_alt)

lemma dist_less:
  "((if (k :: u64) < a then a - k else k - a) < (if k < b then b - k else k - b)) \<longleftrightarrow>
   dist (unat k) (unat a) < dist (unat k) (unat b)"
  by (simp only: word_less_nat_alt [of "if k < a then a - k else k - a"] unat_dist)

lemma unat_adjust:
  fixes n :: nat
  assumes "n < 63" and "unat mx + 2 * 2 ^ n < 2 ^ 64" and "unat p < 2 ^ n"
  defines "K \<equiv> unat mx + 1"
  defines "a \<equiv> K div 2 ^ n * 2 ^ n + unat p"
  shows "unat (ngtcp2_pkt_adjust_pkt_num mx p n) = (if dist K a < dist K (a + 2 ^ n) then a else a + 2 ^ n)"
proof -
  have mx: "mx \<noteq> UINT64_MAX" using assms(2) by (auto simp: unat_UINT64_MAX)
  have one: "1 \<le> (2 :: nat) ^ n" by simp
  then have "unat mx + 1 < 2 ^ 64" using assms(2) by linarith
  then have K: "unat (mx + 1) = K" by (simp add: K_def unat_word_ariths)
  let ?u = "(mx + 1) AND NOT (mask n)"
  have u: "unat ?u = K div 2 ^ n * 2 ^ n"
    using unat_clear_low [of "mx + 1" n] K by (simp add: minus_mod_eq_div_mult)
  have le: "K div 2 ^ n * 2 ^ n \<le> K" by simp
  have "(2 :: nat) ^ n < 2 ^ 64" using assms(1) by (intro power_strict_increasing) simp_all
  then have "unat (push_bit n (1 :: u64)) = 2 ^ n"
    using assms(1) by (subst unsigned_push_bit_eq) (simp add: push_bit_eq_mult take_bit_nat_eq_self)
  moreover have "K div 2 ^ n * 2 ^ n + 2 ^ n < 2 ^ 64" using le assms(2) one unfolding K_def by linarith
  ultimately have b2: "unat (?u + push_bit n 1) = K div 2 ^ n * 2 ^ n + 2 ^ n"
    by (simp add: unat_word_ariths u)
  have lim: "K div 2 ^ n * 2 ^ n + unat p < 2 ^ 64" "K div 2 ^ n * 2 ^ n + 2 ^ n + unat p < 2 ^ 64"
    using le assms(2,3) unfolding K_def by linarith+
  have A: "unat (?u OR p) = a"
    using unat_or_low [of n ?u p] assms(3) lim by (simp add: a_def u)
  have B: "unat ((?u + push_bit n 1) OR p) = a + 2 ^ n"
    using unat_or_low [of n "?u + push_bit n 1" p] assms(3) lim b2 by (simp add: a_def)
  show ?thesis
    unfolding ngtcp2_pkt_adjust_pkt_num_def push_bit_one Let_def
    unfolding if_not_P [OF mx] dist_less A B K
    by (simp only: if_distrib [of unat] A B)
qed

text \<open>
  The arithmetic behind the choice between the two candidates: in its half window the number \<open>t\<close> is
  the candidate that is chosen, unless it lies below the aligned block of the expected number.
\<close>

lemma candidate_choice:
  fixes K N t :: nat
  assumes "0 < N" and "2 * t < 2 * K + N" and "2 * K < 2 * t + N"
  defines "a \<equiv> K div N * N + t mod N"
  shows "(if dist K a < dist K (a + N) then a else a + N) = t \<longleftrightarrow> K div N \<le> t div N"
proof -
  let ?q = "K div N" and ?T = "t div N"
  have t: "t = ?T * N + t mod N" and K: "K = ?q * N + K mod N" by simp_all
  have r: "K mod N < N" "t mod N < N" using assms(1) by simp_all
  consider "?T < ?q" | "?T = ?q" | "?T = Suc ?q" | "?q + 2 \<le> ?T" by linarith
  then show ?thesis
  proof cases
    case 1
    then have "t < ?q * N" by (simp add: div_less_iff_less_mult assms(1))
    then show ?thesis using 1 assms(1) by (simp add: a_def)
  next
    case 2
    then have "a = t" unfolding a_def by (metis t)
    then show ?thesis using 2 assms(1-3) by (auto simp: dist_def)
  next
    case 3
    then have "a + N = t" unfolding a_def by (metis t mult_Suc add.commute add.left_commute)
    then show ?thesis using 3 assms(1-3) by (auto simp: dist_def)
  next
    case 4
    then have "(?q + 2) * N \<le> ?T * N" by (rule mult_le_mono1)
    then have "?q * N + 2 * N \<le> t" using t by (metis add_mult_distrib le_add1 order_trans)
    then show ?thesis using K r assms(2) by linarith
  qed
qed

section \<open>Lemmas on ACK validation\<close>

text \<open>The ranges of packet numbers an ACK frame describes, highest first, over the integers.\<close>

fun ack_blk_ranges :: "int \<Rightarrow> ngtcp2_ack_blk list \<Rightarrow> (int \<times> int) list" where
  "ack_blk_ranges low [] = []"
| "ack_blk_ranges low (b # bl) =
     (let hi = low - uint (gap b) - 2; lo = hi - uint (blklen b) in (lo, hi) # ack_blk_ranges lo bl)"

definition ack_ranges :: "ngtcp2_ack \<Rightarrow> (int \<times> int) list" where
  "ack_ranges fr = (let hi = uint (largest_ack fr); lo = hi - uint (first_ack_blklen fr) in
     (lo, hi) # ack_blk_ranges lo (blks fr))"

lemma gap_plus_2: "varint_ok g \<Longrightarrow> uint (g + 2) = uint g + 2"
proof -
  assume "varint_ok g"
  then have "int (unat g) < int (2 ^ 62)" by (simp only: of_nat_less_iff)
  then have "0 \<le> uint g + 2" "uint g + 2 < 2 ^ 64" by simp_all
  then show ?thesis by (simp add: uint_word_ariths)
qed

lemma validate_ack_blks_eq:
  assumes "list_all (\<lambda>b. varint_ok (gap b) \<and> varint_ok (blklen b)) bl"
  shows "validate_ack_blks low bl (length bl) =
    Inr (if list_all (\<lambda>(lo, hi). 0 \<le> lo) (ack_blk_ranges (uint low) bl) then None
         else Some NGTCP2_ERR_ACK_FRAME)"
  using assms
proof (induction bl arbitrary: low)
  case (Cons b bl)
  let ?m = "low - (gap b + 2)"
  have g: "uint (gap b + 2) = uint (gap b) + 2" using Cons.prems by (simp add: gap_plus_2)
  show ?case
  proof (cases "low < gap b + 2")
    case True
    moreover have "0 \<le> uint (blklen b)" by simp
    ultimately have "uint low - uint (gap b) - 2 - uint (blklen b) < 0"
      using g unfolding word_less_def by linarith
    then show ?thesis using True by (simp add: Let_def)
  next
    case False
    then have m: "uint ?m = uint low - uint (gap b) - 2"
      using g by (simp add: word_less_def not_less uint_sub_lem [THEN iffD1])
    show ?thesis
    proof (cases "?m < blklen b")
      case True
      then show ?thesis using False m by (simp add: Let_def word_less_def)
    next
      case nl: False
      then have "uint (?m - blklen b) = uint low - uint (gap b) - 2 - uint (blklen b)"
        using m by (simp add: word_less_def not_less uint_sub_lem [THEN iffD1])
      then show ?thesis using False nl m Cons.IH [of "?m - blklen b"] Cons.prems
        by (simp add: Let_def word_less_def)
    qed
  qed
qed simp

section \<open>Properties\<close>

lemma adjust_pkt_num_iff:
  assumes "n < 63" and "unat mx + 2 * 2 ^ n < 2 ^ 64"
    and "2 * unat t < 2 * (unat mx + 1) + 2 ^ n" and "2 * (unat mx + 1) < 2 * unat t + 2 ^ n"
  shows "ngtcp2_pkt_adjust_pkt_num mx (take_bit n t) n = t \<longleftrightarrow>
         (unat mx + 1) div 2 ^ n \<le> unat t div 2 ^ n"
proof -
  have p: "unat (take_bit n t) = unat t mod 2 ^ n"
    by (subst unsigned_take_bit_eq) (rule take_bit_eq_mod)
  have lt: "unat (take_bit n t) < 2 ^ n" unfolding p by simp
  have "unat (ngtcp2_pkt_adjust_pkt_num mx (take_bit n t) n) = unat t \<longleftrightarrow>
      (unat mx + 1) div 2 ^ n \<le> unat t div 2 ^ n"
    unfolding unat_adjust [OF assms(1,2) lt] unfolding p
    by (rule candidate_choice) (use assms(3,4) in simp_all)
  then show ?thesis by (simp add: word_unat_eq_iff)
qed

text \<open>A packet that follows the largest received one within half of the window.\<close>

lemma adjust_next:
  assumes n: "n < 63" "unat mx + 2 * 2 ^ n < 2 ^ 64" and t: "mx < t" "2 * unat t < 2 * (unat mx + 1) + 2 ^ n"
  shows "ngtcp2_pkt_adjust_pkt_num mx (take_bit n t) n = t"
proof -
  have lt: "unat mx + 1 \<le> unat t" using t(1) by (simp add: word_less_nat_alt)
  then have "2 * (unat mx + 1) \<le> 2 * unat t" by (rule mult_le_mono2)
  then have "2 * (unat mx + 1) < 2 * unat t + 2 ^ n" by (rule le_less_trans) simp
  then show ?thesis using adjust_pkt_num_iff [OF n t(2)] div_le_mono [OF lt] by blast
qed



lemma validate_ack_eq:
  assumes "wf_frame (FrAck fr)"
  shows "ngtcp2_pkt_validate_ack fr =
    Inr (if list_all (\<lambda>(lo, hi). 0 \<le> lo) (ack_ranges fr) then None else Some NGTCP2_ERR_ACK_FRAME)"
proof (cases "largest_ack fr < first_ack_blklen fr")
  case True
  then show ?thesis by (simp add: ngtcp2_pkt_validate_ack_def ack_ranges_def Let_def word_less_def)
next
  case False
  then have "uint (largest_ack fr - first_ack_blklen fr) =
      uint (largest_ack fr) - uint (first_ack_blklen fr)"
    by (simp add: word_less_def not_less uint_sub_lem [THEN iffD1])
  then show ?thesis
    using False assms validate_ack_blks_eq [of "blks fr" "largest_ack fr - first_ack_blklen fr"]
    by (simp add: ngtcp2_pkt_validate_ack_def ack_ranges_def Let_def word_less_def)
qed

text \<open>
  C24. ACK validation: for frames as the decoder delivers them, \<^verbatim>\<open>ngtcp2_pkt_validate_ack\<close> accepts exactly
  the frames whose acknowledged ranges, computed over the unbounded integers, all start at 0 or
  above, and refuses the others with \<^verbatim>\<open>NGTCP2_ERR_ACK_FRAME\<close>; no 64-bit subtraction wraps unnoticed.
\<close>

theorem validate_ack_exact:
  assumes "wf_frame (FrAck fr)"
  shows "ngtcp2_pkt_validate_ack fr =
    Inr (if list_all (\<lambda>(lo, hi). 0 \<le> lo) (ack_ranges fr) then None else Some NGTCP2_ERR_ACK_FRAME)"
  by (rule validate_ack_eq [OF assms])

theorem validate_ack_exact_witness:
  "ngtcp2_pkt_validate_ack \<lparr>largest_ack = 9, ack_delay = 0, first_ack_blklen = 2, num_blks = 1,
     blks = [\<lparr>gap = 3, blklen = 2\<rparr>]\<rparr> = Inr None \<and>
   ngtcp2_pkt_validate_ack \<lparr>largest_ack = 9, ack_delay = 0, first_ack_blklen = 2, num_blks = 1,
     blks = [\<lparr>gap = 3, blklen = 3\<rparr>]\<rparr> = Inr (Some NGTCP2_ERR_ACK_FRAME)"
  using validate_ack_exact [of "\<lparr>largest_ack = 9, ack_delay = 0, first_ack_blklen = 2, num_blks = 1,
      blks = [\<lparr>gap = 3, blklen = 2\<rparr>]\<rparr>"]
    validate_ack_exact [of "\<lparr>largest_ack = 9, ack_delay = 0, first_ack_blklen = 2, num_blks = 1,
      blks = [\<lparr>gap = 3, blklen = 3\<rparr>]\<rparr>"]
  by (simp add: ack_ranges_def Let_def)

text \<open>
  Version Negotiation round trip: a packet written for a non-empty list of versions, with any random
  first byte, is read by the long header decoder with version 0 and the connection ID, and the
  versions behind the 13 bytes that precede them are decoded to the same list.
\<close>

theorem version_negotiation_roundtrip:
  assumes "sv \<noteq> []" and "13 + 4 * length sv = destlen" and "destlen < 2 ^ 60"
    and "length buf = destlen"
  shows "\<exists>buf'. ngtcp2_pkt_write_version_negotiation (buf, 0) destlen rnd conn_id sv = Inr (buf', destlen) \<and>
    rspec (ngtcp2_pkt_decode_hd_long buf') (\<lambda>(h, n). n = 17 \<and> hd_version h = 0 \<and> hd_conn_id h = conn_id) \<and>
    (\<exists>r. ngtcp2_pkt_decode_hd_long buf' = Inr r) \<and>
    ngtcp2_pkt_decode_version_negotiation (drop 13 buf') = Inr (sv, length sv)"
proof -
  let ?h = "(0x80 OR rnd) # be_bytes 8 conn_id @ be_bytes 4 (0 :: u32)"
  let ?buf = "?h @ version_bytes sv"
  have w: "ngtcp2_pkt_write_version_negotiation (buf, 0) destlen rnd conn_id sv = Inr (?buf, destlen)"
    using assms by (simp add: write_version_negotiation_eq wr_or_nobuf_def wr_def)
  have at: "holds_at ?buf 0 ?h" by (rule holds_at_prefix)
  then have at1: "holds_at ?buf 1 (be_bytes 8 conn_id)" and at2: "holds_at ?buf 9 (be_bytes 4 (0 :: u32))"
    by (simp_all add: holds_at_simps)
  have len: "17 \<le> length ?buf" using assms(1) by (cases sv) simp_all
  have pn: "\<exists>v. ngtcp2_get_uint32 ?buf 13 = Inr v" using len by (simp add: get_uint_be)
  have "((0x80 :: u8) OR rnd) AND 0x80 = 0x80" by (rule bit_word_eqI) (auto simp: bit_simps)
  then have b0: "((0x80 :: u8) OR rnd) AND 0x80 \<noteq> 0" by simp
  have v: "ngtcp2_pkt_decode_version_negotiation (version_bytes sv) = Inr (sv, length sv)"
    using decode_versions_at [of "version_bytes sv" 0 sv] holds_at_prefix [of "version_bytes sv" "[]"]
    by (simp add: ngtcp2_pkt_decode_version_negotiation_def)
  show ?thesis
    using w v len b0 pn get_uint_at(1) [OF at1] get_uint_at(2) [OF at2]
    by (intro exI [of _ ?buf]) (auto simp: ngtcp2_pkt_decode_hd_long_def Let_def)
qed

theorem version_negotiation_roundtrip_witness:
  "\<exists>buf'. ngtcp2_pkt_write_version_negotiation (replicate 21 0, 0) 21 5 7 [1, 0xff000009] = Inr (buf', 21) \<and>
    ngtcp2_pkt_decode_version_negotiation (drop 13 buf') = Inr ([1, 0xff000009], Suc (Suc 0))"
  using version_negotiation_roundtrip [of "[1, 0xff000009]" 21 "replicate 21 0" 5 7]
  by auto

text \<open>
  Stateless Reset round trip: a packet written with a short header, at least one token's worth of room
  and any amount of random bytes is decoded, behind the header, to the token and to as many of the
  random bytes as the buffer has room for; the token is the last 16 bytes of the packet.
\<close>

theorem stateless_reset_roundtrip:
  assumes "short_pkt_num_len (hd_type h) = Some k" and "length token = 16" and "length rnd = randlen"
    and "length (hd_short_bytes h k) + 16 \<le> destlen" and "length buf = destlen"
  shows "\<exists>buf' n. ngtcp2_pkt_write_stateless_reset (buf, 0) destlen h token rnd randlen = Inr (buf', n) \<and>
    n = length (hd_short_bytes h k) + min (destlen - length (hd_short_bytes h k) - 16) randlen + 16 \<and>
    ngtcp2_pkt_decode_stateless_reset (drop (length (hd_short_bytes h k)) (take n buf')) =
      Inr \<lparr>sr_stateless_reset_token = token,
           sr_rand = take (destlen - length (hd_short_bytes h k) - 16) rnd,
           sr_randlen = min (destlen - length (hd_short_bytes h k) - 16) randlen\<rparr>"
proof -
  let ?hb = "hd_short_bytes h k" and ?L = "length (hd_short_bytes h k)"
  let ?m = "min (destlen - ?L - 16) randlen"
  let ?r = "take ?m rnd"
  have "take (min x (length rnd)) rnd = take x rnd" for x by (simp add: min_def)
  then have r: "?r = take (destlen - ?L - 16) rnd" "length ?r = ?m" using assms(3) by auto
  let ?out = "?hb @ ?r @ token" and ?rest = "drop (?L + ?m + 16) buf"
  have enc: "ngtcp2_pkt_encode_hd_short (buf, 0) destlen h = Inr (?hb @ drop ?L buf, ?L)"
    using assms(4,5) by (simp add: encode_hd_short_eq [OF assms(1)] wr_def del: length_hd_bytes)
  have lm: "?L + (?m + 16) \<le> destlen" "\<not> destlen - ?L < 16" using assms(4) by linarith+
  have cp: "ngtcp2_cpymem c rnd ?m = wr c ?r" for c
    using assms(3) by (simp add: ngtcp2_cpymem_def)
  have W: "ngtcp2_pkt_write_stateless_reset (buf, 0) destlen h token rnd randlen =
      Inr (?out @ ?rest, ?L + ?m + 16)"
    unfolding ngtcp2_pkt_write_stateless_reset_def enc
    using assms(2,5) r(2) cp lm
    by (simp add: Let_def cpymem_all wr_wr wr_def add.commute add.left_commute del: length_hd_bytes)
  have T: "drop ?L (take (?L + ?m + 16) (?out @ ?rest)) = ?r @ token"
    using assms(2) r(2) by (simp del: length_hd_bytes)
  have D: "ngtcp2_pkt_decode_stateless_reset (?r @ token) =
      Inr \<lparr>sr_stateless_reset_token = token, sr_rand = ?r, sr_randlen = ?m\<rparr>"
    using assms(2) r(2) by (simp add: ngtcp2_pkt_decode_stateless_reset_def Let_def)
  show ?thesis
    by (rule exI [of _ "?out @ ?rest"], rule exI [of _ "?L + ?m + 16"], intro conjI W refl)
      (use D in \<open>unfold T, simp only: r(1)\<close>)
qed

theorem stateless_reset_roundtrip_witness:
  "\<exists>buf' n. ngtcp2_pkt_write_stateless_reset (replicate 20 0, 0) 20
       \<lparr>hd_flags = 2, hd_type = 0x1f, hd_conn_id = 0, hd_pkt_num = 9, hd_version = 0\<rparr>
       (replicate 16 1) [5, 6, 7] 3 = Inr (buf', n) \<and>
     ngtcp2_pkt_decode_stateless_reset (drop (Suc (Suc 0)) (take n buf')) =
       Inr \<lparr>sr_stateless_reset_token = replicate 16 1, sr_rand = [5, 6], sr_randlen = 2\<rparr>"
  using stateless_reset_roundtrip [of "\<lparr>hd_flags = 2, hd_type = 0x1f, hd_conn_id = 0, hd_pkt_num = 9,
      hd_version = 0\<rparr>" 1 "replicate 16 1" "[5, 6, 7]" 3 20 "replicate 20 0"]
  by (auto simp: short_pkt_num_len_def numeral_2_eq_2)

end
