(* ===== verification/Pq.thy ===== *)
theory Pq
  imports Prelude "HOL-Library.Multiset"
begin

text \<open>
  \<^verbatim>\<open>lib/ngtcp2_pq.c\<close>: the priority queue, a binary heap in an array. An entry is an object whose
  \<^verbatim>\<open>index\<close> field the queue keeps equal to its position. In the model \<open>'a\<close> is the identity of an entry,
  \<open>q\<close> the first \<^verbatim>\<open>length\<close> cells of the array, \<open>index\<close> the \<^verbatim>\<open>index\<close> field of every entry, and
  \<open>less\<close> the comparison function stored in the queue.
\<close>

section \<open>State and operations\<close>

record 'a ngtcp2_pq =
  q :: "'a list"
  capacity :: nat
  index :: "'a \<Rightarrow> nat"
  less :: "'a \<Rightarrow> 'a \<Rightarrow> bool"

definition ngtcp2_pq_init :: "('a \<Rightarrow> 'a \<Rightarrow> bool) \<Rightarrow> ('a \<Rightarrow> nat) \<Rightarrow> 'a ngtcp2_pq" where
  "ngtcp2_pq_init ls idx = \<lparr>q = [], capacity = 0, index = idx, less = ls\<rparr>"

definition swap :: "'a ngtcp2_pq \<Rightarrow> nat \<Rightarrow> nat \<Rightarrow> 'a ngtcp2_pq" where
  "swap pq i j =
     (let a = q pq ! i; b = q pq ! j in
      pq\<lparr>q := (q pq)[i := b, j := a], index := (index pq)(b := i, a := j)\<rparr>)"

lemma swap_simps [simp]:
  "length (q (swap pq i j)) = length (q pq)"
  "less (swap pq i j) = less pq" "capacity (swap pq i j) = capacity pq"
  "q (swap pq i j) = (q pq)[i := q pq ! j, j := q pq ! i]"
  by (simp_all add: swap_def Let_def)

function bubble_up :: "'a ngtcp2_pq \<Rightarrow> nat \<Rightarrow> 'a ngtcp2_pq" where
  "bubble_up pq i =
     (if i = 0 then pq
      else
        let parent = (i - 1) div 2 in
        if \<not> less pq (q pq ! i) (q pq ! parent) then pq
        else bubble_up (swap pq parent i) parent)"
  by pat_completeness auto
termination by (relation "measure (\<lambda>(pq, i). i)") auto

declare bubble_up.simps [simp del]

text \<open>The inner loop of \<^verbatim>\<open>bubble_down\<close>: the least of an entry and its at most two children.\<close>

definition min_index :: "'a ngtcp2_pq \<Rightarrow> nat \<Rightarrow> nat" where
  "min_index pq i =
     (let j = i * 2 + 1 in
      if j \<ge> length (q pq) then i
      else
        let m = (if less pq (q pq ! j) (q pq ! i) then j else i); j = j + 1 in
        if j \<ge> length (q pq) then m
        else if less pq (q pq ! j) (q pq ! m) then j else m)"

lemma min_index_bounds: "min_index pq i = i \<or> (i < min_index pq i \<and> min_index pq i < length (q pq))"
  by (auto simp: min_index_def Let_def)

function bubble_down :: "'a ngtcp2_pq \<Rightarrow> nat \<Rightarrow> 'a ngtcp2_pq" where
  "bubble_down pq i =
     (let m = min_index pq i in if m = i then pq else bubble_down (swap pq i m) m)"
  by pat_completeness auto
termination
proof (relation "measure (\<lambda>(pq, i). length (q pq) - i)", goal_cases)
  case (2 pq i m)
  then show ?case using min_index_bounds [of pq i] by auto
qed simp

declare bubble_down.simps [simp del]

definition ngtcp2_pq_push :: "mem \<Rightarrow> 'a ngtcp2_pq \<Rightarrow> 'a \<Rightarrow> rv \<times> 'a ngtcp2_pq \<times> mem" where
  "ngtcp2_pq_push m pq item =
     (let (ok, pq, m) =
        (if capacity pq \<le> length (q pq) then
           let ncapacity = max 4 (szmul (capacity pq) 2); (ok, m') = malloc m in
           (ok, if ok then pq\<lparr>capacity := ncapacity\<rparr> else pq, m')
         else (True, pq, m))
      in if \<not> ok then (Some NGTCP2_ERR_NOMEM, pq, m)
         else
           let n = length (q pq);
               pq = pq\<lparr>q := q pq @ [item], index := (index pq)(item := n)\<rparr>
           in (None, bubble_up pq n, m))"

definition ngtcp2_pq_top :: "'a ngtcp2_pq \<Rightarrow> 'a option" where
  "ngtcp2_pq_top pq = (if length (q pq) = 0 then None else Some (q pq ! 0))"

definition ngtcp2_pq_pop :: "'a ngtcp2_pq \<Rightarrow> 'a ngtcp2_pq" where
  "ngtcp2_pq_pop pq =
     (if length (q pq) > 0 then
        let l = q pq ! (length (q pq) - 1);
            pq = pq\<lparr>q := butlast ((q pq)[0 := l]), index := (index pq)(l := 0)\<rparr>
        in bubble_down pq 0
      else pq)"

definition ngtcp2_pq_remove :: "'a ngtcp2_pq \<Rightarrow> 'a \<Rightarrow> 'a ngtcp2_pq res" where
  "ngtcp2_pq_remove pq item =
     (let i = index pq item in
      if \<not> i < length (q pq) then Inl OutOfBounds
      else rassert (q pq ! i = item)
        (if i = 0 then Inr (ngtcp2_pq_pop pq)
         else if i = length (q pq) - 1 then Inr (pq\<lparr>q := butlast (q pq)\<rparr>)
         else
           let l = q pq ! (length (q pq) - 1);
               pq = pq\<lparr>q := butlast ((q pq)[i := l]), index := (index pq)(l := i)\<rparr>
           in if less pq item (q pq ! i) then Inr (bubble_down pq i) else Inr (bubble_up pq i)))"

definition ngtcp2_pq_empty :: "'a ngtcp2_pq \<Rightarrow> bool" where
  "ngtcp2_pq_empty pq = (length (q pq) = 0)"

definition ngtcp2_pq_size :: "'a ngtcp2_pq \<Rightarrow> nat" where
  "ngtcp2_pq_size pq = length (q pq)"

text \<open>
  \<^verbatim>\<open>ngtcp2_pq_update\<close> calls a function on every entry, which may change the keys the comparison looks
  at, and rebuilds the heap if one of the calls says so. The model takes the comparison \<open>ls\<close> that
  holds after the calls and whether any of them asked for the rebuild.
\<close>

fun rebuild :: "'a ngtcp2_pq \<Rightarrow> nat \<Rightarrow> 'a ngtcp2_pq" where
  "rebuild pq 0 = pq"
| "rebuild pq (Suc i) = rebuild (bubble_down pq i) i"

definition ngtcp2_pq_update :: "'a ngtcp2_pq \<Rightarrow> ('a \<Rightarrow> 'a \<Rightarrow> bool) \<Rightarrow> bool \<Rightarrow> 'a ngtcp2_pq" where
  "ngtcp2_pq_update pq ls rv =
     (let pq = pq\<lparr>less := ls\<rparr> in
      if length (q pq) = 0 then pq else if rv then rebuild pq (length (q pq)) else pq)"

definition ngtcp2_pq_each :: "'a ngtcp2_pq \<Rightarrow> ('a \<Rightarrow> bool) \<Rightarrow> bool" where
  "ngtcp2_pq_each pq f = (if length (q pq) = 0 then False else list_ex f (q pq))"

section \<open>The invariant\<close>

text \<open>What the comparison must be: a strict weak order. \<open>leq\<close> is its complement.\<close>

definition weak_order :: "('a \<Rightarrow> 'a \<Rightarrow> bool) \<Rightarrow> bool" where
  "weak_order ls = ((\<forall>a b. ls a b \<longrightarrow> \<not> ls b a) \<and> (\<forall>a b c. \<not> ls b a \<longrightarrow> \<not> ls c b \<longrightarrow> \<not> ls c a))"

definition leq :: "'a ngtcp2_pq \<Rightarrow> nat \<Rightarrow> nat \<Rightarrow> bool" where
  "leq pq i j = (\<not> less pq (q pq ! j) (q pq ! i))"

abbreviation par :: "nat \<Rightarrow> nat" where
  "par j \<equiv> (j - 1) div 2"

definition is_heap :: "'a ngtcp2_pq \<Rightarrow> bool" where
  "is_heap pq = (\<forall>j. 0 < j \<and> j < length (q pq) \<longrightarrow> leq pq (par j) j)"

definition index_ok :: "'a ngtcp2_pq \<Rightarrow> bool" where
  "index_ok pq = (distinct (q pq) \<and> (\<forall>i < length (q pq). index pq (q pq ! i) = i))"

definition pq_wf :: "'a ngtcp2_pq \<Rightarrow> bool" where
  "pq_wf pq = (weak_order (less pq) \<and> is_heap pq \<and> index_ok pq \<and> length (q pq) \<le> capacity pq)"

lemma swap_index_ok:
  assumes "index_ok pq" and "i < length (q pq)" and "j < length (q pq)"
  shows "index_ok (swap pq i j)"
  using assms
  by (auto simp: index_ok_def swap_def Let_def nth_list_update distinct_swap nth_eq_iff_index_eq)

lemma swap_mset:
  "i < length (q pq) \<Longrightarrow> j < length (q pq) \<Longrightarrow> mset (q (swap pq i j)) = mset (q pq)"
  by (simp add: mset_swap)

lemma swap_nth:
  assumes "i < length (q pq)" and "j < length (q pq)" and "k < length (q pq)"
  shows "q (swap pq i j) ! k = (if k = j then q pq ! i else if k = i then q pq ! j else q pq ! k)"
  using assms by (auto simp: nth_list_update)

lemma leq_trans: "weak_order (less pq) \<Longrightarrow> leq pq a b \<Longrightarrow> leq pq b c \<Longrightarrow> leq pq a c"
  unfolding weak_order_def leq_def by blast

lemma leq_refl: "weak_order (less pq) \<Longrightarrow> leq pq a a"
  unfolding weak_order_def leq_def by blast

lemma less_leq: "weak_order (less pq) \<Longrightarrow> less pq (q pq ! a) (q pq ! b) \<Longrightarrow> leq pq a b"
  unfolding weak_order_def leq_def by blast

lemma swap_leq:
  assumes "i < length (q pq)" and "j < length (q pq)" and "a < length (q pq)" and "b < length (q pq)"
  defines "f \<equiv> \<lambda>k. if k = j then i else if k = i then j else k"
  shows "leq (swap pq i j) a b \<longleftrightarrow> leq pq (f a) (f b)"
  using swap_nth [OF assms(1,2,3)] swap_nth [OF assms(1,2,4)]
  by (auto simp: leq_def f_def simp del: swap_simps(4))

text \<open>Everything but the position \<open>i\<close> is in order, seen from below and from above.\<close>

definition up_inv :: "'a ngtcp2_pq \<Rightarrow> nat \<Rightarrow> bool" where
  "up_inv pq i = ((\<forall>j. 0 < j \<and> j < length (q pq) \<and> j \<noteq> i \<longrightarrow> leq pq (par j) j) \<and>
     (\<forall>j. 0 < j \<and> j < length (q pq) \<and> par j = i \<and> 0 < i \<longrightarrow> leq pq (par i) j))"

definition down_inv :: "'a ngtcp2_pq \<Rightarrow> nat \<Rightarrow> nat \<Rightarrow> bool" where
  "down_inv pq k i = ((\<forall>j. 0 < j \<and> j < length (q pq) \<and> k \<le> par j \<and> par j \<noteq> i \<longrightarrow> leq pq (par j) j) \<and>
     (\<forall>j. 0 < j \<and> j < length (q pq) \<and> par j = i \<and> 0 < i \<and> k \<le> par i \<longrightarrow> leq pq (par i) j))"

definition heap_from :: "'a ngtcp2_pq \<Rightarrow> nat \<Rightarrow> bool" where
  "heap_from pq k = (\<forall>j. 0 < j \<and> j < length (q pq) \<and> k \<le> par j \<longrightarrow> leq pq (par j) j)"

lemma par_less: "0 < j \<Longrightarrow> par j < j"
  by simp

lemma up_step:
  assumes wo: "weak_order (less pq)" and inv: "up_inv pq i" and i: "0 < i" "i < length (q pq)"
    and ls: "less pq (q pq ! i) (q pq ! par i)"
  shows "up_inv (swap pq (par i) i) (par i)"
proof -
  let ?p = "par i" and ?n = "length (q pq)"
  have p: "?p < i" "?p < ?n" using i by auto
  note sw = swap_leq [OF p(2) i(2)]
  have ip: "leq pq i ?p" by (rule less_leq [OF wo ls])
  have A: "leq pq (par j) j" if "0 < j" "j < ?n" "j \<noteq> i" for j using inv that by (simp add: up_inv_def)
  have B: "leq pq ?p j" if "0 < j" "j < ?n" "par j = i" for j using inv that i by (simp add: up_inv_def)
  have "leq (swap pq ?p i) (par j) j" if j: "0 < j" "j < ?n" "j \<noteq> ?p" for j
  proof -
    have pj: "par j < ?n" "par j \<noteq> j" using j by auto
    show ?thesis
    proof (cases "j = i")
      case True
      then show ?thesis using sw [OF pj(1) j(2)] ip p by simp
    next
      case False
      consider "par j = i" | "par j = ?p" "par j \<noteq> i" | "par j \<noteq> i" "par j \<noteq> ?p" by blast
      then show ?thesis
      proof cases
        case 1
        then show ?thesis using sw [OF pj(1) j(2)] B [OF j(1,2)] j False by simp
      next
        case 2
        then have "leq pq ?p j" using A [OF j(1,2) False] by simp
        then show ?thesis using sw [OF pj(1) j(2)] leq_trans [OF wo ip] 2 j False by simp
      next
        case 3
        then show ?thesis using sw [OF pj(1) j(2)] A [OF j(1,2) False] j False by simp
      qed
    qed
  qed
  moreover have "leq (swap pq ?p i) (par ?p) j" if j: "0 < j" "j < ?n" "par j = ?p" "0 < ?p" for j
  proof -
    have pp: "par ?p < ?n" "par ?p \<noteq> ?p" "par ?p \<noteq> i"
      using p par_less [OF j(4)] by linarith+
    have jp: "j \<noteq> ?p" using par_less [OF j(1)] j(3) by linarith
    have a: "leq pq (par ?p) ?p" using A [of ?p] p j(4) by simp
    show ?thesis
    proof (cases "j = i")
      case True
      then show ?thesis using sw [OF pp(1) j(2)] pp(2,3) a by (simp only: if_False if_True simp_thms)
    next
      case False
      have "leq pq (par ?p) j" using leq_trans [OF wo a] A [OF j(1,2) False] unfolding j(3) by blast
      then show ?thesis
        using sw [OF pp(1) j(2)] pp(2,3) jp False by (simp only: if_False simp_thms)
    qed
  qed
  ultimately show ?thesis by (simp add: up_inv_def del: swap_simps(4))
qed

lemma up_done: "up_inv pq i \<Longrightarrow> i = 0 \<or> leq pq (par i) i \<Longrightarrow> is_heap pq"
  unfolding up_inv_def is_heap_def by blast

lemma bubble_up_ok:
  assumes "weak_order (less pq)" and "up_inv pq i" and "index_ok pq" and "i < length (q pq)"
  shows "is_heap (bubble_up pq i) \<and> index_ok (bubble_up pq i) \<and>
    mset (q (bubble_up pq i)) = mset (q pq) \<and> less (bubble_up pq i) = less pq \<and>
    capacity (bubble_up pq i) = capacity pq"
  using assms
proof (induction pq i rule: bubble_up.induct)
  case (1 pq i)
  show ?case
  proof (cases "i = 0 \<or> \<not> less pq (q pq ! i) (q pq ! par i)")
    case True
    then have "bubble_up pq i = pq" by (subst bubble_up.simps) (auto simp: Let_def)
    moreover have "is_heap pq" using up_done [OF 1(3)] True by (auto simp: leq_def)
    ultimately show ?thesis using 1(4) by simp
  next
    case False
    then have eq: "bubble_up pq i = bubble_up (swap pq (par i) i) (par i)"
      by (subst bubble_up.simps) (simp add: Let_def)
    have i: "0 < i" "par i < length (q pq)" using False 1(5) by auto
    have "up_inv (swap pq (par i) i) (par i)" using up_step [OF 1(2,3) i(1) 1(5)] False by simp
    then show ?thesis
      using 1(1) [of "par i"] False 1(2) swap_index_ok [OF 1(4) i(2) 1(5)] swap_mset [OF i(2) 1(5)] i(2)
      unfolding eq by (simp del: swap_simps(4))
  qed
qed

lemma children: "0 < j \<Longrightarrow> par j = i \<longleftrightarrow> j = i * 2 + 1 \<or> j = i * 2 + 2"
  by presburger

lemma min_index_leq:
  assumes wo: "weak_order (less pq)"
  shows "\<And>j. 0 < j \<Longrightarrow> j < length (q pq) \<Longrightarrow> par j = i \<Longrightarrow> leq pq (min_index pq i) j"
    and "leq pq (min_index pq i) i"
    and "min_index pq i \<noteq> i \<Longrightarrow> par (min_index pq i) = i"
proof -
  let ?a = "i * 2 + 1" and ?b = "i * 2 + 1 + 1" and ?n = "length (q pq)"
  let ?m = "if less pq (q pq ! ?a) (q pq ! i) then ?a else i"
  let ?r = "if less pq (q pq ! ?b) (q pq ! ?m) then ?b else ?m"
  have pick: "leq pq (if less pq (q pq ! x) (q pq ! y) then x else y) x"
    "leq pq (if less pq (q pq ! x) (q pq ! y) then x else y) y" for x y
    using leq_refl [OF wo] less_leq [OF wo, of x y] by (auto simp: leq_def)
  note m = pick [of ?a i] and r = pick [of ?b ?m]
  have r': "leq pq ?r ?a" "leq pq ?r i" by (rule leq_trans [OF wo r(2) m(1)], rule leq_trans [OF wo r(2) m(2)])
  have def_min: "min_index pq i = (if ?n \<le> ?a then i else if ?n \<le> ?b then ?m else ?r)"
    unfolding min_index_def Let_def by (rule refl)
  have if3: "P u \<Longrightarrow> P x \<Longrightarrow> P y \<Longrightarrow> P (if A then u else if B then x else y)"
    for P :: "nat \<Rightarrow> bool" and u x y A B by simp
  have if2: "P x \<Longrightarrow> P y \<Longrightarrow> P (if B then x else y)" for P :: "nat \<Rightarrow> bool" and x y B by simp
  show "leq pq (min_index pq i) i"
    unfolding def_min by (rule if3 [of "\<lambda>z. leq pq z i", OF leq_refl [OF wo] m(2) r'(2)])
  show "min_index pq i \<noteq> i \<Longrightarrow> par (min_index pq i) = i"
    unfolding def_min by (auto split: if_splits)
  fix j assume j: "0 < j" "j < ?n" "par j = i"
  have "j = ?a \<or> j = ?b" using children [OF j(1), of i] j(3) by linarith
  then show "leq pq (min_index pq i) j"
  proof
    assume ja: "j = ?a"
    then have nle: "\<not> ?n \<le> ?a" using j(2) by simp
    show ?thesis unfolding def_min if_not_P [OF nle] ja
      by (rule if2 [of "\<lambda>z. leq pq z ?a", OF m(1) r'(1)])
  next
    assume jb: "j = ?b"
    then have nle: "\<not> ?n \<le> ?a" "\<not> ?n \<le> ?b" using j(2) by simp_all
    show ?thesis unfolding def_min if_not_P [OF nle(1)] if_not_P [OF nle(2)] jb by (rule r(1))
  qed
qed

lemma down_step:
  assumes wo: "weak_order (less pq)" and inv: "down_inv pq k i" and i: "i < length (q pq)" "k \<le> i"
    and m: "min_index pq i = m" "m \<noteq> i"
  shows "down_inv (swap pq i m) k m" and "i < m" and "m < length (q pq)"
proof -
  let ?n = "length (q pq)"
  show im: "i < m" and mn: "m < ?n" using min_index_bounds [of pq i] m by auto
  have pm: "par m = i" using min_index_leq(3) [OF wo] m by blast
  have mi: "leq pq m i" using min_index_leq(2) [OF wo, of i] m by simp
  have mc: "leq pq m j" if "0 < j" "j < ?n" "par j = i" for j
    using min_index_leq(1) [OF wo that] m by simp
  note sw = swap_leq [OF i(1) mn]
  have A: "leq pq (par j) j" if "0 < j" "j < ?n" "k \<le> par j" "par j \<noteq> i" for j
    using inv that by (simp add: down_inv_def)
  have B: "leq pq (par i) j" if "0 < j" "j < ?n" "par j = i" "0 < i" "k \<le> par i" for j
    using inv that by (simp add: down_inv_def)
  have "leq (swap pq i m) (par j) j" if j: "0 < j" "j < ?n" "k \<le> par j" "par j \<noteq> m" for j
  proof -
    have pj: "par j < ?n" "par j < j" using j by auto
    show ?thesis
    proof (cases "par j = i")
      case True
      then show ?thesis using sw [OF pj(1) j(2)] mi mc [OF j(1,2)] pj im by (cases "j = m") auto
    next
      case False
      then have jm: "j \<noteq> m" using pm by blast
      show ?thesis
      proof (cases "j = i")
        case True
        have "0 < m" using im by simp
        then have "leq pq (par i) m" using B [of m] pm mn j True by simp
        then show ?thesis using sw [OF pj(1) j(2)] True pj j(4) im by simp
      next
        case ji: False
        then show ?thesis using sw [OF pj(1) j(2)] A [OF j(1-3) False] jm False j(4) by simp
      qed
    qed
  qed
  moreover have "leq (swap pq i m) (par m) j" if j: "0 < j" "j < ?n" "par j = m" for j
  proof -
    have "j \<noteq> m" "j \<noteq> i" using par_less [OF j(1)] j(3) im by auto
    moreover have "leq pq m j" using A [OF j(1,2)] j(3) im i(2) by simp
    ultimately show ?thesis using sw [of i j] i(1) j(2) pm im by simp
  qed
  ultimately show "down_inv (swap pq i m) k m" by (simp add: down_inv_def del: swap_simps(4))
qed

lemma bubble_down_ok:
  assumes "weak_order (less pq)" and "down_inv pq k i" and "index_ok pq" and "i < length (q pq)"
    and "k \<le> i"
  shows "heap_from (bubble_down pq i) k \<and> index_ok (bubble_down pq i) \<and>
    mset (q (bubble_down pq i)) = mset (q pq) \<and> less (bubble_down pq i) = less pq \<and>
    capacity (bubble_down pq i) = capacity pq"
  using assms
proof (induction pq i rule: bubble_down.induct)
  case (1 pq i)
  show ?case
  proof (cases "min_index pq i = i")
    case True
    then have "bubble_down pq i = pq" by (subst bubble_down.simps) (simp add: Let_def)
    moreover have "heap_from pq k"
      using 1(3) min_index_leq(1) [OF 1(2), where i = i] True
      unfolding heap_from_def down_inv_def by metis
    ultimately show ?thesis using 1(4) by simp
  next
    case False
    then have eq: "bubble_down pq i = bubble_down (swap pq i (min_index pq i)) (min_index pq i)"
      by (subst bubble_down.simps) (simp add: Let_def)
    note st = down_step [OF 1(2,3,5,6) refl False]
    show ?thesis
      using 1(1) [OF refl False] 1(2,6) st swap_index_ok [OF 1(4,5) st(3)] swap_mset [OF 1(5) st(3)]
      unfolding eq by (simp del: swap_simps(4))
  qed
qed

lemma heap_from_0: "heap_from pq 0 = is_heap pq"
  by (simp add: heap_from_def is_heap_def)

section \<open>Correctness of the operations\<close>

lemma push_ok:
  assumes wf: "pq_wf pq" and new: "item \<notin> set (q pq)" and m: "mem_ok m"
    and size: "length (q pq) < 2 ^ 62" "capacity pq < 2 ^ 62"
  shows "\<exists>pq'. ngtcp2_pq_push m pq item = (None, pq', m) \<and> pq_wf pq' \<and>
    mset (q pq') = add_mset item (mset (q pq)) \<and> less pq' = less pq"
proof -
  let ?n = "length (q pq)"
  let ?cap = "if capacity pq \<le> ?n then max 4 (capacity pq * 2) else capacity pq"
  let ?pq = "pq\<lparr>capacity := ?cap, q := q pq @ [item], index := (index pq)(item := ?n)\<rparr>"
  have cap: "szmul (capacity pq) 2 = capacity pq * 2" using size(2) by simp
  have push: "ngtcp2_pq_push m pq item = (None, bubble_up ?pq ?n, m)"
    by (simp add: ngtcp2_pq_push_def malloc_mem_ok [OF m] cap Let_def)
  have idx: "index_ok ?pq"
    using wf new by (auto simp: pq_wf_def index_ok_def nth_append less_Suc_eq)
  have up: "up_inv ?pq ?n"
    unfolding up_inv_def
  proof (intro conjI allI impI)
    fix j assume j: "0 < j \<and> j < length (q ?pq) \<and> j \<noteq> ?n"
    then have "j < ?n" "par j < ?n" by auto
    then show "leq ?pq (par j) j" using j wf by (simp add: pq_wf_def is_heap_def leq_def nth_append)
  next
    fix j assume "0 < j \<and> j < length (q ?pq) \<and> par j = ?n \<and> 0 < ?n"
    then show "leq ?pq (par ?n) j" using par_less [of j] by simp
  qed
  have wo: "weak_order (less ?pq)" using wf by (simp add: pq_wf_def)
  have cap': "Suc ?n \<le> ?cap" using wf by (auto simp: pq_wf_def)
  note bu = bubble_up_ok [OF wo up idx]
  have "length (q (bubble_up ?pq ?n)) = length (q ?pq)" by (rule mset_eq_length) (use bu in simp)
  then show ?thesis using push wo bu cap' by (simp add: pq_wf_def)
qed

text \<open>
  Removing the entry \<open>x\<close> at position \<open>length xs\<close> and putting the last entry in its place.
\<close>

definition replaced :: "'a ngtcp2_pq \<Rightarrow> 'a list \<Rightarrow> 'a list \<Rightarrow> 'a \<Rightarrow> 'a ngtcp2_pq" where
  "replaced pq xs ys l = pq\<lparr>q := xs @ l # ys, index := (index pq)(l := length xs)\<rparr>"

lemma replaced_simps [simp]:
  "q (replaced pq xs ys l) = xs @ l # ys" "less (replaced pq xs ys l) = less pq"
  "capacity (replaced pq xs ys l) = capacity pq"
  by (simp_all add: replaced_def)

lemma nth_replaced:
  "k \<noteq> length xs \<Longrightarrow> k < length (xs @ l # ys) \<Longrightarrow> (xs @ l # ys) ! k = (xs @ x # ys @ [l]) ! k"
proof -
  assume k: "k \<noteq> length xs" "k < length (xs @ l # ys)"
  have "(xs @ l # ys) ! k = ((xs @ x # ys)[length xs := l]) ! k" by simp
  also have "\<dots> = (xs @ x # ys) ! k" using k(1) by (rule nth_list_update_neq [OF not_sym])
  also have "\<dots> = ((xs @ x # ys) @ [l]) ! k" using k(2) by (simp only: nth_append) simp
  finally show ?thesis by simp
qed

lemma replaced_index_ok:
  assumes "index_ok pq" and eq: "q pq = xs @ x # ys @ [l]"
  shows "index_ok (replaced pq xs ys l)"
proof -
  let ?n = "length (xs @ l # ys)"
  have idx: "index pq ((xs @ x # ys @ [l]) ! k) = k" if "k \<le> ?n" for k
    using assms that by (simp add: index_ok_def)
  have last: "(xs @ x # ys @ [l]) ! ?n = l" by (simp add: nth_append)
  have "((index pq)(l := length xs)) ((xs @ l # ys) ! k) = k" if k: "k < ?n" for k
  proof (cases "k = length xs")
    case False
    then have nth: "(xs @ l # ys) ! k = (xs @ x # ys @ [l]) ! k" using nth_replaced k by metis
    have "(xs @ x # ys @ [l]) ! k \<noteq> l" using idx [of k] idx [of ?n] last k by force
    then show ?thesis using idx [of k] k unfolding nth by simp
  qed simp
  then show ?thesis using assms by (simp add: index_ok_def replaced_def)
qed

lemma replaced_leq:
  assumes "q pq = xs @ x # ys @ [l]" and "a \<noteq> length xs" and "b \<noteq> length xs"
    and "a < length (xs @ l # ys)" and "b < length (xs @ l # ys)"
  shows "leq (replaced pq xs ys l) a b = leq pq a b"
  using assms nth_replaced [of a xs l ys x] nth_replaced [of b xs l ys x] by (simp add: leq_def)

lemma heap_leq: "is_heap pq \<Longrightarrow> 0 < j \<Longrightarrow> j < length (q pq) \<Longrightarrow> leq pq (par j) j"
  by (simp add: is_heap_def)

lemma replaced_down:
  assumes wo: "weak_order (less pq)" and heap: "is_heap pq" and eq: "q pq = xs @ x # ys @ [l]"
    and ls: "less pq x l \<or> xs = []"
  shows "down_inv (replaced pq xs ys l) 0 (length xs)"
proof -
  let ?i = "length xs" and ?r = "replaced pq xs ys l"
  have xi: "q pq ! ?i = x" using eq by simp
  have "leq ?r (par j) j" if j: "0 < j" "j < length (q ?r)" "par j \<noteq> ?i" for j
  proof (cases "j = ?i")
    case False
    then show ?thesis using heap_leq [OF heap j(1)] j eq replaced_leq [OF eq] par_less [OF j(1)] by simp
  next
    case True
    have "leq pq (par ?i) ?i" using heap_leq [OF heap, of ?i] True j eq by simp
    then have "\<not> less pq l (q pq ! par ?i)"
      using ls wo xi True j(1) unfolding leq_def weak_order_def by (metis length_greater_0_conv)
    then show ?thesis
      using True nth_replaced [of "par ?i" xs l ys x] par_less [OF j(1)] eq by (simp add: leq_def)
  qed
  moreover have "leq ?r (par ?i) j" if j: "0 < j" "j < length (q ?r)" "par j = ?i" "0 < ?i" for j
  proof -
    have "leq pq (par ?i) j"
      using leq_trans [OF wo heap_leq [OF heap j(4)]] heap_leq [OF heap j(1)] j eq by simp
    then show ?thesis using replaced_leq [OF eq, of "par ?i" j] par_less [OF j(4)] par_less [OF j(1)] j by simp
  qed
  ultimately show ?thesis by (simp add: down_inv_def)
qed

lemma replaced_up:
  assumes wo: "weak_order (less pq)" and heap: "is_heap pq" and eq: "q pq = xs @ x # ys @ [l]"
    and ls: "\<not> less pq x l"
  shows "up_inv (replaced pq xs ys l) (length xs)"
proof -
  let ?i = "length xs" and ?r = "replaced pq xs ys l"
  have xi: "q pq ! ?i = x" using eq by simp
  have "leq ?r (par j) j" if j: "0 < j" "j < length (q ?r)" "j \<noteq> ?i" for j
  proof (cases "par j = ?i")
    case False
    then show ?thesis using heap_leq [OF heap j(1)] j eq replaced_leq [OF eq] par_less [OF j(1)] by simp
  next
    case True
    have "leq pq ?i j" using heap_leq [OF heap j(1)] True j eq by simp
    then have "\<not> less pq (q pq ! j) l"
      using ls wo xi unfolding leq_def weak_order_def by metis
    then show ?thesis using True nth_replaced [of j xs l ys x] j eq by (simp add: leq_def)
  qed
  moreover have "leq ?r (par ?i) j" if j: "0 < j" "j < length (q ?r)" "par j = ?i" "0 < ?i" for j
  proof -
    have "leq pq (par ?i) j"
      using leq_trans [OF wo heap_leq [OF heap j(4)]] heap_leq [OF heap j(1)] j eq by simp
    then show ?thesis using replaced_leq [OF eq, of "par ?i" j] par_less [OF j(4)] par_less [OF j(1)] j by simp
  qed
  ultimately show ?thesis by (simp add: up_inv_def)
qed

lemma replaced_down_ok:
  assumes wf: "pq_wf pq" and eq: "q pq = xs @ x # ys @ [l]" and ls: "less pq x l \<or> xs = []"
  defines "r \<equiv> bubble_down (replaced pq xs ys l) (length xs)"
  shows "pq_wf r" and "add_mset x (mset (q r)) = mset (q pq)" and "less r = less pq"
proof -
  have wf': "weak_order (less pq)" "is_heap pq" "index_ok pq" "length (q pq) \<le> capacity pq"
    using wf by (simp_all add: pq_wf_def)
  note bd = bubble_down_ok [OF _ replaced_down [OF wf'(1,2) eq ls] replaced_index_ok [OF wf'(3) eq]]
  have r: "is_heap r" "index_ok r" "mset (q r) = mset (xs @ l # ys)" "less r = less pq"
      "capacity r = capacity pq"
    using bd wf'(1) by (simp_all add: r_def heap_from_0)
  show "less r = less pq" "add_mset x (mset (q r)) = mset (q pq)" using r eq by simp_all
  show "pq_wf r" using r wf' eq mset_eq_length [OF r(3)] by (simp add: pq_wf_def)
qed

lemma replaced_up_ok:
  assumes wf: "pq_wf pq" and eq: "q pq = xs @ x # ys @ [l]" and ls: "\<not> less pq x l"
  defines "r \<equiv> bubble_up (replaced pq xs ys l) (length xs)"
  shows "pq_wf r" and "add_mset x (mset (q r)) = mset (q pq)" and "less r = less pq"
proof -
  have wf': "weak_order (less pq)" "is_heap pq" "index_ok pq" "length (q pq) \<le> capacity pq"
    using wf by (simp_all add: pq_wf_def)
  note bu = bubble_up_ok [OF _ replaced_up [OF wf'(1,2) eq ls] replaced_index_ok [OF wf'(3) eq]]
  have r: "is_heap r" "index_ok r" "mset (q r) = mset (xs @ l # ys)" "less r = less pq"
      "capacity r = capacity pq"
    using bu wf'(1) by (simp_all add: r_def)
  show "less r = less pq" "add_mset x (mset (q r)) = mset (q pq)" using r eq by simp_all
  show "pq_wf r" using r wf' eq mset_eq_length [OF r(3)] by (simp add: pq_wf_def)
qed

lemma pop_replaced:
  assumes "q pq = x # ys @ [l]"
  shows "ngtcp2_pq_pop pq = bubble_down (replaced pq [] ys l) 0"
  using assms by (simp add: ngtcp2_pq_pop_def replaced_def Let_def nth_append butlast_append)

lemma pop_ok:
  assumes wf: "pq_wf pq" and ne: "q pq \<noteq> []"
  shows "pq_wf (ngtcp2_pq_pop pq)" and "less (ngtcp2_pq_pop pq) = less pq"
    and "add_mset (hd (q pq)) (mset (q (ngtcp2_pq_pop pq))) = mset (q pq)"
proof -
  obtain x zs where q: "q pq = x # zs" using ne by (cases "q pq") auto
  have "pq_wf (ngtcp2_pq_pop pq) \<and> less (ngtcp2_pq_pop pq) = less pq \<and>
    add_mset (hd (q pq)) (mset (q (ngtcp2_pq_pop pq))) = mset (q pq)"
  proof (cases zs rule: rev_cases)
    case Nil
    then have "ngtcp2_pq_pop pq = pq\<lparr>q := [], index := (index pq)(x := 0)\<rparr>"
      using q by (simp add: ngtcp2_pq_pop_def Let_def bubble_down.simps [of _ 0] min_index_def)
    then show ?thesis using wf q Nil by (simp add: pq_wf_def is_heap_def index_ok_def)
  next
    case (snoc ys l)
    then have eq: "q pq = [] @ x # ys @ [l]" using q by simp
    note rd = replaced_down_ok [OF wf eq]
    have "ngtcp2_pq_pop pq = bubble_down (replaced pq [] ys l) 0" using pop_replaced eq by simp
    then show ?thesis using rd q by simp
  qed
  then show "pq_wf (ngtcp2_pq_pop pq)" "less (ngtcp2_pq_pop pq) = less pq"
    "add_mset (hd (q pq)) (mset (q (ngtcp2_pq_pop pq))) = mset (q pq)" by blast+
qed

lemma butlast_ok:
  assumes wf: "pq_wf pq" and ne: "q pq = zs @ [x]"
  shows "pq_wf (pq\<lparr>q := zs\<rparr>)"
proof -
  have "leq (pq\<lparr>q := zs\<rparr>) (par j) j" if "0 < j" "j < length zs" for j
    using heap_leq [of pq j] wf ne that par_less [of j] by (simp add: pq_wf_def leq_def nth_append)
  moreover have "index pq (zs ! i) = i" if "i < length zs" for i
    using wf ne that nth_append [of zs "[x]" i] by (simp add: pq_wf_def index_ok_def) (metis less_SucI)
  ultimately show ?thesis using wf ne by (simp add: pq_wf_def is_heap_def index_ok_def)
qed

lemma remove_ok:
  assumes wf: "pq_wf pq" and x: "x \<in> set (q pq)"
  shows "\<exists>pq'. ngtcp2_pq_remove pq x = Inr pq' \<and> pq_wf pq' \<and> less pq' = less pq \<and>
    add_mset x (mset (q pq')) = mset (q pq)"
proof -
  let ?i = "index pq x"
  obtain xs zs where q: "q pq = xs @ x # zs" using x by (meson split_list)
  have i: "?i = length xs" "?i < length (q pq)" "q pq ! ?i = x"
    using wf q by (auto simp: pq_wf_def index_ok_def nth_append dest!: spec [of _ "length xs"])
  consider "xs = []" | "xs \<noteq> []" "zs = []" | ys l where "xs \<noteq> []" "zs = ys @ [l]"
    by (cases zs rule: rev_cases) auto
  then show ?thesis
  proof cases
    case 1
    then show ?thesis using pop_ok [OF wf] q i by (simp add: ngtcp2_pq_remove_def rassert_def Let_def)
  next
    case 2
    then show ?thesis
      using butlast_ok [OF wf] q i by (simp add: ngtcp2_pq_remove_def rassert_def Let_def)
  next
    case (3 ys l)
    then have eq: "q pq = xs @ x # ys @ [l]" using q by simp
    have "ngtcp2_pq_remove pq x =
        Inr (if less pq x l then bubble_down (replaced pq xs ys l) (length xs)
             else bubble_up (replaced pq xs ys l) (length xs))"
      using i 3(1) eq
      by (simp add: ngtcp2_pq_remove_def rassert_def Let_def replaced_def nth_append butlast_append)
    then show ?thesis
      using replaced_down_ok [OF wf eq] replaced_up_ok [OF wf eq] by (cases "less pq x l") simp_all
  qed
qed

lemma top_minimal:
  assumes "weak_order (less pq)" and "is_heap pq" and "j < length (q pq)"
  shows "leq pq 0 j"
  using assms(3)
proof (induction j rule: less_induct)
  case (less j)
  show ?case
  proof (cases "j = 0")
    case True
    then show ?thesis using leq_refl [OF assms(1)] by simp
  next
    case False
    then have "leq pq 0 (par j)" using less by simp
    then show ?thesis using leq_trans [OF assms(1)] heap_leq [OF assms(2)] False less(2) by blast
  qed
qed

lemma rebuild_ok:
  assumes "weak_order (less pq)" and "heap_from pq k" and "index_ok pq" and "k \<le> length (q pq)"
  shows "is_heap (rebuild pq k) \<and> index_ok (rebuild pq k) \<and> mset (q (rebuild pq k)) = mset (q pq) \<and>
    less (rebuild pq k) = less pq \<and> capacity (rebuild pq k) = capacity pq"
  using assms
proof (induction pq k rule: rebuild.induct)
  case (1 pq)
  then show ?case by (simp add: heap_from_0)
next
  case (2 pq i)
  have "down_inv pq i i"
    unfolding down_inv_def
  proof (intro conjI allI impI)
    fix j assume j: "0 < j \<and> j < length (q pq) \<and> i \<le> par j \<and> par j \<noteq> i"
    then show "leq pq (par j) j" using 2(3) by (simp add: heap_from_def)
  next
    fix j assume "0 < j \<and> j < length (q pq) \<and> par j = i \<and> 0 < i \<and> i \<le> par i"
    then show "leq pq (par i) j" using par_less [of i] by linarith
  qed
  then have bd: "heap_from (bubble_down pq i) i \<and> index_ok (bubble_down pq i) \<and>
      mset (q (bubble_down pq i)) = mset (q pq) \<and> less (bubble_down pq i) = less pq \<and>
      capacity (bubble_down pq i) = capacity pq"
    using bubble_down_ok [OF 2(2) _ 2(4), of i i] 2(5) by simp
  then have "length (q (bubble_down pq i)) = length (q pq)" using mset_eq_length by blast
  then show ?case using 2 bd by simp
qed

lemma update_ok:
  assumes wf: "pq_wf pq" and wo: "weak_order ls"
  shows "pq_wf (ngtcp2_pq_update pq ls True)" and "mset (q (ngtcp2_pq_update pq ls True)) = mset (q pq)"
    and "less (ngtcp2_pq_update pq ls True) = ls"
proof -
  let ?p = "pq\<lparr>less := ls\<rparr>"
  have hf: "heap_from ?p (length (q pq))"
    unfolding heap_from_def
  proof (intro allI impI)
    fix j assume "0 < j \<and> j < length (q ?p) \<and> length (q pq) \<le> par j"
    then show "leq ?p (par j) j" using par_less [of j] by simp
  qed
  have rb: "is_heap (rebuild ?p (length (q pq))) \<and> index_ok (rebuild ?p (length (q pq))) \<and>
      mset (q (rebuild ?p (length (q pq)))) = mset (q pq) \<and> less (rebuild ?p (length (q pq))) = ls \<and>
      capacity (rebuild ?p (length (q pq))) = capacity pq"
    using rebuild_ok [OF _ hf] wf wo by (simp add: pq_wf_def index_ok_def)
  then have len: "length (q (rebuild ?p (length (q pq)))) = length (q pq)" using mset_eq_length by blast
  have eq: "ngtcp2_pq_update pq ls True = rebuild ?p (length (q pq))"
    by (simp add: ngtcp2_pq_update_def Let_def)
  show "pq_wf (ngtcp2_pq_update pq ls True)" "mset (q (ngtcp2_pq_update pq ls True)) = mset (q pq)"
    "less (ngtcp2_pq_update pq ls True) = ls"
    unfolding eq using rb len wf wo by (simp_all add: pq_wf_def)
qed

section \<open>The contract of the queue\<close>

text \<open>
  What a client relies on: \<open>top\<close> is a minimal element of the contents and \<open>pop\<close> takes it out. A client
  that drains such a queue sees every element once, in order.
\<close>

primrec drain :: "('s \<Rightarrow> 'a option) \<Rightarrow> ('s \<Rightarrow> 's) \<Rightarrow> nat \<Rightarrow> 's \<Rightarrow> 'a list" where
  "drain tp pp 0 s = []"
| "drain tp pp (Suc n) s = (case tp s of None \<Rightarrow> [] | Some x \<Rightarrow> x # drain tp pp n (pp s))"

locale priority_queue =
  fixes inv :: "'s \<Rightarrow> bool" and elems :: "'s \<Rightarrow> 'a multiset" and lt :: "'s \<Rightarrow> 'a \<Rightarrow> 'a \<Rightarrow> bool"
    and top :: "'s \<Rightarrow> 'a option" and pop :: "'s \<Rightarrow> 's"
  assumes top_None: "inv s \<Longrightarrow> top s = None \<longleftrightarrow> elems s = {#}"
    and top_min: "inv s \<Longrightarrow> top s = Some x \<Longrightarrow> x \<in># elems s \<and> (\<forall>y \<in># elems s. \<not> lt s y x)"
    and pop_inv: "inv s \<Longrightarrow> inv (pop s)"
    and pop_lt: "inv s \<Longrightarrow> lt (pop s) = lt s"
    and pop_elems: "inv s \<Longrightarrow> top s = Some x \<Longrightarrow> add_mset x (elems (pop s)) = elems s"
begin

lemma drain_mset: "inv s \<Longrightarrow> size (elems s) \<le> n \<Longrightarrow> mset (drain top pop n s) = elems s"
proof (induction n arbitrary: s)
  case (Suc n)
  show ?case
  proof (cases "top s")
    case None
    then have "elems s = {#}" using top_None [OF Suc(2)] by blast
    then show ?thesis using None by simp
  next
    case (Some x)
    have "size (elems s) = Suc (size (elems (pop s)))" using pop_elems [OF Suc(2) Some] by (metis size_add_mset)
    then show ?thesis using Suc pop_inv [OF Suc(2)] pop_elems [OF Suc(2) Some] Some by simp
  qed
qed simp

lemma drain_sorted: "inv s \<Longrightarrow> size (elems s) \<le> n \<Longrightarrow> sorted_wrt (\<lambda>x y. \<not> lt s y x) (drain top pop n s)"
proof (induction n arbitrary: s)
  case (Suc n)
  show ?case
  proof (cases "top s")
    case (Some x)
    note el = pop_elems [OF Suc(2) Some] and inv' = pop_inv [OF Suc(2)]
    have sz: "size (elems (pop s)) \<le> n" using el Suc(3) by (metis Suc_le_mono size_add_mset)
    have "\<not> lt s y x" if "y \<in> set (drain top pop n (pop s))" for y
    proof -
      have "y \<in># elems (pop s)" using that drain_mset [OF inv' sz] set_mset_mset by metis
      then show ?thesis using top_min [OF Suc(2) Some] el by (metis union_iff add_mset_add_single)
    qed
    then show ?thesis using Suc(1) [OF inv' sz] pop_lt [OF Suc(2)] Some by simp
  qed simp
qed simp

end

lemma top_hd: "q pq \<noteq> [] \<Longrightarrow> ngtcp2_pq_top pq = Some (hd (q pq))"
  by (simp add: ngtcp2_pq_top_def hd_conv_nth)

interpretation pqueue: priority_queue pq_wf "\<lambda>pq. mset (q pq)" less ngtcp2_pq_top ngtcp2_pq_pop
proof
  fix pq :: "'a ngtcp2_pq" and x :: 'a
  assume wf: "pq_wf pq"
  have ne: "q pq \<noteq> []" "hd (q pq) = x" if "ngtcp2_pq_top pq = Some x"
    using that by (auto simp: ngtcp2_pq_top_def hd_conv_nth split: if_splits)
  show "ngtcp2_pq_top pq = None \<longleftrightarrow> mset (q pq) = {#}" by (simp add: ngtcp2_pq_top_def)
  show "pq_wf (ngtcp2_pq_pop pq)" "less (ngtcp2_pq_pop pq) = less pq"
    using pop_ok [OF wf] wf by (cases "q pq = []", simp_all add: ngtcp2_pq_pop_def)+
  assume top: "ngtcp2_pq_top pq = Some x"
  show "add_mset x (mset (q (ngtcp2_pq_pop pq))) = mset (q pq)" using pop_ok(3) [OF wf] ne [OF top] by simp
  have "\<not> less pq y x" if "y \<in> set (q pq)" for y
    using top_minimal [of pq] wf ne [OF top] that
    by (auto simp: pq_wf_def leq_def in_set_conv_nth hd_conv_nth)
  then show "x \<in># mset (q pq) \<and> (\<forall>y \<in># mset (q pq). \<not> less pq y x)" using ne [OF top] by auto
qed

section \<open>Properties\<close>

definition int_pq :: "int ngtcp2_pq" where
  "int_pq = \<lparr>q = [1, 4, 2, 9, 5, 3], capacity = 8,
     index = (\<lambda>_. 0)(1 := 0, 4 := 1, 2 := 2, 9 := 3, 5 := 4, 3 := 5), less = (<)\<rparr>"

lemma is_heap_code: "is_heap pq = list_all (\<lambda>j. leq pq (par j) j) [1..<length (q pq)]"
  by (auto simp: is_heap_def list_all_iff)

lemma index_ok_code:
  "index_ok pq = (distinct (q pq) \<and> list_all (\<lambda>i. index pq (q pq ! i) = i) [0..<length (q pq)])"
  by (auto simp: index_ok_def list_all_iff)

lemma int_pq_wf: "pq_wf int_pq"
proof -
  have "weak_order (less int_pq)" by (simp add: weak_order_def int_pq_def)
  moreover have "is_heap int_pq" unfolding is_heap_code by (simp add: int_pq_def leq_def upt_rec)
  moreover have "index_ok int_pq" unfolding index_ok_code by (simp add: int_pq_def upt_rec)
  ultimately show ?thesis by (simp add: pq_wf_def int_pq_def)
qed

text \<open>
  C27. When memory is granted, \<^verbatim>\<open>ngtcp2_pq_push\<close> succeeds, adds exactly the new entry, and keeps the
  heap order, the \<^verbatim>\<open>index\<close> field of every entry and the capacity bound. When it is refused, the
  queue is unchanged and \<^verbatim>\<open>NGTCP2_ERR_NOMEM\<close> is returned.
\<close>

theorem pq_push_correct:
  assumes "pq_wf pq" and "item \<notin> set (q pq)" and "capacity pq < 2 ^ 62"
  shows "(mem_ok m \<longrightarrow> (\<exists>pq'. ngtcp2_pq_push m pq item = (None, pq', m) \<and> pq_wf pq' \<and>
      mset (q pq') = add_mset item (mset (q pq)) \<and> less pq' = less pq)) \<and>
    (capacity pq \<le> length (q pq) \<and> \<not> m 0 \<longrightarrow>
      (\<exists>m'. ngtcp2_pq_push m pq item = (Some NGTCP2_ERR_NOMEM, pq, m')))"
proof -
  have "length (q pq) < 2 ^ 62" using assms by (simp add: pq_wf_def)
  then have "mem_ok m \<longrightarrow> (\<exists>pq'. ngtcp2_pq_push m pq item = (None, pq', m) \<and> pq_wf pq' \<and>
      mset (q pq') = add_mset item (mset (q pq)) \<and> less pq' = less pq)"
    using push_ok [OF assms(1,2)] assms(3) by blast
  moreover have "capacity pq \<le> length (q pq) \<and> \<not> m 0 \<longrightarrow>
      (\<exists>m'. ngtcp2_pq_push m pq item = (Some NGTCP2_ERR_NOMEM, pq, m'))"
    by (simp add: ngtcp2_pq_push_def malloc_def)
  ultimately show ?thesis by blast
qed

lemma pq_push_correct_witness:
  "(\<exists>pq'. ngtcp2_pq_push (\<lambda>_. True) int_pq 7 = (None, pq', (\<lambda>_. True)) \<and> pq_wf pq' \<and>
      mset (q pq') = add_mset 7 (mset (q int_pq)) \<and> less pq' = less int_pq) \<and>
   (\<exists>m'. ngtcp2_pq_push (\<lambda>_. False) (ngtcp2_pq_init (<) (\<lambda>_. 0)) (7::int) =
      (Some NGTCP2_ERR_NOMEM, ngtcp2_pq_init (<) (\<lambda>_. 0), m'))"
proof -
  have "7 \<notin> set (q int_pq)" "capacity int_pq < 2 ^ 62" by (simp_all add: int_pq_def)
  note a = pq_push_correct [OF int_pq_wf this]
  have "pq_wf (ngtcp2_pq_init (<) (\<lambda>_. 0) :: int ngtcp2_pq)"
    by (simp add: pq_wf_def weak_order_def is_heap_def index_ok_def ngtcp2_pq_init_def)
  then have "\<exists>m'. ngtcp2_pq_push (\<lambda>_. False) (ngtcp2_pq_init (<) (\<lambda>_. 0)) (7::int) =
      (Some NGTCP2_ERR_NOMEM, ngtcp2_pq_init (<) (\<lambda>_. 0), m')"
    using pq_push_correct [of "ngtcp2_pq_init (<) (\<lambda>_. 0)" "7::int" "\<lambda>_. False"]
    by (simp add: ngtcp2_pq_init_def)
  then show ?thesis using a mem_ok_True by blast
qed

text \<open>
  C28. Taking the top entry and popping until the queue is empty visits every entry exactly once, in
  an order in which no later entry is less than an earlier one, and after as many rounds as there are
  entries nothing is left.
\<close>

theorem pq_drain_sorted:
  assumes "pq_wf pq"
  shows "mset (drain ngtcp2_pq_top ngtcp2_pq_pop (ngtcp2_pq_size pq) pq) = mset (q pq) \<and>
    sorted_wrt (\<lambda>x y. \<not> less pq y x) (drain ngtcp2_pq_top ngtcp2_pq_pop (ngtcp2_pq_size pq) pq)"
  using pqueue.drain_mset [OF assms] pqueue.drain_sorted [OF assms]
  by (simp add: ngtcp2_pq_size_def)

lemma pq_drain_sorted_witness:
  "mset (drain ngtcp2_pq_top ngtcp2_pq_pop (ngtcp2_pq_size int_pq) int_pq) = mset (q int_pq) \<and>
    sorted_wrt (\<lambda>x y. \<not> less int_pq y x) (drain ngtcp2_pq_top ngtcp2_pq_pop (ngtcp2_pq_size int_pq) int_pq)"
  by (rule pq_drain_sorted [OF int_pq_wf])

text \<open>
  C29. \<^verbatim>\<open>ngtcp2_pq_remove\<close> of any entry of the queue finds it through its \<^verbatim>\<open>index\<close> field (its assertion
  holds), removes that entry only and restores the heap, moving the entry that takes its place up or
  down as needed; \<^verbatim>\<open>ngtcp2_pq_update\<close> restores the heap for whatever comparison holds after the callbacks
  have changed the keys.
\<close>

theorem pq_remove_update_correct:
  assumes "pq_wf pq"
  shows "(item \<in> set (q pq) \<longrightarrow> (\<exists>pq'. ngtcp2_pq_remove pq item = Inr pq' \<and> pq_wf pq' \<and>
      less pq' = less pq \<and> add_mset item (mset (q pq')) = mset (q pq))) \<and>
    (weak_order ls \<longrightarrow> pq_wf (ngtcp2_pq_update pq ls True) \<and>
      mset (q (ngtcp2_pq_update pq ls True)) = mset (q pq) \<and> less (ngtcp2_pq_update pq ls True) = ls)"
  using remove_ok [OF assms] by (simp add: update_ok [OF assms])

lemma pq_remove_update_correct_witness:
  "(\<exists>pq'. ngtcp2_pq_remove int_pq 4 = Inr pq' \<and> pq_wf pq' \<and>
      less pq' = less int_pq \<and> add_mset 4 (mset (q pq')) = mset (q int_pq)) \<and>
   pq_wf (ngtcp2_pq_update int_pq (>) True)"
  using pq_remove_update_correct [OF int_pq_wf, of 4 "(>)"]
  by (simp add: int_pq_def weak_order_def)

end
