(* ===== verification/Crypto.thy ===== *)
theory Crypto
  imports Pkt_Misc
begin

text \<open>
  \<^verbatim>\<open>lib/ngtcp2_crypto.c\<close>: key material, the packet protection nonce, and the transport parameters of the
  TLS handshake, encoder and decoder.
\<close>

section \<open>Key material and nonce\<close>

record ngtcp2_crypto_km =
  km_key :: bytes
  km_iv :: bytes

definition ngtcp2_crypto_km_new :: "mem \<Rightarrow> bytes \<Rightarrow> bytes \<Rightarrow> rv \<times> ngtcp2_crypto_km option \<times> mem" where
  "ngtcp2_crypto_km_new m key iv =
     (let (ok, m) = malloc m in
      if \<not> ok then (Some NGTCP2_ERR_NOMEM, None, m) else (None, Some \<lparr>km_key = key, km_iv = iv\<rparr>, m))"

text \<open>The loop XORs the eight bytes of the packet number, most significant first, into the last eight of the IV.\<close>

fun xor_bytes :: "bytes \<Rightarrow> nat \<Rightarrow> bytes \<Rightarrow> bytes res" where
  "xor_bytes dest i [] = Inr dest"
| "xor_bytes dest i (b # bs) = rbind (rd dest i) (\<lambda>d. xor_bytes (dest[i := d XOR b]) (i + 1) bs)"

definition ngtcp2_crypto_create_nonce :: "bytes \<Rightarrow> u64 \<Rightarrow> bytes res" where
  "ngtcp2_crypto_create_nonce iv pkt_num =
     (if length iv < 8 then Inl OutOfBounds
      else xor_bytes iv (length iv - 8) (mem_bytes 8 (bswap64 pkt_num)))"

section \<open>Transport parameters\<close>

abbreviation NGTCP2_TRANSPORT_PARAM_INITIAL_MAX_STREAM_DATA :: u16 where "NGTCP2_TRANSPORT_PARAM_INITIAL_MAX_STREAM_DATA \<equiv> 0"
abbreviation NGTCP2_TRANSPORT_PARAM_INITIAL_MAX_DATA :: u16 where "NGTCP2_TRANSPORT_PARAM_INITIAL_MAX_DATA \<equiv> 1"
abbreviation NGTCP2_TRANSPORT_PARAM_INITIAL_MAX_STREAM_ID_BIDI :: u16 where "NGTCP2_TRANSPORT_PARAM_INITIAL_MAX_STREAM_ID_BIDI \<equiv> 2"
abbreviation NGTCP2_TRANSPORT_PARAM_IDLE_TIMEOUT :: u16 where "NGTCP2_TRANSPORT_PARAM_IDLE_TIMEOUT \<equiv> 3"
abbreviation NGTCP2_TRANSPORT_PARAM_OMIT_CONNECTION_ID :: u16 where "NGTCP2_TRANSPORT_PARAM_OMIT_CONNECTION_ID \<equiv> 4"
abbreviation NGTCP2_TRANSPORT_PARAM_MAX_PACKET_SIZE :: u16 where "NGTCP2_TRANSPORT_PARAM_MAX_PACKET_SIZE \<equiv> 5"
abbreviation NGTCP2_TRANSPORT_PARAM_STATELESS_RESET_TOKEN :: u16 where "NGTCP2_TRANSPORT_PARAM_STATELESS_RESET_TOKEN \<equiv> 6"
abbreviation NGTCP2_TRANSPORT_PARAM_ACK_DELAY_EXPONENT :: u16 where "NGTCP2_TRANSPORT_PARAM_ACK_DELAY_EXPONENT \<equiv> 7"
abbreviation NGTCP2_TRANSPORT_PARAM_INITIAL_MAX_STREAM_ID_UNI :: u16 where "NGTCP2_TRANSPORT_PARAM_INITIAL_MAX_STREAM_ID_UNI \<equiv> 8"
abbreviation NGTCP2_TRANSPORT_PARAM_SERVER_UNICAST_IP :: u16 where "NGTCP2_TRANSPORT_PARAM_SERVER_UNICAST_IP \<equiv> 9"

abbreviation CLIENT_HELLO :: u8 where "CLIENT_HELLO \<equiv> 0"
abbreviation ENCRYPTED_EXTENSIONS :: u8 where "ENCRYPTED_EXTENSIONS \<equiv> 1"
abbreviation NEW_SESSION_TICKET :: u8 where "NEW_SESSION_TICKET \<equiv> 2"

abbreviation NGTCP2_MAX_PKT_SIZE :: u16 where "NGTCP2_MAX_PKT_SIZE \<equiv> 65527"
abbreviation NGTCP2_DEFAULT_ACK_DELAY_EXPONENT :: u8 where "NGTCP2_DEFAULT_ACK_DELAY_EXPONENT \<equiv> 3"

text \<open>
  \<^verbatim>\<open>v.ch.initial_version\<close> and \<^verbatim>\<open>v.ee.negotiated_version\<close> are the same bytes of the union \<^verbatim>\<open>v\<close>:
  \<open>tp_version\<close>. \<open>tp_supported_versions\<close> is the array of 63 versions, of which \<open>tp_v_len\<close> are in use.
\<close>

record ngtcp2_transport_params =
  tp_version :: u32
  tp_supported_versions :: "u32 list"
  tp_v_len :: nat
  initial_max_stream_data :: u32
  initial_max_data :: u32
  initial_max_stream_id_bidi :: u32
  initial_max_stream_id_uni :: u32
  idle_timeout :: u16
  omit_connection_id :: bool
  max_packet_size :: u16
  stateless_reset_token :: bytes
  server_unicast_ip :: "u32 \<times> u32 \<times> u32 \<times> u32"
  ack_delay_exponent :: u8




definition valid_stream_id_bidi :: "u32 \<Rightarrow> u8 \<Rightarrow> bool res" where
  "valid_stream_id_bidi n exttype =
     (if exttype = CLIENT_HELLO then Inr (n AND 3 = 1)
      else if exttype = ENCRYPTED_EXTENSIONS \<or> exttype = NEW_SESSION_TICKET then Inr (n AND 3 = 0)
      else Inl AssertFail)"

definition valid_stream_id_uni :: "u32 \<Rightarrow> u8 \<Rightarrow> bool res" where
  "valid_stream_id_uni n exttype =
     (if exttype = CLIENT_HELLO then Inr (n AND 3 = 3)
      else if exttype = ENCRYPTED_EXTENSIONS \<or> exttype = NEW_SESSION_TICKET then Inr (n AND 3 = 2)
      else Inl AssertFail)"

text \<open>
  One parameter of the decoder's loop, from behind its type on: \<open>p\<close> is the position of its length. The
  results are the position behind the parameter, the flags of the parameters seen, and the structure.
\<close>

abbreviation (input) malformed :: "'a res" where
  "malformed \<equiv> fail NGTCP2_ERR_MALFORMED_TRANSPORT_PARAM"

definition seen :: "u32 \<Rightarrow> u16 \<Rightarrow> u32" where
  "seen flags param_type = flags OR push_bit (unat param_type) 1"

definition decode_param ::
    "u8 \<Rightarrow> bytes \<Rightarrow> nat \<Rightarrow> u16 \<Rightarrow> u32 \<Rightarrow> ngtcp2_transport_params \<Rightarrow> (nat \<times> u32 \<times> ngtcp2_transport_params) res" where
  "decode_param exttype buf p param_type flags params =
     (if param_type = NGTCP2_TRANSPORT_PARAM_INITIAL_MAX_STREAM_DATA \<or>
         param_type = NGTCP2_TRANSPORT_PARAM_INITIAL_MAX_DATA \<or>
         param_type = NGTCP2_TRANSPORT_PARAM_INITIAL_MAX_STREAM_ID_BIDI \<or>
         param_type = NGTCP2_TRANSPORT_PARAM_INITIAL_MAX_STREAM_ID_UNI then
        let flags = seen flags param_type in
        rbind (ngtcp2_get_uint16 buf p) (\<lambda>l.
        if l \<noteq> 4 then malformed
        else let p = p + 2 in
          if length buf - p < 4 then malformed
          else
            rbind (ngtcp2_get_uint32 buf p) (\<lambda>val.
            if param_type = NGTCP2_TRANSPORT_PARAM_INITIAL_MAX_STREAM_DATA then
              Inr (p + 4, flags, params\<lparr>initial_max_stream_data := val\<rparr>)
            else if param_type = NGTCP2_TRANSPORT_PARAM_INITIAL_MAX_DATA then
              Inr (p + 4, flags, params\<lparr>initial_max_data := val\<rparr>)
            else if param_type = NGTCP2_TRANSPORT_PARAM_INITIAL_MAX_STREAM_ID_BIDI then
              rbind (valid_stream_id_bidi val exttype) (\<lambda>ok.
              if \<not> ok then malformed else Inr (p + 4, flags, params\<lparr>initial_max_stream_id_bidi := val\<rparr>))
            else
              rbind (valid_stream_id_uni val exttype) (\<lambda>ok.
              if \<not> ok then malformed else Inr (p + 4, flags, params\<lparr>initial_max_stream_id_uni := val\<rparr>))))
      else if param_type = NGTCP2_TRANSPORT_PARAM_IDLE_TIMEOUT then
        let flags = seen flags param_type in
        rbind (ngtcp2_get_uint16 buf p) (\<lambda>l.
        if l \<noteq> 2 then malformed
        else let p = p + 2 in
          if length buf - p < 2 then malformed
          else rbind (ngtcp2_get_uint16 buf p) (\<lambda>val. Inr (p + 2, flags, params\<lparr>idle_timeout := val\<rparr>)))
      else if param_type = NGTCP2_TRANSPORT_PARAM_OMIT_CONNECTION_ID then
        let flags = seen flags param_type in
        rbind (ngtcp2_get_uint16 buf p) (\<lambda>l.
        if l \<noteq> 0 then malformed else Inr (p + 2, flags, params\<lparr>omit_connection_id := True\<rparr>))
      else if param_type = NGTCP2_TRANSPORT_PARAM_MAX_PACKET_SIZE then
        let flags = seen flags param_type in
        rbind (ngtcp2_get_uint16 buf p) (\<lambda>l.
        if l \<noteq> 2 then malformed
        else let p = p + 2 in
          if length buf - p < 2 then malformed
          else rbind (ngtcp2_get_uint16 buf p) (\<lambda>val. Inr (p + 2, flags, params\<lparr>max_packet_size := val\<rparr>)))
      else if param_type = NGTCP2_TRANSPORT_PARAM_STATELESS_RESET_TOKEN then
        if \<not> (exttype = ENCRYPTED_EXTENSIONS \<or> exttype = NEW_SESSION_TICKET) then malformed
        else
          let flags = seen flags param_type in
          rbind (ngtcp2_get_uint16 buf p) (\<lambda>l.
          if l \<noteq> 16 then malformed
          else let p = p + 2 in
            if length buf - p < 16 then malformed
            else rbind (rdn buf p 16) (\<lambda>tok. Inr (p + 16, flags, params\<lparr>stateless_reset_token := tok\<rparr>)))
      else if param_type = NGTCP2_TRANSPORT_PARAM_SERVER_UNICAST_IP then
        let flags = seen flags param_type in
        rbind (ngtcp2_get_uint16 buf p) (\<lambda>l.
        if l \<noteq> 16 then malformed
        else let p = p + 2 in
          if length buf - p < 16 then malformed
          else
            rbind (ngtcp2_get_uint32 buf p) (\<lambda>a.
            rbind (ngtcp2_get_uint32 buf (p + 4)) (\<lambda>b.
            rbind (ngtcp2_get_uint32 buf (p + 8)) (\<lambda>c.
            rbind (ngtcp2_get_uint32 buf (p + 12)) (\<lambda>d.
            Inr (p + 16, flags, params\<lparr>server_unicast_ip := (a, b, c, d)\<rparr>))))))
      else if param_type = NGTCP2_TRANSPORT_PARAM_ACK_DELAY_EXPONENT then
        let flags = seen flags param_type in
        rbind (ngtcp2_get_uint16 buf p) (\<lambda>l.
        if l \<noteq> 1 then malformed
        else let p = p + 2 in
          if p = length buf then malformed
          else rbind (rd buf p) (\<lambda>v. if v > 20 then malformed else Inr (p + 1, flags, params\<lparr>ack_delay_exponent := v\<rparr>)))
      else
        rbind (ngtcp2_get_uint16 buf p) (\<lambda>valuelen.
        let p = p + 2 in
        if length buf - p < unat valuelen then malformed else Inr (p + unat valuelen, flags, params)))"

lemma decode_param_forward:
  "decode_param exttype buf p t flags params = Inr (p', r) \<Longrightarrow> p + 2 \<le> p'"
  unfolding decode_param_def Let_def
  by (auto simp: rbind_eq_Inr split: if_splits)

function decode_params ::
    "u8 \<Rightarrow> bytes \<Rightarrow> nat \<Rightarrow> u32 \<Rightarrow> ngtcp2_transport_params \<Rightarrow> (nat \<times> u32 \<times> ngtcp2_transport_params) res" where
  "decode_params exttype buf p flags params =
     (if length buf - p \<ge> 4 then
        rbind (ngtcp2_get_uint16 buf p) (\<lambda>param_type.
        rbind (decode_param exttype buf (p + 2) param_type flags params) (\<lambda>(p', flags, params).
        decode_params exttype buf p' flags params))
      else Inr (p, flags, params))"
  by pat_completeness auto
termination
  by (relation "measure (\<lambda>(exttype, buf, p, flags, params). length buf - p)") (auto dest!: decode_param_forward)

declare decode_params.simps [simp del]

fun get_supported :: "bytes \<Rightarrow> nat \<Rightarrow> nat \<Rightarrow> nat \<Rightarrow> u32 list \<Rightarrow> u32 list res" where
  "get_supported buf p i 0 sv = Inr sv"
| "get_supported buf p i (Suc k) sv =
     (if \<not> i < length sv then Inl OutOfBounds
      else rbind (ngtcp2_get_uint32 buf p) (\<lambda>v. get_supported buf (p + 4) (i + 1) k (sv[i := v])))"

definition not_seen :: "u32 \<Rightarrow> u16 \<Rightarrow> bool" where
  "not_seen flags param_type = (flags AND push_bit (unat param_type) 1 = 0)"

text \<open>The end of the decoder: optional parameters that were not in the message get their default.\<close>

definition tp_defaults :: "u32 \<Rightarrow> ngtcp2_transport_params \<Rightarrow> ngtcp2_transport_params" where
  "tp_defaults flags params =
     (let params = (if not_seen flags NGTCP2_TRANSPORT_PARAM_INITIAL_MAX_STREAM_ID_BIDI
                   then params\<lparr>initial_max_stream_id_bidi := 0\<rparr> else params);
         params = (if not_seen flags NGTCP2_TRANSPORT_PARAM_INITIAL_MAX_STREAM_ID_UNI
                   then params\<lparr>initial_max_stream_id_uni := 0\<rparr> else params);
         params = (if not_seen flags NGTCP2_TRANSPORT_PARAM_OMIT_CONNECTION_ID
                   then params\<lparr>omit_connection_id := False\<rparr> else params);
         params = (if not_seen flags NGTCP2_TRANSPORT_PARAM_MAX_PACKET_SIZE
                   then params\<lparr>max_packet_size := NGTCP2_MAX_PKT_SIZE\<rparr> else params);
         params = (if not_seen flags NGTCP2_TRANSPORT_PARAM_ACK_DELAY_EXPONENT
                   then params\<lparr>ack_delay_exponent := NGTCP2_DEFAULT_ACK_DELAY_EXPONENT\<rparr> else params)
      in params)"

definition ngtcp2_decode_transport_params ::
    "ngtcp2_transport_params \<Rightarrow> u8 \<Rightarrow> bytes \<Rightarrow> ngtcp2_transport_params res" where
  "ngtcp2_decode_transport_params params exttype data =
     rbind
       (if exttype = CLIENT_HELLO then
          if length data < 4 then malformed
          else rbind (ngtcp2_get_uint32 data 0) (\<lambda>v. Inr (4, params\<lparr>tp_version := v\<rparr>, 4))
        else if exttype = ENCRYPTED_EXTENSIONS then
          if length data < 4 + 1 then malformed
          else
            rbind (ngtcp2_get_uint32 data 0) (\<lambda>v.
            rbind (rd data 4) (\<lambda>b.
            let svlen = unat b in
            if length data - 5 < svlen \<or> svlen mod 4 \<noteq> 0 then malformed
            else
              rbind (get_supported data 5 0 (svlen div 4) (tp_supported_versions params)) (\<lambda>sv.
              Inr (5 + svlen, params\<lparr>tp_version := v, tp_v_len := svlen div 4, tp_supported_versions := sv\<rparr>,
                   4 + 1 + svlen))))
        else Inr (0, params, 0)) (\<lambda>(p, params, vlen).
     if length data - p < 2 then malformed
     else
       rbind (ngtcp2_get_uint16 data p) (\<lambda>l.
       if vlen + 2 + unat l \<noteq> length data then malformed
       else
         rbind (decode_params exttype data (p + 2) 0 params) (\<lambda>(p, flags, params).
         if length data - p \<noteq> 0 then malformed
         else if not_seen flags NGTCP2_TRANSPORT_PARAM_INITIAL_MAX_STREAM_DATA \<or>
                 not_seen flags NGTCP2_TRANSPORT_PARAM_INITIAL_MAX_DATA \<or>
                 not_seen flags NGTCP2_TRANSPORT_PARAM_IDLE_TIMEOUT then
           fail NGTCP2_ERR_REQUIRED_TRANSPORT_PARAM
         else if (exttype = ENCRYPTED_EXTENSIONS \<or> exttype = NEW_SESSION_TICKET) \<and>
                 not_seen flags NGTCP2_TRANSPORT_PARAM_STATELESS_RESET_TOKEN then
           fail NGTCP2_ERR_REQUIRED_TRANSPORT_PARAM
         else
           Inr (tp_defaults flags params))))"

section \<open>The nonce\<close>

lemma xor_bytes_eq:
  assumes "length ys = length bs"
  shows "xor_bytes (xs @ ys @ zs) (length xs) bs = Inr (xs @ map2 (XOR) ys bs @ zs)"
  using assms
proof (induction bs arbitrary: xs ys)
  case (Cons b bs)
  then obtain y ys' where y: "ys = y # ys'" by (cases ys) auto
  have "xor_bytes ((xs @ [y XOR b]) @ ys' @ zs) (length (xs @ [y XOR b])) bs =
      Inr ((xs @ [y XOR b]) @ map2 (XOR) ys' bs @ zs)"
    using Cons y by (intro Cons.IH) simp
  then show ?case by (simp add: y)
qed simp

lemma create_nonce_eq:
  assumes "8 \<le> length iv"
  shows "ngtcp2_crypto_create_nonce iv n =
    Inr (take (length iv - 8) iv @ map2 (XOR) (drop (length iv - 8) iv) (be_bytes 8 n))"
proof -
  let ?k = "length iv - 8"
  have iv: "iv = take ?k iv @ drop ?k iv @ []" by simp
  have len: "length (take ?k iv) = ?k" using assms by simp
  have "xor_bytes iv ?k (be_bytes 8 n) =
      xor_bytes (take ?k iv @ drop ?k iv @ []) (length (take ?k iv)) (be_bytes 8 n)"
    using iv len by simp
  also have "\<dots> = Inr (take ?k iv @ map2 (XOR) (drop ?k iv) (be_bytes 8 n) @ [])"
    using assms by (intro xor_bytes_eq) simp
  finally show ?thesis using assms by (simp add: ngtcp2_crypto_create_nonce_def mem_bytes_bswap64)
qed

lemma xor_cancel: "(a :: 'a :: len word) XOR b = a XOR c \<longleftrightarrow> b = c"
  by (auto simp: bit_eq_iff bit_xor_iff)

lemma map2_xor_inj:
  "length xs = length bs \<Longrightarrow> length bs = length cs \<Longrightarrow> map2 (XOR) xs bs = map2 (XOR) xs cs \<Longrightarrow> bs = (cs :: bytes)"
proof (induction xs arbitrary: bs cs)
  case (Cons x xs)
  then obtain b bs' c cs' where "bs = b # bs'" "cs = c # cs'" by (metis Suc_length_conv length_Cons)
  then show ?case using Cons by (auto simp: xor_cancel)
qed simp

section \<open>Decoding is safe\<close>

lemma rspec_reads:
  "p + 2 \<le> length buf \<Longrightarrow> (\<And>v. rspec (f2 v) Q) \<Longrightarrow> rspec (rbind (ngtcp2_get_uint16 buf p) f2) Q"
  "p + 4 \<le> length buf \<Longrightarrow> (\<And>v. rspec (f4 v) Q) \<Longrightarrow> rspec (rbind (ngtcp2_get_uint32 buf p) f4) Q"
  "p < length buf \<Longrightarrow> (\<And>v. rspec (f1 v) Q) \<Longrightarrow> rspec (rbind (rd buf p) f1) Q"
  "p + n \<le> length buf \<Longrightarrow> (\<And>v. rspec (fn v) Q) \<Longrightarrow> rspec (rbind (rdn buf p n) fn) Q"
  by (simp_all add: get_uint_be)

lemma valid_stream_id_ok:
  "exttype \<le> 2 \<Longrightarrow> \<exists>b. valid_stream_id_bidi n exttype = Inr b"
  "exttype \<le> 2 \<Longrightarrow> \<exists>b. valid_stream_id_uni n exttype = Inr b"
proof -
  assume "exttype \<le> 2"
  then have "unat exttype \<le> 2" by (simp add: word_le_nat_alt)
  then have "unat exttype = 0 \<or> unat exttype = 1 \<or> unat exttype = 2" by linarith
  then have "exttype = 0 \<or> exttype = 1 \<or> exttype = 2" by (simp add: word_unat_eq_iff)
  then show "\<exists>b. valid_stream_id_bidi n exttype = Inr b" "\<exists>b. valid_stream_id_uni n exttype = Inr b"
    by (auto simp: valid_stream_id_bidi_def valid_stream_id_uni_def)
qed

lemma rspec_valid_stream_id:
  assumes "exttype \<le> 2" and "\<And>b. rspec (f b) Q"
  shows "rspec (rbind (valid_stream_id_bidi n exttype) f) Q" and "rspec (rbind (valid_stream_id_uni n exttype) f) Q"
  using valid_stream_id_ok [OF assms(1), of n] assms(2) by auto

lemma decode_param_safe:
  assumes "exttype \<le> 2" and "p + 2 \<le> length buf"
  shows "rspec (decode_param exttype buf p t flags params) (\<lambda>(p', _). p' \<le> length buf)"
  unfolding decode_param_def Let_def
  by (intro rspec_if rspec_reads rspec_valid_stream_id [OF assms(1)] rspec_simps; use assms(2) in \<open>simp; linarith?\<close>)

lemma decode_params_safe:
  assumes "exttype \<le> 2" and "p \<le> length buf"
  shows "rspec (decode_params exttype buf p flags params) (\<lambda>(p', _). p' \<le> length buf)"
  using assms
proof (induction exttype buf p flags params rule: decode_params.induct)
  case (1 exttype buf p flags params)
  show ?case
  proof (cases "length buf - p \<ge> 4")
    case True
    then have b: "p + 2 \<le> length buf" "p + 2 + 2 \<le> length buf" by linarith+
    obtain t where t: "ngtcp2_get_uint16 buf p = Inr t" using b(1) by (simp add: get_uint_be)
    have "rspec (rbind (decode_param exttype buf (p + 2) t flags params) (\<lambda>(p', flags, params).
        decode_params exttype buf p' flags params)) (\<lambda>(p', _). p' \<le> length buf)"
    proof (rule rspec_rbind [OF decode_param_safe [OF 1(2) b(2)]], clarify)
      fix p' fl pa assume d: "decode_param exttype buf (p + 2) t flags params = Inr (p', fl, pa)" "p' \<le> length buf"
      then show "rspec (decode_params exttype buf p' fl pa) (\<lambda>(p', _). p' \<le> length buf)"
        using 1(1) [OF True t d(1) refl refl 1(2)] by blast
    qed
    then show ?thesis using True t by (subst decode_params.simps) simp
  next
    case False
    then show ?thesis using 1(3) by (subst decode_params.simps) simp
  qed
qed

lemma get_supported_ok:
  "p + 4 * k \<le> length buf \<Longrightarrow> i + k \<le> length sv \<Longrightarrow>
    \<exists>sv'. get_supported buf p i k sv = Inr sv' \<and> length sv' = length sv"
proof (induction k arbitrary: p i sv)
  case (Suc k)
  have "\<exists>v. ngtcp2_get_uint32 buf p = Inr v" using Suc.prems by (simp add: get_uint_be)
  then obtain v where v: "ngtcp2_get_uint32 buf p = Inr v" ..
  have "p + 4 + 4 * k \<le> length buf" "i + 1 + k \<le> length (sv[i := v])" using Suc.prems by simp_all
  from Suc.IH [OF this] show ?case using v Suc.prems(2) by auto
qed simp

section \<open>Encoded parameters\<close>














section \<open>What the encoder writes\<close>

definition opt :: "bool \<Rightarrow> 'a \<Rightarrow> 'a list" where
  "opt b x = (if b then [x] else [])"











section \<open>Round trip\<close>






lemma fold_opt [simp]: "fold f (opt b x) s = (if b then f x s else s)"
  by (simp add: opt_def)

lemma set_opt [simp]: "set (opt b x) = (if b then {x} else {})"
  by (cases b) (simp_all add: opt_def)

lemma list_all_opt [simp]: "list_all P (opt b x) \<longleftrightarrow> (b \<longrightarrow> P x)"
  by (simp add: opt_def)






section \<open>Properties\<close>

definition example_params :: ngtcp2_transport_params where
  "example_params = \<lparr>tp_version = 1, tp_supported_versions = replicate 63 7, tp_v_len = 2,
     initial_max_stream_data = 262144, initial_max_data = 1048576, initial_max_stream_id_bidi = 0,
     initial_max_stream_id_uni = 0, idle_timeout = 30, omit_connection_id = True, max_packet_size = 1200,
     stateless_reset_token = replicate 16 9, server_unicast_ip = (0, 0, 0, 0), ack_delay_exponent = 5\<rparr>"

lemma be_bytes_8_inj: "be_bytes 8 (m :: u64) = be_bytes 8 n \<Longrightarrow> m = n"
proof -
  have rd: "ngtcp2_get_uint64 (be_bytes 8 k @ []) 0 = Inr k" for k by (rule get_uint_at(1) [OF holds_at_prefix])
  assume "be_bytes 8 m = be_bytes 8 n"
  then show "m = n" using rd [of m] rd [of n] by (metis sum.inject(2))
qed

lemma decode_version_safe:
  fixes params :: ngtcp2_transport_params
  assumes "length (tp_supported_versions params) = 63"
  shows "rspec
       (if exttype = CLIENT_HELLO then
          if length data < 4 then malformed
          else rbind (ngtcp2_get_uint32 data 0) (\<lambda>v. Inr (4, params\<lparr>tp_version := v\<rparr>, 4))
        else if exttype = ENCRYPTED_EXTENSIONS then
          if length data < 4 + 1 then malformed
          else
            rbind (ngtcp2_get_uint32 data 0) (\<lambda>v.
            rbind (rd data 4) (\<lambda>b.
            let svlen = unat b in
            if length data - 5 < svlen \<or> svlen mod 4 \<noteq> 0 then malformed
            else
              rbind (get_supported data 5 0 (svlen div 4) (tp_supported_versions params)) (\<lambda>sv.
              Inr (5 + svlen, params\<lparr>tp_version := v, tp_v_len := svlen div 4, tp_supported_versions := sv\<rparr>,
                   4 + 1 + svlen))))
        else Inr (0, params, 0)) (\<lambda>(p, _, vlen). p = vlen)"
proof -
  have sv: "rspec (rbind (get_supported data 5 0 (unat b div 4) (tp_supported_versions params)) f) Q"
    if b: "\<not> length data - 5 < unat b \<and> unat b mod 4 = 0" "\<not> length data < 5" and f: "\<And>sv. rspec (f sv) Q"
    for b :: u8 and f and Q :: "nat \<times> ngtcp2_transport_params \<times> nat \<Rightarrow> bool"
  proof -
    have "unat b div 4 \<le> 63" using unat_u8_bound [of b] by simp
    moreover have "5 + 4 * (unat b div 4) \<le> length data" using b by linarith
    ultimately obtain sv' where "get_supported data 5 0 (unat b div 4) (tp_supported_versions params) = Inr sv'"
      using get_supported_ok [of 5 "unat b div 4" data 0 "tp_supported_versions params"] assms by auto
    then show ?thesis using f by simp
  qed
  show ?thesis
    unfolding Let_def by (intro rspec_if rspec_reads rspec_simps; simp?) (rule sv, simp_all)
qed



text \<open>
  C37. Decoding transport parameters of any bytes a peer may send is memory safe: no read outside the message, no
  write outside the array of 63 supported versions, no failed assertion; the result is an error code or a structure.
\<close>

theorem transport_params_decode_safe:
  assumes "exttype \<le> 2" and "length (tp_supported_versions params) = 63"
  shows "rspec (ngtcp2_decode_transport_params params exttype data) (\<lambda>_. True)"
proof -
  let ?fin = "\<lambda>(p, params, vlen :: nat).
     if length data - p < 2 then malformed
     else
       rbind (ngtcp2_get_uint16 data p) (\<lambda>l.
       if vlen + 2 + unat l \<noteq> length data then malformed
       else
         rbind (decode_params exttype data (p + 2) 0 params) (\<lambda>(p, flags, params).
         if length data - p \<noteq> 0 then malformed
         else if not_seen flags NGTCP2_TRANSPORT_PARAM_INITIAL_MAX_STREAM_DATA \<or>
                 not_seen flags NGTCP2_TRANSPORT_PARAM_INITIAL_MAX_DATA \<or>
                 not_seen flags NGTCP2_TRANSPORT_PARAM_IDLE_TIMEOUT then
           fail NGTCP2_ERR_REQUIRED_TRANSPORT_PARAM
         else if (exttype = ENCRYPTED_EXTENSIONS \<or> exttype = NEW_SESSION_TICKET) \<and>
                 not_seen flags NGTCP2_TRANSPORT_PARAM_STATELESS_RESET_TOKEN then
           fail NGTCP2_ERR_REQUIRED_TRANSPORT_PARAM
         else
           Inr (tp_defaults flags params)))"
  have fin: "rspec (?fin (p, pa, vlen)) (\<lambda>_. True)" for p pa vlen
    unfolding prod.case
    by (intro rspec_if rspec_reads rspec_rbind [OF decode_params_safe [OF assms(1)]])
      (auto split: prod.splits intro!: rspec_if)
  show ?thesis
    unfolding ngtcp2_decode_transport_params_def
    by (rule rspec_rbind [OF decode_version_safe [OF assms(2)]]) (use fin in auto)
qed

theorem transport_params_decode_safe_witness:
  "rspec (ngtcp2_decode_transport_params example_params 1 [0, 0, 0, 1, 255, 0, 0]) (\<lambda>_. True)"
  by (rule transport_params_decode_safe) (simp_all add: example_params_def)

text \<open>
  C38. Packet protection never reuses a nonce: for an IV of at least eight bytes, distinct packet numbers give
  distinct nonces of the length of the IV.
\<close>

theorem nonce_unique:
  assumes "8 \<le> length iv" and "m \<noteq> n"
  shows "\<exists>a b. ngtcp2_crypto_create_nonce iv m = Inr a \<and> ngtcp2_crypto_create_nonce iv n = Inr b \<and>
    length a = length iv \<and> length b = length iv \<and> a \<noteq> b"
  using assms map2_xor_inj [of "drop (length iv - 8) iv" "be_bytes 8 m" "be_bytes 8 n"] be_bytes_8_inj [of m n]
  by (auto simp: create_nonce_eq)

theorem nonce_unique_witness:
  "\<exists>a b. ngtcp2_crypto_create_nonce (replicate 12 5) 1 = Inr a \<and> ngtcp2_crypto_create_nonce (replicate 12 5) 2 = Inr b \<and>
    length a = length (replicate 12 (5 :: u8)) \<and> length b = length (replicate 12 (5 :: u8)) \<and> a \<noteq> b"
  by (rule nonce_unique) simp_all

end
