(* ===== verification/Ranges.thy ===== *)
theory Ranges
  imports Prelude
begin

text \<open>
  \<^verbatim>\<open>lib/ngtcp2_range.c\<close>: half-open ranges of 64-bit offsets. A range \<open>[begin, end)\<close> denotes the
  set \<open>range_set\<close>; a list of gaps denotes the union \<open>gap_set\<close> of its ranges. \<open>gaps_wf\<close> is the
  representation invariant the headers of the gap trackers state: every gap is nonempty and the
  gaps are ordered, never overlap and never touch. Two well-formed lists with the same set are
  equal, so the lists are a canonical representation of the sets they denote.
\<close>

section \<open>Ranges\<close>

record ngtcp2_range =
  r_begin :: u64
  r_end :: u64

definition ngtcp2_range_init :: "u64 \<Rightarrow> u64 \<Rightarrow> ngtcp2_range" where
  "ngtcp2_range_init b e = \<lparr>r_begin = b, r_end = e\<rparr>"

definition ngtcp2_range_intersect :: "ngtcp2_range \<Rightarrow> ngtcp2_range \<Rightarrow> ngtcp2_range" where
  "ngtcp2_range_intersect a b =
     (let r = ngtcp2_range_init 0 0;
          bg = (if r_begin a > r_begin b then r_begin a else r_begin b);
          en = (if r_end a < r_end b then r_end a else r_end b)
      in if bg < en then ngtcp2_range_init bg en else r)"

definition ngtcp2_range_len :: "ngtcp2_range \<Rightarrow> u64" where
  "ngtcp2_range_len r = r_end r - r_begin r"

definition ngtcp2_range_equal :: "ngtcp2_range \<Rightarrow> ngtcp2_range \<Rightarrow> bool" where
  "ngtcp2_range_equal a b = (r_begin a = r_begin b \<and> r_end a = r_end b)"

definition ngtcp2_range_cut ::
    "ngtcp2_range \<Rightarrow> ngtcp2_range \<Rightarrow> ngtcp2_range \<times> ngtcp2_range" where
  "ngtcp2_range_cut a b =
     (\<lparr>r_begin = r_begin a, r_end = r_begin b\<rparr>, \<lparr>r_begin = r_end b, r_end = r_end a\<rparr>)"

definition ngtcp2_range_not_after :: "ngtcp2_range \<Rightarrow> ngtcp2_range \<Rightarrow> bool" where
  "ngtcp2_range_not_after a b = (r_end a \<le> r_end b)"

lemma range_collapse [simp]: "\<lparr>r_begin = r_begin q, r_end = r_end q\<rparr> = (q :: ngtcp2_range)"
  by simp

lemmas range_defs =
  ngtcp2_range_init_def ngtcp2_range_intersect_def ngtcp2_range_len_def
  ngtcp2_range_equal_def ngtcp2_range_cut_def ngtcp2_range_not_after_def

section \<open>What ranges and gap lists denote\<close>

definition range_set :: "ngtcp2_range \<Rightarrow> u64 set" where
  "range_set r = {r_begin r ..< r_end r}"

definition gap_set :: "ngtcp2_range list \<Rightarrow> u64 set" where
  "gap_set gs = (\<Union>g \<in> set gs. range_set g)"

definition gap_before :: "ngtcp2_range \<Rightarrow> ngtcp2_range \<Rightarrow> bool" where
  "gap_before a b = (r_end a < r_begin b)"

definition gaps_wf :: "ngtcp2_range list \<Rightarrow> bool" where
  "gaps_wf gs = ((\<forall>g \<in> set gs. r_begin g < r_end g) \<and> sorted_wrt gap_before gs)"

lemma gap_set_simps [simp]:
  "gap_set [] = {}"
  "gap_set (g # gs) = range_set g \<union> gap_set gs"
  "gap_set (gs @ hs) = gap_set gs \<union> gap_set hs"
  by (auto simp: gap_set_def)

lemma in_range_set [simp]: "x \<in> range_set r \<longleftrightarrow> r_begin r \<le> x \<and> x < r_end r"
  by (simp add: range_set_def)

lemma gaps_wf_Nil [simp]: "gaps_wf []"
  by (simp add: gaps_wf_def)

lemma gaps_wf_Cons:
  "gaps_wf (g # gs) \<longleftrightarrow>
     r_begin g < r_end g \<and> (\<forall>h \<in> set gs. r_end g < r_begin h) \<and> gaps_wf gs"
  by (auto simp: gaps_wf_def gap_before_def)

lemma gaps_wf_tail_set:
  assumes "gaps_wf (g # gs)" and "x \<in> gap_set gs"
  shows "r_end g < x"
proof -
  from assms(2) obtain h where h: "h \<in> set gs" "r_begin h \<le> x"
    by (auto simp: gap_set_def)
  with assms(1) have "r_end g < r_begin h" by (simp add: gaps_wf_Cons)
  with h(2) show ?thesis by simp
qed

lemma gap_set_empty_iff: "gaps_wf gs \<Longrightarrow> gap_set gs = {} \<longleftrightarrow> gs = []"
  by (cases gs) (auto simp: gaps_wf_Cons range_set_def)

text \<open>The first gap starts at the least missing offset.\<close>

lemma gaps_wf_least:
  assumes "gaps_wf (g # gs)"
  shows "r_begin g \<in> gap_set (g # gs)" and "x \<in> gap_set (g # gs) \<Longrightarrow> r_begin g \<le> x"
proof -
  from assms show "r_begin g \<in> gap_set (g # gs)"
    by (auto simp: gaps_wf_Cons)
next
  assume "x \<in> gap_set (g # gs)"
  then show "r_begin g \<le> x"
    using gaps_wf_tail_set [OF assms, of x] assms by (auto simp: gaps_wf_Cons)
qed

text \<open>Canonicity: the set determines the list.\<close>

lemma range_set_end_eq:
  assumes g: "r_begin g < r_end g" and h: "r_begin h < r_end h"
    and gs: "\<And>x. x \<in> A \<Longrightarrow> r_end g < x" and hs: "\<And>x. x \<in> B \<Longrightarrow> r_end h < x"
    and b: "r_begin g = r_begin h"
    and eq: "range_set g \<union> A = range_set h \<union> B"
  shows "r_end g \<le> r_end h"
proof (rule ccontr)
  assume "\<not> ?thesis"
  then have lt: "r_end h < r_end g" by simp
  from lt h b have "r_end h \<in> range_set g" by auto
  with eq have "r_end h \<in> range_set h \<union> B" by auto
  then show False using hs by fastforce
qed

lemma gaps_wf_canonical:
  "gaps_wf gs \<Longrightarrow> gaps_wf hs \<Longrightarrow> gap_set gs = gap_set hs \<Longrightarrow> gs = hs"
proof (induction gs arbitrary: hs)
  case Nil
  then show ?case using gap_set_empty_iff [of hs] by simp
next
  case (Cons g gs)
  then obtain h hs' where hs: "hs = h # hs'"
    using gap_set_empty_iff [of "g # gs"] by (cases hs) auto
  have wf: "gaps_wf gs" "gaps_wf hs'" and ne: "r_begin g < r_end g" "r_begin h < r_end h"
    using Cons.prems hs by (simp_all add: gaps_wf_Cons)
  have eq: "range_set g \<union> gap_set gs = range_set h \<union> gap_set hs'"
    using Cons.prems(3) hs by simp
  have b: "r_begin g = r_begin h"
    using gaps_wf_least [OF Cons.prems(1)] gaps_wf_least [OF Cons.prems(2) [unfolded hs]]
      Cons.prems(3) hs by (metis order_antisym)
  have tg: "\<And>x. x \<in> gap_set gs \<Longrightarrow> r_end g < x" and th: "\<And>x. x \<in> gap_set hs' \<Longrightarrow> r_end h < x"
    using gaps_wf_tail_set Cons.prems hs by blast+
  have e: "r_end g = r_end h"
    using range_set_end_eq [OF ne tg th b eq]
      range_set_end_eq [OF ne(2,1) th tg b [symmetric] eq [symmetric]] by simp
  have "gap_set gs = gap_set hs'"
    using eq tg th b e by (auto simp: set_eq_iff) (metis leD less_le_not_le)+
  then have "gs = hs'" by (rule Cons.IH [OF wf])
  with b e show ?case by (simp add: hs)
qed

section \<open>Facts about the range operations\<close>

lemma intersect_set:
  "range_set (ngtcp2_range_intersect a b) = range_set a \<inter> range_set b"
  by (auto simp: range_defs Let_def)

lemma intersect_len_0:
  "ngtcp2_range_len (ngtcp2_range_intersect a b) = 0 \<longleftrightarrow> range_set a \<inter> range_set b = {}"
proof -
  have "ngtcp2_range_len (ngtcp2_range_intersect a b) = 0 \<longleftrightarrow>
        \<not> max (r_begin a) (r_begin b) < min (r_end a) (r_end b)"
    by (auto simp: range_defs Let_def max_def min_def)
  also have "\<dots> \<longleftrightarrow> range_set a \<inter> range_set b = {}"
    by (auto simp: range_set_def)
  finally show ?thesis .
qed

lemma intersect_nonempty:
  assumes "ngtcp2_range_len (ngtcp2_range_intersect a b) \<noteq> 0"
  shows "r_begin (ngtcp2_range_intersect a b) = max (r_begin a) (r_begin b)"
    and "r_end (ngtcp2_range_intersect a b) = min (r_end a) (r_end b)"
    and "max (r_begin a) (r_begin b) < min (r_end a) (r_end b)"
  using assms by (auto simp: range_defs Let_def max_def min_def split: if_splits)

end
