(* ===== verification/Gaptr.thy ===== *)
theory Gaptr
  imports Ranges
begin

text \<open>
  \<^verbatim>\<open>lib/ngtcp2_gaptr.c\<close>: the gap tracker. It keeps the offsets in \<open>[0, UINT64_MAX)\<close> that have not
  been pushed yet as a linked list of gaps. The list is a HOL list; the pointer-to-pointer
  \<^verbatim>\<open>pg\<close> that walks it is the recursion over the list, and what \<^verbatim>\<open>remove_gap\<close>, \<^verbatim>\<open>insert_gap\<close> and
  the assignments to \<^verbatim>\<open>(*pg)->range\<close> leave behind is the list that is returned.

  The interface that clients rely on is the locale \<open>gap_tracker\<close>; \<open>ngtcp2_gaptr\<close> interprets it here.
\<close>

section \<open>The interface of a gap tracker\<close>

locale gap_tracker =
  fixes invar :: "'s \<Rightarrow> bool"
    and missing :: "'s \<Rightarrow> u64 set"
    and push :: "'s \<Rightarrow> ngtcp2_range \<Rightarrow> 's"
    and first_gap :: "'s \<Rightarrow> u64"
  assumes invar_push: "invar s \<Longrightarrow> invar (push s q)"
    and missing_push: "invar s \<Longrightarrow> missing (push s q) = missing s - range_set q"
    and first_gap_least: "invar s \<Longrightarrow> x \<in> missing s \<Longrightarrow> first_gap s \<le> x"
    and first_gap_missing: "invar s \<Longrightarrow> missing s \<noteq> {} \<Longrightarrow> first_gap s \<in> missing s"
    and first_gap_none: "invar s \<Longrightarrow> missing s = {} \<Longrightarrow> first_gap s = UINT64_MAX"
    and canonical: "invar s \<Longrightarrow> invar t \<Longrightarrow> missing s = missing t \<Longrightarrow> s = t"
begin

fun pushes :: "'s \<Rightarrow> ngtcp2_range list \<Rightarrow> 's" where
  "pushes s [] = s"
| "pushes s (q # qs) = pushes (push s q) qs"

lemma pushes_invar: "invar s \<Longrightarrow> invar (pushes s qs)"
  by (induction qs arbitrary: s) (auto simp: invar_push)

lemma pushes_missing: "invar s \<Longrightarrow> missing (pushes s qs) = missing s - gap_set qs"
  by (induction qs arbitrary: s) (auto simp: invar_push missing_push)

text \<open>Only the set of pushed offsets counts, not the order or the fragmentation.\<close>

lemma pushes_eq:
  "invar s \<Longrightarrow> missing s \<inter> gap_set qs = missing s \<inter> gap_set qs' \<Longrightarrow> pushes s qs = pushes s qs'"
  by (rule canonical) (auto simp: pushes_invar pushes_missing)

lemma push_commute: "invar s \<Longrightarrow> push (push s a) b = push (push s b) a"
  by (rule canonical) (auto simp: invar_push missing_push)

lemma push_idem: "invar s \<Longrightarrow> push (push s a) a = push s a"
  by (rule canonical) (auto simp: invar_push missing_push)

lemma first_gap_mono: "invar s \<Longrightarrow> first_gap s \<le> first_gap (push s q)"
  by (cases "missing (push s q) = {}")
    (use first_gap_none invar_push in simp,
     use first_gap_missing first_gap_least invar_push missing_push in blast)

text \<open>Everything below the first gap is present, and nothing more can be said.\<close>

lemma below_first_gap: "invar s \<Longrightarrow> x < first_gap s \<Longrightarrow> x \<notin> missing s"
  using first_gap_least leD by blast

end

section \<open>The tracker of the code\<close>

record ngtcp2_gaptr =
  gap :: "ngtcp2_range list"

definition ngtcp2_gaptr_gap_new :: "mem \<Rightarrow> u64 \<Rightarrow> u64 \<Rightarrow> ngtcp2_range option \<times> mem" where
  "ngtcp2_gaptr_gap_new m b e =
     (case malloc m of (ok, m') \<Rightarrow> (if ok then Some (ngtcp2_range_init b e) else None, m'))"

definition ngtcp2_gaptr_init :: "mem \<Rightarrow> lib_error + ngtcp2_gaptr \<times> mem" where
  "ngtcp2_gaptr_init m =
     (case ngtcp2_gaptr_gap_new m 0 UINT64_MAX of
        (None, m') \<Rightarrow> Inl NGTCP2_ERR_NOMEM
      | (Some g, m') \<Rightarrow> Inr (\<lparr>gap = [g]\<rparr>, m'))"

text \<open>
  The loop of \<^verbatim>\<open>ngtcp2_gaptr_push\<close>. \<open>push_next\<close> is the end of the loop body for the gap \<^verbatim>\<open>*pg\<close>
  that is left in place: stop if \<open>q\<close> does not go beyond it, else continue behind it.
\<close>

definition push_cons :: "ngtcp2_range \<Rightarrow> rv \<times> ngtcp2_range list \<times> mem \<Rightarrow> rv \<times> ngtcp2_range list \<times> mem"
  where "push_cons g res = (case res of (rv, gs, m) \<Rightarrow> (rv, g # gs, m))"

fun gaptr_push_loop ::
    "mem \<Rightarrow> ngtcp2_range \<Rightarrow> ngtcp2_range list \<Rightarrow> rv \<times> ngtcp2_range list \<times> mem" where
  "gaptr_push_loop m q [] = (None, [], m)"
| "gaptr_push_loop m q (g # gs) =
     (let i = ngtcp2_range_intersect q g in
      if ngtcp2_range_len i \<noteq> 0 then
        if ngtcp2_range_equal g i then gaptr_push_loop m q gs
        else
          case ngtcp2_range_cut g i of (l, r) \<Rightarrow>
          if ngtcp2_range_len l \<noteq> 0 then
            if ngtcp2_range_len r \<noteq> 0 then
              case ngtcp2_gaptr_gap_new m (r_begin r) (r_end r) of
                (None, m') \<Rightarrow> (Some NGTCP2_ERR_NOMEM, l # gs, m')
              | (Some ng, m') \<Rightarrow>
                  push_cons l
                    (if ngtcp2_range_not_after q ng then (None, ng # gs, m')
                     else push_cons ng (gaptr_push_loop m' q gs))
            else if ngtcp2_range_not_after q l then (None, l # gs, m)
            else push_cons l (gaptr_push_loop m q gs)
          else
            let g' = (if ngtcp2_range_len r \<noteq> 0 then r else g) in
            if ngtcp2_range_not_after q g' then (None, g' # gs, m)
            else push_cons g' (gaptr_push_loop m q gs)
      else if ngtcp2_range_not_after q g then (None, g # gs, m)
      else push_cons g (gaptr_push_loop m q gs))"

definition ngtcp2_gaptr_push ::
    "mem \<Rightarrow> ngtcp2_gaptr \<Rightarrow> u64 \<Rightarrow> u64 \<Rightarrow> rv \<times> ngtcp2_gaptr \<times> mem" where
  "ngtcp2_gaptr_push m t offset datalen =
     (case gaptr_push_loop m \<lparr>r_begin = offset, r_end = offset + datalen\<rparr> (gap t) of
        (rv, gs, m') \<Rightarrow> (rv, t\<lparr>gap := gs\<rparr>, m'))"

definition ngtcp2_gaptr_first_gap_offset :: "ngtcp2_gaptr \<Rightarrow> u64" where
  "ngtcp2_gaptr_first_gap_offset t = (case gap t of [] \<Rightarrow> UINT64_MAX | g # _ \<Rightarrow> r_begin g)"

section \<open>Correctness of the loop\<close>

definition gaptr_wf :: "ngtcp2_gaptr \<Rightarrow> bool" where
  "gaptr_wf t = gaps_wf (gap t)"

lemma push_cons_simp [simp]: "push_cons g (rv, gs, m) = (rv, g # gs, m)"
  by (simp add: push_cons_def)

lemma gap_new_mem_ok [simp]:
  "mem_ok m \<Longrightarrow> ngtcp2_gaptr_gap_new m b e = (Some (ngtcp2_range_init b e), m)"
  by (simp add: ngtcp2_gaptr_gap_new_def malloc_mem_ok)

text \<open>
  The reference loop: remove \<open>q\<close> from every gap, keeping the nonempty remainders. The code's loop
  computes the same list, stopping early where the remaining gaps cannot meet \<open>q\<close>.
\<close>

definition range_minus :: "ngtcp2_range \<Rightarrow> ngtcp2_range \<Rightarrow> ngtcp2_range list" where
  "range_minus g q =
     (if range_set g \<inter> range_set q = {} then [g]
      else (if r_begin g < r_begin q then [\<lparr>r_begin = r_begin g, r_end = r_begin q\<rparr>] else []) @
           (if r_end q < r_end g then [\<lparr>r_begin = r_end q, r_end = r_end g\<rparr>] else []))"

lemma range_minus_set: "gap_set (range_minus g q) = range_set g - range_set q"
  by (auto simp: range_minus_def)

lemma range_minus_bounds:
  assumes "r_begin g < r_end g" and "h \<in> set (range_minus g q)"
  shows "r_begin g \<le> r_begin h" "r_begin h < r_end h" "r_end h \<le> r_end g"
  using assms by (auto simp: range_minus_def range_set_def split: if_splits)

lemma range_minus_wf:
  assumes "r_begin g < r_end g" shows "gaps_wf (range_minus g q)"
  using assms by (auto simp: range_minus_def gaps_wf_Cons range_set_def split: if_splits)

lemma gaps_wf_append:
  "gaps_wf (gs @ hs) \<longleftrightarrow> gaps_wf gs \<and> gaps_wf hs \<and> (\<forall>g \<in> set gs. \<forall>h \<in> set hs. r_end g < r_begin h)"
  by (induction gs) (auto simp: gaps_wf_Cons)

definition gaps_minus :: "ngtcp2_range list \<Rightarrow> ngtcp2_range \<Rightarrow> ngtcp2_range list" where
  "gaps_minus gs q = concat (map (\<lambda>g. range_minus g q) gs)"

lemma gaps_minus_simps [simp]:
  "gaps_minus [] q = []"
  "gaps_minus (g # gs) q = range_minus g q @ gaps_minus gs q"
  by (simp_all add: gaps_minus_def)

lemma gaps_minus_set: "gap_set (gaps_minus gs q) = gap_set gs - range_set q"
  by (induction gs) (auto simp: range_minus_set)

lemma gaps_minus_begin:
  assumes "gaps_wf gs" and "h \<in> set (gaps_minus gs q)"
  shows "\<exists>g \<in> set gs. r_begin g \<le> r_begin h"
  using assms by (induction gs) (auto simp: gaps_wf_Cons dest: range_minus_bounds)

lemma gaps_minus_wf: "gaps_wf gs \<Longrightarrow> gaps_wf (gaps_minus gs q)"
proof (induction gs)
  case Nil
  then show ?case by simp
next
  case (Cons g gs)
  then have g: "r_begin g < r_end g" and wf: "gaps_wf gs" by (simp_all add: gaps_wf_Cons)
  have "r_end a < r_begin h" if a: "a \<in> set (range_minus g q)" and h: "h \<in> set (gaps_minus gs q)"
    for a h
  proof -
    obtain g' where "g' \<in> set gs" "r_begin g' \<le> r_begin h"
      using gaps_minus_begin [OF wf h] by blast
    moreover from this have "r_end g < r_begin g'" using Cons.prems by (simp add: gaps_wf_Cons)
    ultimately show ?thesis using range_minus_bounds(3) [OF g a] by simp
  qed
  then show ?case using Cons wf g by (simp add: gaps_wf_append range_minus_wf)
qed

lemma gaps_minus_disjoint: "gap_set gs \<inter> range_set q = {} \<Longrightarrow> gaps_minus gs q = gs"
  by (induction gs) (auto simp: range_minus_def)

lemma gaps_minus_stop:
  assumes "gaps_wf (g # gs)" and "r_end q \<le> r_end g"
  shows "gaps_minus gs q = gs"
  using gaps_wf_tail_set [OF assms(1)] assms(2) by (intro gaps_minus_disjoint) fastforce

lemma gaptr_push_loop_eq:
  assumes "mem_ok m"
  shows "gaps_wf gs \<Longrightarrow> gaptr_push_loop m q gs = (None, gaps_minus gs q, m)"
proof (induction gs)
  case Nil
  then show ?case by simp
next
  case (Cons g gs)
  then have g: "r_begin g < r_end g" and wf: "gaps_wf gs" by (simp_all add: gaps_wf_Cons)
  note IH = Cons.IH [OF wf]
  have stop: "r_end q \<le> r_end g \<Longrightarrow> gaps_minus gs q = gs"
    by (rule gaps_minus_stop [OF Cons.prems])
  show ?case
  proof (cases "range_set q \<inter> range_set g = {}")
    case True
    then show ?thesis using IH stop
      by (auto simp: intersect_len_0 range_minus_def Int_commute ngtcp2_range_not_after_def Let_def)
  next
    case False
    then have ne: "ngtcp2_range_len (ngtcp2_range_intersect q g) \<noteq> 0"
      by (simp add: intersect_len_0)
    note i = intersect_nonempty [OF ne]
    show ?thesis using ne i IH stop assms False g
      by (auto simp: range_minus_def ngtcp2_range_equal_def ngtcp2_range_cut_def Let_def
          ngtcp2_range_len_def [of "\<lparr>r_begin = _, r_end = _\<rparr>"] ngtcp2_range_not_after_def
          ngtcp2_range_init_def Int_commute max_def min_def split: if_splits)
  qed
qed

section \<open>The tracker implements the interface\<close>

lemma ngtcp2_gaptr_push_eq:
  assumes "mem_ok m" and "gaptr_wf t"
  shows "ngtcp2_gaptr_push m t offset datalen =
     (None, t\<lparr>gap := gaps_minus (gap t) \<lparr>r_begin = offset, r_end = offset + datalen\<rparr>\<rparr>, m)"
  using assms by (simp add: ngtcp2_gaptr_push_def gaptr_wf_def gaptr_push_loop_eq)

abbreviation gaptr_push_ok :: "ngtcp2_gaptr \<Rightarrow> ngtcp2_range \<Rightarrow> ngtcp2_gaptr" where
  "gaptr_push_ok t q \<equiv>
     fst (snd (ngtcp2_gaptr_push (\<lambda>_. True) t (r_begin q) (r_end q - r_begin q)))"

interpretation gaptr: gap_tracker gaptr_wf "\<lambda>t. gap_set (gap t)" gaptr_push_ok
  ngtcp2_gaptr_first_gap_offset
proof (unfold_locales, goal_cases)
  case (1 s q)
  then show ?case
    by (simp add: ngtcp2_gaptr_push_eq mem_ok_True) (simp add: gaptr_wf_def gaps_minus_wf)
next
  case (2 s q)
  then show ?case by (simp add: ngtcp2_gaptr_push_eq mem_ok_True gaps_minus_set range_set_def)
next
  case (3 s x)
  then show ?case
    by (cases "gap s")
      (auto simp: gaptr_wf_def ngtcp2_gaptr_first_gap_offset_def dest: gaps_wf_least(2))
next
  case (4 s)
  then show ?case
    by (cases "gap s")
      (auto simp: gaptr_wf_def gaps_wf_Cons ngtcp2_gaptr_first_gap_offset_def)
next
  case (5 s)
  then show ?case
    by (simp add: gaptr_wf_def gap_set_empty_iff ngtcp2_gaptr_first_gap_offset_def)
next
  case (6 s t)
  then have "gap s = gap t" by (simp add: gaptr_wf_def gaps_wf_canonical)
  then show ?case by simp
qed

lemma gaptr_init_wf:
  "ngtcp2_gaptr_init m = Inr (t, m') \<Longrightarrow> gaptr_wf t \<and> gap_set (gap t) = {0 ..< UINT64_MAX}"
  by (auto simp: ngtcp2_gaptr_init_def ngtcp2_gaptr_gap_new_def gaptr_wf_def gaps_wf_Cons
      ngtcp2_range_init_def range_set_def less_UINT64_MAX split: prod.splits if_splits)

section \<open>Properties\<close>

text \<open>
  C12. When the allocator grants its requests, \<^verbatim>\<open>ngtcp2_gaptr_push\<close> returns 0, keeps the list of gaps
  well-formed and removes from the missing offsets exactly the offsets in
  \<open>[offset, offset + datalen)\<close>, for every offset and length and whatever gaps the range meets.
\<close>

theorem gaptr_push_correct:
  assumes "mem_ok m" and "gaptr_wf t"
  shows "\<exists>t'. ngtcp2_gaptr_push m t offset datalen = (None, t', m) \<and> gaptr_wf t' \<and>
           gap_set (gap t') = gap_set (gap t) - {offset ..< offset + datalen}"
  using assms
  by (simp add: ngtcp2_gaptr_push_eq gaps_minus_set range_set_def)
    (simp add: gaptr_wf_def gaps_minus_wf)

theorem gaptr_push_correct_witness:
  "mem_ok (\<lambda>_. True) \<and> gaptr_wf \<lparr>gap = [\<lparr>r_begin = 0, r_end = UINT64_MAX\<rparr>]\<rparr> \<and>
   (\<exists>t'. ngtcp2_gaptr_push (\<lambda>_. True) \<lparr>gap = [\<lparr>r_begin = 0, r_end = UINT64_MAX\<rparr>]\<rparr> 10 5 =
           (None, t', \<lambda>_. True) \<and> gaptr_wf t' \<and>
      gap_set (gap t') = gap_set [\<lparr>r_begin = 0, r_end = UINT64_MAX\<rparr>] - {10 ..< 10 + 5})"
proof -
  have wf: "gaptr_wf \<lparr>gap = [\<lparr>r_begin = 0, r_end = UINT64_MAX\<rparr>]\<rparr>"
    by (simp add: gaptr_wf_def gaps_wf_Cons less_UINT64_MAX)
  show ?thesis using wf gaptr_push_correct [OF mem_ok_True wf, of 10 5] by (simp add: mem_ok_True)
qed

text \<open>
  C13. The order in which ranges are pushed and how the data was cut into ranges do not matter: two
  sequences of pushes that cover the same offsets leave the tracker in the same state, gap for gap.
\<close>

theorem gaptr_push_order:
  assumes "gaptr_wf t" and "gap_set qs = gap_set qs'"
  shows "foldl gaptr_push_ok t qs = foldl gaptr_push_ok t qs'"
proof -
  have fold: "foldl gaptr_push_ok t ps = gaptr.pushes t ps" for t ps
    by (induction ps arbitrary: t) simp_all
  show ?thesis unfolding fold using assms by (intro gaptr.pushes_eq) auto
qed

theorem gaptr_push_order_witness:
  "gaptr_wf \<lparr>gap = [\<lparr>r_begin = 0, r_end = UINT64_MAX\<rparr>]\<rparr> \<and>
   gap_set [\<lparr>r_begin = 4, r_end = 8\<rparr>, \<lparr>r_begin = 0, r_end = 4\<rparr>] = gap_set [\<lparr>r_begin = 0, r_end = 8\<rparr>] \<and>
   foldl gaptr_push_ok \<lparr>gap = [\<lparr>r_begin = 0, r_end = UINT64_MAX\<rparr>]\<rparr>
     [\<lparr>r_begin = 4, r_end = 8\<rparr>, \<lparr>r_begin = 0, r_end = 4\<rparr>] =
   foldl gaptr_push_ok \<lparr>gap = [\<lparr>r_begin = 0, r_end = UINT64_MAX\<rparr>]\<rparr> [\<lparr>r_begin = 0, r_end = 8\<rparr>]"
proof -
  have wf: "gaptr_wf \<lparr>gap = [\<lparr>r_begin = 0, r_end = UINT64_MAX\<rparr>]\<rparr>"
    by (simp add: gaptr_wf_def gaps_wf_Cons less_UINT64_MAX)
  have eq: "gap_set [\<lparr>r_begin = 4, r_end = 8\<rparr>, \<lparr>r_begin = 0, r_end = 4\<rparr>] =
            gap_set [\<lparr>r_begin = 0, r_end = 8\<rparr>]"
  proof (rule set_eqI)
    fix x :: u64
    have "(0 \<le> x \<and> x < 8) = (4 \<le> x \<and> x < 8 \<or> 0 \<le> x \<and> x < 4)"
      by (auto simp: not_le) (use less_trans in fastforce)+
    then show "x \<in> gap_set [\<lparr>r_begin = 4, r_end = 8\<rparr>, \<lparr>r_begin = 0, r_end = 4\<rparr>] \<longleftrightarrow>
               x \<in> gap_set [\<lparr>r_begin = 0, r_end = 8\<rparr>]" by simp
  qed
  show ?thesis using wf eq gaptr_push_order [OF wf eq] by simp
qed

text \<open>
  \<^verbatim>\<open>ngtcp2_gaptr_first_gap_offset\<close> is the length of the contiguous prefix that has been pushed:
  it is the least missing offset, and \<^verbatim>\<open>UINT64_MAX\<close> when nothing is missing; a further push never
  moves it back.
\<close>

theorem gaptr_first_gap:
  assumes "gaptr_wf t"
  shows "(\<forall>x < ngtcp2_gaptr_first_gap_offset t. x \<notin> gap_set (gap t)) \<and>
         (if gap_set (gap t) = {} then ngtcp2_gaptr_first_gap_offset t = UINT64_MAX
          else ngtcp2_gaptr_first_gap_offset t \<in> gap_set (gap t)) \<and>
         ngtcp2_gaptr_first_gap_offset t \<le> ngtcp2_gaptr_first_gap_offset (gaptr_push_ok t q)"
  using gaptr.below_first_gap [OF assms] gaptr.first_gap_none [OF assms]
    gaptr.first_gap_missing [OF assms] gaptr.first_gap_mono [OF assms, of q] by auto

theorem gaptr_first_gap_witness:
  "gaptr_wf \<lparr>gap = [\<lparr>r_begin = 7, r_end = UINT64_MAX\<rparr>]\<rparr> \<and>
   ngtcp2_gaptr_first_gap_offset \<lparr>gap = [\<lparr>r_begin = 7, r_end = UINT64_MAX\<rparr>]\<rparr> \<le>
   ngtcp2_gaptr_first_gap_offset
     (gaptr_push_ok \<lparr>gap = [\<lparr>r_begin = 7, r_end = UINT64_MAX\<rparr>]\<rparr> \<lparr>r_begin = 7, r_end = 9\<rparr>)"
proof -
  have wf: "gaptr_wf \<lparr>gap = [\<lparr>r_begin = 7, r_end = UINT64_MAX\<rparr>]\<rparr>"
    by (simp add: gaptr_wf_def gaps_wf_Cons less_UINT64_MAX)
  then show ?thesis using gaptr_first_gap [OF wf, of "\<lparr>r_begin = 7, r_end = 9\<rparr>"] by simp
qed

text \<open>
  The error path: when a range strictly inside a gap is pushed and the allocation of the second
  half fails, \<^verbatim>\<open>NGTCP2_ERR_NOMEM\<close> is returned after the gap has already been cut, so every offset
  of the gap behind the range, which was never pushed, is no longer missing either.
\<close>

theorem gaptr_push_nomem:
  fixes q :: ngtcp2_range
  assumes "\<not> m 0" and "gap t = g # gs" and "r_begin g < r_begin q" and "r_begin q < r_end q"
    and "r_end q < r_end g"
  shows "\<exists>t' m'. ngtcp2_gaptr_push m t (r_begin q) (r_end q - r_begin q) =
           (Some NGTCP2_ERR_NOMEM, t', m') \<and>
         gap_set (gap t') = {r_begin g ..< r_begin q} \<union> gap_set gs"
proof -
  from assms(3-5) have lt: "r_begin g < r_end q" "r_begin q < r_end g" by simp_all
  have i: "ngtcp2_range_intersect q g = q"
    using assms(3-5) lt by (auto simp: range_defs Let_def)
  from assms(3-5) lt i show ?thesis
    by (auto simp: ngtcp2_gaptr_push_def assms(1,2) Let_def ngtcp2_range_len_def
        ngtcp2_range_equal_def ngtcp2_range_cut_def ngtcp2_gaptr_gap_new_def malloc_def
        range_set_def)
qed

theorem gaptr_push_nomem_witness:
  "\<exists>t' m'. ngtcp2_gaptr_push (\<lambda>_. False) \<lparr>gap = [\<lparr>r_begin = 0, r_end = 100\<rparr>]\<rparr> 10 5 =
     (Some NGTCP2_ERR_NOMEM, t', m') \<and> gap_set (gap t') = {0 ..< 10} \<union> gap_set []"
  using gaptr_push_nomem [of "\<lambda>_. False" "\<lparr>gap = [\<lparr>r_begin = 0, r_end = 100\<rparr>]\<rparr>"
      "\<lparr>r_begin = 0, r_end = 100\<rparr>" "[]" "\<lparr>r_begin = 10, r_end = 15\<rparr>"] by simp

end
