(* ===== verification/Rob.thy ===== *)
theory Rob
  imports Gaptr
begin

text \<open>
  \<^verbatim>\<open>lib/ngtcp2_rob.c\<close>: the reorder buffer of a stream. Besides a list of gaps (the offsets not received
  yet) it keeps the received bytes in chunks of \<^verbatim>\<open>chunk\<close> bytes at offsets that are multiples of
  \<^verbatim>\<open>chunk\<close>, in a list ordered by offset. A byte of a chunk that was never stored is \<open>None\<close>: the
  memory that the allocator returns is not initialised.
\<close>

section \<open>State\<close>

record ngtcp2_rob_data =
  d_offset :: u64
  d_buf :: "u8 option list"

record ngtcp2_rob =
  rob_gap :: "ngtcp2_range list"
  rob_data :: "ngtcp2_rob_data list"
  rob_chunk :: u64

definition ngtcp2_rob_gap_new :: "mem \<Rightarrow> u64 \<Rightarrow> u64 \<Rightarrow> ngtcp2_range option \<times> mem" where
  "ngtcp2_rob_gap_new m b e =
     (case malloc m of (ok, m') \<Rightarrow> (if ok then Some (ngtcp2_range_init b e) else None, m'))"

definition ngtcp2_rob_data_new :: "mem \<Rightarrow> u64 \<Rightarrow> u64 \<Rightarrow> ngtcp2_rob_data option \<times> mem" where
  "ngtcp2_rob_data_new m offset chunk =
     (case malloc m of (ok, m') \<Rightarrow>
        (if ok then Some \<lparr>d_offset = offset, d_buf = replicate (unat chunk) None\<rparr> else None, m'))"

definition ngtcp2_rob_init :: "mem \<Rightarrow> u64 \<Rightarrow> lib_error + ngtcp2_rob \<times> mem" where
  "ngtcp2_rob_init m chunk =
     (case ngtcp2_rob_gap_new m 0 UINT64_MAX of
        (None, m') \<Rightarrow> Inl NGTCP2_ERR_NOMEM
      | (Some g, m') \<Rightarrow> Inr (\<lparr>rob_gap = [g], rob_data = [], rob_chunk = chunk\<rparr>, m'))"

section \<open>Storing bytes\<close>

text \<open>\<^verbatim>\<open>memcpy((*pd)->begin + (offset - (*pd)->offset), data, n)\<close>\<close>

definition copy_into :: "u8 option list \<Rightarrow> nat \<Rightarrow> bytes \<Rightarrow> u8 option list res" where
  "copy_into buf pos bs =
     (if pos + length bs \<le> length buf
      then Inr (take pos buf @ map Some bs @ drop (pos + length bs) buf) else Inl OutOfBounds)"

definition rob_copy :: "u64 \<Rightarrow> ngtcp2_rob_data \<Rightarrow> u64 \<Rightarrow> bytes \<Rightarrow> (ngtcp2_rob_data \<times> nat) res" where
  "rob_copy chunk d offset data =
     (let n = min (length data) (unat (d_offset d + chunk - offset)) in
      rbind (copy_into (d_buf d) (unat (offset - d_offset d)) (take n data)) (\<lambda>b.
        Inr (d\<lparr>d_buf := b\<rparr>, n)))"

definition data_cons ::
    "ngtcp2_rob_data \<Rightarrow> (rv \<times> ngtcp2_rob_data list \<times> mem) res \<Rightarrow> (rv \<times> ngtcp2_rob_data list \<times> mem) res"
  where "data_cons d r = rbind r (\<lambda>(rv, ds, m). Inr (rv, d # ds, m))"

lemma round_down_gap:
  fixes offset chunk :: u64
  assumes "chunk \<noteq> 0"
  shows "offset div chunk * chunk + chunk - offset = chunk - offset mod chunk"
    and "offset mod chunk < chunk"
proof -
  have "offset = offset div chunk * chunk + offset mod chunk" by (rule div_mult_mod_eq [symmetric])
  then show "offset div chunk * chunk + chunk - offset = chunk - offset mod chunk"
    by (metis (no_types, lifting) add_diff_cancel_left add.commute)
  show "offset mod chunk < chunk"
    using assms by (simp add: word_less_nat_alt unat_mod unat_gt_0)
qed

text \<open>
  The loop of \<^verbatim>\<open>rob_write_data\<close>: the list is the rest of the chunks from \<^verbatim>\<open>*pd\<close> on. A chunk size of 0
  would divide by zero.
\<close>

function rob_write_data ::
    "mem \<Rightarrow> u64 \<Rightarrow> ngtcp2_rob_data list \<Rightarrow> u64 \<Rightarrow> bytes \<Rightarrow> (rv \<times> ngtcp2_rob_data list \<times> mem) res" where
  "rob_write_data m chunk pds offset data =
     (if chunk = 0 then Inl AssertFail
      else if pds = [] \<or> offset < d_offset (hd pds) then
        case ngtcp2_rob_data_new m (offset div chunk * chunk) chunk of
          (None, m') \<Rightarrow> Inr (Some NGTCP2_ERR_NOMEM, pds, m')
        | (Some nd, m') \<Rightarrow>
            (case rob_copy chunk nd offset data of
               Inl e \<Rightarrow> Inl e
             | Inr (nd, n) \<Rightarrow>
                 if length data \<le> n then Inr (None, nd # pds, m')
                 else data_cons nd (rob_write_data m' chunk pds (offset + of_nat n) (drop n data)))
      else if d_offset (hd pds) + chunk < offset then
        data_cons (hd pds) (rob_write_data m chunk (tl pds) offset data)
      else
        (case rob_copy chunk (hd pds) offset data of
           Inl e \<Rightarrow> Inl e
         | Inr (d, n) \<Rightarrow>
             if length data \<le> n then Inr (None, d # tl pds, m)
             else data_cons d (rob_write_data m chunk (tl pds) (offset + of_nat n) (drop n data))))"
  by pat_completeness auto

lemma rob_copy_progress:
  assumes "chunk \<noteq> 0" and "rob_copy chunk d offset data = Inr (d', n)"
    and "d_offset d = offset div chunk * chunk" and "n < length data"
  shows "0 < n"
proof -
  have "unat (d_offset d + chunk - offset) = unat (chunk - offset mod chunk)"
    by (simp only: assms(3) round_down_gap(1) [OF assms(1)])
  moreover have "chunk - offset mod chunk \<noteq> 0" using round_down_gap(2) [OF assms(1), of offset] by auto
  ultimately have "0 < unat (d_offset d + chunk - offset)" by (simp add: unat_gt_0)
  then show ?thesis using assms(2,4) by (auto simp: rob_copy_def Let_def rbind_eq_Inr min_def split: if_splits)
qed

lemma data_new_offset:
  "ngtcp2_rob_data_new m offset chunk = (Some nd, m') \<Longrightarrow> d_offset nd = offset"
  by (auto simp: ngtcp2_rob_data_new_def split: prod.splits if_splits)

lemma copy_new_less:
  assumes "chunk \<noteq> 0" and "(Some nd, m') = ngtcp2_rob_data_new m (offset div chunk * chunk) chunk"
    and "rob_copy chunk nd offset data = Inr (d, n)" and "\<not> length data \<le> n"
  shows "length data - n < length data"
  using rob_copy_progress [OF assms(1,3) data_new_offset [OF assms(2) [symmetric]]] assms(4) by simp

termination rob_write_data
proof (relation "measures [\<lambda>(m, chunk, pds, offset, data). length data,
    \<lambda>(m, chunk, pds, offset, data). length pds]", goal_cases)
  case 2
  then show ?case by (auto intro: copy_new_less)
qed auto

declare rob_write_data.simps [simp del]

section \<open>Operations\<close>

text \<open>
  The loop of \<^verbatim>\<open>ngtcp2_rob_push\<close>; as in the gap tracker, with the bytes of the gap's share of \<open>q\<close>
  stored before the loop goes on.
\<close>

definition gap_cons ::
    "ngtcp2_range \<Rightarrow> (rv \<times> ngtcp2_range list \<times> ngtcp2_rob_data list \<times> mem) res \<Rightarrow>
     (rv \<times> ngtcp2_range list \<times> ngtcp2_rob_data list \<times> mem) res" where
  "gap_cons g r = rbind r (\<lambda>(rv, gs, ds, m). Inr (rv, g # gs, ds, m))"

fun rob_push_loop ::
    "mem \<Rightarrow> u64 \<Rightarrow> ngtcp2_range \<Rightarrow> bytes \<Rightarrow> ngtcp2_range list \<Rightarrow> ngtcp2_rob_data list \<Rightarrow>
     (rv \<times> ngtcp2_range list \<times> ngtcp2_rob_data list \<times> mem) res" where
  "rob_push_loop m chunk q data [] ds = Inr (None, [], ds, m)"
| "rob_push_loop m chunk q data (g # gs) ds =
     (let i = ngtcp2_range_intersect q g;
          len = unat (ngtcp2_range_len i)
      in
      if ngtcp2_range_len i \<noteq> 0 then
        let write = (\<lambda>m. rbind (rdn data (unat (r_begin i - r_begin q)) len) (\<lambda>bs.
                      rob_write_data m chunk ds (r_begin i) bs)) in
        if ngtcp2_range_equal g i then
          rbind (write m) (\<lambda>(rv, ds', m').
            if rv \<noteq> None then Inr (rv, gs, ds', m') else rob_push_loop m' chunk q data gs ds')
        else
          case ngtcp2_range_cut g i of (l, r) \<Rightarrow>
          if ngtcp2_range_len l \<noteq> 0 then
            if ngtcp2_range_len r \<noteq> 0 then
              case ngtcp2_rob_gap_new m (r_begin r) (r_end r) of
                (None, m') \<Rightarrow> Inr (Some NGTCP2_ERR_NOMEM, l # gs, ds, m')
              | (Some ng, m') \<Rightarrow>
                  rbind (write m') (\<lambda>(rv, ds', m'').
                    if rv \<noteq> None then Inr (rv, l # ng # gs, ds', m'')
                    else if ngtcp2_range_not_after q ng then Inr (None, l # ng # gs, ds', m'')
                    else gap_cons l (gap_cons ng (rob_push_loop m'' chunk q data gs ds')))
            else
              rbind (write m) (\<lambda>(rv, ds', m').
                if rv \<noteq> None then Inr (rv, l # gs, ds', m')
                else if ngtcp2_range_not_after q l then Inr (None, l # gs, ds', m')
                else gap_cons l (rob_push_loop m' chunk q data gs ds'))
          else
            let g' = (if ngtcp2_range_len r \<noteq> 0 then r else g) in
            rbind (write m) (\<lambda>(rv, ds', m').
              if rv \<noteq> None then Inr (rv, g' # gs, ds', m')
              else if ngtcp2_range_not_after q g' then Inr (None, g' # gs, ds', m')
              else gap_cons g' (rob_push_loop m' chunk q data gs ds'))
      else if ngtcp2_range_not_after q g then Inr (None, g # gs, ds, m)
      else gap_cons g (rob_push_loop m chunk q data gs ds))"

definition ngtcp2_rob_push ::
    "mem \<Rightarrow> ngtcp2_rob \<Rightarrow> u64 \<Rightarrow> bytes \<Rightarrow> (rv \<times> ngtcp2_rob \<times> mem) res" where
  "ngtcp2_rob_push m rob offset data =
     rbind (rob_push_loop m (rob_chunk rob)
              \<lparr>r_begin = offset, r_end = offset + of_nat (length data)\<rparr> data
              (rob_gap rob) (rob_data rob)) (\<lambda>(rv, gs, ds, m').
       Inr (rv, rob\<lparr>rob_gap := gs, rob_data := ds\<rparr>, m'))"

fun remove_prefix_gaps :: "u64 \<Rightarrow> ngtcp2_range list \<Rightarrow> ngtcp2_range list" where
  "remove_prefix_gaps offset [] = []"
| "remove_prefix_gaps offset (g # gs) =
     (if offset \<le> r_begin g then g # gs
      else if offset < r_end g then g\<lparr>r_begin := offset\<rparr> # gs
      else remove_prefix_gaps offset gs)"

fun remove_prefix_data :: "u64 \<Rightarrow> u64 \<Rightarrow> ngtcp2_rob_data list \<Rightarrow> ngtcp2_rob_data list" where
  "remove_prefix_data chunk offset [] = []"
| "remove_prefix_data chunk offset (d # ds) =
     (if offset \<le> d_offset d then d # ds
      else if offset < d_offset d + chunk then d # ds
      else remove_prefix_data chunk offset ds)"

definition ngtcp2_rob_remove_prefix :: "ngtcp2_rob \<Rightarrow> u64 \<Rightarrow> ngtcp2_rob" where
  "ngtcp2_rob_remove_prefix rob offset =
     rob\<lparr>rob_gap := remove_prefix_gaps offset (rob_gap rob),
         rob_data := remove_prefix_data (rob_chunk rob) offset (rob_data rob)\<rparr>"

text \<open>
  \<^verbatim>\<open>ngtcp2_rob_data_at\<close> returns the number of bytes that are ready at \<^verbatim>\<open>offset\<close>; \<^verbatim>\<open>*pdest\<close> points to them.
  The result here is the bytes themselves. The gap list is dereferenced without a test.
\<close>

definition ngtcp2_rob_data_at :: "ngtcp2_rob \<Rightarrow> u64 \<Rightarrow> u8 option list res" where
  "ngtcp2_rob_data_at rob offset =
     (case rob_gap rob of
        [] \<Rightarrow> Inl OutOfBounds
      | g # _ \<Rightarrow>
          if r_begin g \<le> offset then Inr []
          else case rob_data rob of
                 [] \<Rightarrow> Inl AssertFail
               | d # _ \<Rightarrow>
                   rassert (d_offset d \<le> offset)
                   (rassert (offset < d_offset d + rob_chunk rob)
                     (let pos = unat (offset - d_offset d);
                          n = unat (min (r_begin g) (d_offset d + rob_chunk rob) - offset)
                      in if pos + n \<le> length (d_buf d) then Inr (take n (drop pos (d_buf d)))
                         else Inl OutOfBounds)))"

definition ngtcp2_rob_pop :: "ngtcp2_rob \<Rightarrow> u64 \<Rightarrow> nat \<Rightarrow> ngtcp2_rob res" where
  "ngtcp2_rob_pop rob offset len =
     (case rob_data rob of
        [] \<Rightarrow> Inl AssertFail
      | d # ds \<Rightarrow>
          if offset + of_nat len < d_offset d + rob_chunk rob then Inr rob
          else Inr (rob\<lparr>rob_data := ds\<rparr>))"

definition ngtcp2_rob_first_gap_offset :: "ngtcp2_rob \<Rightarrow> u64" where
  "ngtcp2_rob_first_gap_offset rob =
     (case rob_gap rob of [] \<Rightarrow> UINT64_MAX | g # _ \<Rightarrow> r_begin g)"

section \<open>What the chunks hold\<close>

definition in_chunk :: "ngtcp2_rob_data \<Rightarrow> u64 \<Rightarrow> bool" where
  "in_chunk d x = (unat (d_offset d) \<le> unat x \<and> unat x < unat (d_offset d) + length (d_buf d))"

text \<open>The byte at stream offset \<open>x\<close>; \<open>None\<close> when there is no chunk for it or it was never stored.\<close>

fun data_at :: "ngtcp2_rob_data list \<Rightarrow> u64 \<Rightarrow> u8 option" where
  "data_at [] x = None"
| "data_at (d # ds) x =
     (if in_chunk d x then d_buf d ! (unat x - unat (d_offset d)) else data_at ds x)"

definition chunk_wf :: "nat \<Rightarrow> ngtcp2_rob_data \<Rightarrow> bool" where
  "chunk_wf C d = (length (d_buf d) = C \<and> C dvd unat (d_offset d) \<and> unat (d_offset d) + C < 2 ^ 64)"

definition chunks_wf :: "u64 \<Rightarrow> ngtcp2_rob_data list \<Rightarrow> bool" where
  "chunks_wf chunk ds =
     (chunk \<noteq> 0 \<and> (\<forall>d \<in> set ds. chunk_wf (unat chunk) d) \<and>
      sorted_wrt (\<lambda>a b. unat (d_offset a) + unat chunk \<le> unat (d_offset b)) ds)"

lemma chunks_wf_Cons:
  "chunks_wf chunk (d # ds) \<longleftrightarrow> chunk_wf (unat chunk) d \<and> chunks_wf chunk ds \<and>
     (\<forall>e \<in> set ds. unat (d_offset d) + unat chunk \<le> unat (d_offset e))"
  by (auto simp: chunks_wf_def)

lemma chunks_wf_Nil [simp]: "chunks_wf chunk [] \<longleftrightarrow> chunk \<noteq> 0"
  by (simp add: chunks_wf_def)

lemma data_at_below:
  "\<forall>e \<in> set ds. unat x < unat (d_offset e) \<Longrightarrow> data_at ds x = None"
  by (induction ds) (auto simp: in_chunk_def)

lemma dvd_less_add: "C dvd a \<Longrightarrow> C dvd b \<Longrightarrow> a < b \<Longrightarrow> a + C \<le> (b :: nat)"
  by (metis add_diff_inverse_nat dvd_diff_nat dvd_imp_le less_imp_le_nat nat_add_left_cancel_le
      not_less_iff_gr_or_eq zero_less_diff)

lemma unat_round_down:
  fixes offset chunk :: u64
  shows "unat (offset div chunk * chunk) = unat offset div unat chunk * unat chunk"
proof -
  have "unat offset div unat chunk * unat chunk \<le> unat offset" by simp
  then have "unat offset div unat chunk * unat chunk < 2 ^ 64"
    using unat_u64_bound [of offset] by (rule le_less_trans)
  then have "unat (offset div chunk) * unat chunk < 2 ^ LENGTH(64)" by (simp add: unat_div)
  then show ?thesis using unat_mult_lem [of "offset div chunk" chunk] by (simp add: unat_div)
qed

lemma rob_copy_eq:
  fixes data :: bytes
  assumes "chunk_wf (unat chunk) d" and "unat (d_offset d) \<le> unat offset"
    and "unat offset \<le> unat (d_offset d) + unat chunk"
  defines "k \<equiv> unat offset - unat (d_offset d)"
    and "n \<equiv> min (length data) (unat (d_offset d) + unat chunk - unat offset)"
  shows "rob_copy chunk d offset data =
    Inr (d\<lparr>d_buf := take k (d_buf d) @ map Some (take n data) @ drop (k + n) (d_buf d)\<rparr>, n)"
proof -
  have a: "unat (d_offset d + chunk) = unat (d_offset d) + unat chunk"
    using assms(1) by (simp add: chunk_wf_def unat_word_ariths)
  then have b: "unat (d_offset d + chunk - offset) = unat (d_offset d) + unat chunk - unat offset"
    using assms(3) by (simp add: unat_sub word_le_nat_alt)
  have c: "unat (offset - d_offset d) = k"
    using assms(2) by (simp add: unat_sub word_le_nat_alt k_def)
  have "k + n \<le> length (d_buf d)" using assms by (auto simp: chunk_wf_def k_def n_def)
  moreover have "length (take n data) = n" by (simp add: n_def)
  ultimately show ?thesis
    by (simp add: rob_copy_def b c n_def [symmetric] Let_def copy_into_def)
qed

definition stored :: "u64 \<Rightarrow> bytes \<Rightarrow> u64 \<Rightarrow> bool" where
  "stored offset data x = (unat offset \<le> unat x \<and> unat x < unat offset + length data)"

text \<open>Storing into the first chunk and, behind it, into the rest of the list.\<close>

lemma data_at_write:
  fixes data :: bytes
  assumes wf: "chunk_wf C d" and D: "unat (d_offset d) \<le> unat offset" "unat offset \<le> unat (d_offset d) + C"
  defines "k \<equiv> unat offset - unat (d_offset d)"
    and "n \<equiv> min (length data) (unat (d_offset d) + C - unat offset)"
  assumes rest: "\<And>x. data_at ds' x =
      (if stored (offset + of_nat n) (drop n data) x then Some (data ! (unat x - unat offset))
       else data_at ds x)"
    and lim: "unat offset + length data < 2 ^ 64"
  shows "data_at (d\<lparr>d_buf := take k (d_buf d) @ map Some (take n data) @ drop (k + n) (d_buf d)\<rparr> # ds') x =
    (if stored offset data x then Some (data ! (unat x - unat offset)) else data_at (d # ds) x)"
proof -
  have n: "n \<le> length data" "k + n \<le> C" using D by (auto simp: n_def k_def)
  have len: "length (d_buf d) = C" using wf by (simp add: chunk_wf_def)
  have "unat offset + n < 2 ^ 64" using n(1) lim by simp
  then have o: "unat (offset + of_nat n) = unat offset + n"
    by (simp add: unat_word_ariths unat_of_nat take_bit_nat_eq_self)
  let ?X = "unat x" and ?D = "unat (d_offset d)" and ?O = "unat offset"
  have k: "?D + k = ?O" using D(1) by (simp add: k_def)
  show ?thesis
  proof (cases "in_chunk d x")
    case True
    then have X: "?D \<le> ?X" "?X < ?D + C" by (simp_all add: in_chunk_def len)
    have e: "k + ?X - ?O = ?X - ?D" by (simp add: k [symmetric])
    have buf: "(take k (d_buf d) @ map Some (take n data) @ drop (k + n) (d_buf d)) ! (?X - ?D) =
      (if ?X < ?O then d_buf d ! (?X - ?D) else if ?X < ?O + n then Some (data ! (?X - ?O))
       else d_buf d ! (?X - ?D))"
      using X n len k e by (auto simp: nth_append min_def)
    have "stored offset data x \<longleftrightarrow> ?O \<le> ?X \<and> ?X < ?O + n"
      using X by (auto simp: stored_def n_def)
    then show ?thesis using True buf n len by (auto simp: in_chunk_def min_def)
  next
    case False
    have "n = length data \<or> ?O + n = ?D + C" using D by (auto simp: n_def)
    then have st: "stored (offset + of_nat n) (drop n data) x \<longleftrightarrow> stored offset data x"
      using False D n k len by (auto simp: stored_def o in_chunk_def)
    then show ?thesis using False n len rest [of x] by (auto simp: in_chunk_def min_def)
  qed
qed

lemma data_new_ok:
  "mem_ok m \<Longrightarrow> ngtcp2_rob_data_new m offset chunk =
     (Some \<lparr>d_offset = offset, d_buf = replicate (unat chunk) None\<rparr>, m)"
  by (simp add: ngtcp2_rob_data_new_def malloc_mem_ok)

definition write_post ::
    "u64 \<Rightarrow> ngtcp2_rob_data list \<Rightarrow> u64 \<Rightarrow> bytes \<Rightarrow> ngtcp2_rob_data list \<Rightarrow> bool" where
  "write_post chunk ds offset data ds' =
     (chunks_wf chunk ds' \<and>
      (\<forall>x. data_at ds' x = (if stored offset data x then Some (data ! (unat x - unat offset))
                              else data_at ds x)) \<and>
      (\<forall>d \<in> set ds'. (\<exists>e \<in> set ds. d_offset e = d_offset d) \<or>
         unat offset div unat chunk * unat chunk \<le> unat (d_offset d)))"

text \<open>The last step of a pass: the chunk is written, the rest of the data goes to the rest of the list.\<close>

lemma write_step:
  fixes data :: bytes
  assumes wf: "chunk_wf (unat chunk) d" "chunks_wf chunk ds"
    and above: "\<forall>e \<in> set ds. unat (d_offset d) + unat chunk \<le> unat (d_offset e)"
    and D: "unat (d_offset d) \<le> unat offset" "unat offset \<le> unat (d_offset d) + unat chunk"
    and lim: "unat offset + length data + unat chunk < 2 ^ 64" and ne: "data \<noteq> []"
  defines "n \<equiv> min (length data) (unat (d_offset d) + unat chunk - unat offset)"
  assumes IH: "n < length data \<Longrightarrow>
      \<exists>ds'. rob_write_data m chunk ds (offset + of_nat n) (drop n data) = Inr (None, ds', m) \<and>
        write_post chunk ds (offset + of_nat n) (drop n data) ds'"
  shows "\<exists>ds'. (case rob_copy chunk d offset data of
       Inl e \<Rightarrow> Inl e
     | Inr (d, n) \<Rightarrow>
         if length data \<le> n then Inr (None, d # ds, m)
         else data_cons d (rob_write_data m chunk ds (offset + of_nat n) (drop n data))) =
       Inr (None, ds', m) \<and> write_post chunk (d # ds) offset data ds'"
proof -
  let ?D = "unat (d_offset d)" and ?C = "unat chunk" and ?O = "unat offset"
  let ?k = "?O - ?D"
  let ?d = "d\<lparr>d_buf := take ?k (d_buf d) @ map Some (take n data) @ drop (?k + n) (d_buf d)\<rparr>"
  have copy: "rob_copy chunk d offset data = Inr (?d, n)"
    unfolding n_def by (rule rob_copy_eq [OF wf(1) D])
  have n: "n \<le> length data" "?k + n \<le> ?C" using D by (auto simp: n_def)
  have "?O + n < 2 ^ 64" using n(1) lim by simp
  then have o: "unat (offset + of_nat n) = ?O + n"
    by (simp add: unat_word_ariths unat_of_nat take_bit_nat_eq_self)
  have wfd: "chunk_wf ?C ?d" using wf(1) n by (simp add: chunk_wf_def)
  have dv: "?C dvd ?D" using wf(1) by (simp add: chunk_wf_def)
  have C: "0 < ?C" using wf(2) by (simp add: chunks_wf_def unat_gt_0)
  show ?thesis
  proof (cases "n < length data")
    case False
    then have e: "n = length data" using n(1) by simp
    have "data_at (?d # ds) x = (if stored offset data x then Some (data ! (unat x - ?O))
        else data_at (d # ds) x)" for x
      unfolding n_def
      by (rule data_at_write [OF wf(1) D]) (use lim e in \<open>auto simp: stored_def n_def [symmetric] o\<close>)
    then have "write_post chunk (d # ds) offset data (?d # ds)"
      using wf(2) wfd above by (auto simp: write_post_def chunks_wf_Cons)
    then show ?thesis using copy e by simp
  next
    case True
    then obtain ds' where ds': "rob_write_data m chunk ds (offset + of_nat n) (drop n data) = Inr (None, ds', m)"
      "write_post chunk ds (offset + of_nat n) (drop n data) ds'" using IH by blast
    have O': "?O + n = ?D + ?C" using True D by (auto simp: n_def)
    then have rnd: "(?O + n) div ?C * ?C = ?D + ?C" using dv C by simp
    have at: "data_at ds' x = (if stored (offset + of_nat n) (drop n data) x
        then Some (data ! (unat x - ?O)) else data_at ds x)" for x
      using ds'(2) n(1) by (auto simp: write_post_def stored_def o)
    have ab: "\<forall>e \<in> set ds'. ?D + ?C \<le> unat (d_offset e)"
      using ds'(2) above rnd unfolding write_post_def o by metis
    have "data_at (?d # ds') x = (if stored offset data x then Some (data ! (unat x - ?O))
        else data_at (d # ds) x)" for x
      unfolding n_def
      by (rule data_at_write [OF wf(1) D]) (use lim at in \<open>simp_all add: n_def\<close>)
    moreover have "?O div ?C * ?C \<le> ?D + ?C"
      unfolding rnd [symmetric] by (intro mult_le_mono1 div_le_mono) simp
    ultimately have "write_post chunk (d # ds) offset data (?d # ds')"
      using ds'(2) wfd ab by (fastforce simp: write_post_def chunks_wf_Cons)
    then show ?thesis using copy True ds'(1) by (simp add: data_cons_def)
  qed
qed

lemma rob_write_data_ok:
  assumes "mem_ok m" and "chunks_wf chunk ds" and "data \<noteq> []"
    and "unat offset + length data + unat chunk < 2 ^ 64"
  shows "\<exists>ds'. rob_write_data m chunk ds offset data = Inr (None, ds', m) \<and>
    write_post chunk ds offset data ds'"
  using assms(2-4)
proof (induction "length data + length ds" arbitrary: ds offset data rule: less_induct)
  case less
  let ?C = "unat chunk" and ?O = "unat offset"
  have C: "chunk \<noteq> 0" "0 < ?C" using less.prems(1) by (simp_all add: chunks_wf_def unat_gt_0)
  have rec: "n < length data \<Longrightarrow> length rest + (length data - n) < length data + length ds \<Longrightarrow>
      chunks_wf chunk rest \<Longrightarrow>
      \<exists>ds'. rob_write_data m chunk rest (offset + of_nat n) (drop n data) = Inr (None, ds', m) \<and>
        write_post chunk rest (offset + of_nat n) (drop n data) ds'" for n rest
  proof -
    assume a: "n < length data" "length rest + (length data - n) < length data + length ds"
      "chunks_wf chunk rest"
    have "?O + n < 2 ^ 64" using a(1) less.prems(3) by simp
    then have "unat (offset + of_nat n) = ?O + n"
      by (simp add: unat_word_ariths unat_of_nat take_bit_nat_eq_self)
    then show ?thesis using a less.prems by (intro less.hyps) auto
  qed
  show ?case
  proof (cases "ds = [] \<or> offset < d_offset (hd ds)")
    case True
    let ?nd = "\<lparr>d_offset = offset div chunk * chunk, d_buf = replicate ?C None\<rparr>"
    have D: "unat (d_offset ?nd) = ?O div ?C * ?C" by (simp add: unat_round_down)
    have le: "?O div ?C * ?C \<le> ?O" by simp
    have up: "?O < ?O div ?C * ?C + ?C"
      using C(2) by (metis add_less_cancel_left div_mult_mod_eq mod_less_divisor)
    have "?O div ?C * ?C + ?C < 2 ^ 64" using less.prems(3) le by linarith
    then have wfd: "chunk_wf ?C ?nd" by (simp add: chunk_wf_def unat_round_down)
    have above: "\<forall>e \<in> set ds. unat (d_offset ?nd) + ?C \<le> unat (d_offset e)"
    proof (cases ds)
      case (Cons a as)
      have "?C dvd unat (d_offset a)" using less.prems(1) Cons by (simp add: chunks_wf_Cons chunk_wf_def)
      moreover have "?O div ?C * ?C < unat (d_offset a)"
        using True Cons le_less_trans [OF le] by (simp add: word_less_nat_alt)
      ultimately have "?O div ?C * ?C + ?C \<le> unat (d_offset a)" by (intro dvd_less_add) auto
      then show ?thesis using less.prems(1) Cons unfolding D by (auto simp: chunks_wf_Cons)
    qed simp
    have fresh: "data_at (?nd # ds) x = data_at ds x" for x
      using above data_at_below [of ds x] by (force simp: in_chunk_def)
    have "\<exists>ds'. (case rob_copy chunk ?nd offset data of Inl e \<Rightarrow> Inl e
       | Inr (d, n) \<Rightarrow> if length data \<le> n then Inr (None, d # ds, m)
         else data_cons d (rob_write_data m chunk ds (offset + of_nat n) (drop n data))) =
       Inr (None, ds', m) \<and> write_post chunk (?nd # ds) offset data ds'"
    proof (rule write_step [OF wfd less.prems(1) above _ _ less.prems(3,2)])
      show "unat (d_offset ?nd) \<le> ?O" "?O \<le> unat (d_offset ?nd) + ?C"
        unfolding D using le up by linarith+
    qed (rule rec, use D up less.prems in auto)
    moreover have "write_post chunk (?nd # ds) offset data ds' \<Longrightarrow> write_post chunk ds offset data ds'" for ds'
      unfolding write_post_def fresh using D by fastforce
    ultimately show ?thesis
      using True C(1) by (subst rob_write_data.simps) (auto simp: data_new_ok [OF assms(1)])
  next
    case False
    then obtain d rest where ds: "ds = d # rest" "\<not> offset < d_offset d" by (cases ds) auto
    let ?D = "unat (d_offset d)"
    have wf: "chunk_wf ?C d" "chunks_wf chunk rest" "\<forall>e \<in> set rest. ?D + ?C \<le> unat (d_offset e)"
      using less.prems(1) ds by (simp_all add: chunks_wf_Cons)
    have DC: "unat (d_offset d + chunk) = ?D + ?C"
      using wf(1) by (simp add: chunk_wf_def unat_word_ariths)
    have DO: "?D \<le> ?O" using ds(2) by (simp add: word_less_nat_alt)
    show ?thesis
    proof (cases "d_offset d + chunk < offset")
      case True
      then have lt: "?D + ?C < ?O" using DC by (simp add: word_less_nat_alt)
      obtain ds' where ds': "rob_write_data m chunk rest offset data = Inr (None, ds', m)"
        "write_post chunk rest offset data ds'"
        using less.hyps [of data rest offset] less.prems wf(2) ds(1) by auto
      have "?C dvd ?D + ?C" using wf(1) by (simp add: chunk_wf_def)
      then have "?D + ?C \<le> ?O div ?C * ?C"
        using lt by (metis div_le_mono dvd_div_mult_self less_imp_le_nat mult_le_mono1)
      then have "\<forall>e \<in> set ds'. ?D + ?C \<le> unat (d_offset e)"
        using ds'(2) wf(3) by (fastforce simp: write_post_def)
      moreover have "in_chunk d x \<Longrightarrow> \<not> stored offset data x" for x
        using lt wf(1) by (simp add: in_chunk_def chunk_wf_def stored_def)
      ultimately have "write_post chunk ds offset data (d # ds')"
        using ds'(2) wf(1) by (auto simp: write_post_def chunks_wf_Cons ds)
      then show ?thesis
        using True False C(1) ds ds'(1) by (subst rob_write_data.simps) (simp add: data_cons_def)
    next
      case nl: False
      then have le: "?O \<le> ?D + ?C" using DC by (simp add: word_less_nat_alt)
      have "\<exists>ds'. (case rob_copy chunk d offset data of Inl e \<Rightarrow> Inl e
         | Inr (d, n) \<Rightarrow> if length data \<le> n then Inr (None, d # rest, m)
           else data_cons d (rob_write_data m chunk rest (offset + of_nat n) (drop n data))) =
         Inr (None, ds', m) \<and> write_post chunk (d # rest) offset data ds'"
        by (rule write_step [OF wf DO le less.prems(3,2)]) (use ds wf(2) in \<open>simp add: rec\<close>)
      then show ?thesis
        using nl ds(2) C(1) unfolding ds(1) by (subst rob_write_data.simps, unfold list.sel) simp
    qed
  qed
qed

section \<open>Correctness of the push loop\<close>

definition push_fits :: "u64 \<Rightarrow> ngtcp2_range \<Rightarrow> bytes \<Rightarrow> bool" where
  "push_fits chunk q data =
     (r_end q = r_begin q + of_nat (length data) \<and>
      unat (r_begin q) + length data + unat chunk < 2 ^ 64)"

lemma push_fits_end: "push_fits chunk q data \<Longrightarrow> unat (r_end q) = unat (r_begin q) + length data"
  by (simp add: push_fits_def unat_word_ariths unat_of_nat take_bit_nat_eq_self)

text \<open>A chunk that was not there before holds an offset of \<open>X\<close> or one after it.\<close>

definition old_or_hit ::
    "u64 \<Rightarrow> ngtcp2_rob_data list \<Rightarrow> u64 set \<Rightarrow> ngtcp2_rob_data list \<Rightarrow> bool" where
  "old_or_hit chunk ds X ds' = (\<forall>d \<in> set ds'. (\<exists>e \<in> set ds. d_offset e = d_offset d) \<or>
     (\<exists>x \<in> X. unat x < unat (d_offset d) + unat chunk))"

lemma old_or_hit_refl: "old_or_hit chunk ds X ds"
  by (auto simp: old_or_hit_def)

lemma old_or_hit_trans:
  "old_or_hit chunk ds X ds1 \<Longrightarrow> old_or_hit chunk ds1 Y ds2 \<Longrightarrow> old_or_hit chunk ds (X \<union> Y) ds2"
  unfolding old_or_hit_def by (metis UnI1 UnI2)

lemma old_or_hit_mono: "old_or_hit chunk ds X ds' \<Longrightarrow> X \<subseteq> Y \<Longrightarrow> old_or_hit chunk ds Y ds'"
  unfolding old_or_hit_def by blast

lemma push_write:
  assumes m: "mem_ok m" and wf: "chunks_wf chunk ds" and fits: "push_fits chunk q data"
    and ne: "ngtcp2_range_len (ngtcp2_range_intersect q g) \<noteq> 0"
  defines "i \<equiv> ngtcp2_range_intersect q g"
  shows "\<exists>ds1. rbind (rdn data (unat (r_begin i - r_begin q)) (unat (ngtcp2_range_len i)))
       (\<lambda>bs. rob_write_data m chunk ds (r_begin i) bs) = Inr (None, ds1, m) \<and> chunks_wf chunk ds1 \<and>
     (\<forall>x. data_at ds1 x = (if x \<in> range_set g \<inter> range_set q
        then Some (data ! (unat x - unat (r_begin q))) else data_at ds x)) \<and>
     old_or_hit chunk ds (range_set g \<inter> range_set q) ds1"
proof -
  have i: "r_begin q \<le> r_begin i" "r_end i \<le> r_end q" "r_begin i < r_end i"
    using intersect_nonempty [OF ne] by (simp_all add: i_def)
  let ?p = "unat (r_begin i) - unat (r_begin q)" and ?n = "unat (r_end i) - unat (r_begin i)"
  let ?bs = "take ?n (drop ?p data)"
  note E = push_fits_end [OF fits]
  have p: "unat (r_begin i - r_begin q) = ?p" "unat (ngtcp2_range_len i) = ?n"
    using i by (simp_all add: unat_sub word_le_nat_alt word_less_nat_alt ngtcp2_range_len_def)
  have le: "unat (r_begin q) \<le> unat (r_begin i)" "unat (r_end i) \<le> unat (r_begin q) + length data"
    "unat (r_begin i) < unat (r_end i)"
    using i E by (simp_all add: word_le_nat_alt word_less_nat_alt)
  then have len: "?p + ?n \<le> length data" "length ?bs = ?n" "0 < ?n" by auto
  have "?bs \<noteq> []" using len by (metis length_0_conv less_numeral_extra(3))
  moreover have "unat (r_begin i) + length ?bs + unat chunk < 2 ^ 64"
    using fits le len by (simp add: push_fits_def)
  ultimately obtain ds1 where ds1: "rob_write_data m chunk ds (r_begin i) ?bs = Inr (None, ds1, m)"
    "write_post chunk ds (r_begin i) ?bs ds1"
    using rob_write_data_ok [OF m wf] by blast
  have st: "stored (r_begin i) ?bs x \<longleftrightarrow> x \<in> range_set g \<inter> range_set q" for x
  proof -
    have "stored (r_begin i) ?bs x \<longleftrightarrow> r_begin i \<le> x \<and> x < r_end i"
      using le len(2) by (auto simp: stored_def word_le_nat_alt word_less_nat_alt)
    also have "\<dots> \<longleftrightarrow> x \<in> range_set i" by simp
    finally show ?thesis by (simp add: i_def intersect_set Int_commute del: in_range_set)
  qed
  have nth: "?bs ! (unat x - unat (r_begin i)) = data ! (unat x - unat (r_begin q))"
    if s: "stored (r_begin i) ?bs x" for x
  proof -
    have "unat x - unat (r_begin i) < ?n"
      "?p + (unat x - unat (r_begin i)) = unat x - unat (r_begin q)"
      using s le(1) unfolding stored_def len(2) by auto
    then show ?thesis using len(1) by simp
  qed
  have "data_at ds1 x = (if x \<in> range_set g \<inter> range_set q
      then Some (data ! (unat x - unat (r_begin q))) else data_at ds x)" for x
    using ds1(2) nth [of x] st [of x] unfolding write_post_def by metis
  moreover have "old_or_hit chunk ds (range_set g \<inter> range_set q) ds1"
  proof -
    have "r_begin i \<in> range_set i" using i(3) by simp
    then have hit: "r_begin i \<in> range_set g \<inter> range_set q"
      by (simp add: i_def intersect_set Int_commute del: in_range_set)
    have C: "0 < unat chunk" using wf by (simp add: chunks_wf_def unat_gt_0)
    have up: "unat (r_begin i) < unat (r_begin i) div unat chunk * unat chunk + unat chunk"
      using C by (metis add_less_cancel_left div_mult_mod_eq mod_less_divisor)
    have "unat (r_begin i) < unat (d_offset d) + unat chunk"
      if "unat (r_begin i) div unat chunk * unat chunk \<le> unat (d_offset d)" for d :: ngtcp2_rob_data
      using up that by linarith
    then show ?thesis using ds1(2) hit unfolding write_post_def old_or_hit_def by blast
  qed
  ultimately show ?thesis using ds1 len p by (simp add: write_post_def)
qed

lemma rob_gap_new_ok:
  "mem_ok m \<Longrightarrow> ngtcp2_rob_gap_new m b e = (Some (ngtcp2_range_init b e), m)"
  by (simp add: ngtcp2_rob_gap_new_def malloc_mem_ok)

lemma rob_push_loop_step:
  assumes m: "mem_ok m" and g: "r_begin g < r_end g"
    and ne: "ngtcp2_range_len (ngtcp2_range_intersect q g) \<noteq> 0"
    and w: "rbind (rdn data (unat (r_begin (ngtcp2_range_intersect q g) - r_begin q))
              (unat (ngtcp2_range_len (ngtcp2_range_intersect q g))))
       (\<lambda>bs. rob_write_data m chunk ds (r_begin (ngtcp2_range_intersect q g)) bs) = Inr (None, ds1, m)"
  shows "rob_push_loop m chunk q data (g # gs) ds =
    (if r_end q < r_end g then Inr (None, range_minus g q @ gs, ds1, m)
     else if r_begin g < r_begin q then gap_cons \<lparr>r_begin = r_begin g, r_end = r_begin q\<rparr>
       (rob_push_loop m chunk q data gs ds1)
     else rob_push_loop m chunk q data gs ds1)"
proof -
  note i = intersect_nonempty [OF ne]
  have disj: "range_set g \<inter> range_set q \<noteq> {}" using ne by (simp add: intersect_len_0 Int_commute)
  define W where "W mm = rbind (rdn data (unat (r_begin (ngtcp2_range_intersect q g) - r_begin q))
      (unat (ngtcp2_range_len (ngtcp2_range_intersect q g))))
      (rob_write_data mm chunk ds (r_begin (ngtcp2_range_intersect q g)))" for mm
  note W = W_def [symmetric]
  show ?thesis
    unfolding rob_push_loop.simps Let_def W
    using ne i disj g m w [unfolded W]
    by (auto simp: range_minus_def ngtcp2_range_equal_def ngtcp2_range_cut_def rob_gap_new_ok
        ngtcp2_range_len_def [of "\<lparr>r_begin = _, r_end = _\<rparr>"] ngtcp2_range_not_after_def
        ngtcp2_range_init_def max_def min_def split: if_splits)
qed

lemma rob_push_loop_ok:
  assumes m: "mem_ok m" and fits: "push_fits chunk q data" and "gaps_wf gs" and "chunks_wf chunk ds"
  shows "\<exists>ds'. rob_push_loop m chunk q data gs ds = Inr (None, gaps_minus gs q, ds', m) \<and>
    chunks_wf chunk ds' \<and>
    (\<forall>x. data_at ds' x = (if x \<in> gap_set gs \<inter> range_set q
       then Some (data ! (unat x - unat (r_begin q))) else data_at ds x)) \<and>
    old_or_hit chunk ds (gap_set gs \<inter> range_set q) ds'"
  using assms(3,4)
proof (induction gs arbitrary: ds)
  case Nil
  then show ?case by (simp add: old_or_hit_refl)
next
  case (Cons g gs)
  then have g: "r_begin g < r_end g" and wf: "gaps_wf gs" by (simp_all add: gaps_wf_Cons)
  have stop: "r_end q \<le> r_end g \<Longrightarrow> gap_set gs \<inter> range_set q = {}"
    using gaps_wf_tail_set [OF Cons.prems(1)] by fastforce
  show ?case
  proof (cases "range_set q \<inter> range_set g = {}")
    case True
    obtain ds' where "rob_push_loop m chunk q data gs ds = Inr (None, gaps_minus gs q, ds', m)"
      "chunks_wf chunk ds'" "\<forall>x. data_at ds' x = (if x \<in> gap_set gs \<inter> range_set q
         then Some (data ! (unat x - unat (r_begin q))) else data_at ds x)"
      "old_or_hit chunk ds (gap_set gs \<inter> range_set q) ds'"
      using Cons.IH [OF wf Cons.prems(2)] by blast
    moreover have "range_minus g q = [g]" using True by (simp add: range_minus_def Int_commute)
    moreover have "gap_set (g # gs) \<inter> range_set q = gap_set gs \<inter> range_set q"
      using True by (auto simp del: in_range_set)
    ultimately show ?thesis using True stop Cons.prems(2) old_or_hit_refl
      by (cases "r_end q \<le> r_end g")
        (simp_all add: intersect_len_0 ngtcp2_range_not_after_def Let_def gap_cons_def
          gaps_minus_disjoint del: gap_set_simps in_range_set)
  next
    case False
    then have ne: "ngtcp2_range_len (ngtcp2_range_intersect q g) \<noteq> 0" by (simp add: intersect_len_0)
    obtain ds1 where w: "rbind (rdn data (unat (r_begin (ngtcp2_range_intersect q g) - r_begin q))
        (unat (ngtcp2_range_len (ngtcp2_range_intersect q g))))
        (\<lambda>bs. rob_write_data m chunk ds (r_begin (ngtcp2_range_intersect q g)) bs) = Inr (None, ds1, m)"
      and ds1: "chunks_wf chunk ds1" "\<forall>x. data_at ds1 x = (if x \<in> range_set g \<inter> range_set q
        then Some (data ! (unat x - unat (r_begin q))) else data_at ds x)"
      "old_or_hit chunk ds (range_set g \<inter> range_set q) ds1"
      using push_write [OF m Cons.prems(2) fits ne] by blast
    note step = rob_push_loop_step [OF m g ne w, of gs]
    obtain ds' where ds': "rob_push_loop m chunk q data gs ds1 = Inr (None, gaps_minus gs q, ds', m)"
      "chunks_wf chunk ds'" "\<forall>x. data_at ds' x = (if x \<in> gap_set gs \<inter> range_set q
         then Some (data ! (unat x - unat (r_begin q))) else data_at ds1 x)"
      "old_or_hit chunk ds1 (gap_set gs \<inter> range_set q) ds'"
      using Cons.IH [OF wf ds1(1)] by blast
    have hit: "old_or_hit chunk ds (gap_set (g # gs) \<inter> range_set q) ds1"
      "old_or_hit chunk ds (gap_set (g # gs) \<inter> range_set q) ds'"
      using old_or_hit_mono [OF ds1(3)] old_or_hit_mono [OF old_or_hit_trans [OF ds1(3) ds'(4)]]
      by (simp_all add: Int_Un_distrib2)
    have disj: "range_set g \<inter> range_set q \<noteq> {}" using False by (simp add: Int_commute)
    show ?thesis
    proof (cases "r_end q < r_end g")
      case True
      then show ?thesis
        using step stop ds1(1,2) hit(1)
        by (intro exI [of _ ds1]) (auto simp: gaps_minus_disjoint Int_Un_distrib2)
    next
      case nlt: False
      then have "range_minus g q = (if r_begin g < r_begin q
          then [\<lparr>r_begin = r_begin g, r_end = r_begin q\<rparr>] else [])"
        using disj by (simp add: range_minus_def)
      then show ?thesis using step nlt ds'(1-3) ds1(2) hit(2)
        by (intro exI [of _ ds']) (auto simp: gap_cons_def)
    qed
  qed
qed

section \<open>The stream in the buffer\<close>

text \<open>
  \<open>rob_inv S b rob\<close>: the application has taken the stream \<open>S\<close> up to offset \<open>b\<close>; nothing below \<open>b\<close> is
  missing, every offset from \<open>b\<close> on that is not in a gap holds the byte of the stream, and chunks
  that were used up are gone. The last offset of the range is always missing.
\<close>

definition rob_inv :: "(u64 \<Rightarrow> u8) \<Rightarrow> u64 \<Rightarrow> ngtcp2_rob \<Rightarrow> bool" where
  "rob_inv S b rob =
     (gaps_wf (rob_gap rob) \<and> chunks_wf (rob_chunk rob) (rob_data rob) \<and>
      UINT64_MAX - 1 \<in> gap_set (rob_gap rob) \<and>
      (\<forall>x \<in> gap_set (rob_gap rob). b \<le> x) \<and>
      (\<forall>x. b \<le> x \<longrightarrow> x < UINT64_MAX \<longrightarrow> x \<notin> gap_set (rob_gap rob) \<longrightarrow>
         data_at (rob_data rob) x = Some (S x)) \<and>
      (\<forall>d \<in> set (rob_data rob). unat b < unat (d_offset d) + unat (rob_chunk rob)))"

text \<open>The bytes of the stream in \<open>[b, e)\<close>.\<close>

definition slice :: "(u64 \<Rightarrow> u8) \<Rightarrow> u64 \<Rightarrow> u64 \<Rightarrow> bytes" where
  "slice S b e = map (\<lambda>k. S (of_nat k)) [unat b ..< unat e]"

lemma rob_init_inv:
  assumes "ngtcp2_rob_init m chunk = Inr (rob, m')" and "chunk \<noteq> 0"
  shows "rob_inv S 0 rob"
  using assms
  by (auto simp: ngtcp2_rob_init_def ngtcp2_rob_gap_new_def rob_inv_def gaps_wf_Cons
      ngtcp2_range_init_def less_UINT64_MAX word_less_nat_alt unat_UINT64_MAX unat_sub
      split: prod.splits if_splits)

definition segment_of :: "(u64 \<Rightarrow> u8) \<Rightarrow> u64 \<Rightarrow> bytes \<Rightarrow> bool" where
  "segment_of S offset data = (\<forall>k < length data. data ! k = S (offset + of_nat k))"

lemma segment_of_nth:
  assumes "segment_of S offset data" and "offset \<le> x" and "unat x < unat offset + length data"
  shows "data ! (unat x - unat offset) = S x"
proof -
  have le: "unat offset \<le> unat x" using assms(2) by (simp add: word_le_nat_alt)
  then have "unat x - unat offset < length data" using assms(3) by simp
  moreover have "offset + of_nat (unat x - unat offset) = x"
    using le by (simp add: of_nat_diff)
  ultimately show ?thesis using assms(1) by (simp add: segment_of_def)
qed

text \<open>Only the bytes that were missing matter.\<close>

lemma rob_push_new:
  assumes m: "mem_ok m" and inv: "rob_inv S b rob"
    and seg: "\<And>x. x \<in> gap_set (rob_gap rob) \<Longrightarrow> offset \<le> x \<Longrightarrow> unat x < unat offset + length data \<Longrightarrow>
      data ! (unat x - unat offset) = S x"
    and lim: "unat offset + length data + unat (rob_chunk rob) < 2 ^ 64"
  shows "\<exists>rob'. ngtcp2_rob_push m rob offset data = Inr (None, rob', m) \<and> rob_inv S b rob' \<and>
    gap_set (rob_gap rob') = gap_set (rob_gap rob) - {offset ..< offset + of_nat (length data)} \<and>
    rob_chunk rob' = rob_chunk rob"
proof -
  let ?q = "\<lparr>r_begin = offset, r_end = offset + of_nat (length data)\<rparr>" and ?C = "rob_chunk rob"
  have fits: "push_fits ?C ?q data" using lim by (simp add: push_fits_def)
  have wf: "gaps_wf (rob_gap rob)" "chunks_wf ?C (rob_data rob)" using inv by (simp_all add: rob_inv_def)
  obtain ds' where ds': "rob_push_loop m ?C ?q data (rob_gap rob) (rob_data rob) =
      Inr (None, gaps_minus (rob_gap rob) ?q, ds', m)" "chunks_wf ?C ds'"
    "\<forall>x. data_at ds' x = (if x \<in> gap_set (rob_gap rob) \<inter> range_set ?q
       then Some (data ! (unat x - unat (r_begin ?q))) else data_at (rob_data rob) x)"
    "old_or_hit ?C (rob_data rob) (gap_set (rob_gap rob) \<inter> range_set ?q) ds'"
    using rob_push_loop_ok [OF m fits wf] by blast
  let ?rob = "rob\<lparr>rob_gap := gaps_minus (rob_gap rob) ?q, rob_data := ds'\<rparr>"
  have E: "unat (offset + of_nat (length data)) = unat offset + length data"
    using push_fits_end [OF fits] by simp
  have C: "0 < unat ?C" using wf(2) by (simp add: chunks_wf_def unat_gt_0)
  have last: "UINT64_MAX - 1 \<notin> range_set ?q"
    using lim C by (simp add: word_less_nat_alt E unat_UINT64_MAX_1)
  have at: "data_at ds' x = Some (S x)"
    if "b \<le> x" "x < UINT64_MAX" "x \<notin> gap_set (rob_gap rob) - range_set ?q" for x
  proof (cases "x \<in> gap_set (rob_gap rob)")
    case True
    then have r: "x \<in> range_set ?q" using that(3) by blast
    then have "data ! (unat x - unat offset) = S x"
      using True by (intro seg) (simp_all add: word_less_nat_alt E)
    then show ?thesis using ds'(3) True r by simp
  next
    case False
    then show ?thesis using ds'(3) inv that(1,2) by (simp add: rob_inv_def)
  qed
  have old: "unat b < unat (d_offset d) + unat ?C" if "d \<in> set ds'" for d
  proof -
    have b: "\<forall>e \<in> set (rob_data rob). unat b < unat (d_offset e) + unat ?C"
      "\<forall>x \<in> gap_set (rob_gap rob). unat b \<le> unat x"
      using inv by (simp_all add: rob_inv_def word_le_nat_alt)
    have "(\<exists>e \<in> set (rob_data rob). d_offset e = d_offset d) \<or>
        (\<exists>x \<in> gap_set (rob_gap rob) \<inter> range_set ?q. unat x < unat (d_offset d) + unat ?C)"
      using ds'(4) that unfolding old_or_hit_def by (rule bspec)
    then show ?thesis
    proof
      assume "\<exists>e \<in> set (rob_data rob). d_offset e = d_offset d"
      then show ?thesis using b(1) by metis
    next
      assume "\<exists>x \<in> gap_set (rob_gap rob) \<inter> range_set ?q. unat x < unat (d_offset d) + unat ?C"
      then show ?thesis using b(2) le_less_trans by blast
    qed
  qed
  have "rob_inv S b ?rob"
    using inv ds'(2) at old last gaps_minus_wf [OF wf(1)]
    by (simp add: rob_inv_def gaps_minus_set del: in_range_set)
  then show ?thesis using ds'(1)
    by (simp add: ngtcp2_rob_push_def gaps_minus_set range_set_def)
qed

lemma rob_push_inv:
  assumes "mem_ok m" and "rob_inv S b rob" and "segment_of S offset data"
    and "unat offset + length data + unat (rob_chunk rob) < 2 ^ 64"
  shows "\<exists>rob'. ngtcp2_rob_push m rob offset data = Inr (None, rob', m) \<and> rob_inv S b rob' \<and>
    gap_set (rob_gap rob') = gap_set (rob_gap rob) - {offset ..< offset + of_nat (length data)} \<and>
    rob_chunk rob' = rob_chunk rob"
  using rob_push_new [OF assms(1,2) _ assms(4)] segment_of_nth [OF assms(3)] by blast

text \<open>Whatever the peer sends, the buffer holds some stream: the bytes that came first.\<close>

lemma rob_push_any:
  assumes m: "mem_ok m" and inv: "rob_inv S b rob"
    and lim: "unat offset + length data + unat (rob_chunk rob) < 2 ^ 64"
  shows "\<exists>rob' S'. ngtcp2_rob_push m rob offset data = Inr (None, rob', m) \<and> rob_inv S' b rob' \<and>
    gap_set (rob_gap rob') = gap_set (rob_gap rob) - {offset ..< offset + of_nat (length data)} \<and>
    rob_chunk rob' = rob_chunk rob \<and> (segment_of S offset data \<longrightarrow> S' = S)"
proof -
  define S' where "S' = (\<lambda>x. if x \<in> gap_set (rob_gap rob) \<and> offset \<le> x \<and> unat x < unat offset + length data
    then data ! (unat x - unat offset) else S x)"
  have "rob_inv S' b rob" using inv by (auto simp: rob_inv_def S'_def)
  moreover have "segment_of S offset data \<longrightarrow> S' = S" using segment_of_nth [of S offset data] by (auto simp: S'_def)
  ultimately show ?thesis using rob_push_new [OF m, of S' b rob offset data] lim by (auto simp: S'_def)
qed

section \<open>Taking the stream out\<close>

lemma length_slice [simp]: "length (slice S b e) = unat e - unat b"
  by (simp add: slice_def)

lemma slice_append:
  "b \<le> e \<Longrightarrow> e \<le> f \<Longrightarrow> slice S b e @ slice S e f = slice S b f"
  unfolding slice_def word_le_nat_alt map_append [symmetric] using upt_add_eq_append [of "unat b" "unat e" "unat f - unat e"]
  by simp

lemma slice_self [simp]: "slice S b b = []"
  by (simp add: slice_def)

text \<open>The facts of an invariant on the first gap \<open>g\<close>.\<close>

lemma rob_inv_gap:
  assumes "rob_inv S b rob"
  obtains g gs where "rob_gap rob = g # gs" "b \<le> r_begin g"
    "\<And>x. x < r_begin g \<Longrightarrow> x < UINT64_MAX \<and> x \<notin> gap_set (rob_gap rob)"
proof -
  have wf: "gaps_wf (rob_gap rob)" and ne: "rob_gap rob \<noteq> []"
    and b: "\<forall>x \<in> gap_set (rob_gap rob). b \<le> x"
    using assms by (auto simp: rob_inv_def)
  from ne obtain g gs where g: "rob_gap rob = g # gs" by (cases "rob_gap rob") auto
  note least = gaps_wf_least [OF wf [unfolded g]]
  have "x < UINT64_MAX \<and> x \<notin> gap_set (rob_gap rob)" if "x < r_begin g" for x
    using least(2) [of x] less_le_trans [OF that le_UINT64_MAX] that unfolding g
    by (meson leD)
  moreover have "b \<le> r_begin g" using b least(1) unfolding g by (rule bspec)
  ultimately show ?thesis using that g by blast
qed

lemma first_chunk:
  assumes wf: "chunks_wf chunk ds" and at: "data_at ds b \<noteq> None"
    and fresh: "\<forall>d \<in> set ds. unat b < unat (d_offset d) + unat chunk"
  obtains d rest where "ds = d # rest" "in_chunk d b"
proof (cases ds)
  case Nil
  then show ?thesis using at by simp
next
  case (Cons d rest)
  have "in_chunk d b"
  proof (rule ccontr)
    assume n: "\<not> in_chunk d b"
    have len: "length (d_buf d) = unat chunk" using wf Cons by (simp add: chunks_wf_Cons chunk_wf_def)
    have "unat b < unat (d_offset d)" using n fresh Cons by (auto simp: in_chunk_def len)
    then have "\<forall>e \<in> set ds. unat b < unat (d_offset e)"
      using wf Cons by (auto simp: chunks_wf_Cons)
    then show False using at data_at_below [of ds b] by simp
  qed
  then show ?thesis using that Cons by blast
qed

lemma rob_data_at_inv:
  assumes inv: "rob_inv S b rob"
  defines "f \<equiv> ngtcp2_rob_first_gap_offset rob"
  shows "(b = f \<and> ngtcp2_rob_data_at rob b = Inr []) \<or>
    (\<exists>d rest e. rob_data rob = d # rest \<and> in_chunk d b \<and> e = min f (d_offset d + rob_chunk rob) \<and>
       b < e \<and> ngtcp2_rob_data_at rob b = Inr (map Some (slice S b e)))"
proof -
  obtain g gs where g: "rob_gap rob = g # gs" "b \<le> r_begin g"
    and below: "\<And>x. x < r_begin g \<Longrightarrow> x < UINT64_MAX \<and> x \<notin> gap_set (rob_gap rob)"
    using rob_inv_gap [OF inv] by blast
  have f: "f = r_begin g" by (simp add: f_def ngtcp2_rob_first_gap_offset_def g)
  show ?thesis
  proof (cases "b = f")
    case True
    then show ?thesis by (simp add: ngtcp2_rob_data_at_def g f)
  next
    case False
    then have lt: "b < r_begin g" using g(2) f by simp
    have at: "data_at (rob_data rob) x = Some (S x)" if "b \<le> x" "x < r_begin g" for x
      using inv below [OF that(2)] that(1) by (simp add: rob_inv_def)
    have wf: "chunks_wf (rob_chunk rob) (rob_data rob)"
      and fresh: "\<forall>d \<in> set (rob_data rob). unat b < unat (d_offset d) + unat (rob_chunk rob)"
      using inv by (simp_all add: rob_inv_def)
    obtain d rest where d: "rob_data rob = d # rest" "in_chunk d b"
      using first_chunk [OF wf _ fresh] at [of b] lt by auto
    let ?e = "min (r_begin g) (d_offset d + rob_chunk rob)"
    have cw: "length (d_buf d) = unat (rob_chunk rob)"
      "unat (d_offset d + rob_chunk rob) = unat (d_offset d) + unat (rob_chunk rob)"
      using wf d(1) by (simp_all add: chunks_wf_Cons chunk_wf_def unat_word_ariths)
    have D: "d_offset d \<le> b" "b < d_offset d + rob_chunk rob"
      using d(2) cw by (simp_all add: in_chunk_def word_le_nat_alt word_less_nat_alt)
    have be: "b < ?e" using lt D by simp
    let ?pos = "unat b - unat (d_offset d)" and ?n = "unat ?e - unat b"
    have pos: "unat (b - d_offset d) = ?pos" "unat (?e - b) = ?n"
      by (rule unat_sub [OF D(1)], rule unat_sub [OF less_imp_le [OF be]])
    have ele: "unat ?e \<le> unat (d_offset d) + unat (rob_chunk rob)"
      unfolding cw(2) [symmetric] word_le_nat_alt [symmetric] by simp
    have bd: "unat (d_offset d) \<le> unat b" "unat b < unat ?e" using D(1) be
      by (simp_all only: word_le_nat_alt word_less_nat_alt)
    have fit: "?pos + ?n \<le> length (d_buf d)" using ele bd cw(1) by linarith
    have "take ?n (drop ?pos (d_buf d)) = map Some (slice S b ?e)"
    proof (rule nth_equalityI)
      show "length (take ?n (drop ?pos (d_buf d))) = length (map Some (slice S b ?e))"
        using fit by simp
      fix k assume "k < length (take ?n (drop ?pos (d_buf d)))"
      then have k: "k < ?n" by simp
      let ?x = "of_nat (unat b + k) :: u64"
      have kx: "unat b + k < unat ?e" using k by linarith
      have ux: "unat ?x = unat b + k"
        by (rule unat_of_nat64 [OF less_trans [OF kx unat_u64_bound]])
      have "b \<le> ?x" "?x < r_begin g"
        using ux kx by (simp_all add: word_le_nat_alt word_less_nat_alt min_def split: if_splits)
      then have "data_at (rob_data rob) ?x = Some (S ?x)" by (rule at)
      moreover have "in_chunk d ?x" using ux kx ele bd cw(1) by (simp add: in_chunk_def)
      ultimately have "d_buf d ! (unat b + k - unat (d_offset d)) = Some (S ?x)" using d(1) ux by simp
      moreover have "?pos + k = unat b + k - unat (d_offset d)" using bd(1) by simp
      ultimately show "take ?n (drop ?pos (d_buf d)) ! k = map Some (slice S b ?e) ! k"
        using k fit by (simp add: slice_def)
    qed
    then have "ngtcp2_rob_data_at rob b = Inr (map Some (slice S b ?e))"
      using lt [unfolded not_le [symmetric]] D fit by (simp add: ngtcp2_rob_data_at_def g d pos Let_def)
    then show ?thesis using d be f by blast
  qed
qed

lemma rob_pop_inv:
  assumes inv: "rob_inv S b rob" and d: "rob_data rob = d # rest"
    and e: "e = min (ngtcp2_rob_first_gap_offset rob) (d_offset d + rob_chunk rob)" and be: "b < e"
  shows "\<exists>rob'. ngtcp2_rob_pop rob b (unat e - unat b) = Inr rob' \<and> rob_inv S e rob' \<and>
    rob_gap rob' = rob_gap rob \<and> rob_chunk rob' = rob_chunk rob \<and>
    (e = ngtcp2_rob_first_gap_offset rob \<or> length (rob_data rob') < length (rob_data rob)) \<and>
    length (rob_data rob') \<le> length (rob_data rob)"
proof -
  obtain g gs where g: "rob_gap rob = g # gs" "b \<le> r_begin g"
    and below: "\<And>x. x < r_begin g \<Longrightarrow> x < UINT64_MAX \<and> x \<notin> gap_set (rob_gap rob)"
    using rob_inv_gap [OF inv] by blast
  have f: "ngtcp2_rob_first_gap_offset rob = r_begin g"
    by (simp add: ngtcp2_rob_first_gap_offset_def g)
  have eg: "e \<le> r_begin g" and ed: "e \<le> d_offset d + rob_chunk rob" using e f by simp_all
  have off: "b + of_nat (unat e - unat b) = e"
    using be by (simp add: word_less_nat_alt of_nat_diff)
  have wf: "chunks_wf (rob_chunk rob) (d # rest)" using inv d by (simp add: rob_inv_def)
  have cw: "length (d_buf d) = unat (rob_chunk rob)"
    "unat (d_offset d + rob_chunk rob) = unat (d_offset d) + unat (rob_chunk rob)"
    using wf by (simp_all add: chunks_wf_Cons chunk_wf_def unat_word_ariths)
  have C: "0 < unat (rob_chunk rob)" using wf by (simp add: chunks_wf_def unat_gt_0)
  have gapse: "\<forall>x \<in> gap_set (rob_gap rob). e \<le> x"
    using below eg by (meson le_less_trans not_le)
  have dat: "\<forall>x. e \<le> x \<longrightarrow> x < UINT64_MAX \<longrightarrow> x \<notin> gap_set (rob_gap rob) \<longrightarrow>
      data_at (d # rest) x = Some (S x)"
    using inv be d by (auto simp: rob_inv_def dest: less_imp_le order_trans)
  show ?thesis
  proof (cases "e < d_offset d + rob_chunk rob")
    case True
    then have lt: "unat e < unat (d_offset d) + unat (rob_chunk rob)"
      using cw(2) by (simp add: word_less_nat_alt)
    have "rob_inv S e rob"
      using inv dat gapse lt wf d unfolding rob_inv_def by (auto simp: chunks_wf_Cons)
    then show ?thesis using True off e d by (auto simp: ngtcp2_rob_pop_def min_def)
  next
    case False
    then have eq: "unat e = unat (d_offset d) + unat (rob_chunk rob)"
      using ed cw(2) by (metis order_antisym not_le)
    have "data_at rest x = data_at (d # rest) x" if "e \<le> x" for x
      using that eq cw(1) by (simp add: in_chunk_def word_le_nat_alt)
    then have "rob_inv S e (rob\<lparr>rob_data := rest\<rparr>)"
      using inv dat gapse eq wf C unfolding rob_inv_def by (auto simp: chunks_wf_Cons)
    then show ?thesis using False off d by (simp add: ngtcp2_rob_pop_def)
  qed
qed

text \<open>
  The loop of \<^verbatim>\<open>conn_emit_pending_stream_data\<close> in \<^verbatim>\<open>lib/ngtcp2_conn.c\<close>, as far as the buffer is concerned:
  the bytes it hands to the application one piece after the other. \<open>None\<close>: more passes are needed.
\<close>

fun rob_emit :: "nat \<Rightarrow> ngtcp2_rob \<Rightarrow> u64 \<Rightarrow> (u8 option list \<times> ngtcp2_rob \<times> u64) res option" where
  "rob_emit 0 rob rx_offset = None"
| "rob_emit (Suc k) rob rx_offset =
     (case ngtcp2_rob_data_at rob rx_offset of
        Inl e \<Rightarrow> Some (Inl e)
      | Inr data \<Rightarrow>
          if length data = 0 then
            Some (rassert (rx_offset = ngtcp2_rob_first_gap_offset rob) (Inr ([], rob, rx_offset)))
          else
            let rx_offset = rx_offset + of_nat (length data) in
            case ngtcp2_rob_pop rob (rx_offset - of_nat (length data)) (length data) of
              Inl e \<Rightarrow> Some (Inl e)
            | Inr rob' \<Rightarrow>
                map_option (\<lambda>r. rbind r (\<lambda>(out, rob'', o'). Inr (data @ out, rob'', o')))
                  (rob_emit k rob' rx_offset))"

lemma rob_emit_ok:
  assumes "rob_inv S b rob"
    and "length (rob_data rob) + 2 \<le> k \<or> (b = ngtcp2_rob_first_gap_offset rob \<and> 1 \<le> k)"
  shows "\<exists>rob'. rob_emit k rob b =
      Some (Inr (map Some (slice S b (ngtcp2_rob_first_gap_offset rob)), rob',
                 ngtcp2_rob_first_gap_offset rob)) \<and>
    rob_inv S (ngtcp2_rob_first_gap_offset rob) rob' \<and> rob_gap rob' = rob_gap rob \<and>
    rob_chunk rob' = rob_chunk rob"
  using assms
proof (induction k arbitrary: b rob)
  case 0
  then show ?case by simp
next
  case (Suc k)
  let ?f = "ngtcp2_rob_first_gap_offset rob"
  consider "b = ?f" "ngtcp2_rob_data_at rob b = Inr []"
    | d rest e where "rob_data rob = d # rest" "e = min ?f (d_offset d + rob_chunk rob)" "b < e"
        "ngtcp2_rob_data_at rob b = Inr (map Some (slice S b e))"
    using rob_data_at_inv [OF Suc.prems(1)] by blast
  then show ?case
  proof cases
    case 1
    then show ?thesis using Suc.prems(1) by simp
  next
    case 2
    obtain rob' where r: "ngtcp2_rob_pop rob b (unat e - unat b) = Inr rob'" "rob_inv S e rob'"
      "rob_gap rob' = rob_gap rob" "rob_chunk rob' = rob_chunk rob"
      "e = ?f \<or> length (rob_data rob') < length (rob_data rob)"
      using rob_pop_inv [OF Suc.prems(1) 2(1-3)] by blast
    have f: "ngtcp2_rob_first_gap_offset rob' = ?f"
      using r(3) by (simp add: ngtcp2_rob_first_gap_offset_def)
    have ef: "e \<le> ?f" using 2(2) by simp
    have off: "b + of_nat (unat e - unat b) = e"
      using 2(3) by (simp add: word_less_nat_alt of_nat_diff)
    have n0: "length (map Some (slice S b e)) \<noteq> 0" using 2(3) by (simp add: word_less_nat_alt)
    have "b \<noteq> ?f" using 2(3) ef by auto
    then have "length (rob_data rob') + 2 \<le> k \<or> (e = ngtcp2_rob_first_gap_offset rob' \<and> 1 \<le> k)"
      using Suc.prems(2) r(5) f by auto
    then obtain rob'' where "rob_emit k rob' e = Some (Inr (map Some (slice S e ?f), rob'', ?f))"
      "rob_inv S ?f rob''" "rob_gap rob'' = rob_gap rob" "rob_chunk rob'' = rob_chunk rob"
      using Suc.IH [OF r(2)] f r(3,4) by auto
    then show ?thesis
      using 2(4) n0 r(1) off slice_append [OF less_imp_le [OF 2(3)] ef, of S]
      by (auto simp: Let_def map_append [symmetric] simp del: map_append)
  qed
qed

section \<open>Removing a prefix\<close>

lemma remove_prefix_gaps_wf:
  assumes "gaps_wf gs"
  shows "gaps_wf (remove_prefix_gaps offset gs)"
    and "gap_set (remove_prefix_gaps offset gs) = {x \<in> gap_set gs. offset \<le> x}"
proof -
  have "gaps_wf (remove_prefix_gaps offset gs) \<and>
      gap_set (remove_prefix_gaps offset gs) = {x \<in> gap_set gs. offset \<le> x}"
    using assms
  proof (induction gs)
    case (Cons g gs)
    then have g: "r_begin g < r_end g" "gaps_wf gs" by (simp_all add: gaps_wf_Cons)
    have tail: "\<And>x. x \<in> gap_set gs \<Longrightarrow> r_end g < x" using gaps_wf_tail_set [OF Cons.prems] by blast
    consider "offset \<le> r_begin g" | "r_begin g < offset" "offset < r_end g"
      | "r_end g \<le> offset" by fastforce
    then show ?case
    proof cases
      case 1
      have "offset \<le> x" if "x \<in> gap_set (g # gs)" for x
        using order_trans [OF 1] gaps_wf_least(2) [OF Cons.prems that] by blast
      then show ?thesis using 1 Cons.prems by (auto simp del: gap_set_simps in_range_set)
    next
      case 2
      have "offset \<le> x" if "x \<in> gap_set gs" for x using tail [OF that] 2(2) by simp
      moreover have "gaps_wf (g\<lparr>r_begin := offset\<rparr> # gs)" using Cons.prems 2 by (simp add: gaps_wf_Cons)
      moreover have "x \<in> range_set (g\<lparr>r_begin := offset\<rparr>) \<longleftrightarrow> x \<in> range_set g \<and> offset \<le> x" for x
        using 2(1) by (auto simp: word_le_nat_alt word_less_nat_alt)
      moreover have "\<not> offset \<le> r_begin g" using 2(1) by simp
      ultimately show ?thesis using 2(2) by (auto simp del: in_range_set)
    next
      case 3
      then have "\<not> offset \<le> r_begin g" "\<not> offset < r_end g" using g(1) by auto
      moreover have "x \<in> range_set g \<Longrightarrow> \<not> offset \<le> x" for x
        using 3 by (simp add: word_le_nat_alt word_less_nat_alt)
      ultimately show ?thesis using Cons.IH [OF g(2)] by (auto simp del: in_range_set)
    qed
  qed simp
  then show "gaps_wf (remove_prefix_gaps offset gs)"
    and "gap_set (remove_prefix_gaps offset gs) = {x \<in> gap_set gs. offset \<le> x}" by simp_all
qed

lemma remove_prefix_data_ok:
  assumes "chunks_wf chunk ds"
  shows "chunks_wf chunk (remove_prefix_data chunk offset ds) \<and>
    (\<forall>x. offset \<le> x \<longrightarrow> data_at (remove_prefix_data chunk offset ds) x = data_at ds x) \<and>
    (\<forall>d \<in> set (remove_prefix_data chunk offset ds). unat offset < unat (d_offset d) + unat chunk)"
  using assms
proof (induction ds)
  case (Cons d ds)
  have w: "chunk_wf (unat chunk) d" "chunks_wf chunk ds"
    and ab: "\<forall>e \<in> set ds. unat (d_offset d) + unat chunk \<le> unat (d_offset e)"
    using Cons.prems by (simp_all add: chunks_wf_Cons)
  have C: "0 < unat chunk" using w(2) by (simp add: chunks_wf_def unat_gt_0)
  have cw: "length (d_buf d) = unat chunk"
    "unat (d_offset d + chunk) = unat (d_offset d) + unat chunk"
    using w(1) by (simp_all add: chunk_wf_def unat_word_ariths)
  show ?case
  proof (cases "offset \<le> d_offset d \<or> offset < d_offset d + chunk")
    case True
    then have "unat offset < unat (d_offset d) + unat chunk"
      using C cw(2) by (auto simp: word_le_nat_alt word_less_nat_alt)
    then show ?thesis using True Cons.prems ab by auto
  next
    case False
    then have "unat (d_offset d) + unat chunk \<le> unat offset"
      using cw(2) by (simp add: word_less_nat_alt)
    then have "data_at (d # ds) x = data_at ds x" if "offset \<le> x" for x
      using that cw(1) by (simp add: in_chunk_def word_le_nat_alt)
    then show ?thesis using False Cons.IH [OF w(2)] by simp
  qed
qed simp

lemma rob_remove_prefix_inv:
  assumes "rob_inv S b rob" and "b \<le> offset" and "offset < UINT64_MAX"
  shows "rob_inv S offset (ngtcp2_rob_remove_prefix rob offset) \<and>
    gap_set (rob_gap (ngtcp2_rob_remove_prefix rob offset)) = {x \<in> gap_set (rob_gap rob). offset \<le> x}"
proof -
  have wf: "gaps_wf (rob_gap rob)" "chunks_wf (rob_chunk rob) (rob_data rob)"
    using assms(1) by (simp_all add: rob_inv_def)
  have "offset \<le> UINT64_MAX - 1"
    using assms(3) by (simp add: word_le_nat_alt less_UINT64_MAX unat_UINT64_MAX_1)
  then show ?thesis
    using assms(1,2) remove_prefix_gaps_wf [OF wf(1), of offset]
      remove_prefix_data_ok [OF wf(2), of offset]
    by (auto simp: rob_inv_def ngtcp2_rob_remove_prefix_def dest: order_trans)
qed

section \<open>The interface of a stream buffer\<close>

text \<open>
  How a stream uses its buffer: each arriving segment is pushed and then what is in order is handed to
  the application. \<open>None\<close> stands for any failure.
\<close>

fun stream_run ::
    "('s \<Rightarrow> u64 \<Rightarrow> bytes \<Rightarrow> 's option) \<Rightarrow> ('s \<Rightarrow> u64 \<Rightarrow> (u8 option list \<times> 's \<times> u64) option) \<Rightarrow>
     (u64 \<times> bytes) list \<Rightarrow> 's \<Rightarrow> u64 \<Rightarrow> (u8 option list \<times> 's \<times> u64) option" where
  "stream_run push emit [] s b = Some ([], s, b)"
| "stream_run push emit ((offset, data) # segs) s b =
     (case push s offset data of
        None \<Rightarrow> None
      | Some s \<Rightarrow>
          (case emit s b of
             None \<Rightarrow> None
           | Some (out, s, b) \<Rightarrow>
               map_option (\<lambda>(out', r). (out @ out', r)) (stream_run push emit segs s b)))"

definition covered :: "(u64 \<times> bytes) list \<Rightarrow> u64 set" where
  "covered segs = (\<Union>(offset, data) \<in> set segs. {offset ..< offset + of_nat (length data)})"

lemma covered_simps [simp]:
  "covered [] = {}"
  "covered ((offset, data) # segs) = {offset ..< offset + of_nat (length data)} \<union> covered segs"
  by (simp_all add: covered_def)

locale stream_buffer =
  fixes inv :: "(u64 \<Rightarrow> u8) \<Rightarrow> u64 \<Rightarrow> 's \<Rightarrow> bool" and missing :: "'s \<Rightarrow> u64 set"
    and room :: "u64 \<Rightarrow> bytes \<Rightarrow> bool"
    and push :: "'s \<Rightarrow> u64 \<Rightarrow> bytes \<Rightarrow> 's option"
    and emit :: "'s \<Rightarrow> u64 \<Rightarrow> (u8 option list \<times> 's \<times> u64) option"
  assumes push_ok: "inv S b s \<Longrightarrow> segment_of S offset data \<Longrightarrow> room offset data \<Longrightarrow>
      \<exists>s'. push s offset data = Some s' \<and> inv S b s' \<and>
        missing s' = missing s - {offset ..< offset + of_nat (length data)}"
    and emit_ok: "inv S b s \<Longrightarrow>
      \<exists>s' e. emit s b = Some (map Some (slice S b e), s', e) \<and> b \<le> e \<and> inv S e s' \<and>
        missing s' = missing s \<and> e \<in> missing s \<and> (\<forall>x \<in> missing s. e \<le> x)"
begin

lemma run_delivers:
  assumes "inv S b s" and "list_all (\<lambda>(offset, data). segment_of S offset data \<and> room offset data) segs"
    and "b \<in> missing s" and "\<forall>x \<in> missing s. b \<le> x"
  shows "\<exists>s' e. stream_run push emit segs s b = Some (map Some (slice S b e), s', e) \<and>
    inv S e s' \<and> b \<le> e \<and> missing s' = missing s - covered segs \<and> e \<in> missing s' \<and>
    (\<forall>x \<in> missing s'. e \<le> x)"
  using assms
proof (induction segs arbitrary: s b)
  case Nil
  then show ?case by (auto intro!: exI [of _ b])
next
  case (Cons seg segs)
  obtain offset data where seg: "seg = (offset, data)" by force
  have sd: "segment_of S offset data" "room offset data" using Cons.prems(2) seg by auto
  obtain s1 where s1: "push s offset data = Some s1" "inv S b s1"
    "missing s1 = missing s - {offset ..< offset + of_nat (length data)}"
    using push_ok [OF Cons.prems(1) sd] by blast
  obtain s2 e where s2: "emit s1 b = Some (map Some (slice S b e), s2, e)" "b \<le> e" "inv S e s2"
    "missing s2 = missing s1" "e \<in> missing s1" "\<forall>x \<in> missing s1. e \<le> x"
    using emit_ok [OF s1(2)] by blast
  obtain s3 f where s3: "stream_run push emit segs s2 e = Some (map Some (slice S e f), s3, f)"
    "inv S f s3" "e \<le> f" "missing s3 = missing s2 - covered segs" "f \<in> missing s3"
    "\<forall>x \<in> missing s3. f \<le> x"
    using Cons.IH [OF s2(3)] Cons.prems(2) s2(4-6) by auto
  have m: "missing s3 = missing s - covered (seg # segs)" using s3(4) s2(4) s1(3) seg by auto
  have r: "stream_run push emit (seg # segs) s b = Some (map Some (slice S b f), s3, f)"
    using seg s1(1) s2(1) s3(1) slice_append [OF s2(2) s3(3), of S]
    by (simp add: map_append [symmetric] del: map_append)
  show ?case using r m s3(2,5,6) order_trans [OF s2(2) s3(3)] by metis
qed

end

definition rob_push_ok :: "ngtcp2_rob \<Rightarrow> u64 \<Rightarrow> bytes \<Rightarrow> ngtcp2_rob option" where
  "rob_push_ok rob offset data =
     (case ngtcp2_rob_push (\<lambda>_. True) rob offset data of Inr (None, r, _) \<Rightarrow> Some r | _ \<Rightarrow> None)"

definition rob_emit_all :: "ngtcp2_rob \<Rightarrow> u64 \<Rightarrow> (u8 option list \<times> ngtcp2_rob \<times> u64) option" where
  "rob_emit_all rob b =
     (case rob_emit (length (rob_data rob) + 2) rob b of Some (Inr r) \<Rightarrow> Some r | _ \<Rightarrow> None)"

interpretation rob: stream_buffer "\<lambda>S b r. rob_inv S b r \<and> rob_chunk r = chunk"
  "\<lambda>r. gap_set (rob_gap r)" "\<lambda>offset data. unat offset + length data + unat chunk < 2 ^ 64"
  rob_push_ok rob_emit_all for chunk :: u64
proof (unfold_locales, goal_cases)
  case (1 S b s offset data)
  then show ?case
    using rob_push_inv [OF mem_ok_True, of S b s offset data] by (force simp: rob_push_ok_def)
next
  case (2 S b s)
  then have inv: "rob_inv S b s" by simp
  obtain g gs where g: "rob_gap s = g # gs" "b \<le> r_begin g" using rob_inv_gap [OF inv] by metis
  have wf: "gaps_wf (g # gs)" using inv g by (simp add: rob_inv_def)
  have f: "ngtcp2_rob_first_gap_offset s = r_begin g"
    by (simp add: ngtcp2_rob_first_gap_offset_def g)
  show ?case
    using rob_emit_ok [OF inv, of "length (rob_data s) + 2"] 2 g(2) gaps_wf_least [OF wf]
    unfolding f g(1) by (force simp: rob_emit_all_def simp del: gap_set_simps)
qed

section \<open>Properties\<close>

text \<open>
  C25. Storing a segment: when the allocator grants its requests, \<^verbatim>\<open>ngtcp2_rob_push\<close> returns 0 for every
  segment of the stream, wherever it lies relative to gaps and chunks; no access leaves a chunk or
  the segment. Exactly the offsets of the segment stop being missing, and every byte that is not
  missing is the byte of the stream.
\<close>

theorem rob_push_correct:
  assumes "mem_ok m" and "rob_inv S b rob" and "segment_of S offset data"
    and "unat offset + length data + unat (rob_chunk rob) < 2 ^ 64"
  shows "\<exists>rob'. ngtcp2_rob_push m rob offset data = Inr (None, rob', m) \<and> rob_inv S b rob' \<and>
    gap_set (rob_gap rob') = gap_set (rob_gap rob) - {offset ..< offset + of_nat (length data)}"
  using rob_push_inv [OF assms] by blast

theorem rob_push_correct_witness:
  "\<exists>rob'. ngtcp2_rob_push (\<lambda>_. True)
       \<lparr>rob_gap = [\<lparr>r_begin = 0, r_end = UINT64_MAX\<rparr>], rob_data = [], rob_chunk = 4\<rparr> 6 [7, 7, 7] =
     Inr (None, rob', \<lambda>_. True) \<and> rob_inv (\<lambda>_. 7) 0 rob'"
proof -
  have "ngtcp2_rob_init (\<lambda>_. True) 4 =
      Inr (\<lparr>rob_gap = [\<lparr>r_begin = 0, r_end = UINT64_MAX\<rparr>], rob_data = [], rob_chunk = 4\<rparr>, \<lambda>_. True)"
    by (simp add: ngtcp2_rob_init_def rob_gap_new_ok mem_ok_True ngtcp2_range_init_def)
  note inv = rob_init_inv [OF this, of "\<lambda>_. 7"]
  have "segment_of (\<lambda>_. 7) 6 [7, 7, 7]" by (auto simp: segment_of_def nth_Cons split: nat.split)
  then show ?thesis using rob_push_correct [OF mem_ok_True inv, of 6 "[7, 7, 7]"] by auto
qed

text \<open>
  C26. In-order delivery: whatever the order, overlap and repetition of the segments of a stream, pushing
  each and emitting what is in order never fails; the pieces handed to the application, put
  together, are the stream from offset 0 up to the first offset no segment covered, each byte once.
\<close>

theorem rob_delivers_stream:
  assumes "ngtcp2_rob_init m chunk = Inr (rob, m')" and "chunk \<noteq> 0"
    and "list_all (\<lambda>(offset, data). segment_of S offset data \<and>
           unat offset + length data + unat chunk < 2 ^ 64) segs"
  shows "\<exists>rob' e. stream_run rob_push_ok rob_emit_all segs rob 0 = Some (map Some (slice S 0 e), rob', e) \<and>
    gap_set (rob_gap rob') = {0 ..< UINT64_MAX} - covered segs \<and>
    e \<in> gap_set (rob_gap rob') \<and> (\<forall>x \<in> gap_set (rob_gap rob'). e \<le> x)"
proof -
  have r: "rob_gap rob = [\<lparr>r_begin = 0, r_end = UINT64_MAX\<rparr>]" "rob_chunk rob = chunk"
    using assms(1) by (auto simp: ngtcp2_rob_init_def ngtcp2_rob_gap_new_def ngtcp2_range_init_def
        split: prod.splits if_splits)
  then have g: "gap_set (rob_gap rob) = {0 ..< UINT64_MAX}" by (simp add: range_set_def)
  show ?thesis
    using rob.run_delivers [of S 0 rob chunk segs] rob_init_inv [OF assms(1,2), of S] assms(3) r(2)
    unfolding g by (auto simp: less_UINT64_MAX)
qed

theorem rob_delivers_stream_witness:
  "\<exists>rob' e. stream_run rob_push_ok rob_emit_all [(2, [7, 7]), (0, [7, 7, 7])]
       \<lparr>rob_gap = [\<lparr>r_begin = 0, r_end = UINT64_MAX\<rparr>], rob_data = [], rob_chunk = 4\<rparr> 0 =
     Some (map Some (slice (\<lambda>_. 7) 0 e), rob', e)"
proof -
  have i: "ngtcp2_rob_init (\<lambda>_. True) 4 =
      Inr (\<lparr>rob_gap = [\<lparr>r_begin = 0, r_end = UINT64_MAX\<rparr>], rob_data = [], rob_chunk = 4\<rparr>, \<lambda>_. True)"
    by (simp add: ngtcp2_rob_init_def rob_gap_new_ok mem_ok_True ngtcp2_range_init_def)
  have "segment_of (\<lambda>_. 7) 0 [7, 7, 7]" "segment_of (\<lambda>_. 7) 2 [7, 7]"
    by (auto simp: segment_of_def nth_Cons split: nat.split)
  then show ?thesis
    using rob_delivers_stream [OF i, of "\<lambda>_. 7" "[(2, [7, 7]), (0, [7, 7, 7])]"] by auto
qed

text \<open>
  Skipping a prefix: when the application has received the stream up to \<open>offset\<close> without the buffer,
  \<^verbatim>\<open>ngtcp2_rob_remove_prefix\<close> drops exactly the missing offsets below \<open>offset\<close>, keeps every byte
  from \<open>offset\<close> on, and the loop that emits buffered data can go on from there.
\<close>

theorem rob_remove_prefix_correct:
  assumes "rob_inv S b rob" and "b \<le> offset" and "offset < UINT64_MAX"
  shows "rob_inv S offset (ngtcp2_rob_remove_prefix rob offset) \<and>
    gap_set (rob_gap (ngtcp2_rob_remove_prefix rob offset)) = {x \<in> gap_set (rob_gap rob). offset \<le> x}"
  by (rule rob_remove_prefix_inv [OF assms])

theorem rob_remove_prefix_correct_witness:
  "rob_inv (\<lambda>_. 7) 5 (ngtcp2_rob_remove_prefix
     \<lparr>rob_gap = [\<lparr>r_begin = 0, r_end = UINT64_MAX\<rparr>], rob_data = [], rob_chunk = 4\<rparr> 5)"
proof -
  have "ngtcp2_rob_init (\<lambda>_. True) 4 =
      Inr (\<lparr>rob_gap = [\<lparr>r_begin = 0, r_end = UINT64_MAX\<rparr>], rob_data = [], rob_chunk = 4\<rparr>, \<lambda>_. True)"
    by (simp add: ngtcp2_rob_init_def rob_gap_new_ok mem_ok_True ngtcp2_range_init_def)
  note inv = rob_init_inv [OF this, of "\<lambda>_. 7"]
  show ?thesis
    using rob_remove_prefix_correct [OF inv, of 5] by (simp add: less_UINT64_MAX)
qed

end
