(* ===== verification/Hash_Map.thy ===== *)
theory Hash_Map
  imports Conv
begin

text \<open>
  \<^verbatim>\<open>lib/ngtcp2_map.c\<close>: the hash table from 64-bit keys to intrusive entries by which the connection
  finds its streams. A bucket is the list of the entries reached from its head through \<^verbatim>\<open>next\<close>. An
  entry carries the object it is embedded in as \<open>obj\<close>. An entry handed to an insertion comes with
  the chain \<open>nxt\<close> its \<^verbatim>\<open>next\<close> field points to, which is empty after \<^verbatim>\<open>ngtcp2_map_entry_init\<close>.
\<close>

section \<open>State and operations\<close>

record 'a ngtcp2_map_entry =
  key :: u64
  obj :: 'a

record 'a ngtcp2_map =
  table :: "'a ngtcp2_map_entry list list"
  map_size :: nat
  tablelen :: u32

definition INITIAL_TABLE_LENGTH :: u32 where
  "INITIAL_TABLE_LENGTH = 256"

definition ngtcp2_map_init :: "mem \<Rightarrow> (rv \<times> 'a ngtcp2_map option \<times> mem)" where
  "ngtcp2_map_init m =
     (let (ok, m) = malloc m in
      if \<not> ok then (Some NGTCP2_ERR_NOMEM, None, m)
      else (None, Some \<lparr>table = replicate (unat INITIAL_TABLE_LENGTH) [], map_size = 0,
              tablelen = INITIAL_TABLE_LENGTH\<rparr>, m))"

text \<open>The callback of the two traversals is a state transformer that returns its \<^verbatim>\<open>int\<close> result.\<close>

fun each_entry :: "('a ngtcp2_map_entry \<Rightarrow> 's \<Rightarrow> int \<times> 's) \<Rightarrow> 'a ngtcp2_map_entry list \<Rightarrow> 's \<Rightarrow> int \<times> 's" where
  "each_entry f [] s = (0, s)"
| "each_entry f (e # es) s = (let (rv, s) = f e s in if rv \<noteq> 0 then (rv, s) else each_entry f es s)"

fun each_bucket :: "('a ngtcp2_map_entry \<Rightarrow> 's \<Rightarrow> int \<times> 's) \<Rightarrow> 'a ngtcp2_map_entry list list \<Rightarrow> 's \<Rightarrow> int \<times> 's" where
  "each_bucket f [] s = (0, s)"
| "each_bucket f (b # bs) s =
     (let (rv, s) = each_entry f b s in if rv \<noteq> 0 then (rv, s) else each_bucket f bs s)"

definition ngtcp2_map_each :: "'a ngtcp2_map \<Rightarrow> ('a ngtcp2_map_entry \<Rightarrow> 's \<Rightarrow> int \<times> 's) \<Rightarrow> 's \<Rightarrow> int \<times> 's" where
  "ngtcp2_map_each mp f s = each_bucket f (take (unat (tablelen mp)) (table mp)) s"

definition ngtcp2_map_each_free ::
    "'a ngtcp2_map \<Rightarrow> ('a ngtcp2_map_entry \<Rightarrow> 's \<Rightarrow> 's) \<Rightarrow> 's \<Rightarrow> 's \<times> 'a ngtcp2_map" where
  "ngtcp2_map_each_free mp f s =
     (fold (\<lambda>b s. fold f b s) (table mp) s, mp\<lparr>table := map (\<lambda>_. []) (table mp)\<rparr>)"

definition ngtcp2_map_entry_init :: "u64 \<Rightarrow> 'a \<Rightarrow> 'a ngtcp2_map_entry \<times> 'a ngtcp2_map_entry list" where
  "ngtcp2_map_entry_init k x = (\<lparr>key = k, obj = x\<rparr>, [])"

definition fnv_step :: "u8 \<Rightarrow> u32 \<Rightarrow> u32" where
  "fnv_step b h = (h XOR ucast b) * 0x01000193"

definition hash :: "u64 \<Rightarrow> u32 \<Rightarrow> u32" where
  "hash k md = (let h = fold fnv_step (mem_bytes 8 (bswap64 k)) 0x811C9DC5 in h AND (md - 1))"

definition insert_entry ::
    "'a ngtcp2_map_entry list list \<Rightarrow> u32 \<Rightarrow> 'a ngtcp2_map_entry \<Rightarrow> 'a ngtcp2_map_entry list \<Rightarrow>
     (rv \<times> 'a ngtcp2_map_entry list list) res" where
  "insert_entry tbl len entry nxt =
     (let h = unat (hash (key entry) len) in
      if \<not> h < length tbl then Inl OutOfBounds
      else if tbl ! h = [] then Inr (None, tbl[h := entry # nxt])
      else if list_ex (\<lambda>p. key p = key entry) (tbl ! h) then Inr (Some NGTCP2_ERR_INVALID_ARGUMENT, tbl)
      else Inr (None, tbl[h := entry # tbl ! h]))"

fun rehash_entries ::
    "u32 \<Rightarrow> 'a ngtcp2_map_entry list \<Rightarrow> 'a ngtcp2_map_entry list list \<Rightarrow> 'a ngtcp2_map_entry list list res" where
  "rehash_entries len [] tbl = Inr tbl"
| "rehash_entries len (e # es) tbl =
     rbind (insert_entry tbl len e []) (\<lambda>(_, tbl). rehash_entries len es tbl)"

fun rehash ::
    "u32 \<Rightarrow> 'a ngtcp2_map_entry list list \<Rightarrow> 'a ngtcp2_map_entry list list \<Rightarrow> 'a ngtcp2_map_entry list list res" where
  "rehash len [] tbl = Inr tbl"
| "rehash len (b # bs) tbl = rbind (rehash_entries len b tbl) (\<lambda>tbl. rehash len bs tbl)"

definition resize :: "mem \<Rightarrow> 'a ngtcp2_map \<Rightarrow> u32 \<Rightarrow> (rv \<times> 'a ngtcp2_map \<times> mem) res" where
  "resize m mp new_tablelen =
     (let (ok, m) = malloc m in
      if \<not> ok then Inr (Some NGTCP2_ERR_NOMEM, mp, m)
      else
        rbind (rehash new_tablelen (table mp) (replicate (unat new_tablelen) [])) (\<lambda>new_table.
        Inr (None, mp\<lparr>tablelen := new_tablelen, table := new_table\<rparr>, m)))"

definition ngtcp2_map_insert ::
    "mem \<Rightarrow> 'a ngtcp2_map \<Rightarrow> 'a ngtcp2_map_entry \<Rightarrow> 'a ngtcp2_map_entry list \<Rightarrow>
     (rv \<times> 'a ngtcp2_map \<times> mem) res" where
  "ngtcp2_map_insert m mp new_entry nxt =
     rbind (if szmul (szadd (map_size mp) 1) 4 > unat (tablelen mp * 3)
            then resize m mp (tablelen mp * 2) else Inr (None, mp, m)) (\<lambda>(rv, mp, m).
     if rv \<noteq> None then Inr (rv, mp, m)
     else
       rbind (insert_entry (table mp) (tablelen mp) new_entry nxt) (\<lambda>(rv, tbl).
       if rv \<noteq> None then Inr (rv, mp, m)
       else Inr (None, mp\<lparr>table := tbl, map_size := szadd (map_size mp) 1\<rparr>, m)))"

definition ngtcp2_map_find :: "'a ngtcp2_map \<Rightarrow> u64 \<Rightarrow> 'a ngtcp2_map_entry option res" where
  "ngtcp2_map_find mp k =
     (let h = unat (hash k (tablelen mp)) in
      if \<not> h < length (table mp) then Inl OutOfBounds
      else Inr (List.find (\<lambda>e. key e = k) (table mp ! h)))"

fun unlink :: "u64 \<Rightarrow> 'a ngtcp2_map_entry list \<Rightarrow> 'a ngtcp2_map_entry list option" where
  "unlink k [] = None"
| "unlink k (e # es) = (if key e \<noteq> k then map_option (\<lambda>r. e # r) (unlink k es) else Some es)"

definition ngtcp2_map_remove :: "'a ngtcp2_map \<Rightarrow> u64 \<Rightarrow> (rv \<times> 'a ngtcp2_map) res" where
  "ngtcp2_map_remove mp k =
     (let h = unat (hash k (tablelen mp)) in
      if \<not> h < length (table mp) then Inl OutOfBounds
      else case unlink k (table mp ! h) of
             None \<Rightarrow> Inr (Some NGTCP2_ERR_INVALID_ARGUMENT, mp)
           | Some b \<Rightarrow> Inr (None, mp\<lparr>table := (table mp)[h := b], map_size := szsub (map_size mp) 1\<rparr>))"


section \<open>The invariant\<close>

lemma hash_less: "md \<noteq> 0 \<Longrightarrow> unat (hash k md) < unat md"
proof -
  assume "md \<noteq> 0"
  have "hash k md \<le> md - 1" unfolding hash_def Let_def by (rule word_and_le1)
  then have "unat (hash k md) \<le> unat (md - 1)" by (simp add: word_le_nat_alt)
  moreover have "unat (md - 1) = unat md - 1" using \<open>md \<noteq> 0\<close> by (rule unat_minus_one)
  moreover have "unat md \<noteq> 0" using \<open>md \<noteq> 0\<close> by (simp add: unsigned_eq_0_iff)
  ultimately show ?thesis by linarith
qed

text \<open>A table with \<open>len\<close> buckets: every entry is in the bucket of its key, no key is in twice.\<close>

definition table_wf :: "u32 \<Rightarrow> 'a ngtcp2_map_entry list list \<Rightarrow> bool" where
  "table_wf len tbl =
     (len \<noteq> 0 \<and> length tbl = unat len \<and>
      (\<forall>h < length tbl. (\<forall>e \<in> set (tbl ! h). unat (hash (key e) len) = h) \<and> distinct (map key (tbl ! h))))"

definition map_wf :: "'a ngtcp2_map \<Rightarrow> bool" where
  "map_wf mp = (table_wf (tablelen mp) (table mp) \<and> map_size mp = length (concat (table mp)) \<and>
     map_size mp < 2 ^ 64)"

definition table_lookup :: "u32 \<Rightarrow> 'a ngtcp2_map_entry list list \<Rightarrow> u64 \<Rightarrow> 'a ngtcp2_map_entry option" where
  "table_lookup len tbl k = List.find (\<lambda>e. key e = k) (tbl ! unat (hash k len))"

text \<open>What the table means: the map from keys to entries.\<close>

definition map_abs :: "'a ngtcp2_map \<Rightarrow> u64 \<Rightarrow> 'a ngtcp2_map_entry option" where
  "map_abs mp k = List.find (\<lambda>e. key e = k) (concat (table mp))"

lemma find_concat:
  assumes "\<And>j. j < length tbl \<Longrightarrow> j \<noteq> h \<Longrightarrow> List.find P (tbl ! j) = None" and "h < length tbl"
  shows "List.find P (concat tbl) = List.find P (tbl ! h)"
proof -
  have app: "List.find P (xs @ ys) = (case List.find P xs of None \<Rightarrow> List.find P ys | Some x \<Rightarrow> Some x)" for xs ys
    by (induction xs) simp_all
  show ?thesis using assms
  proof (induction tbl arbitrary: h)
    case (Cons b tbl)
    show ?case
    proof (cases h)
      case 0
      have "List.find P x = None" if "x \<in> set tbl" for x
        using Cons.prems(1) 0 that by (metis in_set_conv_nth length_Cons nth_Cons_Suc Suc_mono nat.distinct(1))
      then have "List.find P (concat tbl) = None" by (auto simp: find_None_iff)
      then show ?thesis using 0 by (simp add: app split: option.splits)
    next
      case (Suc h')
      then have "List.find P b = None" using Cons.prems(1) [of 0] by simp
      moreover have "List.find P (concat tbl) = List.find P (tbl ! h')"
        using Cons.prems Suc by (intro Cons.IH) fastforce+
      ultimately show ?thesis using Suc by (simp add: app)
    qed
  qed simp
qed

lemma table_lookup_concat:
  assumes "table_wf len tbl"
  shows "List.find (\<lambda>e. key e = k) (concat tbl) = table_lookup len tbl k"
  unfolding table_lookup_def
proof (rule find_concat)
  show "unat (hash k len) < length tbl" using assms hash_less [of len k] by (simp add: table_wf_def)
  fix j assume "j < length tbl" "j \<noteq> unat (hash k len)"
  then show "List.find (\<lambda>e. key e = k) (tbl ! j) = None"
    using assms by (auto simp: find_None_iff table_wf_def)
qed

lemma map_abs_lookup: "map_wf mp \<Longrightarrow> map_abs mp k = table_lookup (tablelen mp) (table mp) k"
  by (simp add: map_abs_def map_wf_def table_lookup_concat)

section \<open>Insertion, rehashing and removal\<close>

lemma find_append:
  "List.find P (xs @ ys) = (case List.find P xs of None \<Rightarrow> List.find P ys | Some x \<Rightarrow> Some x)"
  by (induction xs) simp_all

lemma find_key_None: "List.find (\<lambda>e. key e = k) b = None \<longleftrightarrow> \<not> list_ex (\<lambda>e. key e = k) b"
  by (auto simp: find_None_iff list_ex_iff)

lemma length_concat_update:
  "h < length tbl \<Longrightarrow> length (concat (tbl[h := b])) + length (tbl ! h) = length (concat tbl) + length b"
proof (induction tbl arbitrary: h)
  case (Cons c tbl)
  then show ?case by (cases h) (auto simp: add.assoc)
qed simp

text \<open>
  Inserting an initialised entry: a key that is present is refused, any other key is added and
  nothing else changes.
\<close>

lemma insert_entry_ok:
  assumes wf: "table_wf len tbl"
  shows "table_lookup len tbl (key e) \<noteq> None \<Longrightarrow>
      insert_entry tbl len e [] = Inr (Some NGTCP2_ERR_INVALID_ARGUMENT, tbl)"
    and "table_lookup len tbl (key e) = None \<Longrightarrow>
      \<exists>tbl'. insert_entry tbl len e [] = Inr (None, tbl') \<and> table_wf len tbl' \<and>
        table_lookup len tbl' = (table_lookup len tbl)(key e := Some e) \<and>
        length (concat tbl') = Suc (length (concat tbl))"
proof -
  let ?h = "unat (hash (key e) len)"
  have h: "?h < length tbl" using wf hash_less [of len "key e"] by (simp add: table_wf_def)
  show "table_lookup len tbl (key e) \<noteq> None \<Longrightarrow>
      insert_entry tbl len e [] = Inr (Some NGTCP2_ERR_INVALID_ARGUMENT, tbl)"
    using h find_key_None [of "key e" "tbl ! ?h"]
    by (auto simp: insert_entry_def Let_def table_lookup_def)
  assume none: "table_lookup len tbl (key e) = None"
  then have fresh: "\<not> list_ex (\<lambda>p. key p = key e) (tbl ! ?h)" by (simp add: table_lookup_def find_key_None)
  let ?t = "tbl[?h := e # tbl ! ?h]"
  have "insert_entry tbl len e [] = Inr (None, ?t)" using h fresh by (simp add: insert_entry_def Let_def)
  moreover have "table_wf len ?t"
    unfolding table_wf_def
  proof (intro conjI allI impI)
    fix j assume j: "j < length ?t"
    then have b: "\<forall>e \<in> set (tbl ! j). unat (hash (key e) len) = j" "distinct (map key (tbl ! j))"
      using wf by (simp_all add: table_wf_def)
    have "key e \<notin> key ` set (tbl ! ?h)" using fresh by (auto simp: list_ex_iff)
    then show "distinct (map key (?t ! j))" using b(2) h by (cases "j = ?h") simp_all
    show "\<forall>e \<in> set (?t ! j). unat (hash (key e) len) = j" using b(1) h by (cases "j = ?h") simp_all
  qed (use wf in \<open>simp_all add: table_wf_def\<close>)
  moreover have "table_lookup len ?t = (table_lookup len tbl)(key e := Some e)"
    using h by (auto simp: table_lookup_def nth_list_update fun_eq_iff)
  moreover have "length (concat ?t) = Suc (length (concat tbl))"
    using length_concat_update [OF h, of "e # tbl ! ?h"] by simp
  ultimately show "\<exists>tbl'. insert_entry tbl len e [] = Inr (None, tbl') \<and> table_wf len tbl' \<and>
      table_lookup len tbl' = (table_lookup len tbl)(key e := Some e) \<and>
      length (concat tbl') = Suc (length (concat tbl))" by blast
qed

lemma rehash_concat: "rehash len bs tbl = rehash_entries len (concat bs) tbl"
proof -
  have app: "rehash_entries len (xs @ ys) tbl = rbind (rehash_entries len xs tbl) (rehash_entries len ys)" for xs ys tbl
    by (induction xs arbitrary: tbl) (simp_all add: rbind_def split: sum.splits prod.splits)
  show ?thesis by (induction bs arbitrary: tbl) (simp_all add: app rbind_def split: sum.split)
qed

lemma rehash_entries_ok:
  assumes "table_wf len tbl" and "distinct (map key es)"
    and "\<And>e. e \<in> set es \<Longrightarrow> table_lookup len tbl (key e) = None"
  shows "\<exists>tbl'. rehash_entries len es tbl = Inr tbl' \<and> table_wf len tbl' \<and>
    length (concat tbl') = length (concat tbl) + length es \<and>
    (\<forall>k. table_lookup len tbl' k =
      (case List.find (\<lambda>e. key e = k) es of None \<Rightarrow> table_lookup len tbl k | Some e \<Rightarrow> Some e))"
  using assms
proof (induction es arbitrary: tbl)
  case (Cons e es)
  obtain t where t: "insert_entry tbl len e [] = Inr (None, t)" "table_wf len t"
      "table_lookup len t = (table_lookup len tbl)(key e := Some e)" "length (concat t) = Suc (length (concat tbl))"
    using insert_entry_ok(2) [OF Cons.prems(1)] Cons.prems(3) [of e] by auto
  have "\<And>x. x \<in> set es \<Longrightarrow> table_lookup len t (key x) = None"
    using Cons.prems(2,3) by (auto simp: t(3) image_iff)
  then obtain t' where t': "rehash_entries len es t = Inr t'" "table_wf len t'"
      "length (concat t') = length (concat t) + length es"
      "\<forall>k. table_lookup len t' k = (case List.find (\<lambda>e. key e = k) es of None \<Rightarrow> table_lookup len t k | Some e \<Rightarrow> Some e)"
    using Cons.IH [OF t(2)] Cons.prems(2) by auto
  have "table_lookup len t' k = (case List.find (\<lambda>e. key e = k) (e # es) of
      None \<Rightarrow> table_lookup len tbl k | Some e \<Rightarrow> Some e)" for k
  proof (cases "key e = k")
    case True
    then have "List.find (\<lambda>e. key e = k) es = None"
      using Cons.prems(2) by (auto simp: find_None_iff) (metis image_eqI)
    then show ?thesis using True t'(4) t(3) by simp
  next
    case False
    then show ?thesis using t'(4) t(3) by (simp split: option.splits)
  qed
  then show ?case using t t' by auto
qed simp

lemma table_wf_empty: "len \<noteq> 0 \<Longrightarrow> table_wf len (replicate (unat len) [])"
  by (simp add: table_wf_def)

lemma distinct_concat_nth:
  assumes "\<And>i. i < length xs \<Longrightarrow> distinct (xs ! i)"
    and "\<And>i j. i < j \<Longrightarrow> j < length xs \<Longrightarrow> set (xs ! i) \<inter> set (xs ! j) = {}"
  shows "distinct (concat xs)"
  using assms
proof (induction xs)
  case (Cons x xs)
  have "distinct (concat xs)" using Cons.prems(1) [of "Suc _"] Cons.prems(2) [of "Suc _" "Suc _"] by (intro Cons.IH) auto
  moreover have "set x \<inter> set y = {}" if "y \<in> set xs" for y
    using that Cons.prems(2) [of 0 "Suc _"] by (auto simp: in_set_conv_nth)
  ultimately show ?case using Cons.prems(1) [of 0] by auto
qed simp

lemma table_wf_distinct:
  assumes wf: "table_wf len tbl"
  shows "distinct (map key (concat tbl))"
proof -
  have b: "unat (hash k len) = i" if "i < length tbl" "k \<in> key ` set (tbl ! i)" for i k
    using wf that by (auto simp: table_wf_def)
  have "distinct (concat (map (map key) tbl))"
  proof (rule distinct_concat_nth)
    fix i assume "i < length (map (map key) tbl)"
    then show "distinct (map (map key) tbl ! i)" using wf by (simp add: table_wf_def)
  next
    fix i j assume "i < j" "j < length (map (map key) tbl)"
    then show "set (map (map key) tbl ! i) \<inter> set (map (map key) tbl ! j) = {}"
      using b [of i] b [of j] by (auto 4 3)
  qed
  then show ?thesis by (simp add: map_concat)
qed

lemma table_lookup_empty: "len \<noteq> 0 \<Longrightarrow> table_lookup len (replicate (unat len) []) k = None"
  using hash_less [of len k] by (simp add: table_lookup_def)

lemma resize_ok:
  assumes wf: "map_wf mp" and m: "mem_ok m" and len: "len \<noteq> 0"
  shows "\<exists>mp'. resize m mp len = Inr (None, mp', m) \<and> map_wf mp' \<and> map_abs mp' = map_abs mp \<and>
    map_size mp' = map_size mp \<and> tablelen mp' = len"
proof -
  have wf': "table_wf (tablelen mp) (table mp)" using wf by (simp add: map_wf_def)
  obtain t where t: "rehash_entries len (concat (table mp)) (replicate (unat len) []) = Inr t" "table_wf len t"
      "length (concat t) = length (concat (table mp))"
      "\<forall>k. table_lookup len t k = (case List.find (\<lambda>e. key e = k) (concat (table mp)) of None \<Rightarrow> None | Some e \<Rightarrow> Some e)"
    using rehash_entries_ok [OF table_wf_empty [OF len] table_wf_distinct [OF wf'] table_lookup_empty [OF len]]
    unfolding table_lookup_empty [OF len] by auto
  let ?mp = "mp\<lparr>tablelen := len, table := t\<rparr>"
  have wf2: "map_wf ?mp" using t(2,3) wf by (simp add: map_wf_def)
  have "map_abs ?mp = map_abs mp"
    using t(4) map_abs_lookup [OF wf2] by (auto simp: map_abs_def fun_eq_iff split: option.splits)
  moreover have "resize m mp len = Inr (None, ?mp, m)"
    using t(1) by (simp add: resize_def malloc_mem_ok [OF m] rehash_concat)
  ultimately show ?thesis using wf2 by auto
qed

text \<open>The size up to which no product of the load factor test wraps.\<close>

definition map_room :: "'a ngtcp2_map \<Rightarrow> bool" where
  "map_room mp = (unat (tablelen mp) \<le> 2 ^ 30 \<and> map_size mp < 2 ^ 61)"

lemma room_double:
  "unat (x :: u32) \<le> 2 ^ 30 \<Longrightarrow> x \<noteq> 0 \<Longrightarrow> unat (x * 2) = unat x * 2 \<and> x * 2 \<noteq> 0"
proof -
  assume x: "unat x \<le> 2 ^ 30" "x \<noteq> 0"
  then have "unat (x * 2) = unat x * 2" by (simp add: unat_mult_lem [THEN iffD1])
  moreover have "unat x \<noteq> 0" using x(2) by (simp add: unsigned_eq_0_iff)
  ultimately show ?thesis by auto
qed

lemma insert_fresh_ok:
  assumes wf: "map_wf mp" and room: "map_size mp < 2 ^ 61" and fresh: "map_abs mp (key e) = None"
  shows "\<exists>tbl. insert_entry (table mp) (tablelen mp) e [] = Inr (None, tbl) \<and>
    (let mp' = mp\<lparr>table := tbl, map_size := szadd (map_size mp) 1\<rparr> in
     map_wf mp' \<and> map_abs mp' = (map_abs mp)(key e \<mapsto> e) \<and> map_size mp' = Suc (map_size mp))"
proof -
  have wf': "table_wf (tablelen mp) (table mp)" "map_size mp = length (concat (table mp))"
    using wf by (simp_all add: map_wf_def)
  have "table_lookup (tablelen mp) (table mp) (key e) = None" using fresh map_abs_lookup [OF wf] by simp
  then obtain t where t: "insert_entry (table mp) (tablelen mp) e [] = Inr (None, t)" "table_wf (tablelen mp) t"
      "table_lookup (tablelen mp) t = (table_lookup (tablelen mp) (table mp))(key e := Some e)"
      "length (concat t) = Suc (length (concat (table mp)))"
    using insert_entry_ok(2) [OF wf'(1)] by blast
  let ?mp = "mp\<lparr>table := t, map_size := szadd (map_size mp) 1\<rparr>"
  have wf2: "map_wf ?mp" using t wf'(2) room by (simp add: map_wf_def)
  moreover have "map_abs ?mp = (map_abs mp)(key e \<mapsto> e)"
    using t(3) map_abs_lookup [OF wf2] map_abs_lookup [OF wf] by (auto simp: fun_eq_iff)
  ultimately show ?thesis using t(1) room by (simp add: Let_def)
qed

lemma map_insert_ok:
  assumes wf: "map_wf mp" and room: "map_room mp" and m: "mem_ok m"
  shows "map_abs mp (key e) = None \<Longrightarrow>
      \<exists>mp'. ngtcp2_map_insert m mp e [] = Inr (None, mp', m) \<and> map_wf mp' \<and>
        map_abs mp' = (map_abs mp)(key e \<mapsto> e) \<and> map_size mp' = Suc (map_size mp)"
    and "map_abs mp (key e) \<noteq> None \<Longrightarrow>
      \<exists>mp'. ngtcp2_map_insert m mp e [] = Inr (Some NGTCP2_ERR_INVALID_ARGUMENT, mp', m) \<and> map_wf mp' \<and>
        map_abs mp' = map_abs mp \<and> map_size mp' = map_size mp"
proof -
  have len: "tablelen mp * 2 \<noteq> 0" and sz: "map_size mp < 2 ^ 61"
    using room_double [of "tablelen mp"] room wf by (auto simp: map_room_def map_wf_def table_wf_def)
  obtain mp1 where mp1: "(if szmul (szadd (map_size mp) 1) 4 > unat (tablelen mp * 3)
        then resize m mp (tablelen mp * 2) else Inr (None, mp, m)) = Inr (None, mp1, m)"
      "map_wf mp1" "map_abs mp1 = map_abs mp" "map_size mp1 = map_size mp"
    using resize_ok [OF wf m len] wf by (cases "szmul (szadd (map_size mp) 1) 4 > unat (tablelen mp * 3)") auto
  show "map_abs mp (key e) = None \<Longrightarrow>
      \<exists>mp'. ngtcp2_map_insert m mp e [] = Inr (None, mp', m) \<and> map_wf mp' \<and>
        map_abs mp' = (map_abs mp)(key e \<mapsto> e) \<and> map_size mp' = Suc (map_size mp)"
    using insert_fresh_ok [OF mp1(2), of e] mp1 sz unfolding ngtcp2_map_insert_def Let_def by auto
  assume "map_abs mp (key e) \<noteq> None"
  then have "table_lookup (tablelen mp1) (table mp1) (key e) \<noteq> None"
    using mp1(3) map_abs_lookup [OF mp1(2)] by simp
  then have "insert_entry (table mp1) (tablelen mp1) e [] = Inr (Some NGTCP2_ERR_INVALID_ARGUMENT, table mp1)"
    using insert_entry_ok(1) mp1(2) unfolding map_wf_def by blast
  then show "\<exists>mp'. ngtcp2_map_insert m mp e [] = Inr (Some NGTCP2_ERR_INVALID_ARGUMENT, mp', m) \<and> map_wf mp' \<and>
        map_abs mp' = map_abs mp \<and> map_size mp' = map_size mp"
    using mp1 by (simp add: ngtcp2_map_insert_def)
qed

lemma map_find_ok: "map_wf mp \<Longrightarrow> ngtcp2_map_find mp k = Inr (map_abs mp k)"
  using hash_less [of "tablelen mp" k] map_abs_lookup [of mp k]
  by (simp add: ngtcp2_map_find_def Let_def table_lookup_def map_wf_def table_wf_def)

lemma unlink_None: "unlink k b = None \<longleftrightarrow> List.find (\<lambda>e. key e = k) b = None"
  by (induction b) simp_all

lemma unlink_Some:
  "distinct (map key b) \<Longrightarrow> unlink k b = Some b' \<Longrightarrow>
    length b = Suc (length b') \<and> b' = [e \<leftarrow> b. key e \<noteq> k]"
proof (induction b arbitrary: b')
  case (Cons e b)
  show ?case
  proof (cases "key e = k")
    case True
    then have "[x \<leftarrow> b. key x \<noteq> k] = b"
      using Cons.prems(1) by (auto simp: filter_id_conv) (metis image_eqI)
    then show ?thesis using Cons.prems True by simp
  next
    case False
    then show ?thesis using Cons by auto
  qed
qed simp

lemma find_filter: "k \<noteq> k' \<Longrightarrow> List.find (\<lambda>e. key e = k) [e \<leftarrow> b. key e \<noteq> k'] = List.find (\<lambda>e. key e = k) b"
  by (induction b) auto

lemma find_filter_same: "List.find (\<lambda>e. key e = k) [e \<leftarrow> b. key e \<noteq> k] = None"
  by (simp add: find_None_iff)

lemma map_remove_ok:
  assumes wf: "map_wf mp"
  shows "map_abs mp k = None \<Longrightarrow> ngtcp2_map_remove mp k = Inr (Some NGTCP2_ERR_INVALID_ARGUMENT, mp)"
    and "map_abs mp k = Some e \<Longrightarrow>
      \<exists>mp'. ngtcp2_map_remove mp k = Inr (None, mp') \<and> map_wf mp' \<and>
        map_abs mp' = (map_abs mp)(k := None) \<and> Suc (map_size mp') = map_size mp"
proof -
  let ?h = "unat (hash k (tablelen mp))" let ?b = "table mp ! ?h"
  have twf: "table_wf (tablelen mp) (table mp)" using wf by (simp add: map_wf_def)
  have h: "?h < length (table mp)" using twf hash_less [of "tablelen mp" k] by (simp add: table_wf_def)
  have lk: "map_abs mp k = List.find (\<lambda>e. key e = k) ?b" using map_abs_lookup [OF wf] by (simp add: table_lookup_def)
  show "map_abs mp k = None \<Longrightarrow> ngtcp2_map_remove mp k = Inr (Some NGTCP2_ERR_INVALID_ARGUMENT, mp)"
    using h lk unlink_None [of k ?b] by (simp add: ngtcp2_map_remove_def Let_def)
  assume "map_abs mp k = Some e"
  then obtain b where u: "unlink k ?b = Some b" using lk unlink_None [of k ?b] by auto
  have b: "length ?b = Suc (length b)" "b = [e \<leftarrow> ?b. key e \<noteq> k]"
    using unlink_Some [OF _ u] twf h by (simp_all add: table_wf_def)
  let ?t = "(table mp)[?h := b]" let ?mp = "mp\<lparr>table := ?t, map_size := szsub (map_size mp) 1\<rparr>"
  have len: "Suc (length (concat ?t)) = length (concat (table mp))"
    using length_concat_update [OF h, of b] b(1) by simp
  have size: "Suc (map_size ?mp) = map_size mp" using len wf by (simp add: map_wf_def)
  have "table_wf (tablelen mp) ?t"
    unfolding table_wf_def
  proof (intro conjI allI impI)
    fix j assume "j < length ?t"
    then have "\<forall>e \<in> set (table mp ! j). unat (hash (key e) (tablelen mp)) = j" "distinct (map key (table mp ! j))"
      using twf by (simp_all add: table_wf_def)
    then show "\<forall>e \<in> set (?t ! j). unat (hash (key e) (tablelen mp)) = j" "distinct (map key (?t ! j))"
      using h b(2) by (cases "j = ?h", simp_all add: distinct_map_filter)+
  qed (use twf in \<open>simp_all add: table_wf_def\<close>)
  then have wf2: "map_wf ?mp" using size len wf by (simp add: map_wf_def)
  have "map_abs ?mp = (map_abs mp)(k := None)"
  proof
    fix k'
    show "map_abs ?mp k' = ((map_abs mp)(k := None)) k'"
      using map_abs_lookup [OF wf2, of k'] map_abs_lookup [OF wf, of k'] h b(2) find_filter [of k' k ?b]
        find_filter_same [of k ?b]
      by (cases "k' = k"; cases "unat (hash k' (tablelen mp)) = ?h") (simp_all add: table_lookup_def)
  qed
  then show "\<exists>mp'. ngtcp2_map_remove mp k = Inr (None, mp') \<and> map_wf mp' \<and>
      map_abs mp' = (map_abs mp)(k := None) \<and> Suc (map_size mp') = map_size mp"
    using h u wf2 size by (simp add: ngtcp2_map_remove_def Let_def)
qed

section \<open>The contract of the map\<close>

text \<open>
  What the connection relies on when it keeps its streams in the map: a dictionary with the usual
  lookup laws. Its clients open, look up and close streams; that closing undoes opening is proved
  once from the laws.
\<close>

locale dictionary =
  fixes inv :: "'s \<Rightarrow> bool" and room :: "'s \<Rightarrow> bool" and lookup :: "'s \<Rightarrow> 'k \<Rightarrow> 'e option"
    and find :: "'s \<Rightarrow> 'k \<Rightarrow> 'e option res" and ins :: "'s \<Rightarrow> 'e \<Rightarrow> (rv \<times> 's) res"
    and rem :: "'s \<Rightarrow> 'k \<Rightarrow> (rv \<times> 's) res" and key_of :: "'e \<Rightarrow> 'k"
  assumes find_lookup: "inv s \<Longrightarrow> find s k = Inr (lookup s k)"
    and ins_new: "inv s \<Longrightarrow> room s \<Longrightarrow> lookup s (key_of e) = None \<Longrightarrow>
      \<exists>s'. ins s e = Inr (None, s') \<and> inv s' \<and> lookup s' = (lookup s)(key_of e \<mapsto> e)"
    and ins_dup: "inv s \<Longrightarrow> room s \<Longrightarrow> lookup s (key_of e) \<noteq> None \<Longrightarrow>
      \<exists>s'. ins s e = Inr (Some NGTCP2_ERR_INVALID_ARGUMENT, s') \<and> inv s' \<and> lookup s' = lookup s"
    and rem_some: "inv s \<Longrightarrow> lookup s k \<noteq> None \<Longrightarrow>
      \<exists>s'. rem s k = Inr (None, s') \<and> inv s' \<and> lookup s' = (lookup s)(k := None)"
    and rem_none: "inv s \<Longrightarrow> lookup s k = None \<Longrightarrow> rem s k = Inr (Some NGTCP2_ERR_INVALID_ARGUMENT, s)"
begin

lemma find_after_ins:
  assumes "inv s" and "room s" and "ins s e = Inr (rv, s')"
  shows "inv s'" and "find s' k = Inr (if rv = None \<and> k = key_of e then Some e else lookup s k)"
proof -
  consider s1 where "rv = None" "s' = s1" "inv s1" "lookup s1 = (lookup s)(key_of e \<mapsto> e)"
    | s1 where "rv \<noteq> None" "s' = s1" "inv s1" "lookup s1 = lookup s"
    using ins_new [OF assms(1,2), of e] ins_dup [OF assms(1,2), of e] assms(3)
    by (cases "lookup s (key_of e)") auto
  then have "inv s' \<and> find s' k = Inr (if rv = None \<and> k = key_of e then Some e else lookup s k)"
    by cases (auto simp: find_lookup)
  then show "inv s'" "find s' k = Inr (if rv = None \<and> k = key_of e then Some e else lookup s k)"
    by blast+
qed

lemma ins_then_rem:
  assumes "inv s" and "room s" and "ins s e = Inr (None, s')"
  shows "\<exists>s''. rem s' (key_of e) = Inr (None, s'') \<and> inv s'' \<and> lookup s'' = lookup s"
proof -
  have none: "lookup s (key_of e) = None"
    using ins_dup [OF assms(1,2), of e] assms(3) by (cases "lookup s (key_of e)") auto
  then have "inv s'" "lookup s' = (lookup s)(key_of e \<mapsto> e)"
    using ins_new [OF assms(1,2), of e] assms(3) by auto
  then show ?thesis using rem_some [of s' "key_of e"] none by (auto simp: fun_upd_idem)
qed

end

definition map_ins :: "'a ngtcp2_map \<Rightarrow> 'a ngtcp2_map_entry \<Rightarrow> (rv \<times> 'a ngtcp2_map) res" where
  "map_ins mp e = rbind (ngtcp2_map_insert (\<lambda>_. True) mp e []) (\<lambda>(rv, mp, m). Inr (rv, mp))"

interpretation streams: dictionary map_wf map_room map_abs ngtcp2_map_find map_ins ngtcp2_map_remove key
proof
  fix mp :: "'a ngtcp2_map" and e :: "'a ngtcp2_map_entry" and k
  assume wf: "map_wf mp"
  show "ngtcp2_map_find mp k = Inr (map_abs mp k)" by (rule map_find_ok [OF wf])
  show "map_abs mp k \<noteq> None \<Longrightarrow> \<exists>s'. ngtcp2_map_remove mp k = Inr (None, s') \<and> map_wf s' \<and>
      map_abs s' = (map_abs mp)(k := None)" using map_remove_ok(2) [OF wf, of k] by (auto 4 4)
  show "map_abs mp k = None \<Longrightarrow> ngtcp2_map_remove mp k = Inr (Some NGTCP2_ERR_INVALID_ARGUMENT, mp)"
    by (rule map_remove_ok(1) [OF wf])
  assume room: "map_room mp"
  show "map_abs mp (key e) = None \<Longrightarrow> \<exists>s'. map_ins mp e = Inr (None, s') \<and> map_wf s' \<and>
      map_abs s' = (map_abs mp)(key e \<mapsto> e)"
    using map_insert_ok(1) [OF wf room mem_ok_True, of e] by (auto simp: map_ins_def)
  show "map_abs mp (key e) \<noteq> None \<Longrightarrow> \<exists>s'. map_ins mp e = Inr (Some NGTCP2_ERR_INVALID_ARGUMENT, s') \<and>
      map_wf s' \<and> map_abs s' = map_abs mp"
    using map_insert_ok(2) [OF wf room mem_ok_True, of e] by (auto simp: map_ins_def)
qed

section \<open>Properties\<close>


definition one_entry_map :: "nat ngtcp2_map" where
  "one_entry_map = \<lparr>table = [[\<lparr>key = 4, obj = 40\<rparr>]], map_size = 1, tablelen = 1\<rparr>"

lemma hash_1: "hash k 1 = 0"
  by (simp add: hash_def)

lemma one_entry_wf: "map_wf one_entry_map" "map_room one_entry_map"
  by (simp_all add: map_wf_def table_wf_def map_room_def one_entry_map_def hash_1)


text \<open>
  Opening and closing streams in the table: after an insertion that returned 0, the entry is the
  one found under its key and every other key finds what it found before; removing the key gives back
  the map as it was, and a key that is not in the map is refused by \<^verbatim>\<open>ngtcp2_map_remove\<close>, which then
  changes nothing. When the table must grow and memory is refused, nothing changes.
\<close>

theorem map_insert_remove:
  assumes "map_wf mp" and "map_room mp"
  shows "(map_ins mp e = Inr (None, mp') \<longrightarrow>
      ngtcp2_map_find mp' k = Inr (if k = key e then Some e else map_abs mp k) \<and>
      (\<exists>mp''. ngtcp2_map_remove mp' (key e) = Inr (None, mp'') \<and> map_wf mp'' \<and> map_abs mp'' = map_abs mp)) \<and>
    (map_abs mp k = None \<longrightarrow> ngtcp2_map_remove mp k = Inr (Some NGTCP2_ERR_INVALID_ARGUMENT, mp)) \<and>
    (4 * (map_size mp + 1) > unat (tablelen mp) * 3 \<and> \<not> m 0 \<longrightarrow>
      (\<exists>m'. ngtcp2_map_insert m mp e nxt = Inr (Some NGTCP2_ERR_NOMEM, mp, m')))"
proof (intro conjI impI)
  assume ins: "map_ins mp e = Inr (None, mp')"
  show "ngtcp2_map_find mp' k = Inr (if k = key e then Some e else map_abs mp k)"
    using streams.find_after_ins(2) [OF assms ins, of k] by simp
  show "\<exists>mp''. ngtcp2_map_remove mp' (key e) = Inr (None, mp'') \<and> map_wf mp'' \<and> map_abs mp'' = map_abs mp"
    by (rule streams.ins_then_rem [OF assms ins])
next
  show "map_abs mp k = None \<Longrightarrow> ngtcp2_map_remove mp k = Inr (Some NGTCP2_ERR_INVALID_ARGUMENT, mp)"
    by (rule streams.rem_none [OF assms(1)])
next
  assume a: "4 * (map_size mp + 1) > unat (tablelen mp) * 3 \<and> \<not> m 0"
  have "unat (tablelen mp * 3) = unat (tablelen mp) * 3"
    using assms(2) by (simp add: map_room_def unat_mult_lem [THEN iffD1])
  moreover have "szmul (szadd (map_size mp) 1) 4 = (map_size mp + 1) * 4"
    using assms(2) by (simp add: map_room_def)
  ultimately have "szmul (szadd (map_size mp) 1) 4 > unat (tablelen mp * 3)" using a by (simp only: mult.commute)
  then show "\<exists>m'. ngtcp2_map_insert m mp e nxt = Inr (Some NGTCP2_ERR_NOMEM, mp, m')"
    using a by (simp add: ngtcp2_map_insert_def resize_def malloc_def)
qed

lemma map_insert_remove_witness:
  "\<exists>mp' mp''. map_ins one_entry_map \<lparr>key = 8, obj = 80\<rparr> = Inr (None, mp') \<and>
     ngtcp2_map_find mp' 4 = Inr (Some \<lparr>key = 4, obj = 40\<rparr>) \<and>
     ngtcp2_map_remove mp' 8 = Inr (None, mp'') \<and> map_abs mp'' = map_abs one_entry_map"
proof -
  let ?e = "\<lparr>key = 8, obj = 80\<rparr> :: nat ngtcp2_map_entry"
  have "map_abs one_entry_map (key ?e) = None" by (simp add: map_abs_def one_entry_map_def)
  then obtain mp' where "map_ins one_entry_map ?e = Inr (None, mp')"
    using streams.ins_new [OF one_entry_wf] by blast
  then show ?thesis
    using map_insert_remove [OF one_entry_wf, of ?e mp' 4] by (auto simp: map_abs_def one_entry_map_def)
qed

end
