(* ===== verification/Ppe.thy ===== *)
theory Ppe
  imports Crypto
begin

text \<open>
  Packet protection: \<^verbatim>\<open>lib/ngtcp2_buf.c\<close>, \<^verbatim>\<open>lib/ngtcp2_ppe.c\<close> (the protected packet encoder) and its
  counterpart \<^verbatim>\<open>conn_decrypt_pkt\<close> of \<^verbatim>\<open>lib/ngtcp2_conn.c\<close>. The four pointers of a buffer are the bytes from
  \<^verbatim>\<open>begin\<close> to \<^verbatim>\<open>end\<close> and the positions of \<^verbatim>\<open>pos\<close> and \<^verbatim>\<open>last\<close> relative to \<^verbatim>\<open>begin\<close>.

  Encryption and decryption are callbacks of the application: functions of the text, the key, the nonce and the
  additional data that return the bytes they write, or their failure. That they write no more than the capacity
  passed to them is checked in the model, not assumed.
\<close>

section \<open>Buffers\<close>

record ngtcp2_buf =
  b_mem :: bytes
  b_pos :: nat
  b_last :: nat

definition ngtcp2_buf_init :: "bytes \<Rightarrow> ngtcp2_buf" where
  "ngtcp2_buf_init begin = \<lparr>b_mem = begin, b_pos = 0, b_last = 0\<rparr>"

definition ngtcp2_buf_left :: "ngtcp2_buf \<Rightarrow> nat" where
  "ngtcp2_buf_left buf = length (b_mem buf) - b_last buf"

definition ngtcp2_buf_len :: "ngtcp2_buf \<Rightarrow> nat" where
  "ngtcp2_buf_len buf = b_last buf - b_pos buf"

section \<open>The encoder\<close>

type_synonym ngtcp2_encrypt = "bytes \<Rightarrow> bytes \<Rightarrow> bytes \<Rightarrow> bytes \<Rightarrow> bytes option"
type_synonym ngtcp2_decrypt = "bytes \<Rightarrow> bytes \<Rightarrow> bytes \<Rightarrow> bytes \<Rightarrow> lib_error + bytes"

record ngtcp2_crypto_ctx =
  ctx_ckm :: "ngtcp2_crypto_km option"
  ctx_aead_overhead :: nat
  ctx_encrypt :: ngtcp2_encrypt

record ngtcp2_ppe =
  ppe_buf :: ngtcp2_buf
  ppe_ctx :: ngtcp2_crypto_ctx
  ppe_hdlen :: nat
  ppe_pkt_num :: u64

definition ngtcp2_ppe_init :: "bytes \<Rightarrow> ngtcp2_crypto_ctx \<Rightarrow> ngtcp2_ppe" where
  "ngtcp2_ppe_init out cctx =
     \<lparr>ppe_buf = ngtcp2_buf_init out, ppe_ctx = cctx, ppe_hdlen = 0, ppe_pkt_num = 0\<rparr>"

definition ngtcp2_ppe_encode_hd :: "ngtcp2_ppe \<Rightarrow> ngtcp2_pkt_hd \<Rightarrow> ngtcp2_ppe res" where
  "ngtcp2_ppe_encode_hd ppe h =
     (let buf = ppe_buf ppe; overhead = ctx_aead_overhead (ppe_ctx ppe) in
      if ngtcp2_buf_left buf < overhead then fail NGTCP2_ERR_NOBUF
      else
        rbind (if hd_flags h AND NGTCP2_PKT_FLAG_LONG_FORM \<noteq> 0
               then ngtcp2_pkt_encode_hd_long (b_mem buf, b_last buf) (ngtcp2_buf_left buf - overhead) h
               else ngtcp2_pkt_encode_hd_short (b_mem buf, b_last buf) (ngtcp2_buf_left buf - overhead) h) (\<lambda>(out, p).
        Inr (ppe\<lparr>ppe_buf := buf\<lparr>b_mem := out, b_last := p\<rparr>, ppe_hdlen := p - b_last buf,
                 ppe_pkt_num := hd_pkt_num h\<rparr>)))"

definition ngtcp2_ppe_encode_frame :: "ngtcp2_ppe \<Rightarrow> ngtcp2_frame \<Rightarrow> (ngtcp2_ppe \<times> ngtcp2_frame) res" where
  "ngtcp2_ppe_encode_frame ppe fr =
     (let buf = ppe_buf ppe; overhead = ctx_aead_overhead (ppe_ctx ppe) in
      if ngtcp2_buf_left buf < overhead then fail NGTCP2_ERR_NOBUF
      else
        rbind (ngtcp2_pkt_encode_frame (b_mem buf, b_last buf) (ngtcp2_buf_left buf - overhead) fr) (\<lambda>((out, p), fr).
        Inr (ppe\<lparr>ppe_buf := buf\<lparr>b_mem := out, b_last := p\<rparr>\<rparr>, fr)))"

text \<open>The nonce is built in an array of 32 bytes; \<^verbatim>\<open>ctx->ckm\<close> is dereferenced without a check.\<close>

definition ngtcp2_ppe_final :: "ngtcp2_ppe \<Rightarrow> (nat \<times> ngtcp2_ppe) res" where
  "ngtcp2_ppe_final ppe =
     (let buf = ppe_buf ppe;
          payloadlen = ngtcp2_buf_len buf - ppe_hdlen ppe;
          destlen = length (b_mem buf) - ppe_hdlen ppe
      in case ctx_ckm (ppe_ctx ppe) of
           None \<Rightarrow> Inl OutOfBounds
         | Some ckm \<Rightarrow>
             if 32 < length (km_iv ckm) then Inl OutOfBounds
             else
               rbind (ngtcp2_crypto_create_nonce (km_iv ckm) (ppe_pkt_num ppe)) (\<lambda>nonce.
               rbind (rdn (b_mem buf) (ppe_hdlen ppe) payloadlen) (\<lambda>payload.
               rbind (rdn (b_mem buf) 0 (ppe_hdlen ppe)) (\<lambda>ad.
               case ctx_encrypt (ppe_ctx ppe) payload (km_key ckm) nonce ad of
                 None \<Rightarrow> fail NGTCP2_ERR_CALLBACK_FAILURE
               | Some ciphertext \<Rightarrow>
                   if destlen < length ciphertext then Inl OutOfBounds
                   else
                     rbind (wr (b_mem buf, ppe_hdlen ppe) ciphertext) (\<lambda>(out, p).
                     let buf = buf\<lparr>b_mem := out, b_last := p\<rparr> in
                     Inr (ngtcp2_buf_len buf, ppe\<lparr>ppe_buf := buf\<rparr>))))))"

definition ngtcp2_ppe_left :: "ngtcp2_ppe \<Rightarrow> nat" where
  "ngtcp2_ppe_left ppe =
     (if ngtcp2_buf_left (ppe_buf ppe) < ctx_aead_overhead (ppe_ctx ppe) then 0
      else ngtcp2_buf_left (ppe_buf ppe) - ctx_aead_overhead (ppe_ctx ppe))"

definition ngtcp2_ppe_padding :: "ngtcp2_ppe \<Rightarrow> (nat \<times> ngtcp2_ppe) res" where
  "ngtcp2_ppe_padding ppe =
     (let buf = ppe_buf ppe; overhead = ctx_aead_overhead (ppe_ctx ppe) in
      rassert (ngtcp2_buf_left buf \<ge> overhead)
        (let len = ngtcp2_buf_left buf - overhead in
         rbind (wr (b_mem buf, b_last buf) (replicate len 0)) (\<lambda>(out, p).
         Inr (len, ppe\<lparr>ppe_buf := buf\<lparr>b_mem := out, b_last := p\<rparr>\<rparr>))))"

section \<open>Decryption\<close>

text \<open>
  \<^verbatim>\<open>conn_decrypt_pkt\<close>: the nonce has 64 bytes; a failure other than \<^verbatim>\<open>NGTCP2_ERR_TLS_DECRYPT\<close> is reported as a
  failed callback.
\<close>

definition conn_decrypt_pkt ::
    "nat \<Rightarrow> bytes \<Rightarrow> bytes \<Rightarrow> u64 \<Rightarrow> ngtcp2_crypto_km option \<Rightarrow> ngtcp2_decrypt \<Rightarrow> bytes res" where
  "conn_decrypt_pkt destlen payload ad pkt_num ckm decrypt =
     (case ckm of
        None \<Rightarrow> Inl OutOfBounds
      | Some ckm \<Rightarrow>
          rassert (64 \<ge> length (km_iv ckm))
            (rbind (ngtcp2_crypto_create_nonce (km_iv ckm) pkt_num) (\<lambda>nonce.
             case decrypt payload (km_key ckm) nonce ad of
               Inl e \<Rightarrow> if e = NGTCP2_ERR_TLS_DECRYPT then fail e else fail NGTCP2_ERR_CALLBACK_FAILURE
             | Inr plain \<Rightarrow> if destlen < length plain then Inl OutOfBounds else Inr plain)))"

section \<open>What the encoder writes\<close>

text \<open>
  \<open>encoding ppe bs\<close>: the encoder has written the bytes \<open>bs\<close> from the start of its buffer, and what the encryption
  adds still fits behind them.
\<close>

definition encoding :: "ngtcp2_ppe \<Rightarrow> bytes \<Rightarrow> bool" where
  "encoding ppe bs \<longleftrightarrow>
     (let buf = ppe_buf ppe in
      b_pos buf = 0 \<and> b_last buf = length bs \<and> take (length bs) (b_mem buf) = bs \<and>
      length bs + ctx_aead_overhead (ppe_ctx ppe) \<le> length (b_mem buf))"

definition hd_bytes :: "ngtcp2_pkt_hd \<Rightarrow> bytes" where
  "hd_bytes h =
     (if hd_flags h AND NGTCP2_PKT_FLAG_LONG_FORM \<noteq> 0 then hd_long_bytes h
      else hd_short_bytes h (the (short_pkt_num_len (hd_type h))))"

definition hd_known :: "ngtcp2_pkt_hd \<Rightarrow> bool" where
  "hd_known h =
     (if hd_flags h AND NGTCP2_PKT_FLAG_LONG_FORM \<noteq> 0
      then hd_type h \<in> {NGTCP2_PKT_INITIAL, NGTCP2_PKT_RETRY, NGTCP2_PKT_HANDSHAKE, NGTCP2_PKT_0RTT_PROTECTED}
      else short_pkt_num_len (hd_type h) \<noteq> None)"

text \<open>The encoders append: one header, then frames, each refused exactly when it does not fit.\<close>

fun ppe_frames :: "ngtcp2_ppe \<Rightarrow> ngtcp2_frame list \<Rightarrow> ngtcp2_ppe res" where
  "ppe_frames ppe [] = Inr ppe"
| "ppe_frames ppe (fr # frs) = rbind (ngtcp2_ppe_encode_frame ppe fr) (\<lambda>(ppe, _). ppe_frames ppe frs)"

lemma encoding_append:
  assumes "encoding ppe bs" and "length bs + length new + ctx_aead_overhead (ppe_ctx ppe) \<le> length (b_mem (ppe_buf ppe))"
  shows "wr (b_mem (ppe_buf ppe), b_last (ppe_buf ppe)) new =
      Inr (bs @ new @ drop (length bs + length new) (b_mem (ppe_buf ppe)), length bs + length new)"
  using assms by (auto simp: encoding_def Let_def wr_def)

lemma encode_hd_ok:
  assumes "hd_known h" and "length (hd_bytes h) + ctx_aead_overhead cctx \<le> length out"
  shows "\<exists>ppe. ngtcp2_ppe_encode_hd (ngtcp2_ppe_init out cctx) h = Inr ppe \<and> encoding ppe (hd_bytes h) \<and>
    ppe_ctx ppe = cctx \<and> ppe_hdlen ppe = length (hd_bytes h) \<and> ppe_pkt_num ppe = hd_pkt_num h \<and>
    length (b_mem (ppe_buf ppe)) = length out"
proof (cases "hd_flags h AND NGTCP2_PKT_FLAG_LONG_FORM \<noteq> 0")
  case True
  then have "17 + ctx_aead_overhead cctx \<le> length out" using assms(2) by (simp add: hd_bytes_def)
  then show ?thesis using True
    by (auto simp: ngtcp2_ppe_encode_hd_def ngtcp2_ppe_init_def ngtcp2_buf_init_def ngtcp2_buf_left_def Let_def
        encode_hd_long_eq wr_def encoding_def hd_bytes_def)
next
  case False
  then obtain k where k: "short_pkt_num_len (hd_type h) = Some k" using assms(1) by (auto simp: hd_known_def)
  then show ?thesis using False assms(2)
    by (auto simp: ngtcp2_ppe_encode_hd_def ngtcp2_ppe_init_def ngtcp2_buf_init_def ngtcp2_buf_left_def Let_def
        encode_hd_short_eq [OF k] wr_def encoding_def hd_bytes_def)
qed

lemma encode_frame_ok:
  assumes "encoding ppe bs" and "wf_frame fr"
    and "length bs + length (frame_bytes fr) + ctx_aead_overhead (ppe_ctx ppe) \<le> length (b_mem (ppe_buf ppe))"
  shows "\<exists>ppe'. ngtcp2_ppe_encode_frame ppe fr = Inr (ppe', encoded_frame fr) \<and> encoding ppe' (bs @ frame_bytes fr) \<and>
    ppe_ctx ppe' = ppe_ctx ppe \<and> ppe_hdlen ppe' = ppe_hdlen ppe \<and> ppe_pkt_num ppe' = ppe_pkt_num ppe \<and>
    length (b_mem (ppe_buf ppe')) = length (b_mem (ppe_buf ppe))"
proof -
  have w: "wr_or_nobuf (b_mem (ppe_buf ppe), b_last (ppe_buf ppe))
      (ngtcp2_buf_left (ppe_buf ppe) - ctx_aead_overhead (ppe_ctx ppe)) (frame_bytes fr) =
      Inr (bs @ frame_bytes fr @ drop (length bs + length (frame_bytes fr)) (b_mem (ppe_buf ppe)),
        length bs + length (frame_bytes fr))"
    using encoding_append [OF assms(1,3)] assms(1,3) by (auto simp: wr_or_nobuf_def ngtcp2_buf_left_def encoding_def Let_def)
  show ?thesis
    using assms(1,3) w
    by (auto simp: ngtcp2_ppe_encode_frame_def Let_def encode_frame_eq [OF assms(2)] encoding_def ngtcp2_buf_left_def)
qed

lemma encode_frames_ok:
  assumes "encoding ppe bs" and "list_all wf_frame frs"
    and "length bs + length (concat (map frame_bytes frs)) + ctx_aead_overhead (ppe_ctx ppe) \<le> length (b_mem (ppe_buf ppe))"
  shows "\<exists>ppe'. ppe_frames ppe frs = Inr ppe' \<and> encoding ppe' (bs @ concat (map frame_bytes frs)) \<and>
    ppe_ctx ppe' = ppe_ctx ppe \<and> ppe_hdlen ppe' = ppe_hdlen ppe \<and> ppe_pkt_num ppe' = ppe_pkt_num ppe \<and>
    length (b_mem (ppe_buf ppe')) = length (b_mem (ppe_buf ppe))"
  using assms
proof (induction frs arbitrary: ppe bs)
  case (Cons fr frs)
  obtain ppe1 where p1: "ngtcp2_ppe_encode_frame ppe fr = Inr (ppe1, encoded_frame fr)" "encoding ppe1 (bs @ frame_bytes fr)"
      "ppe_ctx ppe1 = ppe_ctx ppe" "ppe_hdlen ppe1 = ppe_hdlen ppe" "ppe_pkt_num ppe1 = ppe_pkt_num ppe"
      "length (b_mem (ppe_buf ppe1)) = length (b_mem (ppe_buf ppe))"
    using encode_frame_ok [OF Cons.prems(1), of fr] Cons.prems(2,3) by auto
  from Cons.IH [OF p1(2)] show ?case using Cons.prems(2,3) p1 by auto
qed simp

section \<open>Sending and receiving a protected packet\<close>

text \<open>What the library relies on in the callbacks: decryption inverts encryption under the same key, nonce and data.\<close>

definition aead_ok :: "ngtcp2_encrypt \<Rightarrow> ngtcp2_decrypt \<Rightarrow> nat \<Rightarrow> bool" where
  "aead_ok enc dec overhead =
     (\<forall>text key nonce ad. \<exists>c. enc text key nonce ad = Some c \<and> length c = length text + overhead \<and>
        dec c key nonce ad = Inr text)"

text \<open>The header as the receiver sees it, with the truncated packet number.\<close>

definition hd_wire :: "ngtcp2_pkt_hd \<Rightarrow> ngtcp2_pkt_hd" where
  "hd_wire h =
     (if hd_flags h AND NGTCP2_PKT_FLAG_LONG_FORM \<noteq> 0
      then h\<lparr>hd_flags := NGTCP2_PKT_FLAG_LONG_FORM, hd_pkt_num := take_bit 32 (hd_pkt_num h)\<rparr>
      else \<lparr>hd_flags = short_flags h, hd_type = hd_type h,
            hd_conn_id = (if hd_flags h AND NGTCP2_PKT_FLAG_OMIT_CONN_ID = 0 then hd_conn_id h else 0),
            hd_pkt_num = take_bit (8 * the (short_pkt_num_len (hd_type h))) (hd_pkt_num h), hd_version = 0\<rparr>)"

text \<open>The sender: header, frames, encryption, as the packet writers of the connection compose them.\<close>

definition write_protected :: "bytes \<Rightarrow> ngtcp2_crypto_ctx \<Rightarrow> ngtcp2_pkt_hd \<Rightarrow> ngtcp2_frame list \<Rightarrow> bytes res" where
  "write_protected out cctx h frs =
     rbind (ngtcp2_ppe_encode_hd (ngtcp2_ppe_init out cctx) h) (\<lambda>ppe.
     rbind (ppe_frames ppe frs) (\<lambda>ppe.
     rbind (ngtcp2_ppe_final ppe) (\<lambda>(nwrite, ppe). Inr (take nwrite (b_mem (ppe_buf ppe))))))"

text \<open>The receiver, given the full packet number: header, decryption, frames.\<close>

definition read_protected ::
    "bytes \<Rightarrow> u64 \<Rightarrow> ngtcp2_crypto_km option \<Rightarrow> ngtcp2_decrypt \<Rightarrow> (ngtcp2_pkt_hd \<times> ngtcp2_frame list res option) res" where
  "read_protected pkt pkt_num ckm decrypt =
     rbind (ngtcp2_pkt_decode_hd pkt) (\<lambda>(h, n).
     rbind (conn_decrypt_pkt (length pkt - n) (drop n pkt) (take n pkt) pkt_num ckm decrypt) (\<lambda>payload.
     Inr (h, frame_loop ngtcp2_pkt_decode_frame (length payload) payload)))"

lemma final_ok:
  assumes e: "encoding ppe (ad @ text)" and hd: "ppe_hdlen ppe = length ad" and ckm: "ctx_ckm (ppe_ctx ppe) = Some ckm"
    and iv: "8 \<le> length (km_iv ckm)" "length (km_iv ckm) \<le> 32"
    and nonce: "ngtcp2_crypto_create_nonce (km_iv ckm) (ppe_pkt_num ppe) = Inr nonce"
    and enc: "ctx_encrypt (ppe_ctx ppe) text (km_key ckm) nonce ad = Some c"
    and len: "length c = length text + ctx_aead_overhead (ppe_ctx ppe)"
  shows "\<exists>ppe'. ngtcp2_ppe_final ppe = Inr (length ad + length c, ppe') \<and>
    take (length ad + length c) (b_mem (ppe_buf ppe')) = ad @ c"
proof -
  let ?m = "b_mem (ppe_buf ppe)"
  have b: "b_pos (ppe_buf ppe) = 0" "b_last (ppe_buf ppe) = length ad + length text"
      "take (length ad + length text) ?m = ad @ text" "length ad + length c \<le> length ?m"
    using e len by (simp_all add: encoding_def Let_def)
  have "take (length ad) (take (length ad + length text) ?m) = ad" by (simp add: b(3))
  then have ad: "take (length ad) ?m = ad" by simp
  have "drop (length ad) (take (length ad + length text) ?m) = text" by (simp add: b(3))
  then have pl: "take (length text) (drop (length ad) ?m) = text" by (simp add: drop_take)
  have r: "rdn ?m (length ad) (ngtcp2_buf_len (ppe_buf ppe) - ppe_hdlen ppe) = Inr text" "rdn ?m 0 (length ad) = Inr ad"
    using b len pl ad hd by (auto simp: rdn_def ngtcp2_buf_len_def)
  have w: "wr (?m, length ad) c = Inr (ad @ c @ drop (length ad + length c) ?m, length ad + length c)"
    using b(4) ad by (simp add: wr_def)
  show ?thesis
    using r w b ckm iv nonce enc hd by (simp add: ngtcp2_ppe_final_def Let_def ngtcp2_buf_len_def)
qed

lemma length_frames: "list_all wf_frame frs \<Longrightarrow> length frs \<le> length (concat (map frame_bytes frs))"
proof (induction frs)
  case (Cons fr frs)
  then have "1 \<le> length (frame_bytes fr)" using frame_bytes_nonempty [of fr] by (cases "frame_bytes fr") auto
  moreover have "length frs \<le> length (concat (map frame_bytes frs))" using Cons by simp
  ultimately have "Suc (length frs) \<le> length (frame_bytes fr) + length (concat (map frame_bytes frs))" by linarith
  then show ?case by simp
qed simp

lemma decode_hd_wire:
  assumes "hd_known h"
  shows "ngtcp2_pkt_decode_hd (hd_bytes h @ rest) = Inr (hd_wire h, length (hd_bytes h))"
proof (cases "hd_flags h AND NGTCP2_PKT_FLAG_LONG_FORM \<noteq> 0")
  case True
  have at: "holds_at (hd_long_bytes h @ rest) 0 (hd_long_bytes h)" by (rule holds_at_prefix)
  have rd: "rd (hd_long_bytes h @ rest) 0 = Inr (0x80 OR hd_type h)" by (simp add: hd_long_bytes_def)
  have ty: "hd_type h \<in> {NGTCP2_PKT_INITIAL, NGTCP2_PKT_RETRY, NGTCP2_PKT_HANDSHAKE, NGTCP2_PKT_0RTT_PROTECTED}"
    using assms True by (simp add: hd_known_def)
  have "(0x80 OR hd_type h) AND NGTCP2_HEADER_FORM_BIT \<noteq> 0" using ty by auto
  then show ?thesis
    using True rd decode_hd_long_at [OF at ty] by (simp add: ngtcp2_pkt_decode_hd_def hd_bytes_def hd_wire_def)
next
  case False
  then obtain k where k: "short_pkt_num_len (hd_type h) = Some k" using assms by (auto simp: hd_known_def)
  have at: "holds_at (hd_short_bytes h k @ rest) 0 (hd_short_bytes h k)" by (rule holds_at_prefix)
  have rd: "rd (hd_short_bytes h k @ rest) 0 = Inr (hd_short_first h)" by (simp add: hd_short_bytes_def)
  have "hd_short_bytes h k \<noteq> []" by (simp add: hd_short_bytes_def)
  then show ?thesis
    using False rd k decode_hd_short_at [OF at k] hd_short_first_bits [OF k]
    by (simp add: ngtcp2_pkt_decode_hd_def hd_bytes_def hd_wire_def)
qed

section \<open>Properties\<close>

text \<open>
  C39. A protected packet arrives as it was sent: for every known header and every list of well-formed frames that
  fits, with a key and an IV of 8 to 32 bytes and callbacks for which decryption inverts encryption, the encoder
  produces a packet whose header decodes to the one sent (up to the truncation of the packet number), which the
  receiver, using the same packet number, decrypts to the payload that was encoded and takes apart into the same
  frames. Header and payload are never mixed up, the nonce agrees on both sides, and no access leaves a buffer.
\<close>

theorem protected_packet_roundtrip:
  assumes "hd_known h" and "list_all wf_frame frs" and "no_adjacent_padding frs"
    and "length (hd_bytes h) + length (concat (map frame_bytes frs)) + overhead \<le> length out" and "length out < 2 ^ 63"
    and "aead_ok enc dec overhead" and "8 \<le> length (km_iv ckm)" and "length (km_iv ckm) \<le> 32"
  shows "\<exists>pkt. write_protected out \<lparr>ctx_ckm = Some ckm, ctx_aead_overhead = overhead, ctx_encrypt = enc\<rparr> h frs = Inr pkt \<and>
    length pkt \<le> length out \<and>
    read_protected pkt (hd_pkt_num h) (Some ckm) dec = Inr (hd_wire h, Some (Inr (map encoded_frame frs)))"
proof -
  let ?cctx = "\<lparr>ctx_ckm = Some ckm, ctx_aead_overhead = overhead, ctx_encrypt = enc\<rparr>"
  let ?pl = "concat (map frame_bytes frs)" let ?hd = "hd_bytes h"
  obtain p1 where p1: "ngtcp2_ppe_encode_hd (ngtcp2_ppe_init out ?cctx) h = Inr p1" "encoding p1 ?hd"
      "ppe_ctx p1 = ?cctx" "ppe_hdlen p1 = length ?hd" "ppe_pkt_num p1 = hd_pkt_num h"
      "length (b_mem (ppe_buf p1)) = length out"
    using encode_hd_ok [OF assms(1), of ?cctx out] assms(4) by auto
  obtain p2 where p2: "ppe_frames p1 frs = Inr p2" "encoding p2 (?hd @ ?pl)" "ppe_ctx p2 = ?cctx"
      "ppe_hdlen p2 = length ?hd" "ppe_pkt_num p2 = hd_pkt_num h"
    using encode_frames_ok [OF p1(2) assms(2)] p1 assms(4) by auto
  obtain nonce where nonce: "ngtcp2_crypto_create_nonce (km_iv ckm) (hd_pkt_num h) = Inr nonce"
    using create_nonce_eq [OF assms(7)] by blast
  obtain c where c: "enc ?pl (km_key ckm) nonce ?hd = Some c" "length c = length ?pl + overhead"
      "dec c (km_key ckm) nonce ?hd = Inr ?pl"
    using assms(6) unfolding aead_ok_def by blast
  obtain p3 where p3: "ngtcp2_ppe_final p2 = Inr (length ?hd + length c, p3)"
      "take (length ?hd + length c) (b_mem (ppe_buf p3)) = ?hd @ c"
    using final_ok [OF p2(2,4), of ckm nonce c] p2 assms(7,8) nonce c by auto
  have pkt: "write_protected out ?cctx h frs = Inr (?hd @ c)"
    using p1(1) p2(1) p3 by (simp add: write_protected_def)
  have "conn_decrypt_pkt (length c) c ?hd (hd_pkt_num h) (Some ckm) dec = Inr ?pl"
    using nonce c assms(8) by (simp add: conn_decrypt_pkt_def)
  moreover have "frame_loop ngtcp2_pkt_decode_frame (length ?pl) ?pl = Some (Inr (map encoded_frame frs))"
    using frames.loop_enc [OF assms(2) followed_no_adjacent_padding [OF assms(2,3)]] length_frames [OF assms(2)]
      assms(4,5) by simp
  ultimately have "read_protected (?hd @ c) (hd_pkt_num h) (Some ckm) dec = Inr (hd_wire h, Some (Inr (map encoded_frame frs)))"
    by (simp add: read_protected_def decode_hd_wire [OF assms(1)])
  then show ?thesis using pkt c(2) assms(4) by auto
qed

text \<open>An instance: a packet with a short header and two frames, under a cipher that appends a tag.\<close>

theorem protected_packet_roundtrip_witness:
  "\<exists>pkt. write_protected (replicate 64 0)
      \<lparr>ctx_ckm = Some \<lparr>km_key = [1], km_iv = replicate 12 5\<rparr>, ctx_aead_overhead = 16,
       ctx_encrypt = (\<lambda>text key nonce ad. Some (text @ replicate 16 0))\<rparr>
      \<lparr>hd_flags = 0, hd_type = 0x1f, hd_conn_id = 7, hd_pkt_num = 300, hd_version = 1\<rparr>
      [FrMaxData \<lparr>md_max_data = 300\<rparr>, FrPadding \<lparr>pad_len = 3\<rparr>] = Inr pkt \<and>
    length pkt \<le> length (replicate 64 (0 :: u8)) \<and>
    read_protected pkt (hd_pkt_num \<lparr>hd_flags = 0, hd_type = 0x1f, hd_conn_id = 7, hd_pkt_num = 300, hd_version = 1\<rparr>)
      (Some \<lparr>km_key = [1], km_iv = replicate 12 5\<rparr>) (\<lambda>c key nonce ad. Inr (take (length c - 16) c)) =
    Inr (hd_wire \<lparr>hd_flags = 0, hd_type = 0x1f, hd_conn_id = 7, hd_pkt_num = 300, hd_version = 1\<rparr>,
      Some (Inr (map encoded_frame [FrMaxData \<lparr>md_max_data = 300\<rparr>, FrPadding \<lparr>pad_len = 3\<rparr>])))"
  by (rule protected_packet_roundtrip)
    (simp_all add: hd_known_def hd_bytes_def hd_short_bytes_def short_pkt_num_len_def varint_len_eq aead_ok_def)

end
