(* ===== verification/Err.thy ===== *)
theory Err
  imports Prelude
begin

text \<open>
  \<^verbatim>\<open>lib/ngtcp2_err.c\<close>: the numeric values of the error codes, their names, the classification as fatal,
  and the transport error code that a connection is closed with. \<open>err_code\<close> is the enumeration
  \<^verbatim>\<open>ngtcp2_lib_error\<close>; \<open>rv_code\<close> the \<^verbatim>\<open>int\<close> of a return value.
\<close>

section \<open>Codes\<close>

primrec err_code :: "lib_error \<Rightarrow> int" where
  "err_code NGTCP2_ERR_INVALID_ARGUMENT = - 201"
| "err_code NGTCP2_ERR_UNKNOWN_PKT_TYPE = - 202"
| "err_code NGTCP2_ERR_NOBUF = - 203"
| "err_code NGTCP2_ERR_BAD_PKT_HASH = - 204"
| "err_code NGTCP2_ERR_PROTO = - 205"
| "err_code NGTCP2_ERR_INVALID_STATE = - 206"
| "err_code NGTCP2_ERR_ACK_FRAME = - 207"
| "err_code NGTCP2_ERR_STREAM_ID_BLOCKED = - 208"
| "err_code NGTCP2_ERR_STREAM_IN_USE = - 209"
| "err_code NGTCP2_ERR_STREAM_DATA_BLOCKED = - 210"
| "err_code NGTCP2_ERR_FLOW_CONTROL = - 211"
| "err_code NGTCP2_ERR_PKT_TIMEOUT = - 212"
| "err_code NGTCP2_ERR_STREAM_ID = - 213"
| "err_code NGTCP2_ERR_FINAL_OFFSET = - 214"
| "err_code NGTCP2_ERR_TLS_HANDSHAKE = - 215"
| "err_code NGTCP2_ERR_PKT_NUM_EXHAUSTED = - 216"
| "err_code NGTCP2_ERR_REQUIRED_TRANSPORT_PARAM = - 217"
| "err_code NGTCP2_ERR_MALFORMED_TRANSPORT_PARAM = - 218"
| "err_code NGTCP2_ERR_FRAME_FORMAT = - 219"
| "err_code NGTCP2_ERR_TLS_DECRYPT = - 220"
| "err_code NGTCP2_ERR_STREAM_SHUT_WR = - 221"
| "err_code NGTCP2_ERR_STREAM_NOT_FOUND = - 222"
| "err_code NGTCP2_ERR_VERSION_NEGOTIATION = - 223"
| "err_code NGTCP2_ERR_TLS_FATAL_ALERT_GENERATED = - 224"
| "err_code NGTCP2_ERR_TLS_FATAL_ALERT_RECEIVED = - 225"
| "err_code NGTCP2_ERR_STREAM_STATE = - 226"
| "err_code NGTCP2_ERR_NOKEY = - 227"
| "err_code NGTCP2_ERR_EARLY_DATA_REJECTED = - 228"
| "err_code NGTCP2_ERR_FATAL = - 500"
| "err_code NGTCP2_ERR_NOMEM = - 501"
| "err_code NGTCP2_ERR_CALLBACK_FAILURE = - 502"
| "err_code NGTCP2_ERR_INTERNAL = - 503"

definition rv_code :: "rv \<Rightarrow> int" where
  "rv_code rv = (case rv of None \<Rightarrow> 0 | Some e \<Rightarrow> err_code e)"

definition ngtcp2_strerror :: "int \<Rightarrow> string" where
  "ngtcp2_strerror liberr =
     (if liberr = 0 then ''NO_ERROR''
      else if liberr = err_code NGTCP2_ERR_INVALID_ARGUMENT then ''ERR_INVALID_ARGUMENT''
      else if liberr = err_code NGTCP2_ERR_UNKNOWN_PKT_TYPE then ''ERR_UNKNOWN_PKT_TYPE''
      else if liberr = err_code NGTCP2_ERR_NOBUF then ''ERR_NOBUF''
      else if liberr = err_code NGTCP2_ERR_BAD_PKT_HASH then ''ERR_BAD_PKT_HASH''
      else if liberr = err_code NGTCP2_ERR_PROTO then ''ERR_PROTO''
      else if liberr = err_code NGTCP2_ERR_INVALID_STATE then ''ERR_INVALID_STATE''
      else if liberr = err_code NGTCP2_ERR_ACK_FRAME then ''ERR_ACK_FRAME''
      else if liberr = err_code NGTCP2_ERR_STREAM_ID_BLOCKED then ''ERR_STREAM_ID_BLOCKED''
      else if liberr = err_code NGTCP2_ERR_STREAM_IN_USE then ''ERR_STREAM_IN_USE''
      else if liberr = err_code NGTCP2_ERR_STREAM_DATA_BLOCKED then ''ERR_STREAM_DATA_BLOCKED''
      else if liberr = err_code NGTCP2_ERR_FLOW_CONTROL then ''ERR_FLOW_CONTROL''
      else if liberr = err_code NGTCP2_ERR_PKT_TIMEOUT then ''ERR_PKT_TIMEOUT''
      else if liberr = err_code NGTCP2_ERR_STREAM_ID then ''ERR_STREAM_ID''
      else if liberr = err_code NGTCP2_ERR_FINAL_OFFSET then ''ERR_FINAL_OFFSET''
      else if liberr = err_code NGTCP2_ERR_PKT_NUM_EXHAUSTED then ''ERR_PKT_NUM_EXHAUSTED''
      else if liberr = err_code NGTCP2_ERR_NOMEM then ''ERR_NOMEM''
      else if liberr = err_code NGTCP2_ERR_TLS_HANDSHAKE then ''ERR_TLS_HANDSHAKE''
      else if liberr = err_code NGTCP2_ERR_REQUIRED_TRANSPORT_PARAM then ''ERR_REQUIRED_TRANSPORT_PARAM''
      else if liberr = err_code NGTCP2_ERR_MALFORMED_TRANSPORT_PARAM then ''ERR_MALFORMED_TRANSPORT_PARAM''
      else if liberr = err_code NGTCP2_ERR_FRAME_FORMAT then ''ERR_FRAME_FORMAT''
      else if liberr = err_code NGTCP2_ERR_TLS_DECRYPT then ''ERR_TLS_DECRYPT''
      else if liberr = err_code NGTCP2_ERR_STREAM_SHUT_WR then ''ERR_STREAM_SHUT_WR''
      else if liberr = err_code NGTCP2_ERR_STREAM_NOT_FOUND then ''ERR_STREAM_NOT_FOUND''
      else if liberr = err_code NGTCP2_ERR_VERSION_NEGOTIATION then ''ERR_VERSION_NEGOTIATION''
      else if liberr = err_code NGTCP2_ERR_TLS_FATAL_ALERT_GENERATED then ''ERR_TLS_FATAL_ALERT_GENERATED''
      else if liberr = err_code NGTCP2_ERR_TLS_FATAL_ALERT_RECEIVED then ''ERR_TLS_FATAL_ALERT_RECEIVED''
      else if liberr = err_code NGTCP2_ERR_STREAM_STATE then ''ERR_STREAM_STATE''
      else if liberr = err_code NGTCP2_ERR_NOKEY then ''ERR_NOKEY''
      else if liberr = err_code NGTCP2_ERR_EARLY_DATA_REJECTED then ''ERR_EARLY_DATA_REJECTED''
      else if liberr = err_code NGTCP2_ERR_CALLBACK_FAILURE then ''ERR_CALLBACK_FAILURE''
      else if liberr = err_code NGTCP2_ERR_INTERNAL then ''ERR_INTERNAL''
      else ''UNKNOWN'')"

definition ngtcp2_err_fatal :: "int \<Rightarrow> bool" where
  "ngtcp2_err_fatal liberr = (liberr \<ge> err_code NGTCP2_ERR_FATAL)"

abbreviation NGTCP2_NO_ERROR :: u16 where "NGTCP2_NO_ERROR \<equiv> 0"
abbreviation NGTCP2_INTERNAL_ERROR :: u16 where "NGTCP2_INTERNAL_ERROR \<equiv> 1"
abbreviation NGTCP2_FLOW_CONTROL_ERROR :: u16 where "NGTCP2_FLOW_CONTROL_ERROR \<equiv> 3"
abbreviation NGTCP2_STREAM_ID_ERROR :: u16 where "NGTCP2_STREAM_ID_ERROR \<equiv> 4"
abbreviation NGTCP2_STREAM_STATE_ERROR :: u16 where "NGTCP2_STREAM_STATE_ERROR \<equiv> 5"
abbreviation NGTCP2_FINAL_OFFSET_ERROR :: u16 where "NGTCP2_FINAL_OFFSET_ERROR \<equiv> 6"
abbreviation NGTCP2_FRAME_FORMAT_ERROR :: u16 where "NGTCP2_FRAME_FORMAT_ERROR \<equiv> 7"
abbreviation NGTCP2_TRANSPORT_PARAMETER_ERROR :: u16 where "NGTCP2_TRANSPORT_PARAMETER_ERROR \<equiv> 8"
abbreviation NGTCP2_VERSION_NEGOTIATION_ERROR :: u16 where "NGTCP2_VERSION_NEGOTIATION_ERROR \<equiv> 9"
abbreviation NGTCP2_PROTOCOL_VIOLATION :: u16 where "NGTCP2_PROTOCOL_VIOLATION \<equiv> 0xa"
abbreviation NGTCP2_TLS_HANDSHAKE_FAILED :: u16 where "NGTCP2_TLS_HANDSHAKE_FAILED \<equiv> 0x201"
abbreviation NGTCP2_TLS_FATAL_ALERT_GENERATED :: u16 where "NGTCP2_TLS_FATAL_ALERT_GENERATED \<equiv> 0x202"
abbreviation NGTCP2_TLS_FATAL_ALERT_RECEIVED :: u16 where "NGTCP2_TLS_FATAL_ALERT_RECEIVED \<equiv> 0x203"

definition ngtcp2_err_infer_quic_transport_error_code :: "int \<Rightarrow> u16" where
  "ngtcp2_err_infer_quic_transport_error_code liberr =
     (if liberr = 0 then NGTCP2_NO_ERROR
      else if liberr = err_code NGTCP2_ERR_ACK_FRAME \<or> liberr = err_code NGTCP2_ERR_FRAME_FORMAT
        then NGTCP2_FRAME_FORMAT_ERROR
      else if liberr = err_code NGTCP2_ERR_FLOW_CONTROL then NGTCP2_FLOW_CONTROL_ERROR
      else if liberr = err_code NGTCP2_ERR_STREAM_ID then NGTCP2_STREAM_ID_ERROR
      else if liberr = err_code NGTCP2_ERR_FINAL_OFFSET then NGTCP2_FINAL_OFFSET_ERROR
      else if liberr = err_code NGTCP2_ERR_REQUIRED_TRANSPORT_PARAM then NGTCP2_TRANSPORT_PARAMETER_ERROR
      else if liberr = err_code NGTCP2_ERR_INVALID_ARGUMENT then NGTCP2_INTERNAL_ERROR
      else if liberr = err_code NGTCP2_ERR_TLS_HANDSHAKE then NGTCP2_TLS_HANDSHAKE_FAILED
      else if liberr = err_code NGTCP2_ERR_TLS_FATAL_ALERT_GENERATED then NGTCP2_TLS_FATAL_ALERT_GENERATED
      else if liberr = err_code NGTCP2_ERR_TLS_FATAL_ALERT_RECEIVED then NGTCP2_TLS_FATAL_ALERT_RECEIVED
      else if liberr = err_code NGTCP2_ERR_STREAM_STATE then NGTCP2_STREAM_STATE_ERROR
      else if liberr = err_code NGTCP2_ERR_VERSION_NEGOTIATION then NGTCP2_VERSION_NEGOTIATION_ERROR
      else NGTCP2_PROTOCOL_VIOLATION)"

section \<open>Facts\<close>

lemma err_code_neg: "err_code e < 0"
  by (cases e) simp_all

lemma err_code_inject [simp]: "err_code e = err_code e' \<longleftrightarrow> e = e'"
  by (cases e; cases e'; simp)

lemma rv_code_eq_0 [simp]: "rv_code rv = 0 \<longleftrightarrow> rv = None"
  using err_code_neg by (cases rv) (auto simp: rv_code_def dest: less_imp_neq)

text \<open>
  The names are told apart: distinct codes have distinct names, apart from \<^verbatim>\<open>NGTCP2_ERR_FATAL\<close>, which is a
  bound and no error of its own.
\<close>

lemma strerror_fatal: "ngtcp2_strerror (err_code NGTCP2_ERR_FATAL) = ''UNKNOWN''"
  by (simp add: ngtcp2_strerror_def)

text \<open>
  The comparison in \<^verbatim>\<open>ngtcp2_err_fatal\<close> is the wrong way round: the codes below \<^verbatim>\<open>NGTCP2_ERR_FATAL\<close> are the
  fatal ones, and exactly they are reported as not fatal.
\<close>

lemma err_fatal_inverted:
  "ngtcp2_err_fatal (err_code e) \<longleftrightarrow>
     e \<notin> {NGTCP2_ERR_NOMEM, NGTCP2_ERR_CALLBACK_FAILURE, NGTCP2_ERR_INTERNAL}"
  by (cases e) (simp_all add: ngtcp2_err_fatal_def)

lemma err_fatal_success: "ngtcp2_err_fatal (rv_code None)"
  by (simp add: ngtcp2_err_fatal_def rv_code_def)

end
