(* ===== verification/Strm.thy ===== *)
theory Strm
  imports Rob Hash_Map Ppe Err
begin

text \<open>
  \<^verbatim>\<open>lib/ngtcp2_strm.c\<close>: a stream. Its links \<^verbatim>\<open>fc_pprev\<close> and \<^verbatim>\<open>fc_next\<close> in the list of streams with a pending
  MAX_STREAM_DATA are positions in the list \<open>c_fc_strms\<close> of the connection; \<^verbatim>\<open>stream_user_data\<close> is only passed
  through to the application.
\<close>

abbreviation NGTCP2_STRM_FLAG_NONE :: u32 where "NGTCP2_STRM_FLAG_NONE \<equiv> 0"
abbreviation NGTCP2_STRM_FLAG_SHUT_RD :: u32 where "NGTCP2_STRM_FLAG_SHUT_RD \<equiv> 0x01"
abbreviation NGTCP2_STRM_FLAG_SHUT_WR :: u32 where "NGTCP2_STRM_FLAG_SHUT_WR \<equiv> 0x02"
abbreviation NGTCP2_STRM_FLAG_SHUT_RDWR :: u32 where "NGTCP2_STRM_FLAG_SHUT_RDWR \<equiv> 0x03"
abbreviation NGTCP2_STRM_FLAG_SENT_RST :: u32 where "NGTCP2_STRM_FLAG_SENT_RST \<equiv> 0x04"
abbreviation NGTCP2_STRM_FLAG_RECV_RST :: u32 where "NGTCP2_STRM_FLAG_RECV_RST \<equiv> 0x08"
abbreviation NGTCP2_STRM_FLAG_STOP_SENDING :: u32 where "NGTCP2_STRM_FLAG_STOP_SENDING \<equiv> 0x10"

record ngtcp2_strm =
  s_tx_offset :: u64
  s_acked_tx_offset :: ngtcp2_gaptr
  s_max_tx_offset :: u64
  s_last_rx_offset :: u64
  s_rob :: ngtcp2_rob
  s_max_rx_offset :: u64
  s_unsent_max_rx_offset :: u64
  s_tx_buf :: ngtcp2_buf
  s_stream_id :: u64
  s_flags :: u32
  s_app_error_code :: u16

definition ngtcp2_strm_init :: "mem \<Rightarrow> u64 \<Rightarrow> u32 \<Rightarrow> u64 \<Rightarrow> u64 \<Rightarrow> lib_error + ngtcp2_strm \<times> mem" where
  "ngtcp2_strm_init m stream_id flags max_rx_offset max_tx_offset =
     (case ngtcp2_gaptr_init m of
        Inl e \<Rightarrow> Inl e
      | Inr (acked, m) \<Rightarrow>
          (case ngtcp2_rob_init m (8 * 1024) of
             Inl e \<Rightarrow> Inl e
           | Inr (rob, m) \<Rightarrow>
               Inr (\<lparr>s_tx_offset = 0, s_acked_tx_offset = acked, s_max_tx_offset = max_tx_offset, s_last_rx_offset = 0,
                     s_rob = rob, s_max_rx_offset = max_rx_offset, s_unsent_max_rx_offset = max_rx_offset,
                     s_tx_buf = ngtcp2_buf_init [], s_stream_id = stream_id, s_flags = flags,
                     s_app_error_code = 0\<rparr>, m)))"

definition ngtcp2_strm_rx_offset :: "ngtcp2_strm \<Rightarrow> u64" where
  "ngtcp2_strm_rx_offset strm = ngtcp2_rob_first_gap_offset (s_rob strm)"

definition ngtcp2_strm_recv_reordering :: "mem \<Rightarrow> ngtcp2_strm \<Rightarrow> ngtcp2_stream \<Rightarrow> (rv \<times> ngtcp2_strm \<times> mem) res" where
  "ngtcp2_strm_recv_reordering m strm fr =
     rbind (rdn (st_data fr) 0 (st_datalen fr)) (\<lambda>data.
     rbind (ngtcp2_rob_push m (s_rob strm) (st_offset fr) data) (\<lambda>(rv, rob, m). Inr (rv, strm\<lparr>s_rob := rob\<rparr>, m)))"

definition ngtcp2_strm_shutdown :: "ngtcp2_strm \<Rightarrow> u32 \<Rightarrow> ngtcp2_strm" where
  "ngtcp2_strm_shutdown strm flags = strm\<lparr>s_flags := s_flags strm OR (flags AND NGTCP2_STRM_FLAG_SHUT_RDWR)\<rparr>"

definition strm_has :: "ngtcp2_strm \<Rightarrow> u32 \<Rightarrow> bool" where
  "strm_has strm f = (s_flags strm AND f \<noteq> 0)"

text \<open>
  A stream is embedded in its map entry: storing to the object with key \<open>k\<close> through a pointer changes the table
  in place.
\<close>

definition map_store :: "'a ngtcp2_map \<Rightarrow> u64 \<Rightarrow> 'a \<Rightarrow> 'a ngtcp2_map" where
  "map_store mp k x = mp\<lparr>table := map (map (\<lambda>e. if key e = k then e\<lparr>obj := x\<rparr> else e)) (table mp)\<rparr>"

lemma key_store [simp]: "key (if key e = k then e\<lparr>obj := x\<rparr> else e) = key e"
  by simp

lemma table_wf_store:
  "table_wf len tbl \<Longrightarrow> table_wf len (map (map (\<lambda>e. if key e = k then e\<lparr>obj := x\<rparr> else e)) tbl)"
  by (auto simp: table_wf_def o_def)

lemma find_store:
  "List.find (\<lambda>e. key e = j) (map (\<lambda>e. if key e = k then e\<lparr>obj := x\<rparr> else e) es) =
   map_option (\<lambda>e. if key e = k then e\<lparr>obj := x\<rparr> else e) (List.find (\<lambda>e. key e = j) es)"
  by (induction es) auto

lemma map_wf_store [simp]: "map_wf mp \<Longrightarrow> map_wf (map_store mp k x)"
  using table_wf_store [of "tablelen mp" "table mp" k x]
  by (simp add: map_wf_def map_store_def map_concat [symmetric])

lemma map_abs_store:
  "map_abs (map_store mp k x) j = map_option (\<lambda>e. if key e = k then e\<lparr>obj := x\<rparr> else e) (map_abs mp j)"
  by (simp add: map_abs_def map_store_def map_concat [symmetric] find_store)

lemma map_abs_key: "map_abs mp j = Some e \<Longrightarrow> key e = j"
  by (auto simp: map_abs_def find_Some_iff)

end
