(* ===== verification/Idtr.thy ===== *)
theory Idtr
  imports Gaptr
begin

text \<open>
  \<^verbatim>\<open>lib/ngtcp2_idtr.c\<close>: which stream IDs of one kind have been used. A stream ID is mapped to a
  dense id space by dropping its two type bits; the ids not used yet are kept as a list of gaps.

  The list differs from that of the gap tracker in one point: when the last id of a gap is
  opened, an empty gap stays in the list. The invariant \<open>idtr_wf\<close> therefore allows empty gaps.
\<close>

section \<open>Operations\<close>

record ngtcp2_idtr =
  idgap :: "ngtcp2_range list"
  server :: bool

definition ngtcp2_idtr_gap_new :: "mem \<Rightarrow> u64 \<Rightarrow> u64 \<Rightarrow> ngtcp2_range option \<times> mem" where
  "ngtcp2_idtr_gap_new m b e =
     (case malloc m of (ok, m') \<Rightarrow> (if ok then Some (ngtcp2_range_init b e) else None, m'))"

definition ngtcp2_idtr_init :: "mem \<Rightarrow> bool \<Rightarrow> lib_error + ngtcp2_idtr \<times> mem" where
  "ngtcp2_idtr_init m srv =
     (case ngtcp2_idtr_gap_new m 0 UINT64_MAX of
        (None, m') \<Rightarrow> Inl NGTCP2_ERR_NOMEM
      | (Some g, m') \<Rightarrow> Inr (\<lparr>idgap = [g], server = srv\<rparr>, m'))"

definition id_from_stream_id :: "u64 \<Rightarrow> u64" where
  "id_from_stream_id stream_id = drop_bit 2 stream_id"

text \<open>The assertion both operations start with, with the precedence it has in the source.\<close>

definition idtr_assert :: "ngtcp2_idtr \<Rightarrow> u64 \<Rightarrow> bool" where
  "idtr_assert t stream_id =
     ((server t \<and> stream_id mod 2 \<noteq> 0) \<or> ((\<not> server t \<and> stream_id mod 2 \<noteq> 0) = False))"

fun idtr_open_loop ::
    "mem \<Rightarrow> u64 \<Rightarrow> ngtcp2_range list \<Rightarrow> rv \<times> ngtcp2_range list \<times> mem" where
  "idtr_open_loop m q [] = (Some NGTCP2_ERR_STREAM_IN_USE, [], m)"
| "idtr_open_loop m q (g # gs) =
     (if q < r_begin g then (Some NGTCP2_ERR_STREAM_IN_USE, g # gs, m)
      else if r_end g \<le> q then push_cons g (idtr_open_loop m q gs)
      else if q = r_begin g then
        if ngtcp2_range_len g = 1 then (None, gs, m)
        else (None, g\<lparr>r_begin := r_begin g + 1\<rparr> # gs, m)
      else
        case ngtcp2_idtr_gap_new m (r_begin g) q of
          (None, m') \<Rightarrow> (Some NGTCP2_ERR_NOMEM, g # gs, m')
        | (Some ng, m') \<Rightarrow> (None, ng # g\<lparr>r_begin := q + 1\<rparr> # gs, m'))"

definition ngtcp2_idtr_open :: "mem \<Rightarrow> ngtcp2_idtr \<Rightarrow> u64 \<Rightarrow> (rv \<times> ngtcp2_idtr \<times> mem) res" where
  "ngtcp2_idtr_open m t stream_id =
     rassert (idtr_assert t stream_id)
       (case idtr_open_loop m (id_from_stream_id stream_id) (idgap t) of
          (rv, gs, m') \<Rightarrow> Inr (rv, t\<lparr>idgap := gs\<rparr>, m'))"

fun idtr_is_open_loop :: "u64 \<Rightarrow> ngtcp2_range list \<Rightarrow> rv" where
  "idtr_is_open_loop q [] = None"
| "idtr_is_open_loop q (g # gs) =
     (if q < r_begin g then Some NGTCP2_ERR_STREAM_IN_USE
      else if r_end g \<le> q then idtr_is_open_loop q gs
      else None)"

definition ngtcp2_idtr_is_open :: "ngtcp2_idtr \<Rightarrow> u64 \<Rightarrow> rv res" where
  "ngtcp2_idtr_is_open t stream_id =
     rassert (idtr_assert t stream_id)
       (Inr (idtr_is_open_loop (id_from_stream_id stream_id) (idgap t)))"

definition ngtcp2_idtr_first_gap :: "ngtcp2_idtr \<Rightarrow> u64" where
  "ngtcp2_idtr_first_gap t = (case idgap t of [] \<Rightarrow> UINT64_MAX | g # _ \<Rightarrow> r_begin g)"

section \<open>Invariant\<close>

definition idgaps_wf :: "ngtcp2_range list \<Rightarrow> bool" where
  "idgaps_wf gs = ((\<forall>g \<in> set gs. r_begin g \<le> r_end g) \<and> sorted_wrt gap_before gs)"

definition idtr_wf :: "ngtcp2_idtr \<Rightarrow> bool" where
  "idtr_wf t = (idgaps_wf (idgap t) \<and> (\<exists>g \<in> set (idgap t). r_end g = UINT64_MAX))"

lemma idgaps_wf_Cons:
  "idgaps_wf (g # gs) \<longleftrightarrow>
     r_begin g \<le> r_end g \<and> (\<forall>h \<in> set gs. r_end g < r_begin h) \<and> idgaps_wf gs"
  by (auto simp: idgaps_wf_def gap_before_def)

lemma idgaps_wf_tail_set:
  assumes "idgaps_wf (g # gs)" and "x \<in> gap_set gs"
  shows "r_end g < x"
proof -
  from assms(2) obtain h where h: "h \<in> set gs" "r_begin h \<le> x"
    by (auto simp: gap_set_def)
  with assms(1) have "r_end g < r_begin h" by (simp add: idgaps_wf_Cons)
  with h(2) show ?thesis by simp
qed

lemma id_from_stream_id_bound: "unat (id_from_stream_id s) < 2 ^ 62"
proof -
  have "unat s < 2 ^ 64" using unat_u64_bound [of s] by simp
  then show ?thesis
    by (simp add: id_from_stream_id_def drop_bit_eq_div unat_div)
qed

lemma word_Suc_props:
  fixes q e :: u64
  assumes "q < e"
  shows "q < q + 1" and "q + 1 \<le> e" and "x < q + 1 \<longleftrightarrow> x \<le> q" and "q + 1 \<le> x \<longleftrightarrow> q < x"
proof -
  have lt: "unat q + 1 < 2 ^ 64"
    using assms unat_u64_bound [of e] by (simp add: word_less_nat_alt)
  then have S: "unat (q + 1) = unat q + 1"
    by (simp add: unat_word_ariths)
  show "q < q + 1" "q + 1 \<le> e" "x < q + 1 \<longleftrightarrow> x \<le> q" "q + 1 \<le> x \<longleftrightarrow> q < x"
    using assms S by (auto simp: word_less_nat_alt word_le_nat_alt)
qed

lemma range_set_step:
  assumes "q < r_end g"
  shows "range_set (g\<lparr>r_begin := q + 1\<rparr>) = {x. q < x \<and> x < r_end g}"
  by (rule set_eqI) (simp add: word_Suc_props(4) [OF assms])

lemma range_set_single:
  assumes "q < r_end g" and "r_begin g = q" and "r_end g = q + 1"
  shows "range_set g = {q}"
proof (rule set_eqI)
  fix x
  have "x \<in> range_set g \<longleftrightarrow> q \<le> x \<and> x \<le> q"
    using assms(2) word_Suc_props(3) [OF assms(1), of x] assms(3) by simp
  then show "x \<in> range_set g \<longleftrightarrow> x \<in> {q}" by auto
qed

section \<open>Correctness of the loops\<close>

lemma idtr_open_loop_used:
  "idgaps_wf gs \<Longrightarrow> q \<notin> gap_set gs \<Longrightarrow>
   idtr_open_loop m q gs = (Some NGTCP2_ERR_STREAM_IN_USE, gs, m)"
  by (induction gs) (auto simp: idgaps_wf_Cons)

lemma idtr_new_mem_ok [simp]:
  "mem_ok m \<Longrightarrow> ngtcp2_idtr_gap_new m b e = (Some (ngtcp2_range_init b e), m)"
  by (simp add: ngtcp2_idtr_gap_new_def malloc_mem_ok)

lemma idtr_open_loop_free:
  assumes "mem_ok m" and "unat q < 2 ^ 62"
  shows "idgaps_wf gs \<Longrightarrow> q \<in> gap_set gs \<Longrightarrow>
     \<exists>gs'. idtr_open_loop m q gs = (None, gs', m) \<and> idgaps_wf gs' \<and> gap_set gs' = gap_set gs - {q} \<and>
       (\<forall>h \<in> set gs'. \<exists>g \<in> set gs. r_begin g \<le> r_begin h) \<and>
       ((\<exists>g \<in> set gs. r_end g = UINT64_MAX) \<longrightarrow> (\<exists>g \<in> set gs'. r_end g = UINT64_MAX))"
proof (induction gs)
  case Nil
  then show ?case by simp
next
  case (Cons g gs)
  have wf: "idgaps_wf gs" "r_begin g \<le> r_end g" "\<forall>h \<in> set gs. r_end g < r_begin h"
    using Cons.prems(1) by (simp_all add: idgaps_wf_Cons)
  note tail = idgaps_wf_tail_set [OF Cons.prems(1)]
  show ?case
  proof (cases "q \<in> range_set g")
    case False
    with Cons.prems(2) have q: "q \<in> gap_set gs" by auto
    then have lt: "r_end g < q" by (rule tail)
    from Cons.IH [OF wf(1) q] obtain gs' where IH:
      "idtr_open_loop m q gs = (None, gs', m)" "idgaps_wf gs'" "gap_set gs' = gap_set gs - {q}"
      "\<forall>h \<in> set gs'. \<exists>g \<in> set gs. r_begin g \<le> r_begin h"
      "(\<exists>g \<in> set gs. r_end g = UINT64_MAX) \<longrightarrow> (\<exists>g \<in> set gs'. r_end g = UINT64_MAX)"
      by blast
    have "\<forall>h \<in> set gs'. r_end g < r_begin h"
      using IH(4) wf(3) by fastforce
    then have "idgaps_wf (g # gs')" using IH(2) wf(2) by (simp add: idgaps_wf_Cons)
    moreover have "idtr_open_loop m q (g # gs) = (None, g # gs', m)"
    proof -
      have "\<not> q < r_begin g" "r_end g \<le> q" using lt wf(2) by simp_all
      then show ?thesis using IH(1) by simp
    qed
    moreover have "gap_set (g # gs') = gap_set (g # gs) - {q}"
      using IH(3) False by (simp only: gap_set_simps) blast
    moreover have "\<forall>h \<in> set (g # gs'). \<exists>g \<in> set (g # gs). r_begin g \<le> r_begin h"
      using IH(4) by auto
    moreover have "(\<exists>h \<in> set (g # gs). r_end h = UINT64_MAX) \<longrightarrow>
        (\<exists>h \<in> set (g # gs'). r_end h = UINT64_MAX)"
      using IH(5) by auto
    ultimately show ?thesis by blast
  next
    case True
    then have q: "r_begin g \<le> q" "q < r_end g" by simp_all
    note S = word_Suc_props [OF q(2)]
    have ne: "q \<noteq> UINT64_MAX" using assms(2) by (auto simp: unat_UINT64_MAX)
    have nt: "q \<notin> gap_set gs" using tail [of q] q(2) by auto
    show ?thesis
    proof (cases "q = r_begin g")
      case b: True
      show ?thesis
      proof (cases "ngtcp2_range_len g = 1")
        case True
        then have e: "r_end g = q + 1" using b by (simp add: ngtcp2_range_len_def algebra_simps)
        have "r_end g \<noteq> UINT64_MAX"
          using assms(2) e by (auto simp: UINT64_MAX_def unat_word_ariths dest!: arg_cong [where f = unat])
        moreover have "gap_set gs = gap_set (g # gs) - {q}"
          using nt range_set_single [OF q(2) b [symmetric] e] by simp
        ultimately show ?thesis using True b q wf by auto
      next
        case False
        have "range_set (g\<lparr>r_begin := q + 1\<rparr>) = range_set g - {q}"
          unfolding range_set_step [OF q(2)] by (auto simp: b order_less_le)
        then have "gap_set (g\<lparr>r_begin := r_begin g + 1\<rparr> # gs) = gap_set (g # gs) - {q}"
          using nt b by auto
        moreover have "idgaps_wf (g\<lparr>r_begin := r_begin g + 1\<rparr> # gs)"
          using wf S(2) b by (simp add: idgaps_wf_Cons)
        moreover have "r_begin g \<le> r_begin g + 1" using S(1) b by simp
        ultimately show ?thesis using False b q by auto
      qed
    next
      case False
      let ?gs = "ngtcp2_range_init (r_begin g) q # g\<lparr>r_begin := q + 1\<rparr> # gs"
      have "idgaps_wf ?gs" using wf q S(1,2) by (auto simp: idgaps_wf_Cons ngtcp2_range_init_def)
      moreover have "gap_set ?gs = gap_set (g # gs) - {q}"
        using nt q unfolding gap_set_simps range_set_step [OF q(2)]
        by (auto simp: ngtcp2_range_init_def)
      moreover have "idtr_open_loop m q (g # gs) = (None, ?gs, m)"
      proof -
        have "\<not> q < r_begin g" "\<not> r_end g \<le> q" using q by simp_all
        then show ?thesis using False assms(1) by simp
      qed
      moreover have "r_begin g \<le> q + 1" using q S(1) by simp
      ultimately show ?thesis by (auto simp: ngtcp2_range_init_def)
    qed
  qed
qed

lemma idtr_is_open_loop_eq:
  assumes "\<exists>g \<in> set gs. q < r_end g" and "idgaps_wf gs"
  shows "idtr_is_open_loop q gs =
    (if q \<in> gap_set gs then None else Some NGTCP2_ERR_STREAM_IN_USE)"
  using assms
proof (induction gs)
  case Nil
  then show ?case by simp
next
  case (Cons g gs)
  then have "r_end g \<le> q \<Longrightarrow> \<exists>h \<in> set gs. q < r_end h" by auto
  then show ?case
    using Cons idgaps_wf_tail_set [OF Cons.prems(2), of q] by (auto simp: idgaps_wf_Cons)
qed

lemma idtr_init_wf:
  "ngtcp2_idtr_init m srv = Inr (t, m') \<Longrightarrow>
   idtr_wf t \<and> gap_set (idgap t) = {0 ..< UINT64_MAX} \<and> server t = srv"
  by (auto simp: ngtcp2_idtr_init_def ngtcp2_idtr_gap_new_def idtr_wf_def idgaps_wf_Cons
      idgaps_wf_def ngtcp2_range_init_def range_set_def split: prod.splits if_splits)

lemma idtr_open_correct_aux:
  assumes "mem_ok m" and "idtr_wf t" and "idtr_assert t sid"
  shows "\<exists>t'. idtr_wf t' \<and> server t' = server t \<and>
     (if id_from_stream_id sid \<in> gap_set (idgap t)
      then ngtcp2_idtr_open m t sid = Inr (None, t', m) \<and>
           gap_set (idgap t') = gap_set (idgap t) - {id_from_stream_id sid}
      else ngtcp2_idtr_open m t sid = Inr (Some NGTCP2_ERR_STREAM_IN_USE, t', m) \<and> t' = t)"
proof (cases "id_from_stream_id sid \<in> gap_set (idgap t)")
  case True
  with assms idtr_open_loop_free [OF assms(1) id_from_stream_id_bound, of "idgap t" sid]
  obtain gs' where gs':
    "idtr_open_loop m (id_from_stream_id sid) (idgap t) = (None, gs', m)"
    "idgaps_wf gs'" "gap_set gs' = gap_set (idgap t) - {id_from_stream_id sid}"
    "\<exists>g \<in> set gs'. r_end g = UINT64_MAX"
    by (auto simp: idtr_wf_def)
  then show ?thesis
    by (intro exI [of _ "t\<lparr>idgap := gs'\<rparr>"])
      (simp add: True assms(3) ngtcp2_idtr_open_def idtr_wf_def)
next
  case False
  with assms show ?thesis
    by (simp add: ngtcp2_idtr_open_def idtr_open_loop_used idtr_wf_def)
qed

text \<open>A sequence of opens.\<close>

definition idtr_opens :: "ngtcp2_idtr \<Rightarrow> u64 list \<Rightarrow> ngtcp2_idtr" where
  "idtr_opens = foldl (\<lambda>t sid. fst (snd (projr (ngtcp2_idtr_open (\<lambda>_. True) t sid))))"

section \<open>Properties\<close>

text \<open>
  C14. Opening a stream ID: if its id is unused the call returns 0 and marks exactly this id as used,
  otherwise it returns \<^verbatim>\<open>NGTCP2_ERR_STREAM_IN_USE\<close> and changes nothing. The invariant is kept.
\<close>

theorem idtr_open_correct:
  assumes "mem_ok m" and "idtr_wf t" and "idtr_assert t sid"
  shows "\<exists>t'. idtr_wf t' \<and> server t' = server t \<and>
     (if id_from_stream_id sid \<in> gap_set (idgap t)
      then ngtcp2_idtr_open m t sid = Inr (None, t', m) \<and>
           gap_set (idgap t') = gap_set (idgap t) - {id_from_stream_id sid}
      else ngtcp2_idtr_open m t sid = Inr (Some NGTCP2_ERR_STREAM_IN_USE, t', m) \<and> t' = t)"
  by (rule idtr_open_correct_aux [OF assms])

theorem idtr_open_correct_witness:
  "\<exists>t'. ngtcp2_idtr_open (\<lambda>_. True) \<lparr>idgap = [\<lparr>r_begin = 0, r_end = UINT64_MAX\<rparr>], server = False\<rparr> 8
          = Inr (None, t', \<lambda>_. True) \<and> idtr_wf t' \<and>
        gap_set (idgap t') = gap_set [\<lparr>r_begin = 0, r_end = UINT64_MAX\<rparr>] - {2}"
proof -
  let ?t = "\<lparr>idgap = [\<lparr>r_begin = 0, r_end = UINT64_MAX\<rparr>], server = False\<rparr>"
  have wf: "idtr_wf ?t" by (simp add: idtr_wf_def idgaps_wf_def)
  have a: "idtr_assert ?t 8" by (simp add: idtr_assert_def)
  have i: "id_from_stream_id 8 = 2" by (simp add: id_from_stream_id_def)
  have "(2 :: u64) \<in> gap_set (idgap ?t)" by (simp add: less_UINT64_MAX)
  with idtr_open_correct [OF mem_ok_True wf a] show ?thesis unfolding i by auto
qed

text \<open>
  C15. \<^verbatim>\<open>ngtcp2_idtr_is_open\<close> predicts \<^verbatim>\<open>ngtcp2_idtr_open\<close>: it returns 0 exactly when opening the same
  stream ID would succeed, although its loop has no error return behind the last gap.
\<close>

theorem idtr_is_open_predicts_open:
  assumes "mem_ok m" and "idtr_wf t" and "idtr_assert t sid"
  shows "ngtcp2_idtr_is_open t sid = Inr (fst (projr (ngtcp2_idtr_open m t sid)))"
proof -
  from assms(2) obtain g where g: "g \<in> set (idgap t)" "r_end g = UINT64_MAX"
    by (auto simp: idtr_wf_def)
  have "id_from_stream_id sid < UINT64_MAX"
    using id_from_stream_id_bound [of sid] by (simp add: less_UINT64_MAX)
  with g have "\<exists>g \<in> set (idgap t). id_from_stream_id sid < r_end g" by metis
  then have eq: "idtr_is_open_loop (id_from_stream_id sid) (idgap t) =
      (if id_from_stream_id sid \<in> gap_set (idgap t) then None else Some NGTCP2_ERR_STREAM_IN_USE)"
    using assms(2) by (intro idtr_is_open_loop_eq) (simp_all add: idtr_wf_def)
  show ?thesis
    using idtr_open_correct_aux [OF assms] eq assms(3)
    by (auto simp: ngtcp2_idtr_is_open_def)
qed

theorem idtr_is_open_predicts_open_witness:
  "ngtcp2_idtr_is_open \<lparr>idgap = [\<lparr>r_begin = 3, r_end = UINT64_MAX\<rparr>], server = True\<rparr> 5 =
   Inr (fst (projr (ngtcp2_idtr_open (\<lambda>_. True)
     \<lparr>idgap = [\<lparr>r_begin = 3, r_end = UINT64_MAX\<rparr>], server = True\<rparr> 5)))"
proof -
  let ?t = "\<lparr>idgap = [\<lparr>r_begin = 3, r_end = UINT64_MAX\<rparr>], server = True\<rparr>"
  have wf: "idtr_wf ?t" by (simp add: idtr_wf_def idgaps_wf_def)
  have "idtr_assert ?t 5" by (simp add: idtr_assert_def)
  with idtr_is_open_predicts_open [OF mem_ok_True wf] show ?thesis by blast
qed

text \<open>
  Opening the last id of a gap leaves an empty gap behind, and \<^verbatim>\<open>ngtcp2_idtr_first_gap\<close> reports it:
  after opening the ids 5, 4, 0, 1, 2, 3 it returns 5, an id that is in use, although the header
  promises the first unused id, which is 6.
\<close>

theorem idtr_first_gap_stale:
  "let t = idtr_opens \<lparr>idgap = [\<lparr>r_begin = 0, r_end = UINT64_MAX\<rparr>], server = False\<rparr>
             [20, 16, 0, 4, 8, 12]
   in ngtcp2_idtr_first_gap t = 5 \<and> 5 \<notin> gap_set (idgap t) \<and>
      ngtcp2_idtr_is_open t 20 = Inr (Some NGTCP2_ERR_STREAM_IN_USE) \<and>
      gap_set (idgap t) = {6 ..< UINT64_MAX}"
  by (simp add: idtr_opens_def ngtcp2_idtr_open_def idtr_assert_def id_from_stream_id_def
      ngtcp2_idtr_gap_new_def malloc_def ngtcp2_range_init_def ngtcp2_range_len_def
      ngtcp2_idtr_first_gap_def ngtcp2_idtr_is_open_def Let_def word_le_nat_alt word_less_nat_alt
      unat_UINT64_MAX range_set_def)

end
