(* ===== verification/Ringbuf.thy ===== *)
theory Ringbuf
  imports Prelude
begin

text \<open>
  \<^verbatim>\<open>lib/ngtcp2_ringbuf.c\<close>: the ring buffer in which the ACK tracker remembers the ACK frames it has
  sent. The memory is modelled as its \<^verbatim>\<open>nmemb\<close> elements, \<open>None\<close> where nothing has been stored yet; a
  pointer to an element is its position. The positions are 64-bit words and the masking of them is the
  code's.
\<close>

section \<open>State and operations\<close>

record 'a ngtcp2_ringbuf =
  rb_buf :: "'a option list"
  rb_nmemb :: u64
  rb_size :: u64
  rb_first :: u64
  rb_len :: nat

definition popcount :: "u32 \<Rightarrow> nat" where
  "popcount w = length (filter (bit w) [0 ..< 32])"

definition ngtcp2_ringbuf_init :: "mem \<Rightarrow> u64 \<Rightarrow> u64 \<Rightarrow> (rv \<times> 'a ngtcp2_ringbuf option \<times> mem) res" where
  "ngtcp2_ringbuf_init m nmemb sz =
     rassert (popcount (ucast nmemb) = 1)
       (let (ok, m) = malloc m in
        if \<not> ok then Inr (Some NGTCP2_ERR_NOMEM, None, m)
        else Inr (None, Some \<lparr>rb_buf = replicate (unat nmemb) None, rb_nmemb = nmemb, rb_size = sz,
                    rb_first = sz - 1, rb_len = 0\<rparr>, m))"

definition ngtcp2_ringbuf_push_front :: "'a ngtcp2_ringbuf \<Rightarrow> 'a ngtcp2_ringbuf \<times> nat" where
  "ngtcp2_ringbuf_push_front rb =
     (let rb = rb\<lparr>rb_first := (rb_first rb - 1) AND (rb_nmemb rb - 1),
                  rb_len := min (unat (rb_nmemb rb)) (rb_len rb + 1)\<rparr>
      in (rb, unat (rb_first rb)))"

definition ngtcp2_ringbuf_resize :: "'a ngtcp2_ringbuf \<Rightarrow> nat \<Rightarrow> 'a ngtcp2_ringbuf res" where
  "ngtcp2_ringbuf_resize rb len = rassert (len \<le> unat (rb_nmemb rb)) (Inr (rb\<lparr>rb_len := len\<rparr>))"

definition ngtcp2_ringbuf_get :: "'a ngtcp2_ringbuf \<Rightarrow> nat \<Rightarrow> nat res" where
  "ngtcp2_ringbuf_get rb offset =
     rassert (offset < rb_len rb) (Inr (unat ((rb_first rb + of_nat offset) AND (rb_nmemb rb - 1))))"

definition ngtcp2_ringbuf_len :: "'a ngtcp2_ringbuf \<Rightarrow> nat" where
  "ngtcp2_ringbuf_len rb = rb_len rb"

text \<open>Loads and stores through the pointers the operations return.\<close>

definition rb_load :: "'a ngtcp2_ringbuf \<Rightarrow> nat \<Rightarrow> 'a option res" where
  "rb_load rb p = (if p < length (rb_buf rb) then Inr (rb_buf rb ! p) else Inl OutOfBounds)"

definition rb_store :: "'a ngtcp2_ringbuf \<Rightarrow> nat \<Rightarrow> 'a \<Rightarrow> 'a ngtcp2_ringbuf res" where
  "rb_store rb p x =
     (if p < length (rb_buf rb) then Inr (rb\<lparr>rb_buf := (rb_buf rb)[p := Some x]\<rparr>) else Inl OutOfBounds)"

section \<open>The sequence a ring buffer holds\<close>

definition slot :: "'a ngtcp2_ringbuf \<Rightarrow> nat \<Rightarrow> nat" where
  "slot rb i = unat ((rb_first rb + of_nat i) AND (rb_nmemb rb - 1))"

definition rb_list :: "'a ngtcp2_ringbuf \<Rightarrow> 'a option list" where
  "rb_list rb = map (\<lambda>i. rb_buf rb ! slot rb i) [0 ..< rb_len rb]"

definition rb_wf :: "'a ngtcp2_ringbuf \<Rightarrow> bool" where
  "rb_wf rb = ((\<exists>k < 32. rb_nmemb rb = 2 ^ k) \<and> length (rb_buf rb) = unat (rb_nmemb rb) \<and>
     rb_len rb \<le> unat (rb_nmemb rb))"

lemma unat_pow2: "k < 32 \<Longrightarrow> unat (2 ^ k :: u64) = 2 ^ k"
proof -
  assume "k < 32"
  then have "(2 :: nat) ^ k < 2 ^ 64" by (intro power_strict_increasing) simp_all
  then show ?thesis using unat_of_nat64 [of "2 ^ k"] by simp
qed

lemma and_pow2: "(x :: u64) AND (2 ^ k - 1) = take_bit k x"
  by (simp add: take_bit_eq_mask mask_eq_exp_minus_1)

lemma slot_mod:
  assumes "rb_nmemb rb = 2 ^ k" and "k < 32"
  shows "slot rb i = (unat (rb_first rb) + i) mod 2 ^ k"
proof -
  have "slot rb i = take_bit k (unat (rb_first rb + of_nat i))"
    by (simp add: slot_def assms(1) and_pow2 unsigned_take_bit_eq)
  also have "\<dots> = take_bit k (take_bit 64 (unat (rb_first rb) + i))"
    by (simp add: unat_word_ariths(1) unat_of_nat take_bit_eq_mod mod_add_right_eq)
  also have "\<dots> = (unat (rb_first rb) + i) mod 2 ^ k"
    using assms(2) by (simp only: take_bit_take_bit) (simp add: take_bit_eq_mod)
  finally show ?thesis .
qed

lemma rb_wfE:
  assumes "rb_wf rb"
  obtains k where "k < 32" "rb_nmemb rb = 2 ^ k" "unat (rb_nmemb rb) = 2 ^ k" "length (rb_buf rb) = 2 ^ k"
    "rb_len rb \<le> 2 ^ k"
  using assms unat_pow2 by (auto simp: rb_wf_def)

lemma slot_less: "rb_wf rb \<Longrightarrow> slot rb i < length (rb_buf rb)"
  by (elim rb_wfE) (simp add: slot_mod)

lemma add_mod_inj:
  assumes "i < n" and "j < n" and "(a + i) mod n = (a + j) mod (n :: nat)"
  shows "i = j"
proof -
  have "i = j" if "i \<le> j" "i < n" "j < n" "(a + i) mod n = (a + j) mod n" for i j
  proof -
    have "n dvd (a + j) - (a + i)" using that mod_eq_dvd_iff_nat [of "a + i" "a + j" n] by simp
    then show ?thesis using that by (cases "j = i") (auto dest: dvd_imp_le)
  qed
  then show ?thesis using assms by (metis nat_le_linear)
qed

lemma slot_inj: "rb_wf rb \<Longrightarrow> i < length (rb_buf rb) \<Longrightarrow> j < length (rb_buf rb) \<Longrightarrow> slot rb i = slot rb j \<Longrightarrow> i = j"
  by (elim rb_wfE) (simp add: slot_mod, rule add_mod_inj)

lemma push_front_slots:
  assumes "rb_wf rb" and "ngtcp2_ringbuf_push_front rb = (rb', p)"
  shows "rb_wf rb'" and "slot rb' 0 = p" and "slot rb' (Suc i) = slot rb i"
    and "rb_buf rb' = rb_buf rb" and "rb_nmemb rb' = rb_nmemb rb"
    and "rb_len rb' = min (length (rb_buf rb)) (Suc (rb_len rb))"
proof -
  obtain k where k: "k < 32" "rb_nmemb rb = 2 ^ k" "unat (rb_nmemb rb) = 2 ^ k" "length (rb_buf rb) = 2 ^ k"
    using assms(1) by (elim rb_wfE)
  have rb': "rb' = rb\<lparr>rb_first := take_bit k (rb_first rb - 1),
      rb_len := min (2 ^ k) (rb_len rb + 1)\<rparr>" and p: "p = unat (take_bit k (rb_first rb - 1))"
    using assms(2) k(2,3) by (simp_all add: ngtcp2_ringbuf_push_front_def Let_def and_pow2)
  show "rb_buf rb' = rb_buf rb" "rb_nmemb rb' = rb_nmemb rb"
    "rb_len rb' = min (length (rb_buf rb)) (Suc (rb_len rb))" using rb' k by simp_all
  show "rb_wf rb'" using assms(1) k by (auto simp: rb' rb_wf_def)
  show "slot rb' 0 = p" by (simp add: slot_def rb' p k(2) and_pow2)
  let ?f = "unat (rb_first rb - 1)"
  have prev: "(?f + Suc i) mod 2 ^ k = (unat (rb_first rb) + i) mod 2 ^ k"
  proof (cases "rb_first rb = 0")
    case True
    then have f: "?f + Suc i = 2 ^ 64 + i" using unat_UINT64_MAX by (simp add: UINT64_MAX_def)
    have "(2 :: nat) ^ k dvd 2 ^ 64" using k(1) by (intro le_imp_power_dvd) simp
    then show ?thesis unfolding f using True by (metis dvd_imp_mod_0 mod_add_left_eq add_0 unsigned_0)
  next
    case False
    moreover from this have "unat (rb_first rb) \<noteq> 0" by (simp add: unsigned_eq_0_iff)
    ultimately have "?f + Suc i = unat (rb_first rb) + i" using unat_minus_one [of "rb_first rb"] by linarith
    then show ?thesis by (simp only:)
  qed
  have nm: "rb_nmemb rb' = 2 ^ k" using k(2) rb' by simp
  have "unat (rb_first rb') = ?f mod 2 ^ k" unfolding rb' ngtcp2_ringbuf.simps
    by (simp add: unsigned_take_bit_eq) (simp add: take_bit_eq_mod)
  then have "slot rb' (Suc i) = (?f mod 2 ^ k + Suc i) mod 2 ^ k" using slot_mod [OF nm k(1)] by simp
  then show "slot rb' (Suc i) = slot rb i" using prev slot_mod [OF k(2,1)] by (simp only: mod_add_left_eq)
qed

text \<open>
  Storing through the pointer \<^verbatim>\<open>ngtcp2_ringbuf_push_front\<close> returns puts an element in front; the last one
  is dropped when the buffer is full.
\<close>

lemma push_front_list:
  assumes wf: "rb_wf rb" and push: "ngtcp2_ringbuf_push_front rb = (rb', p)"
  shows "\<exists>rb''. rb_store rb' p x = Inr rb'' \<and> rb_wf rb'' \<and> length (rb_buf rb'') = length (rb_buf rb) \<and>
    rb_list rb'' = take (length (rb_buf rb)) (Some x # rb_list rb)"
proof -
  note pf = push_front_slots [OF wf push]
  let ?r = "rb'\<lparr>rb_buf := (rb_buf rb')[p := Some x]\<rparr>" let ?n = "length (rb_buf rb)"
  have st: "rb_store rb' p x = Inr ?r" using slot_less [OF pf(1), of 0] pf(2) by (simp add: rb_store_def)
  have wf2: "rb_wf ?r" using pf(1) by (simp add: rb_wf_def)
  have sl: "slot (rb'\<lparr>rb_buf := b\<rparr>) i = slot rb' i" for b i by (simp add: slot_def)
  have "rb_list ?r = take ?n (Some x # rb_list rb)"
  proof (rule nth_equalityI)
    show "length (rb_list ?r) = length (take ?n (Some x # rb_list rb))" using pf(6) by (simp add: rb_list_def)
    fix i assume "i < length (rb_list ?r)"
    then have i: "i < ?n" "i < Suc (rb_len rb)" using pf(6) by (simp_all add: rb_list_def)
    show "rb_list ?r ! i = take ?n (Some x # rb_list rb) ! i"
    proof (cases i)
      case 0
      then show ?thesis using i pf(2,4,6) slot_less [OF pf(1), of 0] by (simp add: rb_list_def sl)
    next
      case (Suc j)
      have "slot rb' (Suc j) \<noteq> p" using slot_inj [OF pf(1), of "Suc j" 0] i Suc pf(2,4)
        by (metis length_greater_0_conv list.size(3) nat.distinct(1) not_less_zero)
      then show ?thesis using i Suc pf(3,4,6) by (simp add: rb_list_def sl)
    qed
  qed
  then show ?thesis using st wf2 pf(4) by auto
qed

lemma get_list:
  "rb_wf rb \<Longrightarrow> i < ngtcp2_ringbuf_len rb \<Longrightarrow>
    \<exists>p. ngtcp2_ringbuf_get rb i = Inr p \<and> rb_load rb p = Inr (rb_list rb ! i)"
  using slot_less [of rb i]
  by (simp add: ngtcp2_ringbuf_get_def ngtcp2_ringbuf_len_def rb_load_def rb_list_def slot_def)

lemma resize_list:
  "rb_wf rb \<Longrightarrow> n \<le> ngtcp2_ringbuf_len rb \<Longrightarrow>
    \<exists>rb'. ngtcp2_ringbuf_resize rb n = Inr rb' \<and> rb_wf rb' \<and> rb_list rb' = take n (rb_list rb)"
  by (auto simp: ngtcp2_ringbuf_resize_def ngtcp2_ringbuf_len_def rb_wf_def rb_list_def slot_def take_map)

section \<open>The contract of the ring buffer\<close>

text \<open>
  What a client relies on: a bounded sequence with insertion at the front. After any number of
  insertions it holds the most recent ones, newest first.
\<close>

locale bounded_history =
  fixes inv :: "'s \<Rightarrow> bool" and cap :: "'s \<Rightarrow> nat" and contents :: "'s \<Rightarrow> 'a option list"
    and push :: "'s \<Rightarrow> 'a \<Rightarrow> 's res" and get :: "'s \<Rightarrow> nat \<Rightarrow> 'a option res" and cut :: "'s \<Rightarrow> nat \<Rightarrow> 's res"
  assumes push_law: "inv s \<Longrightarrow> \<exists>s'. push s x = Inr s' \<and> inv s' \<and> cap s' = cap s \<and>
      contents s' = take (cap s) (Some x # contents s)"
    and get_law: "inv s \<Longrightarrow> i < length (contents s) \<Longrightarrow> get s i = Inr (contents s ! i)"
    and cut_law: "inv s \<Longrightarrow> n \<le> length (contents s) \<Longrightarrow>
      \<exists>s'. cut s n = Inr s' \<and> inv s' \<and> contents s' = take n (contents s)"
    and len_law: "inv s \<Longrightarrow> length (contents s) \<le> cap s"
begin

primrec push_all :: "'a list \<Rightarrow> 's \<Rightarrow> 's res" where
  "push_all [] s = Inr s"
| "push_all (x # xs) s = rbind (push s x) (push_all xs)"

lemma push_all_contents:
  "inv s \<Longrightarrow> \<exists>s'. push_all xs s = Inr s' \<and> inv s' \<and> cap s' = cap s \<and>
    contents s' = take (cap s) (map Some (rev xs) @ contents s)"
proof (induction xs arbitrary: s)
  case Nil
  then show ?case using len_law by simp
next
  case (Cons x xs)
  obtain s1 where s1: "push s x = Inr s1" "inv s1" "cap s1 = cap s" "contents s1 = take (cap s) (Some x # contents s)"
    using push_law [OF Cons.prems] by blast
  obtain s2 where s2: "push_all xs s1 = Inr s2" "inv s2" "cap s2 = cap s1"
      "contents s2 = take (cap s1) (map Some (rev xs) @ contents s1)" using Cons.IH [OF s1(2)] by blast
  have "take (cap s) (map Some (rev xs) @ take (cap s) (Some x # contents s)) =
      take (cap s) (map Some (rev xs) @ Some x # contents s)"
    by (simp add: take_append min_def)
  then show ?case using s1 s2 by simp
qed

end

definition rb_push :: "'a ngtcp2_ringbuf \<Rightarrow> 'a \<Rightarrow> 'a ngtcp2_ringbuf res" where
  "rb_push rb x = (case ngtcp2_ringbuf_push_front rb of (rb, p) \<Rightarrow> rb_store rb p x)"

definition rb_get :: "'a ngtcp2_ringbuf \<Rightarrow> nat \<Rightarrow> 'a option res" where
  "rb_get rb i = rbind (ngtcp2_ringbuf_get rb i) (rb_load rb)"

interpretation ring: bounded_history rb_wf "\<lambda>rb. length (rb_buf rb)" rb_list rb_push rb_get ngtcp2_ringbuf_resize
proof
  fix rb :: "'a ngtcp2_ringbuf" and x i n
  assume wf: "rb_wf rb"
  show "\<exists>s'. rb_push rb x = Inr s' \<and> rb_wf s' \<and> length (rb_buf s') = length (rb_buf rb) \<and>
      rb_list s' = take (length (rb_buf rb)) (Some x # rb_list rb)"
    using push_front_list [OF wf, of _ _ x] by (simp add: rb_push_def split: prod.split)
  have len: "length (rb_list rb) = ngtcp2_ringbuf_len rb" by (simp add: rb_list_def ngtcp2_ringbuf_len_def)
  show "i < length (rb_list rb) \<Longrightarrow> rb_get rb i = Inr (rb_list rb ! i)"
    using get_list [OF wf, of i] len by (auto simp: rb_get_def)
  show "n \<le> length (rb_list rb) \<Longrightarrow> \<exists>s'. ngtcp2_ringbuf_resize rb n = Inr s' \<and> rb_wf s' \<and>
      rb_list s' = take n (rb_list rb)" using resize_list [OF wf, of n] len by simp
  show "length (rb_list rb) \<le> length (rb_buf rb)" using wf by (simp add: rb_list_def rb_wf_def)
qed

section \<open>Properties\<close>

fun rb_push_all :: "'a list \<Rightarrow> 'a ngtcp2_ringbuf \<Rightarrow> 'a ngtcp2_ringbuf res" where
  "rb_push_all [] rb = Inr rb"
| "rb_push_all (x # xs) rb = rbind (rb_push rb x) (rb_push_all xs)"

lemma rb_push_all_eq: "rb_push_all xs rb = ring.push_all xs rb"
  by (induction xs arbitrary: rb) (auto simp: rbind_def split: sum.splits)

lemma length_filter_eq_1: "k < n \<Longrightarrow> length (filter (\<lambda>i. i = k) [0 ..< n]) = 1"
  by (induction n) (auto simp: less_Suc_eq filter_empty_conv)

lemma popcount_pow2: "k < 32 \<Longrightarrow> popcount (2 ^ k) = 1"
proof -
  assume k: "k < 32"
  have "filter (bit (2 ^ k :: u32)) [0 ..< 32] = filter (\<lambda>i. i = k) [0 ..< 32]"
    by (rule filter_cong) (auto simp: bit_exp_iff)
  also have "length \<dots> = 1" using k by (simp add: length_filter_eq_1)
  finally show ?thesis by (simp add: popcount_def)
qed

lemma init_wf:
  assumes "k < 32" and "mem_ok m"
  shows "\<exists>rb. ngtcp2_ringbuf_init m (2 ^ k) sz = Inr (None, Some rb, m) \<and> rb_wf rb \<and> rb_list rb = [] \<and>
    length (rb_buf rb) = 2 ^ k"
proof -
  have "ucast (2 ^ k :: u64) = (2 ^ k :: u32)"
    by (rule bit_word_eqI) (use assms(1) in \<open>auto simp: bit_ucast_iff bit_exp_iff\<close>)
  then show ?thesis
    using assms popcount_pow2 [OF assms(1)] unat_pow2 [OF assms(1)]
    by (auto simp: ngtcp2_ringbuf_init_def malloc_mem_ok rb_wf_def rb_list_def)
qed

text \<open>
  C31. A ring buffer initialised for \<open>2 ^ k\<close> elements of any size refines a bounded list: after any
  sequence of stores through the pointers of \<^verbatim>\<open>ngtcp2_ringbuf_push_front\<close> it holds the most recent
  \<open>2 ^ k\<close> elements, newest first; \<^verbatim>\<open>ngtcp2_ringbuf_get\<close> returns the element at the offset and
  \<^verbatim>\<open>ngtcp2_ringbuf_resize\<close> keeps the newest. No assertion fails and no access is out of bounds.
\<close>

theorem ringbuf_refines_list:
  fixes xs :: "'a list"
  assumes "k < 32" and "mem_ok m"
  shows "\<exists>rb rb'. ngtcp2_ringbuf_init m (2 ^ k) sz = Inr (None, Some rb, m) \<and>
    rb_push_all xs rb = Inr rb' \<and> rb_list rb' = take (2 ^ k) (map Some (rev xs)) \<and>
    (\<forall>i < min (2 ^ k) (length xs). rb_get rb' i = Inr (Some (rev xs ! i))) \<and>
    (\<forall>n \<le> min (2 ^ k) (length xs). \<exists>rb''. ngtcp2_ringbuf_resize rb' n = Inr rb'' \<and>
      rb_list rb'' = take n (map Some (rev xs)))"
proof -
  obtain rb :: "'a ngtcp2_ringbuf" where rb: "ngtcp2_ringbuf_init m (2 ^ k) sz = Inr (None, Some rb, m)" "rb_wf rb" "rb_list rb = []"
      "length (rb_buf rb) = 2 ^ k" using init_wf [OF assms] by blast
  obtain rb' where rb': "rb_push_all xs rb = Inr rb'" "rb_wf rb'" "rb_list rb' = take (2 ^ k) (map Some (rev xs))"
    using ring.push_all_contents [OF rb(2), of xs] rb(3,4) by (auto simp: rb_push_all_eq)
  have "rb_get rb' i = Inr (Some (rev xs ! i))" if "i < min (2 ^ k) (length xs)" for i
    using ring.get_law [OF rb'(2), of i] rb'(3) that by simp
  moreover have "\<exists>rb''. ngtcp2_ringbuf_resize rb' n = Inr rb'' \<and> rb_list rb'' = take n (map Some (rev xs))"
    if "n \<le> min (2 ^ k) (length xs)" for n
    using ring.cut_law [OF rb'(2), of n] rb'(3) that by (auto simp: min_absorb1)
  ultimately show ?thesis using rb(1) rb'(1,3) by blast
qed

lemma ringbuf_refines_list_witness:
  "\<exists>rb rb'. ngtcp2_ringbuf_init (\<lambda>_. True) (2 ^ 1) 16 = Inr (None, Some rb, (\<lambda>_. True)) \<and>
    rb_push_all [10, 20, 30 :: nat] rb = Inr rb' \<and> rb_list rb' = [Some 30, Some 20]"
proof -
  have "take (2 ^ 1) (map Some (rev [10, 20, 30 :: nat])) = [Some 30, Some 20]" by (simp add: numeral_2_eq_2)
  then show ?thesis
    using ringbuf_refines_list [of 1 "\<lambda>_. True" 16 "[10, 20, 30 :: nat]"] mem_ok_True by auto
qed

end
