(* ===== verification/Acktr.thy ===== *)
theory Acktr
  imports Ringbuf Pkt_Misc
begin

text \<open>
  \<^verbatim>\<open>lib/ngtcp2_acktr.c\<close>: the tracker of received packets that have to be acknowledged. The linked list
  \<^verbatim>\<open>ent\<close> is a list in decreasing order of packet numbers; its \<^verbatim>\<open>pprev\<close> and \<^verbatim>\<open>tail\<close> pointers are the
  positions in it. A pointer to an entry, as \<^verbatim>\<open>ngtcp2_acktr_forget\<close> takes it, is a position. The ACK
  frames sent are kept in the ring buffer \<^verbatim>\<open>acks\<close>, newest first.
\<close>

section \<open>State and operations\<close>

record ngtcp2_acktr_entry =
  pkt_num :: u64
  tstamp :: u64
  unprotected :: bool

record ngtcp2_acktr_ack_entry =
  ae_ack :: ngtcp2_ack
  ae_pkt_num :: u64
  ae_unprotected :: bool

record ngtcp2_acktr =
  acks :: "ngtcp2_acktr_ack_entry ngtcp2_ringbuf"
  ent :: "ngtcp2_acktr_entry list"
  nack :: nat
  active_ack :: bool

abbreviation NGTCP2_ACKTR_MAX_ENT :: nat where
  "NGTCP2_ACKTR_MAX_ENT \<equiv> 1024"

definition ngtcp2_acktr_entry_new :: "mem \<Rightarrow> u64 \<Rightarrow> u64 \<Rightarrow> bool \<Rightarrow> rv \<times> ngtcp2_acktr_entry option \<times> mem" where
  "ngtcp2_acktr_entry_new m pn ts unprot =
     (let (ok, m) = malloc m in
      if \<not> ok then (Some NGTCP2_ERR_NOMEM, None, m)
      else (None, Some \<lparr>pkt_num = pn, tstamp = ts, unprotected = unprot\<rparr>, m))"

text \<open>The size of an element does not matter: only \<^verbatim>\<open>first\<close> is computed from it.\<close>

definition ngtcp2_acktr_init :: "mem \<Rightarrow> u64 \<Rightarrow> (rv \<times> ngtcp2_acktr option \<times> mem) res" where
  "ngtcp2_acktr_init m sizeof_ack_entry =
     rbind (ngtcp2_ringbuf_init m 128 sizeof_ack_entry) (\<lambda>(rv, rb, m).
     case rb of
       None \<Rightarrow> Inr (rv, None, m)
     | Some rb \<Rightarrow> Inr (None, Some \<lparr>acks = rb, ent = [], nack = 0, active_ack = False\<rparr>, m))"

text \<open>The search loop of \<^verbatim>\<open>ngtcp2_acktr_add\<close> and the linking of the entry; \<open>None\<close> is the duplicate.\<close>

fun link_ent :: "ngtcp2_acktr_entry \<Rightarrow> ngtcp2_acktr_entry list \<Rightarrow> ngtcp2_acktr_entry list option" where
  "link_ent e [] = Some [e]"
| "link_ent e (p # ps) =
     (if pkt_num p > pkt_num e then map_option (\<lambda>r. p # r) (link_ent e ps)
      else if pkt_num p = pkt_num e then None
      else Some (e # p # ps))"

definition ngtcp2_acktr_add :: "ngtcp2_acktr \<Rightarrow> ngtcp2_acktr_entry \<Rightarrow> bool \<Rightarrow> (rv \<times> ngtcp2_acktr) res" where
  "ngtcp2_acktr_add acktr e active =
     (case link_ent e (ent acktr) of
        None \<Rightarrow> Inr (Some NGTCP2_ERR_PROTO, acktr)
      | Some es \<Rightarrow>
          let acktr = acktr\<lparr>ent := es, nack := szadd (nack acktr) 1\<rparr>;
              acktr = (if active then acktr\<lparr>active_ack := True\<rparr> else acktr)
          in if nack acktr > NGTCP2_ACKTR_MAX_ENT
             then rassert (ent acktr \<noteq> [])
               (Inr (None, acktr\<lparr>ent := butlast (ent acktr), nack := szsub (nack acktr) 1\<rparr>))
             else Inr (None, acktr))"

definition ngtcp2_acktr_forget :: "ngtcp2_acktr \<Rightarrow> nat \<Rightarrow> ngtcp2_acktr" where
  "ngtcp2_acktr_forget acktr i =
     acktr\<lparr>ent := take i (ent acktr), nack := szsub (nack acktr) (length (drop i (ent acktr)))\<rparr>"

definition ngtcp2_acktr_get :: "ngtcp2_acktr \<Rightarrow> ngtcp2_acktr_entry list" where
  "ngtcp2_acktr_get acktr = ent acktr"

definition ngtcp2_acktr_pop :: "ngtcp2_acktr \<Rightarrow> ngtcp2_acktr res" where
  "ngtcp2_acktr_pop acktr =
     rassert (ent acktr \<noteq> []) (Inr (acktr\<lparr>nack := szsub (nack acktr) 1, ent := tl (ent acktr)\<rparr>))"

definition ngtcp2_acktr_add_ack :: "ngtcp2_acktr \<Rightarrow> u64 \<Rightarrow> ngtcp2_ack \<Rightarrow> bool \<Rightarrow> ngtcp2_acktr res" where
  "ngtcp2_acktr_add_ack acktr pn fr unprot =
     rbind (rb_push (acks acktr) \<lparr>ae_ack = fr, ae_pkt_num = pn, ae_unprotected = unprot\<rparr>) (\<lambda>rb.
     Inr (acktr\<lparr>acks := rb\<rparr>))"

text \<open>An entry of the ring buffer that was never stored has no value to read.\<close>

definition ack_at :: "ngtcp2_acktr_ack_entry ngtcp2_ringbuf \<Rightarrow> nat \<Rightarrow> ngtcp2_acktr_ack_entry res" where
  "ack_at rb j = rbind (rb_get rb j) (\<lambda>e. case e of None \<Rightarrow> Inl OutOfBounds | Some e \<Rightarrow> Inr e)"

text \<open>
  The three loops of \<^verbatim>\<open>acktr_on_ack\<close>: entries above the frame, entries in its first block, and for each
  further block the entries above it, which stay, and those in it, which are removed.
\<close>

fun on_ack_first :: "u64 \<Rightarrow> u64 \<Rightarrow> ngtcp2_acktr_entry list \<Rightarrow> ngtcp2_acktr_entry list" where
  "on_ack_first mn largest [] = []"
| "on_ack_first mn largest (p # ps) =
     (if mn \<le> pkt_num p \<and> pkt_num p \<le> largest then on_ack_first mn largest ps else p # ps)"

fun on_ack_blk :: "u64 \<Rightarrow> u64 \<Rightarrow> ngtcp2_acktr_entry list \<Rightarrow> ngtcp2_acktr_entry list \<times> ngtcp2_acktr_entry list" where
  "on_ack_blk mn largest [] = ([], [])"
| "on_ack_blk mn largest (p # ps) =
     (if pkt_num p > largest then (case on_ack_blk mn largest ps of (kept, rest) \<Rightarrow> (p # kept, rest))
      else if pkt_num p < mn then ([], p # ps)
      else on_ack_blk mn largest ps)"

fun on_ack_blks :: "u64 \<Rightarrow> ngtcp2_ack_blk list \<Rightarrow> nat \<Rightarrow> ngtcp2_acktr_entry list \<Rightarrow> ngtcp2_acktr_entry list res" where
  "on_ack_blks mn bl 0 ps = Inr ps"
| "on_ack_blks mn bl (Suc k) ps =
     (if ps = [] then Inr []
      else case bl of
        [] \<Rightarrow> Inl OutOfBounds
      | b # bl \<Rightarrow>
          let largest = mn - gap b - 2; mn = largest - blklen b; (kept, rest) = on_ack_blk mn largest ps
          in rbind (on_ack_blks mn bl k rest) (\<lambda>r. Inr (kept @ r)))"

definition acktr_on_ack :: "ngtcp2_acktr \<Rightarrow> nat \<Rightarrow> ngtcp2_acktr res" where
  "acktr_on_ack acktr ack_ent_offset =
     rbind (ack_at (acks acktr) ack_ent_offset) (\<lambda>e.
     let fr = ae_ack e; largest = largest_ack fr;
         above = takeWhile (\<lambda>p. \<not> largest \<ge> pkt_num p) (ent acktr);
         rest = dropWhile (\<lambda>p. \<not> largest \<ge> pkt_num p) (ent acktr)
     in
       rbind (if rest = [] then Inr []
              else let mn = largest - first_ack_blklen fr in
                   on_ack_blks mn (blks fr) (num_blks fr) (on_ack_first mn largest rest)) (\<lambda>rest'.
       rbind (ngtcp2_ringbuf_resize (acks acktr) ack_ent_offset) (\<lambda>rb.
       Inr (acktr\<lparr>ent := above @ rest', nack := szsub (nack acktr) (length rest - length rest'), acks := rb\<rparr>))))"

text \<open>
  The loops of \<^verbatim>\<open>ngtcp2_acktr_recv_ack\<close>: they return from the function, hit the ACK entry at a position, or go
  on at a position with the entry loaded there.
\<close>

datatype recv_step = Return | Hit nat | Next nat ngtcp2_acktr_ack_entry

lemma ack_at_less: "ack_at rb j = Inr e \<Longrightarrow> j < rb_len rb"
  by (cases "j < rb_len rb") (simp_all add: ack_at_def rb_get_def ngtcp2_ringbuf_get_def)

function recv_skip :: "ngtcp2_acktr_ack_entry ngtcp2_ringbuf \<Rightarrow> u64 \<Rightarrow> nat \<Rightarrow> nat \<Rightarrow> recv_step res" where
  "recv_skip rb largest nacks j =
     (if j < nacks then
        rbind (ack_at rb j) (\<lambda>e.
        if largest \<ge> ae_pkt_num e then Inr (Next j e) else recv_skip rb largest nacks (j + 1))
      else Inr Return)"
  by pat_completeness auto
termination by (relation "measure (\<lambda>(rb, largest, nacks, j). nacks - j)") auto

function recv_first ::
    "ngtcp2_acktr_ack_entry ngtcp2_ringbuf \<Rightarrow> bool \<Rightarrow> u64 \<Rightarrow> u64 \<Rightarrow> nat \<Rightarrow> nat \<Rightarrow> ngtcp2_acktr_ack_entry \<Rightarrow> recv_step res" where
  "recv_first rb unprot mn largest nacks j e =
     (if mn \<le> ae_pkt_num e \<and> ae_pkt_num e \<le> largest then
        if unprot \<and> \<not> ae_unprotected e then
          if j + 1 = nacks then Inr Return
          else rbind (ack_at rb (j + 1)) (\<lambda>e. recv_first rb unprot mn largest nacks (j + 1) e)
        else Inr (Hit j)
      else Inr (Next j e))"
  by pat_completeness auto
termination
  by (relation "measure (\<lambda>(rb, unprot, mn, largest, nacks, j, e). rb_len rb - j)") (auto dest: ack_at_less)

function recv_blk ::
    "ngtcp2_acktr_ack_entry ngtcp2_ringbuf \<Rightarrow> bool \<Rightarrow> u64 \<Rightarrow> u64 \<Rightarrow> nat \<Rightarrow> nat \<Rightarrow> ngtcp2_acktr_ack_entry \<Rightarrow> recv_step res" where
  "recv_blk rb unprot mn largest nacks j e =
     (if ae_pkt_num e > largest then
        if j + 1 = nacks then Inr Return
        else rbind (ack_at rb (j + 1)) (\<lambda>e. recv_blk rb unprot mn largest nacks (j + 1) e)
      else if ae_pkt_num e < mn then Inr (Next j e)
      else if unprot \<and> \<not> ae_unprotected e then
        if j + 1 = nacks then Inr Return
        else rbind (ack_at rb (j + 1)) (\<lambda>e. recv_blk rb unprot mn largest nacks (j + 1) e)
      else Inr (Hit j))"
  by pat_completeness auto
termination
  by (relation "measure (\<lambda>(rb, unprot, mn, largest, nacks, j, e). rb_len rb - j)") (auto dest: ack_at_less)

declare recv_skip.simps [simp del] recv_first.simps [simp del] recv_blk.simps [simp del]

fun recv_blks ::
    "ngtcp2_acktr_ack_entry ngtcp2_ringbuf \<Rightarrow> bool \<Rightarrow> u64 \<Rightarrow> ngtcp2_ack_blk list \<Rightarrow> nat \<Rightarrow> nat \<Rightarrow> nat \<Rightarrow>
     ngtcp2_acktr_ack_entry \<Rightarrow> recv_step res" where
  "recv_blks rb unprot mn bl 0 nacks j e = Inr Return"
| "recv_blks rb unprot mn bl (Suc k) nacks j e =
     (if \<not> j < nacks then Inr Return
      else case bl of
        [] \<Rightarrow> Inl OutOfBounds
      | b # bl \<Rightarrow>
          let largest = mn - gap b - 2; mn = largest - blklen b in
          rbind (recv_blk rb unprot mn largest nacks j e) (\<lambda>r.
          case r of Next j e \<Rightarrow> recv_blks rb unprot mn bl k nacks j e | _ \<Rightarrow> Inr r))"

definition ngtcp2_acktr_recv_ack :: "ngtcp2_acktr \<Rightarrow> ngtcp2_ack \<Rightarrow> bool \<Rightarrow> ngtcp2_acktr res" where
  "ngtcp2_acktr_recv_ack acktr fr unprot =
     (let largest = largest_ack fr; rb = acks acktr; nacks = ngtcp2_ringbuf_len rb in
      rbind (recv_skip rb largest nacks 0) (\<lambda>r.
      case r of
        Next j e \<Rightarrow>
          let mn = largest - first_ack_blklen fr in
          rbind (recv_first rb unprot mn largest nacks j e) (\<lambda>r.
          rbind (case r of Next j e \<Rightarrow> recv_blks rb unprot mn (blks fr) (num_blks fr) nacks j e | _ \<Rightarrow> Inr r) (\<lambda>r.
          case r of Hit j \<Rightarrow> acktr_on_ack acktr j | _ \<Rightarrow> Inr acktr))
      | _ \<Rightarrow> Inr acktr))"

section \<open>The invariant\<close>

definition desc :: "ngtcp2_acktr_entry list \<Rightarrow> bool" where
  "desc ps = sorted_wrt (\<lambda>a b. pkt_num a > pkt_num b) ps"

text \<open>An ACK frame as \<^verbatim>\<open>ngtcp2_pkt_validate_ack\<close> accepts it: no range reaches below packet number 0.\<close>

definition ack_valid :: "ngtcp2_ack \<Rightarrow> bool" where
  "ack_valid fr = (num_blks fr = length (blks fr) \<and> list_all (\<lambda>(lo, hi). 0 \<le> lo) (ack_ranges fr))"

definition in_ranges :: "(int \<times> int) list \<Rightarrow> u64 \<Rightarrow> bool" where
  "in_ranges rs n = list_ex (\<lambda>(lo, hi). lo \<le> uint n \<and> uint n \<le> hi) rs"

definition acked :: "ngtcp2_ack \<Rightarrow> u64 \<Rightarrow> bool" where
  "acked fr n = in_ranges (ack_ranges fr) n"

definition ack_list :: "ngtcp2_acktr \<Rightarrow> ngtcp2_acktr_ack_entry list" where
  "ack_list acktr = map the (rb_list (acks acktr))"

definition acktr_wf :: "ngtcp2_acktr \<Rightarrow> bool" where
  "acktr_wf acktr =
     (desc (ent acktr) \<and> nack acktr = length (ent acktr) \<and> nack acktr \<le> NGTCP2_ACKTR_MAX_ENT \<and>
      rb_wf (acks acktr) \<and> length (rb_buf (acks acktr)) = 128 \<and>
      rb_list (acks acktr) = map Some (ack_list acktr) \<and>
      sorted_wrt (\<lambda>a b. ae_pkt_num a > ae_pkt_num b) (ack_list acktr) \<and>
      list_all (\<lambda>e. ack_valid (ae_ack e)) (ack_list acktr))"

section \<open>Adding and forgetting\<close>

lemma desc_Cons: "desc (p # ps) \<longleftrightarrow> (\<forall>x \<in> set ps. pkt_num x < pkt_num p) \<and> desc ps"
  by (simp add: desc_def)

lemma link_ent_None: "desc ps \<Longrightarrow> link_ent e ps = None \<longleftrightarrow> pkt_num e \<in> pkt_num ` set ps"
proof (induction ps)
  case (Cons p ps)
  have ps: "desc ps" "\<forall>x \<in> set ps. pkt_num x < pkt_num p" using Cons.prems by (simp_all add: desc_Cons)
  consider "pkt_num e < pkt_num p" | "pkt_num e = pkt_num p" | "pkt_num p < pkt_num e" using linorder_less_linear by blast
  then show ?case
  proof cases
    case 1
    then show ?thesis using Cons.IH [OF ps(1)] by (simp add: less_imp_neq)
  next
    case 2
    then show ?thesis by simp
  next
    case 3
    then have "pkt_num x \<noteq> pkt_num e" if "x \<in> set ps" for x using ps(2) that by (metis less_asym)
    then have "pkt_num e \<notin> pkt_num ` set ps" by (metis imageE)
    moreover have "\<not> pkt_num e < pkt_num p" "pkt_num p \<noteq> pkt_num e" using 3 by (metis less_asym, metis less_irrefl)
    ultimately show ?thesis by simp
  qed
qed simp

lemma link_ent_Some:
  "desc ps \<Longrightarrow> link_ent e ps = Some qs \<Longrightarrow>
    desc qs \<and> set qs = insert e (set ps) \<and> length qs = Suc (length ps)"
proof (induction ps arbitrary: qs)
  case (Cons p ps)
  have ps: "desc ps" "\<forall>x \<in> set ps. pkt_num x < pkt_num p" using Cons.prems by (simp_all add: desc_Cons)
  show ?case
  proof (cases "pkt_num e < pkt_num p")
    case True
    then obtain r where r: "link_ent e ps = Some r" "qs = p # r" using Cons.prems(2) by auto
    then show ?thesis using Cons.IH [OF ps(1) r(1)] ps True by (auto simp: desc_Cons)
  next
    case False
    then have ne: "pkt_num p \<noteq> pkt_num e" and qs: "qs = e # p # ps" using Cons.prems(2) by (auto split: if_splits)
    then have pe: "pkt_num p < pkt_num e" using False by (simp add: order_less_le)
    then have "\<forall>x \<in> set ps. pkt_num x < pkt_num e" using ps(2) order_less_trans by blast
    then show ?thesis using Cons.prems(1) pe unfolding qs by (simp add: desc_Cons)
  qed
qed (simp add: desc_def)

lemma desc_butlast: "desc ps \<Longrightarrow> desc (butlast ps)"
  unfolding desc_def butlast_conv_take by (rule sorted_wrt_take)

lemma desc_last_least: "desc (ps @ [x]) \<Longrightarrow> y \<in> set ps \<Longrightarrow> pkt_num x < pkt_num y"
  by (simp add: desc_def sorted_wrt_append)

lemma acktr_add_ok:
  assumes wf: "acktr_wf a" and new: "pkt_num e \<notin> pkt_num ` set (ent a)"
  shows "\<exists>a'. ngtcp2_acktr_add a e act = Inr (None, a') \<and> acktr_wf a' \<and> active_ack a' = (act \<or> active_ack a) \<and>
    (if length (ent a) < NGTCP2_ACKTR_MAX_ENT then set (ent a') = insert e (set (ent a))
     else \<exists>x \<in> insert e (set (ent a)). set (ent a') = insert e (set (ent a)) - {x} \<and>
       (\<forall>y \<in> insert e (set (ent a)). pkt_num x \<le> pkt_num y))"
proof -
  have w: "desc (ent a)" "nack a = length (ent a)" "nack a \<le> 1024" using wf by (simp_all add: acktr_wf_def)
  obtain qs where qs: "link_ent e (ent a) = Some qs" using link_ent_None [OF w(1)] new by (cases "link_ent e (ent a)") auto
  note q = link_ent_Some [OF w(1) qs]
  have n1: "szadd (nack a) 1 = Suc (nack a)" using w(3) by simp
  show ?thesis
  proof (cases "length (ent a) < 1024")
    case True
    then show ?thesis
      using qs q w wf n1 by (auto simp: ngtcp2_acktr_add_def Let_def acktr_wf_def ack_list_def)
  next
    case False
    obtain ps x where px: "qs = ps @ [x]" using q by (cases qs rule: rev_cases) auto
    have len: "nack a = 1024" "length ps = 1024" using False w q px by simp_all
    have s: "szsub 1025 1 = 1024" by simp
    have set: "set ps = insert e (set (ent a)) - {x}" "x \<in> insert e (set (ent a))"
      using q px desc_last_least [of ps x] by (auto simp: less_le)
    have least: "\<forall>y \<in> insert e (set (ent a)). pkt_num x \<le> pkt_num y"
    proof
      fix y assume "y \<in> insert e (set (ent a))"
      then have "y = x \<or> y \<in> set ps" using q px by auto
      then show "pkt_num x \<le> pkt_num y" using desc_last_least [of ps x y] q px by (auto intro: less_imp_le)
    qed
    have ps: "desc ps" using desc_butlast [of qs] q px by simp
    let ?r = "a\<lparr>ent := ps, nack := 1024, active_ack := (act \<or> active_ack a)\<rparr>"
    have "ngtcp2_acktr_add a e act = Inr (None, ?r)"
      using qs px len n1 s by (simp add: ngtcp2_acktr_add_def Let_def)
    moreover have "acktr_wf ?r" using wf ps len by (simp add: acktr_wf_def ack_list_def)
    moreover have "\<exists>x \<in> insert e (set (ent a)). set (ent ?r) = insert e (set (ent a)) - {x} \<and>
        (\<forall>y \<in> insert e (set (ent a)). pkt_num x \<le> pkt_num y)"
    proof (rule bexI [of _ x], intro conjI)
      show "set (ent ?r) = insert e (set (ent a)) - {x}" using set(1) by simp
    qed (rule least, rule set(2))
    ultimately show ?thesis using False by simp
  qed
qed

lemma acktr_add_dup:
  "acktr_wf a \<Longrightarrow> pkt_num e \<in> pkt_num ` set (ent a) \<Longrightarrow> ngtcp2_acktr_add a e act = Inr (Some NGTCP2_ERR_PROTO, a)"
  using link_ent_None [of "ent a" e] by (simp add: acktr_wf_def ngtcp2_acktr_add_def)

lemma acktr_forget_ok:
  "acktr_wf a \<Longrightarrow> acktr_wf (ngtcp2_acktr_forget a i) \<and> ent (ngtcp2_acktr_forget a i) = take i (ent a)"
  by (auto simp: acktr_wf_def ngtcp2_acktr_forget_def ack_list_def desc_def sorted_wrt_take)

lemma acktr_pop_ok:
  "acktr_wf a \<Longrightarrow> ent a = p # ps \<Longrightarrow>
    \<exists>a'. ngtcp2_acktr_pop a = Inr a' \<and> acktr_wf a' \<and> ent a' = ps \<and> (\<forall>x \<in> set ps. pkt_num x < pkt_num p)"
  by (auto simp: acktr_wf_def ngtcp2_acktr_pop_def ack_list_def desc_Cons)

section \<open>Removing what an acknowledged ACK frame covers\<close>

text \<open>The ranges of further blocks below \<open>low\<close> are in decreasing order.\<close>

lemma ack_blk_ranges_below:
  "(lo, hi) \<in> set (ack_blk_ranges low bl) \<Longrightarrow> lo \<le> hi \<and> hi < low"
proof (induction bl arbitrary: low)
  case (Cons b bl)
  have g: "0 \<le> uint (gap b)" "0 \<le> uint (blklen b)" by simp_all
  show ?case
  proof (cases "(lo, hi) \<in> set (ack_blk_ranges (low - uint (gap b) - 2 - uint (blklen b)) bl)")
    case True
    from Cons.IH [OF this] show ?thesis using g by linarith
  next
    case False
    then have "lo = low - uint (gap b) - 2 - uint (blklen b)" "hi = low - uint (gap b) - 2"
      using Cons.prems by (simp_all add: Let_def)
    then show ?thesis using g by linarith
  qed
qed simp

lemma in_ranges_below: "in_ranges (ack_blk_ranges low bl) n \<Longrightarrow> uint n < low"
  using ack_blk_ranges_below by (fastforce simp: in_ranges_def list_ex_iff)

lemma in_ranges_Cons: "in_ranges ((lo, hi) # rs) n \<longleftrightarrow> lo \<le> uint n \<and> uint n \<le> hi \<or> in_ranges rs n"
  by (simp add: in_ranges_def)

lemma in_ranges_Nil [simp]: "\<not> in_ranges [] n"
  by (simp add: in_ranges_def)

text \<open>For a valid frame the 64-bit subtractions of the code do not wrap.\<close>

lemma blk_bounds:
  fixes mn :: u64
  assumes "0 \<le> uint mn - uint g - 2 - uint l"
  shows "uint (mn - g - 2) = uint mn - uint g - 2" and "uint (mn - g - 2 - l) = uint mn - uint g - 2 - uint l"
proof -
  have p: "0 \<le> uint g" "0 \<le> uint l" and uint_2: "uint (2 :: u64) = 2" by simp_all
  have 1: "uint (mn - g) = uint mn - uint g" using assms p uint_sub_lem [of g mn] by linarith
  show 2: "uint (mn - g - 2) = uint mn - uint g - 2"
    using assms p 1 uint_sub_lem [of 2 "mn - g"] unfolding uint_2 by linarith
  show "uint (mn - g - 2 - l) = uint mn - uint g - 2 - uint l"
    using assms 2 uint_sub_lem [of l "mn - g - 2"] by linarith
qed

lemma on_ack_blk_filter:
  assumes "desc ps" and "mn \<le> largest"
  shows "case on_ack_blk mn largest ps of (kept, rest) \<Rightarrow>
    kept @ rest = [p \<leftarrow> ps. \<not> (mn \<le> pkt_num p \<and> pkt_num p \<le> largest)] \<and>
    (\<forall>p \<in> set kept. pkt_num p > largest) \<and> (\<forall>p \<in> set rest. pkt_num p < mn) \<and> desc rest"
  using assms(1)
proof (induction ps)
  case (Cons p ps)
  have ps: "desc ps" "\<forall>x \<in> set ps. pkt_num x < pkt_num p" using Cons.prems by (simp_all add: desc_Cons)
  consider "pkt_num p > largest" | "pkt_num p < mn" "pkt_num p \<le> largest" | "mn \<le> pkt_num p" "pkt_num p \<le> largest"
    by fastforce
  then show ?case
  proof cases
    case 1
    then show ?thesis using Cons.IH [OF ps(1)] by (auto simp: not_le split: prod.splits)
  next
    case 2
    then have lt: "\<forall>x \<in> set (p # ps). pkt_num x < mn" using ps(2) order_less_trans by auto
    then have "[x \<leftarrow> p # ps. \<not> (mn \<le> pkt_num x \<and> pkt_num x \<le> largest)] = p # ps"
      by (intro filter_True) (simp add: not_le)
    moreover have "\<not> largest < pkt_num p" using 2 by (simp add: not_less)
    then have "on_ack_blk mn largest (p # ps) = ([], p # ps)" using 2 by simp
    ultimately show ?thesis using lt Cons.prems by simp
  next
    case 3
    then have "on_ack_blk mn largest (p # ps) = on_ack_blk mn largest ps" by (simp add: not_less leD)
    then show ?thesis using Cons.IH [OF ps(1)] 3 by simp
  qed
qed (simp add: desc_def)

lemma filter_disjoint_ranges:
  assumes "kept @ rest = [p \<leftarrow> ps. \<not> A p]" and "\<forall>p \<in> set kept. \<not> B p"
  shows "kept @ [p \<leftarrow> rest. \<not> B p] = [p \<leftarrow> ps. \<not> (A p \<or> B p)]"
proof -
  have "[p \<leftarrow> ps. \<not> (A p \<or> B p)] = [p \<leftarrow> [p \<leftarrow> ps. \<not> A p]. \<not> B p]" by (simp add: conj_commute)
  also have "\<dots> = [p \<leftarrow> kept. \<not> B p] @ [p \<leftarrow> rest. \<not> B p]" unfolding assms(1) [symmetric] by simp
  also have "[p \<leftarrow> kept. \<not> B p] = kept" using assms(2) by (simp add: filter_id_conv)
  finally show ?thesis ..
qed

lemma on_ack_blks_filter:
  assumes "desc ps" and "\<forall>p \<in> set ps. pkt_num p < mn" and "list_all (\<lambda>(lo, hi). 0 \<le> lo) (ack_blk_ranges (uint mn) bl)"
  shows "on_ack_blks mn bl (length bl) ps = Inr [p \<leftarrow> ps. \<not> in_ranges (ack_blk_ranges (uint mn) bl) (pkt_num p)]"
  using assms
proof (induction bl arbitrary: mn ps)
  case (Cons b bl)
  let ?hi = "mn - gap b - 2" let ?lo = "?hi - blklen b"
  have nn: "0 \<le> uint mn - uint (gap b) - 2 - uint (blklen b)" using Cons.prems(3) by (simp add: Let_def)
  note u = blk_bounds [OF nn]
  have lh: "?lo \<le> ?hi" unfolding word_le_def u using u by simp
  have rs: "ack_blk_ranges (uint mn) (b # bl) = (uint ?lo, uint ?hi) # ack_blk_ranges (uint ?lo) bl"
    using u by (simp add: Let_def)
  obtain kept rest where kr: "on_ack_blk ?lo ?hi ps = (kept, rest)" by (cases "on_ack_blk ?lo ?hi ps")
  have k: "kept @ rest = [p \<leftarrow> ps. \<not> (?lo \<le> pkt_num p \<and> pkt_num p \<le> ?hi)]"
      "\<forall>p \<in> set kept. pkt_num p > ?hi" "\<forall>p \<in> set rest. pkt_num p < ?lo" "desc rest"
    using on_ack_blk_filter [OF Cons.prems(1) lh] kr by simp_all
  have "list_all (\<lambda>(lo, hi). 0 \<le> lo) (ack_blk_ranges (uint ?lo) bl)" using Cons.prems(3) unfolding rs by simp
  note IH = Cons.IH [OF k(4,3) this]
  have "\<not> in_ranges (ack_blk_ranges (uint ?lo) bl) (pkt_num p)" if "p \<in> set kept" for p
    using in_ranges_below [of "uint ?lo" bl "pkt_num p"] k(2) that lh unfolding word_less_def word_le_def
    by fastforce
  then have "kept @ [p \<leftarrow> rest. \<not> in_ranges (ack_blk_ranges (uint ?lo) bl) (pkt_num p)] =
      [p \<leftarrow> ps. \<not> in_ranges (ack_blk_ranges (uint mn) (b # bl)) (pkt_num p)]"
    using filter_disjoint_ranges [OF k(1), of "\<lambda>p. in_ranges (ack_blk_ranges (uint ?lo) bl) (pkt_num p)"]
    unfolding rs in_ranges_Cons word_le_def by simp
  moreover have "on_ack_blks mn (b # bl) (length (b # bl)) ps =
      (if ps = [] then Inr [] else rbind (on_ack_blks ?lo bl (length bl) rest) (\<lambda>r. Inr (kept @ r)))"
    using kr by (simp add: Let_def)
  ultimately show ?case using IH by simp
qed simp

lemma dropWhile_desc: "desc ps \<Longrightarrow> desc (dropWhile P ps)"
  unfolding desc_def by (rule sorted_wrt_dropWhile)

lemma desc_below:
  assumes "desc ps" and "p \<in> set (dropWhile (\<lambda>p. \<not> n \<ge> pkt_num p) ps)"
  shows "pkt_num p \<le> n"
proof -
  let ?r = "dropWhile (\<lambda>p. \<not> n \<ge> pkt_num p) ps"
  obtain x xs where r: "?r = x # xs" using assms(2) by (cases ?r) auto
  have "pkt_num x \<le> n" using r by (metis dropWhile_eq_Cons_conv)
  moreover have "desc (x # xs)" using dropWhile_desc [OF assms(1)] r by metis
  ultimately show ?thesis using assms(2) r by (auto simp: desc_Cons intro: order_trans less_imp_le)
qed

lemma on_ack_first_filter:
  assumes "desc ps" and "\<forall>p \<in> set ps. pkt_num p \<le> largest"
  shows "on_ack_first mn largest ps = [p \<leftarrow> ps. pkt_num p < mn]"
  using assms
proof (induction ps)
  case (Cons p ps)
  show ?case
  proof (cases "mn \<le> pkt_num p")
    case True
    then show ?thesis using Cons by (simp add: desc_Cons leD)
  next
    case False
    then have lt: "pkt_num p < mn" by simp
    then have "\<forall>x \<in> set ps. pkt_num x < mn" using Cons.prems(1) by (auto simp: desc_Cons intro: less_trans)
    then have "[p \<leftarrow> p # ps. pkt_num p < mn] = p # ps" using lt by simp
    then show ?thesis using False by simp
  qed
qed simp

text \<open>Acknowledging the ACK frame at position \<open>j\<close> removes exactly the entries it covers.\<close>

lemma acktr_on_ack_ok:
  assumes wf: "acktr_wf a" and j: "j < length (ack_list a)"
  defines "fr \<equiv> ae_ack (ack_list a ! j)"
  shows "\<exists>a'. acktr_on_ack a j = Inr a' \<and> acktr_wf a' \<and> ent a' = [p \<leftarrow> ent a. \<not> acked fr (pkt_num p)] \<and>
    ack_list a' = take j (ack_list a) \<and> active_ack a' = active_ack a"
proof -
  have w: "desc (ent a)" "nack a = length (ent a)" "nack a \<le> 1024" "rb_wf (acks a)"
      "rb_list (acks a) = map Some (ack_list a)" and v: "ack_valid fr"
    using wf j by (auto simp: acktr_wf_def fr_def list_all_length)
  have at: "ack_at (acks a) j = Inr (ack_list a ! j)"
    using ring.get_law [OF w(4), of j] w(5) j by (simp add: ack_at_def)
  obtain rb where rb: "ngtcp2_ringbuf_resize (acks a) j = Inr rb" "rb_wf rb" "rb_list rb = take j (rb_list (acks a))"
    using ring.cut_law [OF w(4), of j] w(5) j by auto
  have rb_buf: "rb_buf rb = rb_buf (acks a)"
    using rb(1) by (auto simp: ngtcp2_ringbuf_resize_def)
  let ?L = "largest_ack fr" let ?mn = "?L - first_ack_blklen fr"
  let ?P = "\<lambda>p. \<not> ?L \<ge> pkt_num p"
  let ?above = "takeWhile ?P (ent a)" and ?rest = "dropWhile ?P (ent a)"
  let ?rs = "ack_blk_ranges (uint ?mn) (blks fr)"
  have le: "uint (first_ack_blklen fr) \<le> uint ?L" using v by (simp add: ack_valid_def ack_ranges_def Let_def)
  have u: "uint ?mn = uint ?L - uint (first_ack_blklen fr)" using le uint_sub_lem by blast
  have ml: "uint ?mn \<le> uint ?L" unfolding u by simp
  have rs: "ack_ranges fr = (uint ?mn, uint ?L) # ?rs" using u by (simp add: ack_ranges_def Let_def)
  have vb: "list_all (\<lambda>(lo, hi). 0 \<le> lo) ?rs" and nb: "num_blks fr = length (blks fr)"
    using v rs by (simp_all add: ack_valid_def)
  have above: "[p \<leftarrow> ?above. \<not> acked fr (pkt_num p)] = ?above"
  proof (rule filter_True, intro ballI notI)
    fix p assume p: "p \<in> set ?above" "acked fr (pkt_num p)"
    have "uint ?L < uint (pkt_num p)" using set_takeWhileD [OF p(1)] by (simp add: word_le_def)
    moreover have "uint (pkt_num p) \<le> uint ?L"
      using p(2) in_ranges_below [of "uint ?mn" "blks fr" "pkt_num p"] ml
      unfolding acked_def rs in_ranges_Cons by linarith
    ultimately show False by simp
  qed
  have rest: "\<forall>p \<in> set ?rest. pkt_num p \<le> ?L" using desc_below [OF w(1)] by blast
  note of = on_ack_first_filter [OF dropWhile_desc [OF w(1)] rest, of ?mn]
  have dr: "desc [p \<leftarrow> ?rest. pkt_num p < ?mn]"
    using dropWhile_desc [OF w(1)] unfolding desc_def by (rule sorted_wrt_filter)
  have "[p \<leftarrow> ?rest. \<not> acked fr (pkt_num p)] = [p \<leftarrow> [p \<leftarrow> ?rest. pkt_num p < ?mn]. \<not> in_ranges ?rs (pkt_num p)]"
    unfolding filter_filter
  proof (rule filter_cong [OF refl])
    fix p assume "p \<in> set ?rest"
    then have "pkt_num p \<le> ?L" using rest by blast
    then have "uint (pkt_num p) \<le> uint ?L" unfolding word_le_def .
    then show "(\<not> acked fr (pkt_num p)) = (pkt_num p < ?mn \<and> \<not> in_ranges ?rs (pkt_num p))"
      unfolding acked_def rs in_ranges_Cons word_less_def not_le [symmetric] by blast
  qed
  then have loop: "on_ack_blks ?mn (blks fr) (num_blks fr) (on_ack_first ?mn ?L ?rest) =
      Inr [p \<leftarrow> ?rest. \<not> acked fr (pkt_num p)]"
    unfolding of nb using on_ack_blks_filter [OF dr _ vb] by simp
  let ?es = "[p \<leftarrow> ent a. \<not> acked fr (pkt_num p)]"
  have es: "?above @ [p \<leftarrow> ?rest. \<not> acked fr (pkt_num p)] = ?es"
    by (metis above filter_append takeWhile_dropWhile_id)
  have len: "length ?rest - length [p \<leftarrow> ?rest. \<not> acked fr (pkt_num p)] = length (ent a) - length ?es"
    by (simp add: es [symmetric]) (metis add_diff_cancel_left length_append takeWhile_dropWhile_id)
  have "szsub (nack a) (length (ent a) - length ?es) = length ?es"
    using w(2,3) length_filter_le [of "\<lambda>p. \<not> acked fr (pkt_num p)" "ent a"] by simp
  moreover have inner: "(if ?rest = [] then Inr []
      else on_ack_blks ?mn (blks fr) (num_blks fr) (on_ack_first ?mn ?L ?rest)) =
      Inr [p \<leftarrow> ?rest. \<not> acked fr (pkt_num p)]"
  proof (cases "?rest = []")
    case True
    show ?thesis unfolding True by simp
  next
    case False
    then show ?thesis using loop by (simp only: if_False)
  qed
  ultimately have eq: "acktr_on_ack a j = Inr (a\<lparr>ent := ?es, nack := length ?es, acks := rb\<rparr>)"
    unfolding acktr_on_ack_def at rbind_simps fr_def [symmetric] Let_def inner rb(1) es len by simp
  let ?a = "a\<lparr>ent := ?es, nack := length ?es, acks := rb\<rparr>"
  have al: "ack_list ?a = take j (ack_list a)" by (simp add: ack_list_def rb(3) take_map)
  have "desc ?es" using w(1) unfolding desc_def by (rule sorted_wrt_filter)
  moreover have "length ?es \<le> 1024" using w(2,3) length_filter_le [of "\<lambda>p. \<not> acked fr (pkt_num p)" "ent a"] by linarith
  moreover have "rb_list rb = map Some (take j (ack_list a))" using rb(3) w(5) by (simp add: take_map)
  ultimately have "acktr_wf ?a"
    using wf rb(2) rb_buf unfolding acktr_wf_def al
    by (auto simp: sorted_wrt_take list_all_iff dest: in_set_takeD)
  then show ?thesis using eq al by auto
qed

section \<open>Finding the acknowledged ACK frame\<close>

function first_from :: "('a \<Rightarrow> bool) \<Rightarrow> 'a list \<Rightarrow> nat \<Rightarrow> nat option" where
  "first_from P xs j =
     (if j < length xs then if P (xs ! j) then Some j else first_from P xs (j + 1) else None)"
  by pat_completeness auto
termination by (relation "measure (\<lambda>(P, xs, j). length xs - j)") auto

declare first_from.simps [simp del]

lemma first_from_cong:
  "(\<And>i. j \<le> i \<Longrightarrow> i < length xs \<Longrightarrow> P (xs ! i) = Q (xs ! i)) \<Longrightarrow> first_from P xs j = first_from Q xs j"
proof (induction P xs j rule: first_from.induct)
  case (1 P xs j)
  show ?case
  proof (cases "j < length xs")
    case True
    then show ?thesis using 1 by (subst (1 2) first_from.simps) simp
  next
    case False
    then show ?thesis by (subst (1 2) first_from.simps) simp
  qed
qed

lemma first_from_step: "j < length xs \<Longrightarrow> \<not> P (xs ! j) \<Longrightarrow> first_from P xs j = first_from P xs (j + 1)"
  by (subst first_from.simps) simp

lemma first_from_hit: "j < length xs \<Longrightarrow> P (xs ! j) \<Longrightarrow> first_from P xs j = Some j"
  by (subst first_from.simps) simp

lemma first_from_end: "length xs \<le> j \<Longrightarrow> first_from P xs j = None"
  by (subst first_from.simps) simp

lemma first_from_Some: "first_from P xs j = Some i \<Longrightarrow> j \<le> i \<and> i < length xs \<and> P (xs ! i) \<and> (\<forall>k. j \<le> k \<and> k < i \<longrightarrow> \<not> P (xs ! k))"
proof (induction P xs j rule: first_from.induct)
  case (1 P xs j)
  have j: "j < length xs" using 1(2) first_from_end [of xs j P] by (cases "j < length xs") simp_all
  show ?case
  proof (cases "P (xs ! j)")
    case True
    then show ?thesis using 1(2) first_from_hit [OF j, of P] j by auto
  next
    case False
    then have "first_from P xs (j + 1) = Some i" using 1(2) first_from_step [OF j, of P] by simp
    note ih = 1(1) [OF j False this]
    have "\<not> P (xs ! k)" if "j \<le> k \<and> k < i" for k using ih that False by (cases "k = j") auto
    then show ?thesis using ih by simp
  qed
qed

lemma first_from_None: "first_from P xs j = None \<Longrightarrow> j \<le> i \<Longrightarrow> i < length xs \<Longrightarrow> \<not> P (xs ! i)"
proof (induction P xs j rule: first_from.induct)
  case (1 P xs j)
  have j: "j < length xs" using 1(3,4) by simp
  have np: "\<not> P (xs ! j)" using 1(2) first_from_hit [OF j, of P] by auto
  then have "first_from P xs (j + 1) = None" using 1(2) first_from_step [OF j, of P] by simp
  then show ?case using 1(1) [OF j np] 1(3,4) np by (cases "i = j") auto
qed

text \<open>
  The tracker's ring buffer holds the list \<open>L\<close>; \<open>sel unprot rs e\<close> says that an entry is one that an
  ACK frame with the ranges \<open>rs\<close> acknowledges.
\<close>

definition holds :: "ngtcp2_acktr_ack_entry ngtcp2_ringbuf \<Rightarrow> ngtcp2_acktr_ack_entry list \<Rightarrow> bool" where
  "holds rb L = (rb_wf rb \<and> rb_list rb = map Some L \<and> sorted_wrt (\<lambda>a b. ae_pkt_num a > ae_pkt_num b) L)"

definition sel :: "bool \<Rightarrow> (int \<times> int) list \<Rightarrow> ngtcp2_acktr_ack_entry \<Rightarrow> bool" where
  "sel unprot rs e = (in_ranges rs (ae_pkt_num e) \<and> (unprot \<longrightarrow> ae_unprotected e))"

lemma holds_at_pos: "holds rb L \<Longrightarrow> j < length L \<Longrightarrow> ack_at rb j = Inr (L ! j)"
  using ring.get_law [of rb j] by (simp add: holds_def ack_at_def)

lemma holds_len: "holds rb L \<Longrightarrow> ngtcp2_ringbuf_len rb = length L"
  unfolding holds_def ngtcp2_ringbuf_len_def rb_list_def by (metis length_map length_upt minus_nat.diff_0)

lemma holds_mono: "holds rb L \<Longrightarrow> i \<le> j \<Longrightarrow> j < length L \<Longrightarrow> uint (ae_pkt_num (L ! j)) \<le> uint (ae_pkt_num (L ! i))"
  using sorted_wrt_nth_less [of "\<lambda>a b. ae_pkt_num a > ae_pkt_num b" L i j]
  by (cases "i = j") (auto simp: holds_def word_less_def)

text \<open>What the loop over one block does: \<open>rs\<close> are the ranges of the blocks behind it.\<close>

definition step_ok ::
    "bool \<Rightarrow> (int \<times> int) list \<Rightarrow> int \<Rightarrow> int \<Rightarrow> ngtcp2_acktr_ack_entry list \<Rightarrow> nat \<Rightarrow> recv_step \<Rightarrow> bool" where
  "step_ok unprot rs lo hi L j r =
     (case r of
        Return \<Rightarrow> first_from (sel unprot ((lo, hi) # rs)) L j = None
      | Hit i \<Rightarrow> first_from (sel unprot ((lo, hi) # rs)) L j = Some i
      | Next i e \<Rightarrow> e = L ! i \<and> i < length L \<and> uint (ae_pkt_num e) < lo \<and>
          first_from (sel unprot ((lo, hi) # rs)) L j = first_from (sel unprot rs) L i)"

lemma step_ok_skip:
  "step_ok unprot rs lo hi L (j + 1) r \<Longrightarrow> j < length L \<Longrightarrow> \<not> sel unprot ((lo, hi) # rs) (L ! j) \<Longrightarrow>
    step_ok unprot rs lo hi L j r"
  unfolding step_ok_def by (subst (1 2 3) first_from_step) (auto split: recv_step.splits)

lemma recv_blk_ok:
  assumes "holds rb L" and "nacks = length L" and "j < length L" and "e = L ! j" and "mn \<le> largest"
    and "\<And>n. in_ranges rs n \<Longrightarrow> uint n < uint mn"
  shows "\<exists>r. recv_blk rb unprot mn largest nacks j e = Inr r \<and> step_ok unprot rs (uint mn) (uint largest) L j r"
  using assms
proof (induction rb unprot mn largest nacks j e rule: recv_blk.induct)
  case (1 rb unprot mn largest nacks j e)
  let ?P = "sel unprot ((uint mn, uint largest) # rs)"
  have skip: "\<exists>r. (if j + 1 = nacks then Inr Return
      else rbind (ack_at rb (j + 1)) (recv_blk rb unprot mn largest nacks (j + 1))) = Inr r \<and>
      step_ok unprot rs (uint mn) (uint largest) L j r"
    if np: "\<not> ?P (L ! j)"
      and ih: "\<And>x. j + 1 \<noteq> nacks \<Longrightarrow> ack_at rb (j + 1) = Inr x \<Longrightarrow> x = L ! (j + 1) \<Longrightarrow>
        \<exists>r. recv_blk rb unprot mn largest nacks (j + 1) x = Inr r \<and>
          step_ok unprot rs (uint mn) (uint largest) L (j + 1) r"
  proof (cases "j + 1 = nacks")
    case True
    then have "first_from ?P L j = None"
      using first_from_step [of j L ?P, OF 1(5) np] first_from_end [of L "j + 1"] 1(4) by simp
    then show ?thesis using True by (simp add: step_ok_def)
  next
    case False
    then have "j + 1 < length L" using 1(4,5) by simp
    then have at: "ack_at rb (j + 1) = Inr (L ! (j + 1))" using holds_at_pos [OF 1(3)] by simp
    then show ?thesis using ih [OF False at] False step_ok_skip [OF _ 1(5) np] by auto
  qed
  have next_less: "j + 1 \<noteq> nacks \<Longrightarrow> j + 1 < length L" using 1(4,5) by simp
  note unf = recv_blk.simps [of rb unprot mn largest nacks j e]
  consider "ae_pkt_num e > largest" | "\<not> ae_pkt_num e > largest" "ae_pkt_num e < mn"
    | "\<not> ae_pkt_num e > largest" "\<not> ae_pkt_num e < mn" "unprot \<and> \<not> ae_unprotected e"
    | "\<not> ae_pkt_num e > largest" "\<not> ae_pkt_num e < mn" "\<not> (unprot \<and> \<not> ae_unprotected e)"
    by blast
  then show ?case
  proof cases
    case a: 1
    have "\<not> ?P (L ! j)"
      using a 1(6,7) 1(8) [of "ae_pkt_num e"] unfolding sel_def in_ranges_Cons word_less_def word_le_def by fastforce
    then show ?thesis unfolding unf using a skip 1(1) [OF a _ _ 1(3,4) next_less _ 1(7,8)] by simp
  next
    case a: 2
    have "first_from ?P L j = first_from (sel unprot rs) L j"
    proof (rule first_from_cong)
      fix i assume "j \<le> i" "i < length L"
      then have "uint (ae_pkt_num (L ! i)) < uint mn"
        using holds_mono [OF 1(3), of j i] a(2) 1(6) unfolding word_less_def by simp
      then show "?P (L ! i) = sel unprot rs (L ! i)" by (simp add: sel_def in_ranges_Cons)
    qed
    then show ?thesis unfolding unf using a 1(5,6) by (simp add: step_ok_def word_less_def)
  next
    case a: 3
    then have "\<not> ?P (L ! j)" using 1(6) by (simp add: sel_def)
    then show ?thesis unfolding unf using a skip 1(2) [OF a(1,2,3) _ _ 1(3,4) next_less _ 1(7,8)] by simp
  next
    case a: 4
    then have "?P (L ! j)"
      using 1(6) unfolding sel_def in_ranges_Cons word_less_def by auto
    then have "step_ok unprot rs (uint mn) (uint largest) L j (Hit j)"
      using first_from_hit [of j L ?P, OF 1(5)] by (simp add: step_ok_def)
    then show ?thesis unfolding unf by (simp only: a if_False) blast
  qed
qed

lemma recv_blks_ok:
  assumes "holds rb L" and "j < length L" and "uint (ae_pkt_num (L ! j)) < uint mn"
    and "list_all (\<lambda>(lo, hi). 0 \<le> lo) (ack_blk_ranges (uint mn) bl)"
  shows "recv_blks rb unprot mn bl (length bl) (length L) j (L ! j) =
    Inr (case first_from (sel unprot (ack_blk_ranges (uint mn) bl)) L j of None \<Rightarrow> Return | Some i \<Rightarrow> Hit i)"
  using assms(2-4)
proof (induction bl arbitrary: mn j)
  case Nil
  have "first_from (sel unprot []) L j = None" for j
  proof (cases "first_from (sel unprot []) L j")
    case (Some i)
    then show ?thesis using first_from_Some [OF Some] by (simp add: sel_def)
  qed
  then show ?case by simp
next
  case (Cons b bl)
  let ?hi = "mn - gap b - 2" let ?lo = "?hi - blklen b"
  have nn: "0 \<le> uint mn - uint (gap b) - 2 - uint (blklen b)" using Cons.prems(3) by (simp add: Let_def)
  note u = blk_bounds [OF nn]
  have lh: "?lo \<le> ?hi" unfolding word_le_def u using u by simp
  have rs: "ack_blk_ranges (uint mn) (b # bl) = (uint ?lo, uint ?hi) # ack_blk_ranges (uint ?lo) bl"
    using u by (simp add: Let_def)
  obtain r where r: "recv_blk rb unprot ?lo ?hi (length L) j (L ! j) = Inr r"
      "step_ok unprot (ack_blk_ranges (uint ?lo) bl) (uint ?lo) (uint ?hi) L j r"
    using recv_blk_ok [OF assms(1) refl Cons.prems(1) refl lh in_ranges_below [of _ bl]] by blast
  have unf: "recv_blks rb unprot mn (b # bl) (length (b # bl)) (length L) j (L ! j) =
      (case r of Next j e \<Rightarrow> recv_blks rb unprot ?lo bl (length bl) (length L) j e | _ \<Rightarrow> Inr r)"
    using Cons.prems(1) r(1) by (simp add: Let_def)
  have vb: "list_all (\<lambda>(lo, hi). 0 \<le> lo) (ack_blk_ranges (uint ?lo) bl)" using Cons.prems(3) unfolding rs by simp
  show ?case
  proof (cases r)
    case (Next i e)
    then have n: "e = L ! i" "i < length L" "uint (ae_pkt_num (L ! i)) < uint ?lo"
        "first_from (sel unprot ((uint ?lo, uint ?hi) # ack_blk_ranges (uint ?lo) bl)) L j =
         first_from (sel unprot (ack_blk_ranges (uint ?lo) bl)) L i"
      using r(2) by (auto simp: step_ok_def)
    show ?thesis using Cons.IH [OF n(2,3) vb] unfolding unf rs n(4) by (simp add: Next n(1))
  next
    case Return
    then show ?thesis using r(2) unfolding unf rs by (simp add: step_ok_def)
  next
    case (Hit i)
    then show ?thesis using r(2) unfolding unf rs by (simp add: step_ok_def)
  qed
qed

lemma recv_first_blk:
  assumes "holds rb L" and "nacks = length L" and "j < length L" and "e = L ! j" and "ae_pkt_num e \<le> largest"
  shows "recv_first rb unprot mn largest nacks j e = recv_blk rb unprot mn largest nacks j e"
  using assms
proof (induction rb unprot mn largest nacks j e rule: recv_first.induct)
  case (1 rb unprot mn largest nacks j e)
  have "recv_first rb unprot mn largest nacks (j + 1) x = recv_blk rb unprot mn largest nacks (j + 1) x"
    if "mn \<le> ae_pkt_num e" "unprot \<and> \<not> ae_unprotected e" "j + 1 \<noteq> nacks" "ack_at rb (j + 1) = Inr x" for x
  proof -
    have j: "j + 1 < length L" using that(3) 1(3,4) by simp
    then have x: "x = L ! (j + 1)" using that(4) holds_at_pos [OF 1(2)] by simp
    have "ae_pkt_num x \<le> largest"
      using holds_mono [OF 1(2), of j "j + 1"] j 1(5,6) unfolding x word_le_def by simp
    then show ?thesis using 1(1) [OF _ that(2,3,4) 1(2,3) j x] that(1) 1(6) by blast
  qed
  then have "rbind (ack_at rb (j + 1)) (recv_first rb unprot mn largest nacks (j + 1)) =
      rbind (ack_at rb (j + 1)) (recv_blk rb unprot mn largest nacks (j + 1))"
    if "mn \<le> ae_pkt_num e" "unprot \<and> \<not> ae_unprotected e" "j + 1 \<noteq> nacks"
    using that by (cases "ack_at rb (j + 1)") simp_all
  moreover have "\<not> largest < ae_pkt_num e" using 1(6) by (simp add: not_less)
  moreover have "ae_pkt_num e < mn \<longleftrightarrow> \<not> mn \<le> ae_pkt_num e" by (simp add: not_le)
  ultimately show ?case
    unfolding recv_first.simps [of rb unprot mn largest nacks j e] recv_blk.simps [of rb unprot mn largest nacks j e]
    using 1(6) by (cases "mn \<le> ae_pkt_num e") (simp_all del: not_le not_less)
qed

lemma recv_skip_ok:
  assumes "holds rb L"
  shows "\<exists>r. recv_skip rb largest (length L) j = Inr r \<and>
    (case r of
       Return \<Rightarrow> \<forall>i. j \<le> i \<and> i < length L \<longrightarrow> ae_pkt_num (L ! i) > largest
     | Next i e \<Rightarrow> j \<le> i \<and> i < length L \<and> e = L ! i \<and> ae_pkt_num e \<le> largest \<and>
         (\<forall>k. j \<le> k \<and> k < i \<longrightarrow> ae_pkt_num (L ! k) > largest)
     | Hit i \<Rightarrow> False)"
  using assms
proof (induction "length L - j" arbitrary: j)
  case 0
  then show ?case by (subst recv_skip.simps) auto
next
  case (Suc n)
  then have j: "j < length L" by simp
  have unf: "recv_skip rb largest (length L) j =
      (if ae_pkt_num (L ! j) \<le> largest then Inr (Next j (L ! j)) else recv_skip rb largest (length L) (j + 1))"
    using j holds_at_pos [OF Suc.prems] by (subst recv_skip.simps) simp
  show ?case
  proof (cases "ae_pkt_num (L ! j) \<le> largest")
    case True
    then show ?thesis unfolding unf using j by auto
  next
    case False
    then have gt: "ae_pkt_num (L ! j) > largest" by simp
    have le: "j \<le> i \<longleftrightarrow> i = j \<or> j + 1 \<le> i" for i by auto
    have "n = length L - (j + 1)" using Suc(2) by simp
    from Suc(1) [OF this Suc.prems] obtain r where r: "recv_skip rb largest (length L) (j + 1) = Inr r"
      "case r of
         Return \<Rightarrow> \<forall>i. j + 1 \<le> i \<and> i < length L \<longrightarrow> ae_pkt_num (L ! i) > largest
       | Next i e \<Rightarrow> j + 1 \<le> i \<and> i < length L \<and> e = L ! i \<and> ae_pkt_num e \<le> largest \<and>
           (\<forall>k. j + 1 \<le> k \<and> k < i \<longrightarrow> ae_pkt_num (L ! k) > largest)
       | Hit i \<Rightarrow> False" by blast
    then have "case r of
         Return \<Rightarrow> \<forall>i. j \<le> i \<and> i < length L \<longrightarrow> ae_pkt_num (L ! i) > largest
       | Next i e \<Rightarrow> j \<le> i \<and> i < length L \<and> e = L ! i \<and> ae_pkt_num e \<le> largest \<and>
           (\<forall>k. j \<le> k \<and> k < i \<longrightarrow> ae_pkt_num (L ! k) > largest)
       | Hit i \<Rightarrow> False" using gt unfolding le by (cases r) auto
    then show ?thesis unfolding unf using False r(1) by auto
  qed
qed

lemma first_from_skip:
  assumes "j \<le> i" and "i \<le> length xs" and "\<And>k. j \<le> k \<Longrightarrow> k < i \<Longrightarrow> \<not> P (xs ! k)"
  shows "first_from P xs j = first_from P xs i"
  using assms
proof (induction "i - j" arbitrary: j)
  case (Suc n)
  then have "first_from P xs j = first_from P xs (j + 1)" by (intro first_from_step) auto
  also have "\<dots> = first_from P xs i" using Suc by (intro Suc(1)) auto
  finally show ?case .
qed simp

text \<open>
  The first position whose packet the frame acknowledges: an acknowledgement that arrives in an
  unprotected packet counts for ACK frames sent in unprotected packets only.
\<close>

lemma recv_ack_ok:
  assumes wf: "acktr_wf a" and v: "ack_valid fr"
  shows "ngtcp2_acktr_recv_ack a fr unprot =
    (case first_from (sel unprot (ack_ranges fr)) (ack_list a) 0 of
       None \<Rightarrow> Inr a | Some j \<Rightarrow> acktr_on_ack a j)"
proof -
  let ?rb = "acks a" and ?L = "ack_list a" let ?hi = "largest_ack fr" let ?mn = "?hi - first_ack_blklen fr"
  let ?rs = "ack_blk_ranges (uint ?mn) (blks fr)" let ?P = "sel unprot (ack_ranges fr)"
  have h: "holds ?rb ?L" using wf by (simp add: holds_def acktr_wf_def)
  have le: "uint (first_ack_blklen fr) \<le> uint ?hi" using v by (simp add: ack_valid_def ack_ranges_def Let_def)
  have u: "uint ?mn = uint ?hi - uint (first_ack_blklen fr)" using le uint_sub_lem by blast
  have ml: "?mn \<le> ?hi" unfolding word_le_def u by simp
  have rs: "ack_ranges fr = (uint ?mn, uint ?hi) # ?rs" using u by (simp add: ack_ranges_def Let_def)
  have vb: "list_all (\<lambda>(lo, hi). 0 \<le> lo) ?rs" and nb: "num_blks fr = length (blks fr)"
    using v rs by (simp_all add: ack_valid_def)
  have above: "\<not> ?P e" if "ae_pkt_num e > ?hi" for e
    using that in_ranges_below [of "uint ?mn" "blks fr" "ae_pkt_num e"] ml
    unfolding sel_def rs in_ranges_Cons word_less_def word_le_def by fastforce
  obtain r where r: "recv_skip ?rb ?hi (length ?L) 0 = Inr r"
    "case r of
       Return \<Rightarrow> \<forall>i. 0 \<le> i \<and> i < length ?L \<longrightarrow> ae_pkt_num (?L ! i) > ?hi
     | Next i e \<Rightarrow> 0 \<le> i \<and> i < length ?L \<and> e = ?L ! i \<and> ae_pkt_num e \<le> ?hi \<and>
         (\<forall>k. 0 \<le> k \<and> k < i \<longrightarrow> ae_pkt_num (?L ! k) > ?hi)
     | Hit i \<Rightarrow> False" using recv_skip_ok [OF h, of ?hi 0] by blast
  show ?thesis
  proof (cases r)
    case Return
    then have "first_from ?P ?L 0 = None"
      using first_from_skip [of 0 "length ?L" ?L ?P] first_from_end [of ?L "length ?L" ?P] r(2) above by simp
    then show ?thesis using r(1) Return holds_len [OF h] by (simp add: ngtcp2_acktr_recv_ack_def Let_def)
  next
    case (Next i e)
    then have i: "i < length ?L" "e = ?L ! i" "ae_pkt_num e \<le> ?hi" "\<forall>k < i. ae_pkt_num (?L ! k) > ?hi"
      using r(2) by auto
    have ff: "first_from ?P ?L 0 = first_from ?P ?L i" using first_from_skip [of 0 i ?L ?P] i above by simp
    obtain s where s: "recv_blk ?rb unprot ?mn ?hi (length ?L) i e = Inr s"
        "step_ok unprot ?rs (uint ?mn) (uint ?hi) ?L i s"
      using recv_blk_ok [OF h refl i(1,2) ml in_ranges_below [of _ "blks fr"]] by blast
    have "(case s of Next j e \<Rightarrow> recv_blks ?rb unprot ?mn (blks fr) (num_blks fr) (length ?L) j e | _ \<Rightarrow> Inr s) =
        Inr (case first_from ?P ?L 0 of None \<Rightarrow> Return | Some j \<Rightarrow> Hit j)"
      using s(2) recv_blks_ok [OF h _ _ vb, of _ unprot] unfolding ff unfolding rs nb
      by (cases s) (simp_all add: step_ok_def)
    then show ?thesis
      unfolding ngtcp2_acktr_recv_ack_def Let_def holds_len [OF h] r(1) Next rbind_simps recv_step.case
        recv_first_blk [OF h refl i(1-3), of unprot ?mn] s(1)
      by (cases "first_from ?P ?L 0") simp_all
  qed (use r(2) in simp)
qed

lemma add_ack_ok:
  assumes wf: "acktr_wf a" and v: "ack_valid fr" and new: "\<forall>e \<in> set (ack_list a). ae_pkt_num e < pn"
  shows "\<exists>a'. ngtcp2_acktr_add_ack a pn fr unprot = Inr a' \<and> acktr_wf a' \<and> ent a' = ent a \<and>
    ack_list a' = take 128 (\<lparr>ae_ack = fr, ae_pkt_num = pn, ae_unprotected = unprot\<rparr> # ack_list a)"
proof -
  let ?e = "\<lparr>ae_ack = fr, ae_pkt_num = pn, ae_unprotected = unprot\<rparr>"
  have w: "rb_wf (acks a)" "length (rb_buf (acks a)) = 128" "rb_list (acks a) = map Some (ack_list a)"
      "sorted_wrt (\<lambda>a b. ae_pkt_num a > ae_pkt_num b) (ack_list a)" "list_all (\<lambda>e. ack_valid (ae_ack e)) (ack_list a)"
    using wf by (simp_all add: acktr_wf_def)
  obtain rb where rb: "rb_push (acks a) ?e = Inr rb" "rb_wf rb" "length (rb_buf rb) = 128"
      "rb_list rb = take 128 (Some ?e # rb_list (acks a))" using ring.push_law [OF w(1), of ?e] w(2) by auto
  let ?a = "a\<lparr>acks := rb\<rparr>"
  have l: "rb_list rb = map Some (take 128 (?e # ack_list a))" using rb(4) w(3) by (simp add: take_map)
  then have al: "ack_list ?a = take 128 (?e # ack_list a)" by (simp add: ack_list_def)
  have "sorted_wrt (\<lambda>a b. ae_pkt_num a > ae_pkt_num b) (ack_list ?a)"
    unfolding al using w(4) new by (intro sorted_wrt_take) simp
  moreover have "list_all (\<lambda>e. ack_valid (ae_ack e)) (ack_list ?a)"
    unfolding al using w(5) v by (auto simp: list_all_iff dest!: in_set_takeD)
  ultimately have "acktr_wf ?a" using wf rb(2,3) l al by (simp add: acktr_wf_def)
  then show ?thesis using rb(1) al by (auto simp: ngtcp2_acktr_add_ack_def)
qed

section \<open>Properties\<close>

definition entry :: "u64 \<Rightarrow> ngtcp2_acktr_entry" where
  "entry n = \<lparr>pkt_num = n, tstamp = 0, unprotected = False\<rparr>"

definition ack_5_3 :: ngtcp2_ack where
  "ack_5_3 = \<lparr>largest_ack = 5, ack_delay = 0, first_ack_blklen = 0, num_blks = 1, blks = [\<lparr>gap = 0, blklen = 1\<rparr>]\<rparr>"

definition acktr_ex :: ngtcp2_acktr where
  "acktr_ex = \<lparr>acks = \<lparr>rb_buf = replicate 127 None @ [Some \<lparr>ae_ack = ack_5_3, ae_pkt_num = 7, ae_unprotected = False\<rparr>],
       rb_nmemb = 128, rb_size = 24, rb_first = 127, rb_len = 1\<rparr>,
     ent = [entry 9, entry 5, entry 4, entry 3, entry 1], nack = 5, active_ack = True\<rparr>"

lemma acktr_ex_acks: "ack_list acktr_ex = [\<lparr>ae_ack = ack_5_3, ae_pkt_num = 7, ae_unprotected = False\<rparr>]"
  by (simp add: ack_list_def rb_list_def acktr_ex_def slot_def nth_append)

lemma ack_5_3_ranges: "ack_ranges ack_5_3 = [(5, 5), (2, 3)]"
  by (simp add: ack_ranges_def ack_5_3_def Let_def)

lemma ack_5_3_valid: "ack_valid ack_5_3"
  unfolding ack_valid_def ack_5_3_ranges by (simp add: ack_5_3_def)

lemma acktr_ex_wf: "acktr_wf acktr_ex"
proof -
  have "rb_wf (acks acktr_ex)" unfolding rb_wf_def by (auto simp: acktr_ex_def intro!: exI [of _ 7])
  then show ?thesis
    unfolding acktr_wf_def acktr_ex_acks
    by (simp add: acktr_ex_def desc_def entry_def rb_list_def slot_def nth_append ack_5_3_valid)
qed

text \<open>
  C32. Tracking a received packet: a new packet number is added to the list, which stays in strictly
  decreasing order with its length counted in \<^verbatim>\<open>nack\<close>; beyond 1024 entries the one with the least
  packet number is dropped. A packet number that is already tracked is refused with
  \<^verbatim>\<open>NGTCP2_ERR_PROTO\<close>, and nothing changes.
\<close>

theorem acktr_add_correct:
  assumes "acktr_wf a"
  shows "if pkt_num e \<in> pkt_num ` set (ent a)
    then ngtcp2_acktr_add a e act = Inr (Some NGTCP2_ERR_PROTO, a)
    else \<exists>a'. ngtcp2_acktr_add a e act = Inr (None, a') \<and> acktr_wf a' \<and> active_ack a' = (act \<or> active_ack a) \<and>
      (if length (ent a) < NGTCP2_ACKTR_MAX_ENT then set (ent a') = insert e (set (ent a))
       else \<exists>x \<in> insert e (set (ent a)). set (ent a') = insert e (set (ent a)) - {x} \<and>
         (\<forall>y \<in> insert e (set (ent a)). pkt_num x \<le> pkt_num y))"
  using acktr_add_dup [OF assms] acktr_add_ok [OF assms] by simp

lemma acktr_add_correct_witness:
  "ngtcp2_acktr_add acktr_ex (entry 4) False = Inr (Some NGTCP2_ERR_PROTO, acktr_ex) \<and>
   (\<exists>a'. ngtcp2_acktr_add acktr_ex (entry 2) False = Inr (None, a') \<and> acktr_wf a' \<and>
      set (ent a') = insert (entry 2) (set (ent acktr_ex)))"
  using acktr_add_correct [OF acktr_ex_wf, of "entry 4" False] acktr_add_correct [OF acktr_ex_wf, of "entry 2" False]
  by (auto simp: acktr_ex_def entry_def)

text \<open>
  C33. Acknowledgement of acknowledgements: when a valid ACK frame arrives, \<^verbatim>\<open>ngtcp2_acktr_recv_ack\<close> finds the
  newest ACK frame it has sent whose packet the frame acknowledges (for a frame in an unprotected
  packet, among the ACK frames sent unprotected), removes from the tracker exactly the packets that
  ACK frame covered, and forgets that ACK frame and all older ones. Without such an ACK frame nothing
  changes. Here the 64-bit range arithmetic of the code agrees with the ranges over the integers, no
  assertion of the ring buffer fails, and the loops end.
\<close>

theorem acktr_recv_ack_exact:
  assumes "acktr_wf a" and "ack_valid fr"
  shows "(\<exists>j a'. j < length (ack_list a) \<and>
      (acked fr (ae_pkt_num (ack_list a ! j)) \<and> (unprot \<longrightarrow> ae_unprotected (ack_list a ! j))) \<and>
      (\<forall>i < j. \<not> (acked fr (ae_pkt_num (ack_list a ! i)) \<and> (unprot \<longrightarrow> ae_unprotected (ack_list a ! i)))) \<and>
      ngtcp2_acktr_recv_ack a fr unprot = Inr a' \<and> acktr_wf a' \<and>
      ent a' = [p \<leftarrow> ent a. \<not> acked (ae_ack (ack_list a ! j)) (pkt_num p)] \<and>
      ack_list a' = take j (ack_list a)) \<or>
    (\<forall>i < length (ack_list a).
        \<not> (acked fr (ae_pkt_num (ack_list a ! i)) \<and> (unprot \<longrightarrow> ae_unprotected (ack_list a ! i)))) \<and>
      ngtcp2_acktr_recv_ack a fr unprot = Inr a"
proof (cases "first_from (sel unprot (ack_ranges fr)) (ack_list a) 0")
  case None
  then show ?thesis using first_from_None [OF None] recv_ack_ok [OF assms] by (simp add: sel_def acked_def)
next
  case (Some j)
  note j = first_from_Some [OF Some]
  show ?thesis
    using j acktr_on_ack_ok [OF assms(1), of j] recv_ack_ok [OF assms] Some by (auto simp: sel_def acked_def)
qed

lemma acktr_recv_ack_exact_witness:
  "\<exists>a'. ngtcp2_acktr_recv_ack acktr_ex \<lparr>largest_ack = 8, ack_delay = 0, first_ack_blklen = 2, num_blks = 0, blks = []\<rparr>
     False = Inr a' \<and> ent a' = [entry 9, entry 4, entry 1] \<and> ack_list a' = []"
proof -
  let ?fr = "\<lparr>largest_ack = 8, ack_delay = 0, first_ack_blklen = 2, num_blks = 0, blks = []\<rparr> :: ngtcp2_ack"
  have v: "ack_valid ?fr" and a: "acked ?fr 7" by (simp_all add: ack_valid_def acked_def in_ranges_def ack_ranges_def Let_def)
  have f: "[p \<leftarrow> ent acktr_ex. \<not> acked ack_5_3 (pkt_num p)] = [entry 9, entry 4, entry 1]"
    by (simp add: acktr_ex_def acked_def ack_5_3_ranges in_ranges_def entry_def)
  show ?thesis
    using acktr_recv_ack_exact [OF acktr_ex_wf v, of False] unfolding acktr_ex_acks using a f by auto
qed

end
