(* ===== verification/Rtb.thy ===== *)
theory Rtb
  imports Pq Acktr
begin

text \<open>
  \<^verbatim>\<open>lib/ngtcp2_rtb.c\<close>: the retransmission buffer. Every packet that waits for an acknowledgement is an
  entry, linked into the list \<^verbatim>\<open>head\<close> and stored in the priority queue by its expiry. The model takes
  the entry itself as its identity in the queue. What \<^verbatim>\<open>ngtcp2_rtb_recv_ack\<close> does to the connection
  for an acknowledged entry (\<^verbatim>\<open>call_acked_stream_offset\<close>) is a parameter \<open>cb\<close> on a state \<open>'s\<close> here.
\<close>

section \<open>State and operations\<close>

abbreviation NGTCP2_INITIAL_EXPIRY :: u64 where
  "NGTCP2_INITIAL_EXPIRY \<equiv> 1000000"

abbreviation NGTCP2_RTB_FLAG_UNPROTECTED :: u8 where
  "NGTCP2_RTB_FLAG_UNPROTECTED \<equiv> 1"

type_synonym ngtcp2_frame_chain = "ngtcp2_frame list"

record ngtcp2_rtb_entry =
  re_hd :: ngtcp2_pkt_hd
  re_frc :: ngtcp2_frame_chain
  re_expiry :: u64
  re_deadline :: u64
  re_count :: nat
  re_pktlen :: nat
  re_flags :: u8

definition ngtcp2_frame_chain_new :: "mem \<Rightarrow> ngtcp2_frame \<Rightarrow> rv \<times> ngtcp2_frame_chain option \<times> mem" where
  "ngtcp2_frame_chain_new m fr =
     (let (ok, m) = malloc m in if \<not> ok then (Some NGTCP2_ERR_NOMEM, None, m) else (None, Some [fr], m))"

definition ngtcp2_rtb_entry_new ::
    "mem \<Rightarrow> ngtcp2_pkt_hd \<Rightarrow> ngtcp2_frame_chain \<Rightarrow> u64 \<Rightarrow> u64 \<Rightarrow> nat \<Rightarrow> u8 \<Rightarrow> rv \<times> ngtcp2_rtb_entry option \<times> mem" where
  "ngtcp2_rtb_entry_new m h frc ts deadline pktlen flags =
     (let (ok, m) = malloc m in
      if \<not> ok then (Some NGTCP2_ERR_NOMEM, None, m)
      else (None, Some \<lparr>re_hd = h, re_frc = frc, re_expiry = ts + NGTCP2_INITIAL_EXPIRY, re_deadline = deadline,
              re_count = 0, re_pktlen = pktlen, re_flags = flags\<rparr>, m))"

text \<open>A shift by 64 or more is undefined behaviour.\<close>

definition ngtcp2_rtb_entry_extend_expiry :: "ngtcp2_rtb_entry \<Rightarrow> u64 \<Rightarrow> ngtcp2_rtb_entry res" where
  "ngtcp2_rtb_entry_extend_expiry e ts =
     (let e = e\<lparr>re_count := szadd (re_count e) 1\<rparr> in
      if re_count e < 64
      then Inr (e\<lparr>re_expiry := ts + push_bit (re_count e) NGTCP2_INITIAL_EXPIRY\<rparr>)
      else Inl OutOfBounds)"

definition expiry_less :: "ngtcp2_rtb_entry \<Rightarrow> ngtcp2_rtb_entry \<Rightarrow> bool" where
  "expiry_less lhs rhs = (re_expiry lhs < re_expiry rhs)"

record ngtcp2_rtb =
  rtb_pq :: "ngtcp2_rtb_entry ngtcp2_pq"
  rtb_head :: "ngtcp2_rtb_entry list"
  bytes_in_flight :: nat
  largest_acked :: u64

definition ngtcp2_rtb_init :: "(ngtcp2_rtb_entry \<Rightarrow> nat) \<Rightarrow> ngtcp2_rtb" where
  "ngtcp2_rtb_init idx = \<lparr>rtb_pq = ngtcp2_pq_init expiry_less idx, rtb_head = [], bytes_in_flight = 0, largest_acked = 0\<rparr>"

definition ngtcp2_rtb_add :: "mem \<Rightarrow> ngtcp2_rtb \<Rightarrow> ngtcp2_rtb_entry \<Rightarrow> rv \<times> ngtcp2_rtb \<times> mem" where
  "ngtcp2_rtb_add m rtb e =
     (let (rv, pq, m) = ngtcp2_pq_push m (rtb_pq rtb) e in
      if rv \<noteq> None then (rv, rtb\<lparr>rtb_pq := pq\<rparr>, m)
      else (None, rtb\<lparr>rtb_pq := pq, rtb_head := e # rtb_head rtb,
              bytes_in_flight := szadd (bytes_in_flight rtb) (re_pktlen e)\<rparr>, m))"

definition ngtcp2_rtb_top :: "ngtcp2_rtb \<Rightarrow> ngtcp2_rtb_entry option" where
  "ngtcp2_rtb_top rtb = (if ngtcp2_pq_empty (rtb_pq rtb) then None else ngtcp2_pq_top (rtb_pq rtb))"

definition ngtcp2_rtb_pop :: "ngtcp2_rtb \<Rightarrow> ngtcp2_rtb res" where
  "ngtcp2_rtb_pop rtb =
     (case ngtcp2_pq_top (rtb_pq rtb) of
        None \<Rightarrow> Inr rtb
      | Some e \<Rightarrow>
          rassert (bytes_in_flight rtb \<ge> re_pktlen e)
            (Inr (rtb\<lparr>rtb_pq := ngtcp2_pq_pop (rtb_pq rtb), bytes_in_flight := bytes_in_flight rtb - re_pktlen e,
                   rtb_head := remove1 e (rtb_head rtb)\<rparr>)))"

text \<open>
  The state the acknowledgement loops change besides the list: the queue, the bytes in flight, the
  largest acknowledged packet number and the state of the callback. \<open>rtb_remove\<close> is the function of
  that name without the unlinking, which the loops do on the list they walk along.
\<close>

type_synonym 's ack_state = "ngtcp2_rtb_entry ngtcp2_pq \<times> nat \<times> u64 \<times> 's"

definition rtb_remove :: "ngtcp2_rtb_entry \<Rightarrow> ngtcp2_rtb_entry ngtcp2_pq \<times> nat \<Rightarrow> (ngtcp2_rtb_entry ngtcp2_pq \<times> nat) res" where
  "rtb_remove e = (\<lambda>(pq, bytes).
     rbind (ngtcp2_pq_remove pq e) (\<lambda>pq. rassert (bytes \<ge> re_pktlen e) (Inr (pq, bytes - re_pktlen e))))"

definition unprot_skip :: "bool \<Rightarrow> ngtcp2_rtb_entry \<Rightarrow> bool" where
  "unprot_skip unprot e = (unprot \<and> \<not> re_flags e AND NGTCP2_RTB_FLAG_UNPROTECTED \<noteq> 0)"

abbreviation pn :: "ngtcp2_rtb_entry \<Rightarrow> u64" where
  "pn e \<equiv> hd_pkt_num (re_hd e)"

definition ack_entry ::
    "(ngtcp2_rtb_entry \<Rightarrow> 's \<Rightarrow> rv \<times> 's) \<Rightarrow> ngtcp2_rtb_entry \<Rightarrow> 's ack_state \<Rightarrow> (rv \<times> 's ack_state) res" where
  "ack_entry cb e = (\<lambda>(pq, bytes, la, s).
     let (rv, s) = cb e s in
     if rv \<noteq> None then Inr (rv, (pq, bytes, la, s))
     else rbind (rtb_remove e (pq, bytes)) (\<lambda>(pq, bytes). Inr (None, (pq, bytes, max la (pn e), s))))"

text \<open>
  Each loop returns the entries it leaves behind, the entries from \<^verbatim>\<open>*pent\<close> on, and the state; the first
  component tells whether the function has returned with an error.
\<close>

fun ack_first ::
    "(ngtcp2_rtb_entry \<Rightarrow> 's \<Rightarrow> rv \<times> 's) \<Rightarrow> bool \<Rightarrow> u64 \<Rightarrow> u64 \<Rightarrow> ngtcp2_rtb_entry list \<Rightarrow> 's ack_state \<Rightarrow>
     (rv \<times> ngtcp2_rtb_entry list \<times> ngtcp2_rtb_entry list \<times> 's ack_state) res" where
  "ack_first cb unprot mn largest [] st = Inr (None, [], [], st)"
| "ack_first cb unprot mn largest (e # es) st =
     (if mn \<le> pn e \<and> pn e \<le> largest then
        if unprot_skip unprot e then
          rbind (ack_first cb unprot mn largest es st) (\<lambda>(rv, kept, rest, st). Inr (rv, e # kept, rest, st))
        else
          rbind (ack_entry cb e st) (\<lambda>(rv, st).
          if rv \<noteq> None then Inr (rv, [], e # es, st) else ack_first cb unprot mn largest es st)
      else Inr (None, [], e # es, st))"

fun ack_blk ::
    "(ngtcp2_rtb_entry \<Rightarrow> 's \<Rightarrow> rv \<times> 's) \<Rightarrow> bool \<Rightarrow> u64 \<Rightarrow> u64 \<Rightarrow> ngtcp2_rtb_entry list \<Rightarrow> 's ack_state \<Rightarrow>
     (rv \<times> ngtcp2_rtb_entry list \<times> ngtcp2_rtb_entry list \<times> 's ack_state) res" where
  "ack_blk cb unprot mn largest [] st = Inr (None, [], [], st)"
| "ack_blk cb unprot mn largest (e # es) st =
     (if pn e > largest then
        rbind (ack_blk cb unprot mn largest es st) (\<lambda>(rv, kept, rest, st). Inr (rv, e # kept, rest, st))
      else if pn e < mn then Inr (None, [], e # es, st)
      else if unprot_skip unprot e then
        rbind (ack_blk cb unprot mn largest es st) (\<lambda>(rv, kept, rest, st). Inr (rv, e # kept, rest, st))
      else
        rbind (ack_entry cb e st) (\<lambda>(rv, st).
        if rv \<noteq> None then Inr (rv, [], e # es, st) else ack_blk cb unprot mn largest es st))"

fun ack_blks ::
    "(ngtcp2_rtb_entry \<Rightarrow> 's \<Rightarrow> rv \<times> 's) \<Rightarrow> bool \<Rightarrow> u64 \<Rightarrow> ngtcp2_ack_blk list \<Rightarrow> nat \<Rightarrow> ngtcp2_rtb_entry list \<Rightarrow> 's ack_state \<Rightarrow>
     (rv \<times> ngtcp2_rtb_entry list \<times> 's ack_state) res" where
  "ack_blks cb unprot mn bl 0 es st = Inr (None, es, st)"
| "ack_blks cb unprot mn bl (Suc k) es st =
     (if es = [] then Inr (None, [], st)
      else case bl of
        [] \<Rightarrow> Inl OutOfBounds
      | b # bl \<Rightarrow>
          let largest = mn - gap b - 2; mn = largest - blklen b in
          rbind (ack_blk cb unprot mn largest es st) (\<lambda>(rv, kept, rest, st).
          if rv \<noteq> None then Inr (rv, kept @ rest, st)
          else rbind (ack_blks cb unprot mn bl k rest st) (\<lambda>(rv, es, st). Inr (rv, kept @ es, st))))"

definition ngtcp2_rtb_recv_ack ::
    "(ngtcp2_rtb_entry \<Rightarrow> 's \<Rightarrow> rv \<times> 's) \<Rightarrow> ngtcp2_rtb \<Rightarrow> ngtcp2_ack \<Rightarrow> bool \<Rightarrow> 's \<Rightarrow> (rv \<times> ngtcp2_rtb \<times> 's) res" where
  "ngtcp2_rtb_recv_ack cb rtb fr unprot s =
     (let largest = largest_ack fr;
          above = takeWhile (\<lambda>e. \<not> largest \<ge> pn e) (rtb_head rtb);
          es = dropWhile (\<lambda>e. \<not> largest \<ge> pn e) (rtb_head rtb)
      in
        if es = [] then Inr (None, rtb, s)
        else
          let mn = largest - first_ack_blklen fr in
          rbind (ack_first cb unprot mn largest es (rtb_pq rtb, bytes_in_flight rtb, largest_acked rtb, s))
            (\<lambda>(rv, kept, rest, st).
          rbind (if rv \<noteq> None then Inr (rv, rest, st) else ack_blks cb unprot mn (blks fr) (num_blks fr) rest st)
            (\<lambda>(rv, es, (pq, bytes, la, s)).
          Inr (rv, rtb\<lparr>rtb_pq := pq, rtb_head := above @ kept @ es, bytes_in_flight := bytes, largest_acked := la\<rparr>, s))))"

section \<open>The invariant\<close>

definition rdesc :: "ngtcp2_rtb_entry list \<Rightarrow> bool" where
  "rdesc es = sorted_wrt (\<lambda>a b. pn a > pn b) es"

text \<open>List and queue hold the same entries, and their lengths add up to the bytes in flight.\<close>

definition rtb_wf :: "ngtcp2_rtb \<Rightarrow> bool" where
  "rtb_wf rtb = (pq_wf (rtb_pq rtb) \<and> less (rtb_pq rtb) = expiry_less \<and>
     mset (q (rtb_pq rtb)) = mset (rtb_head rtb) \<and>
     bytes_in_flight rtb = sum_list (map re_pktlen (rtb_head rtb)) \<and> bytes_in_flight rtb < 2 ^ 64)"

lemma expiry_weak_order: "weak_order expiry_less"
  unfolding weak_order_def expiry_less_def by (auto simp: not_less)

lemma rdesc_Cons: "rdesc (e # es) \<longleftrightarrow> (\<forall>x \<in> set es. pn x < pn e) \<and> rdesc es"
  by (simp add: rdesc_def)

section \<open>Adding, the next expiry, and removing it\<close>

lemma rtb_init_ok: "rtb_wf (ngtcp2_rtb_init idx) \<and> rdesc (rtb_head (ngtcp2_rtb_init idx))"
  by (simp add: rtb_wf_def ngtcp2_rtb_init_def ngtcp2_pq_init_def pq_wf_def expiry_weak_order is_heap_def
      index_ok_def rdesc_def)

lemma rtb_add_ok:
  assumes wf: "rtb_wf rtb" and new: "e \<notin> set (rtb_head rtb)" and m: "mem_ok m"
    and room: "capacity (rtb_pq rtb) < 2 ^ 62" "bytes_in_flight rtb + re_pktlen e < 2 ^ 64"
  shows "\<exists>rtb'. ngtcp2_rtb_add m rtb e = (None, rtb', m) \<and> rtb_wf rtb' \<and> rtb_head rtb' = e # rtb_head rtb \<and>
    largest_acked rtb' = largest_acked rtb"
proof -
  have w: "pq_wf (rtb_pq rtb)" "less (rtb_pq rtb) = expiry_less" "mset (q (rtb_pq rtb)) = mset (rtb_head rtb)"
    using wf by (simp_all add: rtb_wf_def)
  have "e \<notin> set (q (rtb_pq rtb))" using new w(3) set_mset_mset by metis
  moreover have "length (q (rtb_pq rtb)) < 2 ^ 62" using w(1) room(1) by (simp add: pq_wf_def)
  ultimately obtain pq where pq: "ngtcp2_pq_push m (rtb_pq rtb) e = (None, pq, m)" "pq_wf pq"
      "mset (q pq) = add_mset e (mset (q (rtb_pq rtb)))" "less pq = less (rtb_pq rtb)"
    using push_ok [OF w(1) _ m _ room(1)] by blast
  show ?thesis using pq w wf room(2) by (simp add: ngtcp2_rtb_add_def rtb_wf_def)
qed

lemma rtb_top_ok:
  assumes wf: "rtb_wf rtb"
  shows "ngtcp2_rtb_top rtb = None \<longleftrightarrow> rtb_head rtb = []"
    and "ngtcp2_rtb_top rtb = Some e \<Longrightarrow> e \<in> set (rtb_head rtb) \<and> (\<forall>x \<in> set (rtb_head rtb). re_expiry e \<le> re_expiry x)"
proof -
  have w: "pq_wf (rtb_pq rtb)" "less (rtb_pq rtb) = expiry_less" "mset (q (rtb_pq rtb)) = mset (rtb_head rtb)"
    using wf by (simp_all add: rtb_wf_def)
  have top: "ngtcp2_rtb_top rtb = ngtcp2_pq_top (rtb_pq rtb)"
    by (simp add: ngtcp2_rtb_top_def ngtcp2_pq_empty_def ngtcp2_pq_top_def)
  show "ngtcp2_rtb_top rtb = None \<longleftrightarrow> rtb_head rtb = []" using pqueue.top_None [OF w(1)] w(3) top by simp
  assume "ngtcp2_rtb_top rtb = Some e"
  then show "e \<in> set (rtb_head rtb) \<and> (\<forall>x \<in> set (rtb_head rtb). re_expiry e \<le> re_expiry x)"
    using pqueue.top_min [OF w(1), of e] w(2,3) top by (auto simp: expiry_less_def not_less)
qed

lemma sum_list_remove1: "e \<in> set es \<Longrightarrow> sum_list (map f (remove1 e es)) + f e = (sum_list (map f es) :: nat)"
  by (induction es) auto

lemma rtb_pop_ok:
  assumes wf: "rtb_wf rtb" and top: "ngtcp2_rtb_top rtb = Some e"
  shows "\<exists>rtb'. ngtcp2_rtb_pop rtb = Inr rtb' \<and> rtb_wf rtb' \<and> rtb_head rtb' = remove1 e (rtb_head rtb) \<and>
    largest_acked rtb' = largest_acked rtb"
proof -
  have w: "pq_wf (rtb_pq rtb)" "less (rtb_pq rtb) = expiry_less" "mset (q (rtb_pq rtb)) = mset (rtb_head rtb)"
      "bytes_in_flight rtb = sum_list (map re_pktlen (rtb_head rtb))" "bytes_in_flight rtb < 2 ^ 64"
    using wf by (simp_all add: rtb_wf_def)
  have tp: "ngtcp2_pq_top (rtb_pq rtb) = Some e"
    using top by (auto simp: ngtcp2_rtb_top_def split: if_splits)
  have el: "add_mset e (mset (q (ngtcp2_pq_pop (rtb_pq rtb)))) = mset (rtb_head rtb)"
    using pqueue.pop_elems [OF w(1) tp] w(3) by simp
  have e: "e \<in> set (rtb_head rtb)" using rtb_top_ok(2) [OF wf top] by blast
  have "mset (q (ngtcp2_pq_pop (rtb_pq rtb))) = mset (remove1 e (rtb_head rtb))"
    using el by (metis add_mset_remove_trivial mset_remove1)
  moreover have "bytes_in_flight rtb - re_pktlen e = sum_list (map re_pktlen (remove1 e (rtb_head rtb)))"
      "bytes_in_flight rtb \<ge> re_pktlen e"
    using sum_list_remove1 [OF e, of re_pktlen] w(4) by linarith+
  ultimately show ?thesis
    using tp w(5) pqueue.pop_inv [OF w(1)] pqueue.pop_lt [OF w(1)] w(2) by (simp add: ngtcp2_rtb_pop_def rtb_wf_def)
qed

section \<open>Removing acknowledged entries\<close>

abbreviation cb_ok :: "(ngtcp2_rtb_entry \<Rightarrow> 's \<Rightarrow> rv \<times> 's) \<Rightarrow> bool" where
  "cb_ok cb \<equiv> \<forall>e s. fst (cb e s) = None"

text \<open>The state after the entries \<open>R\<close> have been acknowledged, in that order.\<close>

fun removed :: "(ngtcp2_rtb_entry \<Rightarrow> 's \<Rightarrow> rv \<times> 's) \<Rightarrow> ngtcp2_rtb_entry list \<Rightarrow> 's ack_state \<Rightarrow> 's ack_state \<Rightarrow> bool" where
  "removed cb R (pq, bytes, la, s) (pq', bytes', la', s') =
     (pq_wf pq' \<and> less pq' = less pq \<and> mset (q pq) = mset R + mset (q pq') \<and>
      bytes = sum_list (map re_pktlen R) + bytes' \<and> la' = fold (\<lambda>e m. max m (pn e)) R la \<and>
      s' = fold (\<lambda>e s. snd (cb e s)) R s)"

fun covers :: "ngtcp2_rtb_entry list \<Rightarrow> 's ack_state \<Rightarrow> bool" where
  "covers R (pq, bytes, la, s) = (pq_wf pq \<and> mset R \<subseteq># mset (q pq) \<and> sum_list (map re_pktlen R) \<le> bytes)"

lemma removed_Nil: "covers R st \<Longrightarrow> removed cb [] st st"
  by (cases st) simp

lemma removed_append: "removed cb R st st' \<Longrightarrow> removed cb R' st' st'' \<Longrightarrow> removed cb (R @ R') st st''"
  by (cases st; cases st'; cases st'') (simp add: union_assoc)

lemma covers_append: "covers (R @ R') st \<Longrightarrow> removed cb R st st' \<Longrightarrow> covers R' st'"
  by (cases st; cases st') (simp add: subset_mset.add_le_cancel_left)

lemma covers_appendD: "covers (R @ R') st \<Longrightarrow> covers R st"
  by (cases st) (auto intro: subset_mset.order_trans [OF mset_subset_eq_add_left])

lemma ack_entry_ok:
  assumes "covers (e # R) st" and "cb_ok cb"
  shows "\<exists>st'. ack_entry cb e st = Inr (None, st') \<and> removed cb [e] st st'"
proof -
  obtain pq bytes la s where st: "st = (pq, bytes, la, s)" by (cases st)
  have c: "pq_wf pq" "e \<in> set (q pq)" "re_pktlen e \<le> bytes"
    using assms(1) st by (auto dest: mset_subset_eqD)
  obtain pq' where pq': "ngtcp2_pq_remove pq e = Inr pq'" "pq_wf pq'" "less pq' = less pq"
      "add_mset e (mset (q pq')) = mset (q pq)" using remove_ok [OF c(1,2)] by blast
  obtain s' where s': "cb e s = (None, s')" using assms(2) by (metis prod.collapse)
  have "ack_entry cb e st = Inr (None, (pq', bytes - re_pktlen e, max la (pn e), s'))"
    using pq'(1) s' c(3) st by (simp add: ack_entry_def rtb_remove_def)
  moreover have "removed cb [e] st (pq', bytes - re_pktlen e, max la (pn e), s')"
    using pq' s' c(3) st by simp
  ultimately show ?thesis by blast
qed

definition hit :: "bool \<Rightarrow> u64 \<Rightarrow> u64 \<Rightarrow> ngtcp2_rtb_entry \<Rightarrow> bool" where
  "hit unprot mn largest e = (mn \<le> pn e \<and> pn e \<le> largest \<and> \<not> unprot_skip unprot e)"

definition blk_post ::
    "(ngtcp2_rtb_entry \<Rightarrow> 's \<Rightarrow> rv \<times> 's) \<Rightarrow> bool \<Rightarrow> u64 \<Rightarrow> u64 \<Rightarrow> ngtcp2_rtb_entry list \<Rightarrow> 's ack_state \<Rightarrow>
     (rv \<times> ngtcp2_rtb_entry list \<times> ngtcp2_rtb_entry list \<times> 's ack_state) res \<Rightarrow> bool" where
  "blk_post cb unprot mn largest es st r =
     (\<exists>kept rest st'. r = Inr (None, kept, rest, st') \<and> kept @ rest = [e \<leftarrow> es. \<not> hit unprot mn largest e] \<and>
        removed cb [e \<leftarrow> es. hit unprot mn largest e] st st' \<and> (\<forall>e \<in> set kept. mn \<le> pn e) \<and>
        (\<forall>e \<in> set rest. pn e < mn) \<and> rdesc rest)"

lemma blk_post_keep:
  assumes "blk_post cb unprot mn largest es st r" and "\<not> hit unprot mn largest e" and "mn \<le> pn e"
  shows "blk_post cb unprot mn largest (e # es) st (rbind r (\<lambda>(rv, kept, rest, st). Inr (rv, e # kept, rest, st)))"
  using assms unfolding blk_post_def by (elim exE conjE) (rule_tac exI [of _ "e # _"], auto)

lemma ack_blk_ok:
  assumes "rdesc es" and "mn \<le> largest" and "cb_ok cb" and "covers [e \<leftarrow> es. hit unprot mn largest e] st"
  shows "blk_post cb unprot mn largest es st (ack_blk cb unprot mn largest es st)"
  using assms(1,4)
proof (induction es arbitrary: st)
  case Nil
  then show ?case by (cases st) (simp add: blk_post_def rdesc_def)
next
  case (Cons e es)
  have es: "rdesc es" "\<forall>x \<in> set es. pn x < pn e" using Cons.prems(1) by (simp_all add: rdesc_Cons)
  consider "pn e > largest" | "\<not> pn e > largest" "pn e < mn"
    | "\<not> pn e > largest" "\<not> pn e < mn" "unprot_skip unprot e"
    | "\<not> pn e > largest" "\<not> pn e < mn" "\<not> unprot_skip unprot e" by blast
  then show ?case
  proof cases
    case 1
    then have nh: "\<not> hit unprot mn largest e" by (auto simp: hit_def)
    have "mn \<le> pn e" using 1 assms(2) by (meson less_imp_le order_trans)
    then show ?thesis using blk_post_keep [OF Cons.IH [OF es(1)] nh] Cons.prems(2) nh 1 by simp
  next
    case 2
    have lt: "\<forall>x \<in> set (e # es). pn x < mn" using es(2) 2(2) by (auto intro: less_trans)
    then have nh: "\<forall>x \<in> set (e # es). \<not> hit unprot mn largest x" by (auto simp: hit_def not_le)
    then have "[x \<leftarrow> e # es. \<not> hit unprot mn largest x] = e # es" "[x \<leftarrow> e # es. hit unprot mn largest x] = []"
      by (simp_all add: filter_empty_conv)
    moreover have "ack_blk cb unprot mn largest (e # es) st = Inr (None, [], e # es, st)" using 2 by simp
    ultimately show ?thesis
      using removed_Nil [OF Cons.prems(2)] lt Cons.prems(1) unfolding blk_post_def by simp
  next
    case 3
    then have nh: "\<not> hit unprot mn largest e" by (simp add: hit_def)
    have "mn \<le> pn e" using 3(2) by simp
    then show ?thesis using blk_post_keep [OF Cons.IH [OF es(1)] nh] Cons.prems(2) nh 3 by simp
  next
    case 4
    then have h: "hit unprot mn largest e" by (simp add: hit_def not_less)
    let ?R = "[e \<leftarrow> es. hit unprot mn largest e]"
    have cov: "covers (e # ?R) st" using Cons.prems(2) h by simp
    obtain st1 where st1: "ack_entry cb e st = Inr (None, st1)" "removed cb [e] st st1"
      using ack_entry_ok [OF cov assms(3)] by blast
    have "covers ?R st1" using covers_append [of "[e]" ?R st cb st1] cov st1(2) by simp
    note ih = Cons.IH [OF es(1) this]
    have "ack_blk cb unprot mn largest (e # es) st = ack_blk cb unprot mn largest es st1" using 4 st1(1) by simp
    then show ?thesis
      using ih h removed_append [OF st1(2)] unfolding blk_post_def by fastforce
  qed
qed

lemma ack_first_blk:
  "\<forall>e \<in> set es. pn e \<le> largest \<Longrightarrow> ack_first cb unprot mn largest es st = ack_blk cb unprot mn largest es st"
proof (induction es arbitrary: st)
  case (Cons e es)
  have "\<not> pn e > largest" "pn e \<le> largest" using Cons.prems by (simp_all add: not_less)
  moreover have "ack_first cb unprot mn largest es st = ack_blk cb unprot mn largest es st" for st
    using Cons by simp
  moreover have "pn e < mn \<longleftrightarrow> \<not> mn \<le> pn e" by (simp add: not_le)
  ultimately show ?case
    by (cases "mn \<le> pn e") (simp_all only: ack_first.simps ack_blk.simps simp_thms if_True if_False)
qed simp

definition rsel :: "bool \<Rightarrow> (int \<times> int) list \<Rightarrow> ngtcp2_rtb_entry \<Rightarrow> bool" where
  "rsel unprot rs e = (in_ranges rs (pn e) \<and> \<not> unprot_skip unprot e)"

lemma rsel_Cons: "rsel unprot ((uint mn, uint largest) # rs) e \<longleftrightarrow> hit unprot mn largest e \<or> rsel unprot rs e"
  by (auto simp: rsel_def hit_def in_ranges_Cons word_le_def)

lemma filter_above_below:
  assumes "rdesc es" and "\<And>e. A e \<Longrightarrow> mn \<le> pn e" and "\<And>e. B e \<Longrightarrow> pn e < mn"
  shows "[e \<leftarrow> es. A e \<or> B e] = [e \<leftarrow> es. A e] @ [e \<leftarrow> es. B e]"
  using assms(1)
proof (induction es)
  case (Cons e es)
  have es: "rdesc es" "\<forall>x \<in> set es. pn x < pn e" using Cons.prems by (simp_all add: rdesc_Cons)
  show ?case
  proof (cases "A e")
    case True
    then have "\<not> B e" using assms(2,3) [of e] by (auto simp: not_less)
    then show ?thesis using True Cons.IH [OF es(1)] by simp
  next
    case nA: False
    show ?thesis
    proof (cases "B e")
      case True
      then have "pn e < mn" using assms(3) by blast
      then have "\<not> A x" if "x \<in> set es" for x
        using es(2) that assms(2) [of x] by (meson leD less_trans)
      then have "[e \<leftarrow> es. A e] = []" by (simp add: filter_empty_conv)
      then show ?thesis using nA True Cons.IH [OF es(1)] by simp
    next
      case False
      then show ?thesis using nA Cons.IH [OF es(1)] by simp
    qed
  qed
qed simp

text \<open>A block followed by the blocks below it.\<close>

lemma blk_compose:
  assumes "rdesc es" and "blk_post cb unprot mn largest es st (Inr (None, kept, rest, st'))"
    and "\<forall>n. in_ranges rs n \<longrightarrow> uint n < uint mn"
  defines "P \<equiv> rsel unprot ((uint mn, uint largest) # rs)"
  shows "[e \<leftarrow> es. P e] = [e \<leftarrow> es. hit unprot mn largest e] @ [e \<leftarrow> rest. rsel unprot rs e]"
    and "[e \<leftarrow> es. \<not> P e] = kept @ [e \<leftarrow> rest. \<not> rsel unprot rs e]"
proof -
  have p: "kept @ rest = [e \<leftarrow> es. \<not> hit unprot mn largest e]" "\<forall>e \<in> set kept. mn \<le> pn e"
    using assms(2) by (auto simp: blk_post_def)
  have low: "rsel unprot rs e \<Longrightarrow> pn e < mn" for e
    using assms(3) by (simp add: rsel_def word_less_def)
  have kept: "[e \<leftarrow> kept. rsel unprot rs e] = []" "[e \<leftarrow> kept. \<not> rsel unprot rs e] = kept"
    using p(2) low by (auto simp: filter_empty_conv filter_id_conv not_less [symmetric])
  have "[e \<leftarrow> es. rsel unprot rs e] = [e \<leftarrow> [e \<leftarrow> es. \<not> hit unprot mn largest e]. rsel unprot rs e]"
    unfolding filter_filter by (rule filter_cong [OF refl]) (use low in \<open>auto simp: hit_def not_le\<close>)
  then have "[e \<leftarrow> es. rsel unprot rs e] = [e \<leftarrow> rest. rsel unprot rs e]" unfolding p(1) [symmetric] using kept by simp
  moreover have "[e \<leftarrow> es. P e] = [e \<leftarrow> es. hit unprot mn largest e] @ [e \<leftarrow> es. rsel unprot rs e]"
    unfolding P_def rsel_Cons by (rule filter_above_below [OF assms(1), of _ mn]) (use low in \<open>auto simp: hit_def\<close>)
  ultimately show "[e \<leftarrow> es. P e] = [e \<leftarrow> es. hit unprot mn largest e] @ [e \<leftarrow> rest. rsel unprot rs e]" by simp
  have "[e \<leftarrow> es. \<not> P e] = [e \<leftarrow> [e \<leftarrow> es. \<not> hit unprot mn largest e]. \<not> rsel unprot rs e]"
    unfolding P_def rsel_Cons filter_filter by (simp add: conj_commute)
  then show "[e \<leftarrow> es. \<not> P e] = kept @ [e \<leftarrow> rest. \<not> rsel unprot rs e]" unfolding p(1) [symmetric] using kept by simp
qed

lemma ack_blks_ok:
  assumes "rdesc es" and "\<forall>e \<in> set es. pn e < mn" and "cb_ok cb"
    and "list_all (\<lambda>(lo, hi). 0 \<le> lo) (ack_blk_ranges (uint mn) bl)"
    and "covers [e \<leftarrow> es. rsel unprot (ack_blk_ranges (uint mn) bl) e] st"
  shows "\<exists>st'. ack_blks cb unprot mn bl (length bl) es st =
      Inr (None, [e \<leftarrow> es. \<not> rsel unprot (ack_blk_ranges (uint mn) bl) e], st') \<and>
    removed cb [e \<leftarrow> es. rsel unprot (ack_blk_ranges (uint mn) bl) e] st st'"
  using assms(1,2,4,5)
proof (induction bl arbitrary: mn es st)
  case Nil
  have "\<not> rsel unprot [] e" for e by (simp add: rsel_def)
  then show ?case using removed_Nil [OF Nil.prems(4)] by simp
next
  case (Cons b bl)
  let ?hi = "mn - gap b - 2" let ?lo = "?hi - blklen b"
  let ?rs = "ack_blk_ranges (uint ?lo) bl"
  have nn: "0 \<le> uint mn - uint (gap b) - 2 - uint (blklen b)" using Cons.prems(3) by (simp add: Let_def)
  note u = blk_bounds [OF nn]
  have lh: "?lo \<le> ?hi" unfolding word_le_def u using u by simp
  have rs: "ack_blk_ranges (uint mn) (b # bl) = (uint ?lo, uint ?hi) # ?rs" using u by (simp add: Let_def)
  have vb: "list_all (\<lambda>(lo, hi). 0 \<le> lo) ?rs" using Cons.prems(3) unfolding rs by simp
  note cov = Cons.prems(4) [unfolded rs]
  have "\<exists>kept rest st'. blk_post cb unprot ?lo ?hi es st (Inr (None, kept, rest, st')) \<and>
      ack_blk cb unprot ?lo ?hi es st = Inr (None, kept, rest, st')"
  proof -
    have "[e \<leftarrow> es. rsel unprot ((uint ?lo, uint ?hi) # ?rs) e] =
        [e \<leftarrow> es. hit unprot ?lo ?hi e] @ [e \<leftarrow> es. rsel unprot ?rs e]"
      unfolding rsel_Cons
      by (rule filter_above_below [OF Cons.prems(1), of _ ?lo])
        (use in_ranges_below [of "uint ?lo" bl] in \<open>auto simp: hit_def rsel_def word_less_def\<close>)
    then have "covers [e \<leftarrow> es. hit unprot ?lo ?hi e] st" using cov covers_appendD by metis
    from ack_blk_ok [OF Cons.prems(1) lh assms(3) this] show ?thesis unfolding blk_post_def by blast
  qed
  then obtain kept rest st1 where k: "blk_post cb unprot ?lo ?hi es st (Inr (None, kept, rest, st1))"
      "ack_blk cb unprot ?lo ?hi es st = Inr (None, kept, rest, st1)" by blast
  have "\<forall>n. in_ranges ?rs n \<longrightarrow> uint n < uint ?lo" using in_ranges_below by blast
  note c = blk_compose [OF Cons.prems(1) k(1) this]
  have r: "removed cb [e \<leftarrow> es. hit unprot ?lo ?hi e] st st1" "\<forall>e \<in> set rest. pn e < ?lo" "rdesc rest"
    using k(1) by (auto simp: blk_post_def)
  have "covers [e \<leftarrow> rest. rsel unprot ?rs e] st1"
    by (rule covers_append [OF cov [unfolded c(1)] r(1)])
  from Cons.IH [OF r(3,2) vb this] obtain st2 where
    st2: "ack_blks cb unprot ?lo bl (length bl) rest st1 = Inr (None, [e \<leftarrow> rest. \<not> rsel unprot ?rs e], st2)"
      "removed cb [e \<leftarrow> rest. rsel unprot ?rs e] st1 st2" by blast
  have rm: "removed cb [e \<leftarrow> es. rsel unprot ((uint ?lo, uint ?hi) # ?rs) e] st st2"
    unfolding c(1) by (rule removed_append [OF r(1) st2(2)])
  have "ack_blks cb unprot mn (b # bl) (length (b # bl)) es st =
      Inr (None, [e \<leftarrow> es. \<not> rsel unprot ((uint ?lo, uint ?hi) # ?rs) e], st2)" if "es \<noteq> []"
    using that k(2) st2(1) unfolding c(2) by (simp add: Let_def)
  then show ?case using rm removed_Nil [OF Cons.prems(4)] unfolding rs by (cases "es = []") auto
qed

lemma rdesc_dropWhile: "rdesc es \<Longrightarrow> rdesc (dropWhile P es)"
  unfolding rdesc_def by (rule sorted_wrt_dropWhile)

lemma rdesc_below:
  assumes "rdesc es" and "e \<in> set (dropWhile (\<lambda>e. \<not> n \<ge> pn e) es)"
  shows "pn e \<le> n"
proof -
  let ?r = "dropWhile (\<lambda>e. \<not> n \<ge> pn e) es"
  obtain x xs where r: "?r = x # xs" using assms(2) by (cases ?r) auto
  have "pn x \<le> n" using r by (metis dropWhile_eq_Cons_conv)
  moreover have "rdesc (x # xs)" using rdesc_dropWhile [OF assms(1)] r by metis
  ultimately show ?thesis using assms(2) r by (auto simp: rdesc_Cons intro: order_trans less_imp_le)
qed

lemma sum_list_filter_split:
  "sum_list (map f [e \<leftarrow> es. P e]) + sum_list (map f [e \<leftarrow> es. \<not> P e]) = (sum_list (map f es) :: nat)"
  by (induction es) simp_all

lemma mset_filter_split: "mset [e \<leftarrow> es. P e] + mset [e \<leftarrow> es. \<not> P e] = mset es"
  by (simp add: multiset_partition [of "mset es" P, symmetric])

lemma rtb_recv_ack_ok:
  fixes unprot :: bool
  assumes wf: "rtb_wf rtb" and d: "rdesc (rtb_head rtb)" and v: "ack_valid fr" and cb: "cb_ok cb"
  defines "R \<equiv> [e \<leftarrow> rtb_head rtb. rsel unprot (ack_ranges fr) e]"
  shows "\<exists>rtb'. ngtcp2_rtb_recv_ack cb rtb fr unprot s = Inr (None, rtb', fold (\<lambda>e s. snd (cb e s)) R s) \<and>
    rtb_wf rtb' \<and> rtb_head rtb' = [e \<leftarrow> rtb_head rtb. \<not> rsel unprot (ack_ranges fr) e] \<and>
    largest_acked rtb' = fold (\<lambda>e m. max m (pn e)) R (largest_acked rtb)"
proof -
  let ?hi = "largest_ack fr" let ?mn = "?hi - first_ack_blklen fr" let ?h = "rtb_head rtb"
  let ?P = "\<lambda>e. \<not> ?hi \<ge> pn e" let ?above = "takeWhile ?P ?h" and ?es = "dropWhile ?P ?h"
  let ?rs = "ack_blk_ranges (uint ?mn) (blks fr)" let ?sel = "rsel unprot (ack_ranges fr)"
  let ?st = "(rtb_pq rtb, bytes_in_flight rtb, largest_acked rtb, s)"
  have w: "pq_wf (rtb_pq rtb)" "less (rtb_pq rtb) = expiry_less" "mset (q (rtb_pq rtb)) = mset ?h"
      "bytes_in_flight rtb = sum_list (map re_pktlen ?h)" "bytes_in_flight rtb < 2 ^ 64"
    using wf by (simp_all add: rtb_wf_def)
  have le: "uint (first_ack_blklen fr) \<le> uint ?hi" using v by (simp add: ack_valid_def ack_ranges_def Let_def)
  have u: "uint ?mn = uint ?hi - uint (first_ack_blklen fr)" using le uint_sub_lem by blast
  have ml: "?mn \<le> ?hi" unfolding word_le_def u by simp
  have rs: "ack_ranges fr = (uint ?mn, uint ?hi) # ?rs" using u by (simp add: ack_ranges_def Let_def)
  have vb: "list_all (\<lambda>(lo, hi). 0 \<le> lo) ?rs" and nb: "num_blks fr = length (blks fr)"
    using v rs by (simp_all add: ack_valid_def)
  have "\<not> ?sel e" if "e \<in> set ?above" for e
  proof -
    have "uint ?hi < uint (pn e)" using set_takeWhileD [OF that] by (simp add: word_le_def)
    then show ?thesis
      using in_ranges_below [of "uint ?mn" "blks fr" "pn e"] ml
      unfolding rsel_def rs in_ranges_Cons word_le_def by linarith
  qed
  then have above: "[e \<leftarrow> ?above. \<not> ?sel e] = ?above" "[e \<leftarrow> ?above. ?sel e] = []"
    by (simp_all add: filter_id_conv filter_empty_conv)
  have split: "R = [e \<leftarrow> ?es. ?sel e]" "[e \<leftarrow> ?h. \<not> ?sel e] = ?above @ [e \<leftarrow> ?es. \<not> ?sel e]"
    unfolding R_def by (metis above(2) append_Nil filter_append takeWhile_dropWhile_id,
        metis above(1) filter_append takeWhile_dropWhile_id)
  have bound: "\<forall>e \<in> set ?es. pn e \<le> ?hi" using rdesc_below [OF d] by blast
  have des: "rdesc ?es" by (rule rdesc_dropWhile [OF d])
  note ms = mset_filter_split [of ?sel ?h, folded R_def] and su = sum_list_filter_split [of re_pktlen ?sel ?h, folded R_def]
  have cov: "covers R ?st" using w ms su by (simp, metis le_add1 mset_subset_eq_add_left)
  have low: "\<forall>n. in_ranges ?rs n \<longrightarrow> uint n < uint ?mn" using in_ranges_below by blast
  have "R = [e \<leftarrow> ?es. hit unprot ?mn ?hi e] @ [e \<leftarrow> ?es. rsel unprot ?rs e]"
    unfolding split(1) rs rsel_Cons
    by (rule filter_above_below [OF des, of _ ?mn]) (use low in \<open>auto simp: hit_def rsel_def word_less_def\<close>)
  then have "covers [e \<leftarrow> ?es. hit unprot ?mn ?hi e] ?st" using cov covers_appendD by metis
  from ack_blk_ok [OF des ml cb this] obtain kept rest st1 where
    k: "blk_post cb unprot ?mn ?hi ?es ?st (Inr (None, kept, rest, st1))"
      "ack_blk cb unprot ?mn ?hi ?es ?st = Inr (None, kept, rest, st1)" unfolding blk_post_def by blast
  note c = blk_compose [OF des k(1) low, folded rs]
  have r: "removed cb [e \<leftarrow> ?es. hit unprot ?mn ?hi e] ?st st1" "\<forall>e \<in> set rest. pn e < ?mn" "rdesc rest"
    using k(1) by (auto simp: blk_post_def)
  have "covers [e \<leftarrow> rest. rsel unprot ?rs e] st1"
    by (rule covers_append [OF cov [unfolded split(1) c(1)] r(1)])
  from ack_blks_ok [OF r(3,2) cb vb this] obtain st2 where
    st2: "ack_blks cb unprot ?mn (blks fr) (num_blks fr) rest st1 = Inr (None, [e \<leftarrow> rest. \<not> rsel unprot ?rs e], st2)"
      "removed cb [e \<leftarrow> rest. rsel unprot ?rs e] st1 st2" unfolding nb by blast
  have rm: "removed cb R ?st st2" unfolding split(1) c(1) by (rule removed_append [OF r(1) st2(2)])
  obtain pq' bytes' la' s' where s2: "st2 = (pq', bytes', la', s')" by (cases st2)
  let ?r = "rtb\<lparr>rtb_pq := pq', rtb_head := [e \<leftarrow> ?h. \<not> ?sel e], bytes_in_flight := bytes', largest_acked := la'\<rparr>"
  have fin: "pq_wf pq'" "less pq' = expiry_less" "mset (q (rtb_pq rtb)) = mset R + mset (q pq')"
      "bytes_in_flight rtb = sum_list (map re_pktlen R) + bytes'" "la' = fold (\<lambda>e m. max m (pn e)) R (largest_acked rtb)"
      "s' = fold (\<lambda>e s. snd (cb e s)) R s" using rm s2 w(2) by simp_all
  have "mset (q pq') = mset [e \<leftarrow> ?h. \<not> ?sel e]" using fin(3) w(3) ms by (metis add_left_cancel)
  moreover have "bytes' = sum_list (map re_pktlen [e \<leftarrow> ?h. \<not> ?sel e])" "bytes' < 2 ^ 64"
    using fin(4) w(4,5) su by linarith+
  ultimately have "rtb_wf ?r" using fin(1,2) by (simp add: rtb_wf_def)
  moreover have "ngtcp2_rtb_recv_ack cb rtb fr unprot s = Inr (None, ?r, s')" if "?es \<noteq> []"
    unfolding ngtcp2_rtb_recv_ack_def Let_def if_not_P [OF that] ack_first_blk [OF bound] k(2) rbind_simps
      prod.case st2(1) s2 split(2) c(2) by (simp add: st2(1) s2)
  moreover have "R = []" "ngtcp2_rtb_recv_ack cb rtb fr unprot s = Inr (None, rtb, s)" if e: "?es = []"
    using split(1) unfolding e ngtcp2_rtb_recv_ack_def Let_def by simp_all
  moreover have "[e \<leftarrow> ?h. \<not> ?sel e] = ?h" if e: "?es = []"
    using takeWhile_dropWhile_id [of ?P ?h] unfolding split(2) e by simp
  ultimately show ?thesis using fin(5,6) wf by (cases "?es = []") auto
qed

section \<open>Properties\<close>

definition example_pkt :: "u64 \<Rightarrow> u64 \<Rightarrow> ngtcp2_rtb_entry" where
  "example_pkt n expiry = \<lparr>re_hd = \<lparr>hd_flags = 0, hd_type = 0x1f, hd_conn_id = 0, hd_pkt_num = n, hd_version = 0\<rparr>, re_frc = [],
     re_expiry = expiry, re_deadline = 9, re_count = 0, re_pktlen = 100, re_flags = 0\<rparr>"

definition rtb_ex :: ngtcp2_rtb where
  "rtb_ex = \<lparr>rtb_pq = \<lparr>q = [example_pkt 4 20, example_pkt 5 30], capacity = 4, index = (\<lambda>_. 0)(example_pkt 5 30 := 1), less = expiry_less\<rparr>,
     rtb_head = [example_pkt 5 30, example_pkt 4 20], bytes_in_flight = 200, largest_acked = 0\<rparr>"

lemma pkt_simps [simp]: "pn (example_pkt n x) = n" "re_expiry (example_pkt n x) = x" "re_pktlen (example_pkt n x) = 100"
    "example_pkt n x = example_pkt n' x' \<longleftrightarrow> n = n' \<and> x = x'"
  by (auto simp: example_pkt_def)

lemma rtb_ex_wf: "rtb_wf rtb_ex"
proof -
  have "is_heap (rtb_pq rtb_ex)"
    unfolding is_heap_code by (simp add: rtb_ex_def leq_def expiry_less_def upt_rec)
  moreover have "index_ok (rtb_pq rtb_ex)"
    unfolding index_ok_code by (simp add: rtb_ex_def upt_rec)
  ultimately show ?thesis using expiry_weak_order by (simp add: rtb_wf_def pq_wf_def) (simp add: rtb_ex_def)
qed

lemma rtb_ex_desc: "rdesc (rtb_head rtb_ex)"
  by (simp add: rdesc_def rtb_ex_def)

text \<open>
  C34. The retransmission buffer as a queue of expiries: adding a packet keeps list, queue and the count of
  the bytes in flight consistent and puts the packet at the head of the list;
  \<^verbatim>\<open>ngtcp2_rtb_top\<close> is a packet with the least expiry, and \<^verbatim>\<open>ngtcp2_rtb_pop\<close> removes exactly that one, its
  assertion on the bytes in flight always holding.
\<close>

theorem rtb_queue_correct:
  assumes "rtb_wf rtb"
  shows "(mem_ok m \<and> e \<notin> set (rtb_head rtb) \<and> capacity (rtb_pq rtb) < 2 ^ 62 \<and>
      bytes_in_flight rtb + re_pktlen e < 2 ^ 64 \<longrightarrow>
      (\<exists>rtb'. ngtcp2_rtb_add m rtb e = (None, rtb', m) \<and> rtb_wf rtb' \<and> rtb_head rtb' = e # rtb_head rtb)) \<and>
    (case ngtcp2_rtb_top rtb of
       None \<Rightarrow> rtb_head rtb = []
     | Some x \<Rightarrow> x \<in> set (rtb_head rtb) \<and> (\<forall>y \<in> set (rtb_head rtb). re_expiry x \<le> re_expiry y) \<and>
         (\<exists>rtb'. ngtcp2_rtb_pop rtb = Inr rtb' \<and> rtb_wf rtb' \<and> rtb_head rtb' = remove1 x (rtb_head rtb)))"
  using rtb_add_ok [OF assms, of e m] rtb_top_ok [OF assms] rtb_pop_ok [OF assms]
  by (cases "ngtcp2_rtb_top rtb") auto

lemma rtb_queue_correct_witness:
  "(\<exists>rtb'. ngtcp2_rtb_add (\<lambda>_. True) rtb_ex (example_pkt 6 10) = (None, rtb', (\<lambda>_. True)) \<and> rtb_wf rtb' \<and>
      rtb_head rtb' = [example_pkt 6 10, example_pkt 5 30, example_pkt 4 20]) \<and>
   (\<exists>rtb'. ngtcp2_rtb_pop rtb_ex = Inr rtb' \<and> rtb_wf rtb' \<and> rtb_head rtb' = [example_pkt 5 30])"
proof -
  have "ngtcp2_rtb_top rtb_ex = Some (example_pkt 4 20)"
    by (simp add: ngtcp2_rtb_top_def ngtcp2_pq_empty_def ngtcp2_pq_top_def rtb_ex_def)
  then show ?thesis
    using rtb_queue_correct [OF rtb_ex_wf, of "\<lambda>_. True" "example_pkt 6 10"] mem_ok_True by (simp add: rtb_ex_def)
qed

text \<open>
  C35. Acknowledgement: when the list is in decreasing order of packet numbers and a valid ACK frame arrives,
  \<^verbatim>\<open>ngtcp2_rtb_recv_ack\<close> removes exactly the packets whose number the frame acknowledges (for a frame in
  an unprotected packet, those sent unprotected), calls the connection for each of them once, in that
  order, keeps list, queue and bytes in flight consistent and raises \<^verbatim>\<open>largest_acked\<close> to the greatest
  number removed. No assertion fails, and no removed packet stays in the queue.
\<close>

theorem rtb_recv_ack_exact:
  assumes "rtb_wf rtb" and "rdesc (rtb_head rtb)" and "ack_valid fr" and "\<forall>e s. fst (cb e s) = None"
  shows "\<exists>rtb'. ngtcp2_rtb_recv_ack cb rtb fr unprot s =
      Inr (None, rtb', fold (\<lambda>e s. snd (cb e s)) [e \<leftarrow> rtb_head rtb. acked fr (pn e) \<and> \<not> unprot_skip unprot e] s) \<and>
    rtb_wf rtb' \<and> rdesc (rtb_head rtb') \<and>
    rtb_head rtb' = [e \<leftarrow> rtb_head rtb. \<not> (acked fr (pn e) \<and> \<not> unprot_skip unprot e)] \<and>
    largest_acked rtb' = fold (\<lambda>e m. max m (pn e))
      [e \<leftarrow> rtb_head rtb. acked fr (pn e) \<and> \<not> unprot_skip unprot e] (largest_acked rtb)"
proof -
  have "rdesc [e \<leftarrow> rtb_head rtb. \<not> (acked fr (pn e) \<and> \<not> unprot_skip unprot e)]"
    using assms(2) unfolding rdesc_def by (rule sorted_wrt_filter)
  then show ?thesis using rtb_recv_ack_ok [OF assms, of unprot s] unfolding rsel_def acked_def by auto
qed

lemma rtb_recv_ack_exact_witness:
  "\<exists>rtb'. ngtcp2_rtb_recv_ack (\<lambda>e n. (None, Suc n)) rtb_ex
      \<lparr>largest_ack = 5, ack_delay = 0, first_ack_blklen = 0, num_blks = 0, blks = []\<rparr> False 0 = Inr (None, rtb', 1) \<and>
    rtb_wf rtb' \<and> rtb_head rtb' = [example_pkt 4 20] \<and> largest_acked rtb' = 5"
proof -
  let ?fr = "\<lparr>largest_ack = 5, ack_delay = 0, first_ack_blklen = 0, num_blks = 0, blks = []\<rparr> :: ngtcp2_ack"
  have r: "ack_ranges ?fr = [(5, 5)]" by (simp add: ack_ranges_def Let_def)
  then have v: "ack_valid ?fr" by (simp add: ack_valid_def)
  show ?thesis
    using rtb_recv_ack_exact [OF rtb_ex_wf rtb_ex_desc v, of "\<lambda>e n. (None, Suc n)" False 0]
    by (auto simp: rtb_ex_def acked_def r in_ranges_def unprot_skip_def)
qed

text \<open>
  The order the acknowledgement relies on is not kept by \<^verbatim>\<open>ngtcp2_rtb_add\<close>: \<^verbatim>\<open>conn_retransmit\<close> pops an
  expired packet and, when the output buffer is too small, adds it again with its old number. In the
  example packet 4 then stands before packet 5 and an acknowledgement of packet 5 is not noticed.
\<close>

lemma rtb_readd_misses_ack:
  "\<exists>rtb1 rtb2 m'. ngtcp2_rtb_top rtb_ex = Some (example_pkt 4 20) \<and> ngtcp2_rtb_pop rtb_ex = Inr rtb1 \<and>
     ngtcp2_rtb_add (\<lambda>_. True) rtb1 (example_pkt 4 20) = (None, rtb2, m') \<and> rtb_head rtb2 = [example_pkt 4 20, example_pkt 5 30] \<and>
     ngtcp2_rtb_recv_ack (\<lambda>e s. (None, s)) rtb2
       \<lparr>largest_ack = 5, ack_delay = 0, first_ack_blklen = 0, num_blks = 0, blks = []\<rparr> False () = Inr (None, rtb2, ())"
proof -
  have top: "ngtcp2_rtb_top rtb_ex = Some (example_pkt 4 20)"
    by (simp add: ngtcp2_rtb_top_def ngtcp2_pq_empty_def ngtcp2_pq_top_def rtb_ex_def)
  obtain rtb1 where 1: "ngtcp2_rtb_pop rtb_ex = Inr rtb1" "rtb_wf rtb1" "rtb_head rtb1 = [example_pkt 5 30]"
    using rtb_pop_ok [OF rtb_ex_wf top] by (auto simp: rtb_ex_def)
  have "capacity (bubble_down pq i) = capacity pq" for pq :: "ngtcp2_rtb_entry ngtcp2_pq" and i
    by (induction pq i rule: bubble_down.induct) (subst bubble_down.simps, simp add: Let_def)
  then have "capacity (rtb_pq rtb1) = 4" "bytes_in_flight rtb1 = 100"
    using 1(1) by (auto simp: ngtcp2_rtb_pop_def rtb_ex_def ngtcp2_pq_top_def ngtcp2_pq_pop_def Let_def)
  then obtain rtb2 where 2: "ngtcp2_rtb_add (\<lambda>_. True) rtb1 (example_pkt 4 20) = (None, rtb2, \<lambda>_. True)"
      "rtb_head rtb2 = [example_pkt 4 20, example_pkt 5 30]"
    using rtb_add_ok [OF 1(2), of "example_pkt 4 20" "\<lambda>_. True"] 1(3) mem_ok_True by auto
  have "ngtcp2_rtb_recv_ack (\<lambda>e s. (None, s)) rtb2
       \<lparr>largest_ack = 5, ack_delay = 0, first_ack_blklen = 0, num_blks = 0, blks = []\<rparr> False () = Inr (None, rtb2, ())"
    using 2(2) by (simp add: ngtcp2_rtb_recv_ack_def Let_def)
  then show ?thesis using top 1(1) 2 by blast
qed

end
