(* ===== verification/Conn.thy ===== *)
theory Conn
  imports Strm Idtr Rtb
begin

text \<open>
  \<^verbatim>\<open>lib/ngtcp2_conn.h\<close> and the first part of \<^verbatim>\<open>lib/ngtcp2_conn.c\<close>: the connection, the callbacks of the
  application, creation, keys, settings and timers.

  The connection owns its streams: \<open>c_strms\<close> is the hash table with the streams as the embedded objects. A pointer
  to a stream is its stream ID; reading through it (\<open>strm_at\<close>) fails when the stream is gone, storing through it
  (\<open>put_strm\<close>) changes the object in the table. \<^verbatim>\<open>conn->strm0\<close> is the stream with ID 0. The list \<open>c_fc_strms\<close> holds
  the streams linked by \<^verbatim>\<open>fc_next\<close>; a stream is in it when its \<^verbatim>\<open>fc_pprev\<close> is not null. \<open>c_mem\<close> is the allocator.

  A callback receives the connection and may change it through the library's interface, so it returns its
  \<^verbatim>\<open>int\<close> and the connection; what \<^verbatim>\<open>user_data\<close> points to is the field \<open>c_user_data\<close> of a type of the application's choice.
  Callbacks that an application may leave out are optional.
\<close>

section \<open>The connection\<close>

datatype ngtcp2_conn_state =
    NGTCP2_CS_CLIENT_INITIAL
  | NGTCP2_CS_CLIENT_WAIT_HANDSHAKE
  | NGTCP2_CS_CLIENT_HANDSHAKE_ALMOST_FINISHED
  | NGTCP2_CS_CLIENT_TLS_HANDSHAKE_FAILED
  | NGTCP2_CS_SERVER_INITIAL
  | NGTCP2_CS_SERVER_WAIT_HANDSHAKE
  | NGTCP2_CS_SERVER_TLS_HANDSHAKE_FAILED
  | NGTCP2_CS_POST_HANDSHAKE
  | NGTCP2_CS_CLOSING
  | NGTCP2_CS_DRAINING

abbreviation NGTCP2_PKT_DEADLINE_PERIOD :: u64 where "NGTCP2_PKT_DEADLINE_PERIOD \<equiv> 5000000"
abbreviation NGTCP2_DELAYED_ACK_TIMEOUT :: u64 where "NGTCP2_DELAYED_ACK_TIMEOUT \<equiv> 25000"
abbreviation NGTCP2_MAX_NUM_BUFFED_RX_PPKTS :: nat where "NGTCP2_MAX_NUM_BUFFED_RX_PPKTS \<equiv> 16"
abbreviation NGTCP2_STRM0_MAX_STREAM_DATA :: u64 where "NGTCP2_STRM0_MAX_STREAM_DATA \<equiv> 65535"
abbreviation NGTCP2_STREAM_OVERHEAD :: nat where "NGTCP2_STREAM_OVERHEAD \<equiv> 15"
abbreviation NGTCP2_HANDSHAKE_AEAD_OVERHEAD :: nat where "NGTCP2_HANDSHAKE_AEAD_OVERHEAD \<equiv> 16"
abbreviation NGTCP2_MAX_VARINT :: u64 where "NGTCP2_MAX_VARINT \<equiv> 0x3fffffffffffffff"
abbreviation NGTCP2_STOPPING :: u16 where "NGTCP2_STOPPING \<equiv> 0"

abbreviation NGTCP2_CONN_FLAG_HANDSHAKE_COMPLETED :: u8 where "NGTCP2_CONN_FLAG_HANDSHAKE_COMPLETED \<equiv> 0x01"
abbreviation NGTCP2_CONN_FLAG_CONN_ID_NEGOTIATED :: u8 where "NGTCP2_CONN_FLAG_CONN_ID_NEGOTIATED \<equiv> 0x02"
abbreviation NGTCP2_CONN_FLAG_TRANSPORT_PARAM_RECVED :: u8 where "NGTCP2_CONN_FLAG_TRANSPORT_PARAM_RECVED \<equiv> 0x04"
abbreviation NGTCP2_CONN_FLAG_RECV_PROTECTED_PKT :: u8 where "NGTCP2_CONN_FLAG_RECV_PROTECTED_PKT \<equiv> 0x08"
abbreviation NGTCP2_CONN_FLAG_STATELESS_RETRY :: u8 where "NGTCP2_CONN_FLAG_STATELESS_RETRY \<equiv> 0x10"
abbreviation NGTCP2_CONN_FLAG_EARLY_DATA_REJECTED :: u8 where "NGTCP2_CONN_FLAG_EARLY_DATA_REJECTED \<equiv> 0x20"

record ngtcp2_settings =
  set_max_stream_data :: u32
  set_max_data :: u32
  set_max_stream_id_bidi :: u32
  set_max_stream_id_uni :: u32
  set_idle_timeout :: u16
  set_omit_connection_id :: bool
  set_max_packet_size :: u16
  set_stateless_reset_token :: bytes
  set_server_unicast_ip :: "u32 \<times> u32 \<times> u32 \<times> u32"
  set_ack_delay_exponent :: u8

record ngtcp2_pkt_chain =
  pc_pkt :: bytes
  pc_ts :: u64

record 'u ngtcp2_conn =
  c_state :: ngtcp2_conn_state
  c_strms :: "ngtcp2_strm ngtcp2_map"
  c_fc_strms :: "u64 list"
  c_remote_bidi_idtr :: ngtcp2_idtr
  c_remote_uni_idtr :: ngtcp2_idtr
  c_conn_id :: u64
  c_client_conn_id :: u64
  c_last_tx_pkt_num :: u64
  c_max_rx_pkt_num :: u64
  c_unsent_max_remote_stream_id_bidi :: u64
  c_max_remote_stream_id_bidi :: u64
  c_remote_stream_id_bidi_window_start :: u64
  c_max_local_stream_id_bidi :: u64
  c_next_local_stream_id_bidi :: u64
  c_unsent_max_remote_stream_id_uni :: u64
  c_max_remote_stream_id_uni :: u64
  c_remote_stream_id_uni_window_start :: u64
  c_max_local_stream_id_uni :: u64
  c_next_local_stream_id_uni :: u64
  c_unsent_max_rx_offset :: u64
  c_max_rx_offset :: u64
  c_rx_offset :: u64
  c_tx_offset :: u64
  c_max_tx_offset :: u64
  c_frq :: ngtcp2_frame_chain
  c_acktr :: ngtcp2_acktr
  c_rtb :: ngtcp2_rtb
  c_version :: u32
  c_flags :: u8
  c_server :: bool
  c_hs_tx_ckm :: "ngtcp2_crypto_km option"
  c_hs_rx_ckm :: "ngtcp2_crypto_km option"
  c_early_ckm :: "ngtcp2_crypto_km option"
  c_tx_ckm :: "ngtcp2_crypto_km option"
  c_rx_ckm :: "ngtcp2_crypto_km option"
  c_aead_overhead :: nat
  c_buffed_rx_ppkts :: "ngtcp2_pkt_chain list"
  c_early_rtb :: "ngtcp2_rtb_entry list"
  c_local_settings :: ngtcp2_settings
  c_remote_settings :: ngtcp2_settings
  c_next_ack_expiry :: u64
  c_immediate_ack :: bool
  c_decrypt_buf_len :: nat
  c_mem :: mem
  c_user_data :: 'u

section \<open>Callbacks\<close>

text \<open>
  The three \<^verbatim>\<open>send_*\<close> callbacks of the handshake return data, or fail (\<open>None\<close>). The first and the last get a
  flag whether \<^verbatim>\<open>ppkt_num\<close> is there, and return the packet number that they store in it.
\<close>

record 'u ngtcp2_conn_callbacks =
  cb_send_client_initial :: "'u ngtcp2_conn \<Rightarrow> u32 \<Rightarrow> bool \<Rightarrow> (u64 \<times> bytes) option \<times> 'u ngtcp2_conn"
  cb_send_client_handshake :: "'u ngtcp2_conn \<Rightarrow> u32 \<Rightarrow> bytes option \<times> 'u ngtcp2_conn"
  cb_recv_client_initial :: "('u ngtcp2_conn \<Rightarrow> u64 \<Rightarrow> int \<times> 'u ngtcp2_conn) option"
  cb_send_server_handshake :: "'u ngtcp2_conn \<Rightarrow> u32 \<Rightarrow> bool \<Rightarrow> (u64 \<times> bytes) option \<times> 'u ngtcp2_conn"
  cb_recv_stream0_data :: "'u ngtcp2_conn \<Rightarrow> u8 option list \<Rightarrow> int \<times> 'u ngtcp2_conn"
  cb_send_pkt :: "('u ngtcp2_conn \<Rightarrow> ngtcp2_pkt_hd \<Rightarrow> int \<times> 'u ngtcp2_conn) option"
  cb_send_frame :: "('u ngtcp2_conn \<Rightarrow> ngtcp2_pkt_hd \<Rightarrow> ngtcp2_frame \<Rightarrow> int \<times> 'u ngtcp2_conn) option"
  cb_recv_pkt :: "('u ngtcp2_conn \<Rightarrow> ngtcp2_pkt_hd \<Rightarrow> int \<times> 'u ngtcp2_conn) option"
  cb_recv_frame :: "('u ngtcp2_conn \<Rightarrow> ngtcp2_pkt_hd \<Rightarrow> ngtcp2_frame \<Rightarrow> int \<times> 'u ngtcp2_conn) option"
  cb_handshake_completed :: "('u ngtcp2_conn \<Rightarrow> int \<times> 'u ngtcp2_conn) option"
  cb_recv_version_negotiation :: "('u ngtcp2_conn \<Rightarrow> ngtcp2_pkt_hd \<Rightarrow> u32 option list \<Rightarrow> nat \<Rightarrow> int \<times> 'u ngtcp2_conn) option"
  cb_hs_encrypt :: ngtcp2_encrypt
  cb_hs_decrypt :: ngtcp2_decrypt
  cb_encrypt :: ngtcp2_encrypt
  cb_decrypt :: ngtcp2_decrypt
  cb_recv_stream_data :: "('u ngtcp2_conn \<Rightarrow> u64 \<Rightarrow> bool \<Rightarrow> u8 option list \<Rightarrow> int \<times> 'u ngtcp2_conn) option"
  cb_acked_stream_data_offset :: "('u ngtcp2_conn \<Rightarrow> u64 \<Rightarrow> u64 \<Rightarrow> u64 \<Rightarrow> int \<times> 'u ngtcp2_conn) option"
  cb_stream_close :: "('u ngtcp2_conn \<Rightarrow> u64 \<Rightarrow> u16 \<Rightarrow> int \<times> 'u ngtcp2_conn) option"
  cb_recv_stateless_reset :: "('u ngtcp2_conn \<Rightarrow> ngtcp2_pkt_hd \<Rightarrow> ngtcp2_pkt_stateless_reset \<Rightarrow> int \<times> 'u ngtcp2_conn) option"
  cb_recv_server_stateless_retry :: "('u ngtcp2_conn \<Rightarrow> int \<times> 'u ngtcp2_conn) option"
  cb_extend_max_stream_id :: "('u ngtcp2_conn \<Rightarrow> u64 \<Rightarrow> int \<times> 'u ngtcp2_conn) option"

text \<open>The common shape of the \<^verbatim>\<open>conn_call_*\<close> functions.\<close>

definition conn_call :: "('c \<Rightarrow> int \<times> 'c) option \<Rightarrow> 'c \<Rightarrow> rv \<times> 'c" where
  "conn_call f c =
     (case f of
        None \<Rightarrow> (None, c)
      | Some f \<Rightarrow> let (rv, c) = f c in (if rv \<noteq> 0 then Some NGTCP2_ERR_CALLBACK_FAILURE else None, c))"

definition conn_call_recv_client_initial :: "'u ngtcp2_conn_callbacks \<Rightarrow> 'u ngtcp2_conn \<Rightarrow> (rv \<times> 'u ngtcp2_conn) res" where
  "conn_call_recv_client_initial cb c =
     rassert (cb_recv_client_initial cb \<noteq> None)
       (Inr (conn_call (map_option (\<lambda>f c. f c (c_client_conn_id c)) (cb_recv_client_initial cb)) c))"

definition conn_call_recv_pkt :: "'u ngtcp2_conn_callbacks \<Rightarrow> 'u ngtcp2_conn \<Rightarrow> ngtcp2_pkt_hd \<Rightarrow> rv \<times> 'u ngtcp2_conn" where
  "conn_call_recv_pkt cb c h = conn_call (map_option (\<lambda>f c. f c h) (cb_recv_pkt cb)) c"

definition conn_call_recv_frame ::
    "'u ngtcp2_conn_callbacks \<Rightarrow> 'u ngtcp2_conn \<Rightarrow> ngtcp2_pkt_hd \<Rightarrow> ngtcp2_frame \<Rightarrow> rv \<times> 'u ngtcp2_conn" where
  "conn_call_recv_frame cb c h fr = conn_call (map_option (\<lambda>f c. f c h fr) (cb_recv_frame cb)) c"

definition conn_call_send_pkt :: "'u ngtcp2_conn_callbacks \<Rightarrow> 'u ngtcp2_conn \<Rightarrow> ngtcp2_pkt_hd \<Rightarrow> rv \<times> 'u ngtcp2_conn" where
  "conn_call_send_pkt cb c h = conn_call (map_option (\<lambda>f c. f c h) (cb_send_pkt cb)) c"

definition conn_call_send_frame ::
    "'u ngtcp2_conn_callbacks \<Rightarrow> 'u ngtcp2_conn \<Rightarrow> ngtcp2_pkt_hd \<Rightarrow> ngtcp2_frame \<Rightarrow> rv \<times> 'u ngtcp2_conn" where
  "conn_call_send_frame cb c h fr = conn_call (map_option (\<lambda>f c. f c h fr) (cb_send_frame cb)) c"

definition conn_call_handshake_completed :: "'u ngtcp2_conn_callbacks \<Rightarrow> 'u ngtcp2_conn \<Rightarrow> rv \<times> 'u ngtcp2_conn" where
  "conn_call_handshake_completed cb c = conn_call (cb_handshake_completed cb) c"

definition conn_call_recv_stream_data ::
    "'u ngtcp2_conn_callbacks \<Rightarrow> 'u ngtcp2_conn \<Rightarrow> u64 \<Rightarrow> bool \<Rightarrow> u8 option list \<Rightarrow> rv \<times> 'u ngtcp2_conn" where
  "conn_call_recv_stream_data cb c stream_id fin data =
     conn_call (map_option (\<lambda>f c. f c stream_id fin data) (cb_recv_stream_data cb)) c"

text \<open>Only four errors of the TLS callback are passed on; any other value is a failed callback.\<close>

definition conn_call_recv_stream0_data ::
    "'u ngtcp2_conn_callbacks \<Rightarrow> 'u ngtcp2_conn \<Rightarrow> u8 option list \<Rightarrow> rv \<times> 'u ngtcp2_conn" where
  "conn_call_recv_stream0_data cb c data =
     (let (rv, c) = cb_recv_stream0_data cb c data in
      if rv = 0 then (None, c)
      else case List.find (\<lambda>e. rv = err_code e)
             [NGTCP2_ERR_TLS_HANDSHAKE, NGTCP2_ERR_TLS_FATAL_ALERT_GENERATED,
              NGTCP2_ERR_TLS_FATAL_ALERT_RECEIVED, NGTCP2_ERR_CALLBACK_FAILURE] of
             Some e \<Rightarrow> (Some e, c)
           | None \<Rightarrow> (Some NGTCP2_ERR_CALLBACK_FAILURE, c))"

definition conn_call_stream_close ::
    "'u ngtcp2_conn_callbacks \<Rightarrow> 'u ngtcp2_conn \<Rightarrow> u64 \<Rightarrow> u16 \<Rightarrow> rv \<times> 'u ngtcp2_conn" where
  "conn_call_stream_close cb c stream_id app_error_code =
     conn_call (map_option (\<lambda>f c. f c stream_id app_error_code) (cb_stream_close cb)) c"

definition conn_call_extend_max_stream_id ::
    "'u ngtcp2_conn_callbacks \<Rightarrow> 'u ngtcp2_conn \<Rightarrow> u64 \<Rightarrow> rv \<times> 'u ngtcp2_conn" where
  "conn_call_extend_max_stream_id cb c max_stream_id =
     conn_call (map_option (\<lambda>f c. f c max_stream_id) (cb_extend_max_stream_id cb)) c"

section \<open>Streams of the connection\<close>

definition conn_local_stream :: "'u ngtcp2_conn \<Rightarrow> u64 \<Rightarrow> bool" where
  "conn_local_stream c stream_id = (if c_server c then stream_id mod 2 \<noteq> 0 else stream_id mod 2 = 0)"

definition bidi_stream :: "u64 \<Rightarrow> bool" where
  "bidi_stream stream_id = (stream_id AND 0x2 = 0)"

definition ngtcp2_conn_find_stream :: "'u ngtcp2_conn \<Rightarrow> u64 \<Rightarrow> ngtcp2_strm option res" where
  "ngtcp2_conn_find_stream c stream_id =
     rbind (ngtcp2_map_find (c_strms c) stream_id) (\<lambda>me. Inr (map_option obj me))"

definition strm_at :: "'u ngtcp2_conn \<Rightarrow> u64 \<Rightarrow> ngtcp2_strm res" where
  "strm_at c stream_id =
     rbind (ngtcp2_conn_find_stream c stream_id) (\<lambda>s. case s of None \<Rightarrow> Inl OutOfBounds | Some s \<Rightarrow> Inr s)"

definition put_strm :: "'u ngtcp2_conn \<Rightarrow> u64 \<Rightarrow> ngtcp2_strm \<Rightarrow> 'u ngtcp2_conn" where
  "put_strm c k strm = c\<lparr>c_strms := map_store (c_strms c) k strm\<rparr>"

definition ngtcp2_conn_init_stream :: "'u ngtcp2_conn \<Rightarrow> u64 \<Rightarrow> (rv \<times> 'u ngtcp2_conn) res" where
  "ngtcp2_conn_init_stream c stream_id =
     (case ngtcp2_strm_init (c_mem c) stream_id NGTCP2_STRM_FLAG_NONE
             (ucast (set_max_stream_data (c_local_settings c))) (ucast (set_max_stream_data (c_remote_settings c))) of
        Inl e \<Rightarrow> Inr (Some e, c)
      | Inr (strm, m) \<Rightarrow>
          rbind (ngtcp2_map_insert m (c_strms c) \<lparr>key = stream_id, obj = strm\<rparr> []) (\<lambda>(rv, strms, m).
          let c = c\<lparr>c_strms := strms, c_mem := m\<rparr> in
          if rv \<noteq> None then rassert (rv \<noteq> Some NGTCP2_ERR_INVALID_ARGUMENT) (Inr (rv, c)) else Inr (None, c)))"

end
