(* ===== verification/Conn_New.thy ===== *)
theory Conn_New
  imports Conn
begin

text \<open>
  Creation of a connection, its keys, the transport parameters, and the streams the application opens
  (\<^verbatim>\<open>lib/ngtcp2_conn.c\<close>). The connection object is cleared when it is allocated; a failed creation frees everything
  and leaves nothing but the error.
\<close>

section \<open>Creation\<close>

definition zero_settings :: ngtcp2_settings where
  "zero_settings = \<lparr>set_max_stream_data = 0, set_max_data = 0, set_max_stream_id_bidi = 0, set_max_stream_id_uni = 0,
     set_idle_timeout = 0, set_omit_connection_id = False, set_max_packet_size = 0,
     set_stateless_reset_token = replicate 16 0, set_server_unicast_ip = (0, 0, 0, 0), set_ack_delay_exponent = 0\<rparr>"

text \<open>
  The index field of an entry of the retransmission buffer is written when the entry is pushed, so its value before
  does not matter: 0.
\<close>

definition conn_new ::
    "mem \<Rightarrow> u64 \<Rightarrow> u32 \<Rightarrow> ngtcp2_settings \<Rightarrow> 'u \<Rightarrow> bool \<Rightarrow> (rv \<times> 'u ngtcp2_conn option) res" where
  "conn_new m conn_id version settings user_data srv =
     (let (ok, m) = malloc m in if \<not> ok then Inr (Some NGTCP2_ERR_NOMEM, None) else
      let (ok, m) = malloc m in if \<not> ok then Inr (Some NGTCP2_ERR_NOMEM, None) else
      case ngtcp2_strm_init m 0 NGTCP2_STRM_FLAG_NONE (ucast (set_max_stream_data settings)) NGTCP2_STRM0_MAX_STREAM_DATA of
        Inl e \<Rightarrow> Inr (Some e, None)
      | Inr (strm0, m) \<Rightarrow>
      (case ngtcp2_map_init m of
        (rv, None, m) \<Rightarrow> Inr (rv, None)
      | (rv, Some strms, m) \<Rightarrow>
      rbind (ngtcp2_map_insert m strms \<lparr>key = 0, obj = strm0\<rparr> []) (\<lambda>(rv, strms, m).
      if rv \<noteq> None then Inr (rv, None) else
      case ngtcp2_idtr_init m (\<not> srv) of
        Inl e \<Rightarrow> Inr (Some e, None)
      | Inr (bidi_idtr, m) \<Rightarrow>
      (case ngtcp2_idtr_init m (\<not> srv) of
        Inl e \<Rightarrow> Inr (Some e, None)
      | Inr (uni_idtr, m) \<Rightarrow>
      rbind (ngtcp2_acktr_init m 24) (\<lambda>(rv, acktr, m).
      case acktr of
        None \<Rightarrow> Inr (rv, None)
      | Some acktr \<Rightarrow>
          Inr (None, Some \<lparr>
            c_state = if srv then NGTCP2_CS_SERVER_INITIAL else NGTCP2_CS_CLIENT_INITIAL,
            c_strms = strms, c_fc_strms = [],
            c_remote_bidi_idtr = bidi_idtr, c_remote_uni_idtr = uni_idtr,
            c_conn_id = conn_id, c_client_conn_id = 0, c_last_tx_pkt_num = 0, c_max_rx_pkt_num = 0,
            c_unsent_max_remote_stream_id_bidi = ucast (set_max_stream_id_bidi settings),
            c_max_remote_stream_id_bidi = ucast (set_max_stream_id_bidi settings),
            c_remote_stream_id_bidi_window_start = 0, c_max_local_stream_id_bidi = 0, c_next_local_stream_id_bidi = 0,
            c_unsent_max_remote_stream_id_uni = ucast (set_max_stream_id_uni settings),
            c_max_remote_stream_id_uni = ucast (set_max_stream_id_uni settings),
            c_remote_stream_id_uni_window_start = 0, c_max_local_stream_id_uni = 0, c_next_local_stream_id_uni = 0,
            c_unsent_max_rx_offset = ucast (set_max_data settings), c_max_rx_offset = ucast (set_max_data settings),
            c_rx_offset = 0, c_tx_offset = 0, c_max_tx_offset = 0, c_frq = [],
            c_acktr = acktr, c_rtb = ngtcp2_rtb_init (\<lambda>_. 0),
            c_version = version, c_flags = 0, c_server = srv,
            c_hs_tx_ckm = None, c_hs_rx_ckm = None, c_early_ckm = None, c_tx_ckm = None, c_rx_ckm = None,
            c_aead_overhead = 0, c_buffed_rx_ppkts = [], c_early_rtb = [],
            c_local_settings = settings, c_remote_settings = zero_settings,
            c_next_ack_expiry = 0, c_immediate_ack = False, c_decrypt_buf_len = 0,
            c_mem = m, c_user_data = user_data\<rparr>))))))"

definition ngtcp2_conn_client_new ::
    "mem \<Rightarrow> u64 \<Rightarrow> u32 \<Rightarrow> ngtcp2_settings \<Rightarrow> 'u \<Rightarrow> (rv \<times> 'u ngtcp2_conn option) res" where
  "ngtcp2_conn_client_new m conn_id version settings user_data =
     rbind (conn_new m conn_id version settings user_data False) (\<lambda>(rv, c).
     Inr (rv, map_option (\<lambda>c. c\<lparr>c_client_conn_id := conn_id, c_next_local_stream_id_bidi := 4,
                              c_next_local_stream_id_uni := 2\<rparr>) c))"

text \<open>The result of opening stream 0 in the tracker is ignored.\<close>

definition ngtcp2_conn_server_new ::
    "mem \<Rightarrow> u64 \<Rightarrow> u32 \<Rightarrow> ngtcp2_settings \<Rightarrow> 'u \<Rightarrow> (rv \<times> 'u ngtcp2_conn option) res" where
  "ngtcp2_conn_server_new m conn_id version settings user_data =
     rbind (conn_new m conn_id version settings user_data True) (\<lambda>(rv, c).
     case c of
       None \<Rightarrow> Inr (rv, None)
     | Some c \<Rightarrow>
         rbind (ngtcp2_idtr_open (c_mem c) (c_remote_bidi_idtr c) 0) (\<lambda>(_, idtr, m).
         Inr (rv, Some (c\<lparr>c_remote_bidi_idtr := idtr, c_mem := m, c_next_local_stream_id_bidi := 1,
                         c_next_local_stream_id_uni := 3\<rparr>))))"

section \<open>Handshake, keys and timers\<close>

definition ngtcp2_conn_handshake_completed :: "'u ngtcp2_conn \<Rightarrow> 'u ngtcp2_conn" where
  "ngtcp2_conn_handshake_completed c = c\<lparr>c_flags := c_flags c OR NGTCP2_CONN_FLAG_HANDSHAKE_COMPLETED\<rparr>"

definition ngtcp2_conn_get_handshake_completed :: "'u ngtcp2_conn \<Rightarrow> bool" where
  "ngtcp2_conn_get_handshake_completed c = (c_flags c AND NGTCP2_CONN_FLAG_HANDSHAKE_COMPLETED > 0)"

definition ngtcp2_conn_set_aead_overhead :: "'u ngtcp2_conn \<Rightarrow> nat \<Rightarrow> 'u ngtcp2_conn" where
  "ngtcp2_conn_set_aead_overhead c aead_overhead = c\<lparr>c_aead_overhead := aead_overhead\<rparr>"

text \<open>A failed allocation stores the null pointer.\<close>

definition ngtcp2_conn_set_handshake_tx_keys :: "'u ngtcp2_conn \<Rightarrow> bytes \<Rightarrow> bytes \<Rightarrow> rv \<times> 'u ngtcp2_conn" where
  "ngtcp2_conn_set_handshake_tx_keys c k iv =
     (if c_hs_tx_ckm c \<noteq> None then (Some NGTCP2_ERR_INVALID_STATE, c)
      else let (rv, ckm, m) = ngtcp2_crypto_km_new (c_mem c) k iv in (rv, c\<lparr>c_hs_tx_ckm := ckm, c_mem := m\<rparr>))"

definition ngtcp2_conn_set_handshake_rx_keys :: "'u ngtcp2_conn \<Rightarrow> bytes \<Rightarrow> bytes \<Rightarrow> rv \<times> 'u ngtcp2_conn" where
  "ngtcp2_conn_set_handshake_rx_keys c k iv =
     (if c_hs_rx_ckm c \<noteq> None then (Some NGTCP2_ERR_INVALID_STATE, c)
      else let (rv, ckm, m) = ngtcp2_crypto_km_new (c_mem c) k iv in (rv, c\<lparr>c_hs_rx_ckm := ckm, c_mem := m\<rparr>))"

definition ngtcp2_conn_update_early_keys :: "'u ngtcp2_conn \<Rightarrow> bytes \<Rightarrow> bytes \<Rightarrow> rv \<times> 'u ngtcp2_conn" where
  "ngtcp2_conn_update_early_keys c k iv =
     (if c_early_ckm c \<noteq> None then (Some NGTCP2_ERR_INVALID_STATE, c)
      else let (rv, ckm, m) = ngtcp2_crypto_km_new (c_mem c) k iv in (rv, c\<lparr>c_early_ckm := ckm, c_mem := m\<rparr>))"

definition ngtcp2_conn_update_tx_keys :: "'u ngtcp2_conn \<Rightarrow> bytes \<Rightarrow> bytes \<Rightarrow> rv \<times> 'u ngtcp2_conn" where
  "ngtcp2_conn_update_tx_keys c k iv =
     (if c_tx_ckm c \<noteq> None then (Some NGTCP2_ERR_INVALID_STATE, c)
      else let (rv, ckm, m) = ngtcp2_crypto_km_new (c_mem c) k iv in (rv, c\<lparr>c_tx_ckm := ckm, c_mem := m\<rparr>))"

definition ngtcp2_conn_update_rx_keys :: "'u ngtcp2_conn \<Rightarrow> bytes \<Rightarrow> bytes \<Rightarrow> rv \<times> 'u ngtcp2_conn" where
  "ngtcp2_conn_update_rx_keys c k iv =
     (if c_rx_ckm c \<noteq> None then (Some NGTCP2_ERR_INVALID_STATE, c)
      else let (rv, ckm, m) = ngtcp2_crypto_km_new (c_mem c) k iv in (rv, c\<lparr>c_rx_ckm := ckm, c_mem := m\<rparr>))"

definition ngtcp2_conn_earliest_expiry :: "'u ngtcp2_conn \<Rightarrow> u64" where
  "ngtcp2_conn_earliest_expiry c =
     (case ngtcp2_rtb_top (c_rtb c) of
        None \<Rightarrow> c_next_ack_expiry c
      | Some e \<Rightarrow> if c_next_ack_expiry c > 0 then min (c_next_ack_expiry c) (re_expiry e) else re_expiry e)"

definition ngtcp2_pkt_chain_new :: "mem \<Rightarrow> bytes \<Rightarrow> u64 \<Rightarrow> rv \<times> ngtcp2_pkt_chain option \<times> mem" where
  "ngtcp2_pkt_chain_new m pkt ts =
     (let (ok, m) = malloc m in
      if \<not> ok then (Some NGTCP2_ERR_NOMEM, None, m) else (None, Some \<lparr>pc_pkt = pkt, pc_ts = ts\<rparr>, m))"

definition ngtcp2_conn_bytes_in_flight :: "'u ngtcp2_conn \<Rightarrow> nat" where
  "ngtcp2_conn_bytes_in_flight c = bytes_in_flight (c_rtb c)"

definition ngtcp2_conn_negotiated_conn_id :: "'u ngtcp2_conn \<Rightarrow> u64" where
  "ngtcp2_conn_negotiated_conn_id c = c_conn_id c"

definition ngtcp2_conn_negotiated_version :: "'u ngtcp2_conn \<Rightarrow> u32" where
  "ngtcp2_conn_negotiated_version c = c_version c"

definition ngtcp2_conn_early_data_rejected :: "'u ngtcp2_conn \<Rightarrow> 'u ngtcp2_conn" where
  "ngtcp2_conn_early_data_rejected c = c\<lparr>c_flags := c_flags c OR NGTCP2_CONN_FLAG_EARLY_DATA_REJECTED\<rparr>"

section \<open>Settings and transport parameters\<close>

definition settings_copy_from_transport_params :: "ngtcp2_settings \<Rightarrow> ngtcp2_transport_params \<Rightarrow> ngtcp2_settings" where
  "settings_copy_from_transport_params dest src =
     dest\<lparr>set_max_stream_data := initial_max_stream_data src, set_max_data := initial_max_data src,
          set_max_stream_id_bidi := initial_max_stream_id_bidi src, set_max_stream_id_uni := initial_max_stream_id_uni src,
          set_idle_timeout := idle_timeout src, set_omit_connection_id := omit_connection_id src,
          set_max_packet_size := max_packet_size src, set_stateless_reset_token := stateless_reset_token src,
          set_ack_delay_exponent := ack_delay_exponent src\<rparr>"

text \<open>The unicast address of the source is cleared once it is copied.\<close>

definition transport_params_copy_from_settings ::
    "ngtcp2_transport_params \<Rightarrow> ngtcp2_settings \<Rightarrow> ngtcp2_transport_params \<times> ngtcp2_settings" where
  "transport_params_copy_from_settings dest src =
     (dest\<lparr>initial_max_stream_data := set_max_stream_data src, initial_max_data := set_max_data src,
           initial_max_stream_id_bidi := set_max_stream_id_bidi src, initial_max_stream_id_uni := set_max_stream_id_uni src,
           idle_timeout := set_idle_timeout src, omit_connection_id := set_omit_connection_id src,
           max_packet_size := set_max_packet_size src, stateless_reset_token := set_stateless_reset_token src,
           server_unicast_ip := set_server_unicast_ip src, ack_delay_exponent := set_ack_delay_exponent src\<rparr>,
      src\<lparr>set_server_unicast_ip := (0, 0, 0, 0)\<rparr>)"

fun version_listed :: "u32 \<Rightarrow> u32 list \<Rightarrow> nat \<Rightarrow> rv res" where
  "version_listed v sv 0 = Inr (Some NGTCP2_ERR_VERSION_NEGOTIATION)"
| "version_listed v [] (Suc n) = Inl OutOfBounds"
| "version_listed v (w # sv) (Suc n) = (if w = v then Inr None else version_listed v sv n)"

definition conn_client_validate_transport_params :: "'u ngtcp2_conn \<Rightarrow> ngtcp2_transport_params \<Rightarrow> rv res" where
  "conn_client_validate_transport_params c params =
     (if tp_version params \<noteq> c_version c then Inr (Some NGTCP2_ERR_VERSION_NEGOTIATION)
      else version_listed (c_version c) (tp_supported_versions params) (tp_v_len params))"

definition apply_remote_settings :: "'u ngtcp2_conn \<Rightarrow> ngtcp2_transport_params \<Rightarrow> 'u ngtcp2_conn" where
  "apply_remote_settings c params =
     (let s = settings_copy_from_transport_params (c_remote_settings c) params in
      c\<lparr>c_remote_settings := s, c_max_local_stream_id_bidi := ucast (set_max_stream_id_bidi s),
        c_max_local_stream_id_uni := ucast (set_max_stream_id_uni s), c_max_tx_offset := ucast (set_max_data s)\<rparr>)"

definition ngtcp2_conn_set_remote_transport_params ::
    "'u ngtcp2_conn \<Rightarrow> u8 \<Rightarrow> ngtcp2_transport_params \<Rightarrow> (rv \<times> 'u ngtcp2_conn) res" where
  "ngtcp2_conn_set_remote_transport_params c exttype params =
     rbind (if exttype = CLIENT_HELLO then Inr (if \<not> c_server c then Some NGTCP2_ERR_INVALID_ARGUMENT else None)
            else if exttype = ENCRYPTED_EXTENSIONS then
              if c_server c then Inr (Some NGTCP2_ERR_INVALID_ARGUMENT) else conn_client_validate_transport_params c params
            else if exttype = NEW_SESSION_TICKET then Inr (if c_server c then Some NGTCP2_ERR_INVALID_ARGUMENT else None)
            else Inr (Some NGTCP2_ERR_INVALID_ARGUMENT)) (\<lambda>rv.
     if rv \<noteq> None then Inr (rv, c)
     else
       let c = apply_remote_settings c params in
       rbind (strm_at c 0) (\<lambda>strm0.
       let c = put_strm c 0 (strm0\<lparr>s_max_tx_offset := ucast (set_max_stream_data (c_remote_settings c))\<rparr>) in
       Inr (None, c\<lparr>c_flags := c_flags c OR NGTCP2_CONN_FLAG_TRANSPORT_PARAM_RECVED\<rparr>)))"

definition ngtcp2_conn_set_early_remote_transport_params ::
    "'u ngtcp2_conn \<Rightarrow> ngtcp2_transport_params \<Rightarrow> rv \<times> 'u ngtcp2_conn" where
  "ngtcp2_conn_set_early_remote_transport_params c params =
     (if c_server c then (Some NGTCP2_ERR_INVALID_STATE, c) else (None, apply_remote_settings c params))"

definition ngtcp2_conn_get_local_transport_params ::
    "'u ngtcp2_conn \<Rightarrow> ngtcp2_transport_params \<Rightarrow> u8 \<Rightarrow> (rv \<times> ngtcp2_transport_params \<times> 'u ngtcp2_conn) res" where
  "ngtcp2_conn_get_local_transport_params c params exttype =
     rbind (if exttype = CLIENT_HELLO then
              Inr (if c_server c then (Some NGTCP2_ERR_INVALID_ARGUMENT, params)
                   else (None, params\<lparr>tp_version := c_version c\<rparr>))
            else if exttype = ENCRYPTED_EXTENSIONS then
              if \<not> c_server c then Inr (Some NGTCP2_ERR_INVALID_ARGUMENT, params)
              else if tp_supported_versions params = [] then Inl OutOfBounds
              else Inr (None, params\<lparr>tp_version := c_version c, tp_v_len := 1,
                                tp_supported_versions := (tp_supported_versions params)[0 := c_version c]\<rparr>)
            else if exttype = NEW_SESSION_TICKET then
              Inr (if \<not> c_server c then Some NGTCP2_ERR_INVALID_ARGUMENT else None, params)
            else Inr (Some NGTCP2_ERR_INVALID_ARGUMENT, params)) (\<lambda>(rv, params).
     if rv \<noteq> None then Inr (rv, params, c)
     else
       let (params, s) = transport_params_copy_from_settings params (c_local_settings c) in
       Inr (None, params, c\<lparr>c_local_settings := s\<rparr>))"

section \<open>Opening streams\<close>

definition ngtcp2_conn_open_bidi_stream :: "'u ngtcp2_conn \<Rightarrow> (rv \<times> u64 option \<times> 'u ngtcp2_conn) res" where
  "ngtcp2_conn_open_bidi_stream c =
     (if c_next_local_stream_id_bidi c > c_max_local_stream_id_bidi c
      then Inr (Some NGTCP2_ERR_STREAM_ID_BLOCKED, None, c)
      else
        let (ok, m) = malloc (c_mem c); c = c\<lparr>c_mem := m\<rparr> in
        if \<not> ok then Inr (Some NGTCP2_ERR_NOMEM, None, c)
        else
          let stream_id = c_next_local_stream_id_bidi c in
          rbind (ngtcp2_conn_init_stream c stream_id) (\<lambda>(rv, c).
          if rv \<noteq> None then Inr (rv, None, c)
          else Inr (None, Some stream_id, c\<lparr>c_next_local_stream_id_bidi := c_next_local_stream_id_bidi c + 4\<rparr>)))"

definition ngtcp2_conn_open_uni_stream :: "'u ngtcp2_conn \<Rightarrow> (rv \<times> u64 option \<times> 'u ngtcp2_conn) res" where
  "ngtcp2_conn_open_uni_stream c =
     (if c_next_local_stream_id_uni c > c_max_local_stream_id_uni c
      then Inr (Some NGTCP2_ERR_STREAM_ID_BLOCKED, None, c)
      else
        let (ok, m) = malloc (c_mem c); c = c\<lparr>c_mem := m\<rparr> in
        if \<not> ok then Inr (Some NGTCP2_ERR_NOMEM, None, c)
        else
          let stream_id = c_next_local_stream_id_uni c in
          rbind (ngtcp2_conn_init_stream c stream_id) (\<lambda>(rv, c).
          if rv \<noteq> None then Inr (rv, None, c)
          else
            rbind (strm_at c stream_id) (\<lambda>strm.
            let c = put_strm c stream_id (ngtcp2_strm_shutdown strm NGTCP2_STRM_FLAG_SHUT_RD) in
            Inr (None, Some stream_id, c\<lparr>c_next_local_stream_id_uni := c_next_local_stream_id_uni c + 4\<rparr>))))"

end
