(* ===== verification/Conn_Inv.thy ===== *)
theory Conn_Inv
  imports Conn_New
begin

text \<open>
  The invariant of the connection: its tables are well formed, every stream keeps the limits of flow control, and
  stream 0 is there and open for reading. A new connection has it.
\<close>

section \<open>Streams as a map\<close>

definition strm_of :: "'u ngtcp2_conn \<Rightarrow> u64 \<Rightarrow> ngtcp2_strm option" where
  "strm_of c k = map_option obj (map_abs (c_strms c) k)"

lemma strm_of_upd [simp]:
  "strm_of (c_state_update f1 c) = strm_of c" "strm_of (c_fc_strms_update f2 c) = strm_of c"
  "strm_of (c_remote_bidi_idtr_update f3 c) = strm_of c"
  "strm_of (c_remote_uni_idtr_update f4 c) = strm_of c"
  "strm_of (c_conn_id_update f5 c) = strm_of c"
  "strm_of (c_client_conn_id_update f6 c) = strm_of c"
  "strm_of (c_last_tx_pkt_num_update f7 c) = strm_of c"
  "strm_of (c_max_rx_pkt_num_update f8 c) = strm_of c"
  "strm_of (c_unsent_max_remote_stream_id_bidi_update f9 c) = strm_of c"
  "strm_of (c_max_remote_stream_id_bidi_update f10 c) = strm_of c"
  "strm_of (c_remote_stream_id_bidi_window_start_update f11 c) = strm_of c"
  "strm_of (c_max_local_stream_id_bidi_update f12 c) = strm_of c"
  "strm_of (c_next_local_stream_id_bidi_update f13 c) = strm_of c"
  "strm_of (c_unsent_max_remote_stream_id_uni_update f14 c) = strm_of c"
  "strm_of (c_max_remote_stream_id_uni_update f15 c) = strm_of c"
  "strm_of (c_remote_stream_id_uni_window_start_update f16 c) = strm_of c"
  "strm_of (c_max_local_stream_id_uni_update f17 c) = strm_of c"
  "strm_of (c_next_local_stream_id_uni_update f18 c) = strm_of c"
  "strm_of (c_unsent_max_rx_offset_update f19 c) = strm_of c"
  "strm_of (c_max_rx_offset_update f20 c) = strm_of c"
  "strm_of (c_rx_offset_update f21 c) = strm_of c"
  "strm_of (c_tx_offset_update f22 c) = strm_of c"
  "strm_of (c_max_tx_offset_update f23 c) = strm_of c" "strm_of (c_frq_update f24 c) = strm_of c"
  "strm_of (c_acktr_update f25 c) = strm_of c" "strm_of (c_rtb_update f26 c) = strm_of c"
  "strm_of (c_version_update f27 c) = strm_of c" "strm_of (c_flags_update f28 c) = strm_of c"
  "strm_of (c_server_update f29 c) = strm_of c" "strm_of (c_hs_tx_ckm_update f30 c) = strm_of c"
  "strm_of (c_hs_rx_ckm_update f31 c) = strm_of c"
  "strm_of (c_early_ckm_update f32 c) = strm_of c" "strm_of (c_tx_ckm_update f33 c) = strm_of c"
  "strm_of (c_rx_ckm_update f34 c) = strm_of c"
  "strm_of (c_aead_overhead_update f35 c) = strm_of c"
  "strm_of (c_buffed_rx_ppkts_update f36 c) = strm_of c"
  "strm_of (c_early_rtb_update f37 c) = strm_of c"
  "strm_of (c_local_settings_update f38 c) = strm_of c"
  "strm_of (c_remote_settings_update f39 c) = strm_of c"
  "strm_of (c_next_ack_expiry_update f40 c) = strm_of c"
  "strm_of (c_immediate_ack_update f41 c) = strm_of c"
  "strm_of (c_decrypt_buf_len_update f42 c) = strm_of c"
  "strm_of (c_mem_update f43 c) = strm_of c"
  by (simp_all add: strm_of_def fun_eq_iff)

lemma find_stream_ok: "map_wf (c_strms c) \<Longrightarrow> ngtcp2_conn_find_stream c k = Inr (strm_of c k)"
  by (simp add: ngtcp2_conn_find_stream_def map_find_ok strm_of_def)

lemma strm_at_ok: "map_wf (c_strms c) \<Longrightarrow> strm_of c k = Some s \<Longrightarrow> strm_at c k = Inr s"
  by (simp add: strm_at_def find_stream_ok)

lemma strm_of_put:
  "strm_of (put_strm c k s) = (if strm_of c k = None then strm_of c else (strm_of c)(k \<mapsto> s))"
proof
  fix j
  show "strm_of (put_strm c k s) j = (if strm_of c k = None then strm_of c else (strm_of c)(k \<mapsto> s)) j"
    using map_abs_key [of "c_strms c" j]
    by (cases "map_abs (c_strms c) j") (auto simp: strm_of_def put_strm_def map_abs_store)
qed

lemma put_strm_wf [simp]: "map_wf (c_strms c) \<Longrightarrow> map_wf (c_strms (put_strm c k s))"
  by (simp add: put_strm_def)

lemma put_strm_sel [simp]:
  "c_state (put_strm c k s) = c_state c" "c_fc_strms (put_strm c k s) = c_fc_strms c"
  "c_remote_bidi_idtr (put_strm c k s) = c_remote_bidi_idtr c" "c_remote_uni_idtr (put_strm c k s) = c_remote_uni_idtr c"
  "c_unsent_max_remote_stream_id_bidi (put_strm c k s) = c_unsent_max_remote_stream_id_bidi c"
  "c_max_remote_stream_id_bidi (put_strm c k s) = c_max_remote_stream_id_bidi c"
  "c_max_local_stream_id_bidi (put_strm c k s) = c_max_local_stream_id_bidi c"
  "c_next_local_stream_id_bidi (put_strm c k s) = c_next_local_stream_id_bidi c"
  "c_unsent_max_remote_stream_id_uni (put_strm c k s) = c_unsent_max_remote_stream_id_uni c"
  "c_max_remote_stream_id_uni (put_strm c k s) = c_max_remote_stream_id_uni c"
  "c_max_local_stream_id_uni (put_strm c k s) = c_max_local_stream_id_uni c"
  "c_next_local_stream_id_uni (put_strm c k s) = c_next_local_stream_id_uni c"
  "c_unsent_max_rx_offset (put_strm c k s) = c_unsent_max_rx_offset c" "c_max_rx_offset (put_strm c k s) = c_max_rx_offset c"
  "c_rx_offset (put_strm c k s) = c_rx_offset c" "c_tx_offset (put_strm c k s) = c_tx_offset c"
  "c_max_tx_offset (put_strm c k s) = c_max_tx_offset c" "c_frq (put_strm c k s) = c_frq c"
  "c_acktr (put_strm c k s) = c_acktr c" "c_rtb (put_strm c k s) = c_rtb c" "c_server (put_strm c k s) = c_server c"
  "c_local_settings (put_strm c k s) = c_local_settings c" "c_remote_settings (put_strm c k s) = c_remote_settings c"
  "c_mem (put_strm c k s) = c_mem c" "c_user_data (put_strm c k s) = c_user_data c" "c_flags (put_strm c k s) = c_flags c"
  "c_tx_ckm (put_strm c k s) = c_tx_ckm c" "c_rx_ckm (put_strm c k s) = c_rx_ckm c"
  by (simp_all add: put_strm_def)

section \<open>The invariant\<close>

text \<open>
  For a stream: the reorder buffer holds some stream \<open>S\<close> from the offset \<open>b\<close> on that the application has been
  given; everything from \<^verbatim>\<open>last_rx_offset\<close> on is missing; and the peer has not been let beyond the limit it was told.
  Every delivered byte of stream 0 counts twice towards the next limit, hence the bound on it.
\<close>

definition strm_inv :: "u64 \<Rightarrow> ngtcp2_strm \<Rightarrow> bool" where
  "strm_inv k s =
     (s_stream_id s = k \<and> gaptr_wf (s_acked_tx_offset s) \<and> rob_chunk (s_rob s) = 8192 \<and>
      {s_last_rx_offset s ..< UINT64_MAX} \<subseteq> gap_set (rob_gap (s_rob s)) \<and>
      s_last_rx_offset s \<le> s_max_rx_offset s \<and> s_last_rx_offset s \<le> NGTCP2_MAX_VARINT \<and>
      s_max_rx_offset s \<le> s_unsent_max_rx_offset s \<and>
      (\<exists>S b. rob_inv S b (s_rob s) \<and> unat (s_unsent_max_rx_offset s) \<le> unat NGTCP2_MAX_VARINT + unat b))"

definition ids_inv :: "'u ngtcp2_conn \<Rightarrow> bool" where
  "ids_inv c =
     (conn_local_stream c (c_next_local_stream_id_bidi c) \<and> bidi_stream (c_next_local_stream_id_bidi c) \<and>
      conn_local_stream c (c_next_local_stream_id_uni c) \<and> \<not> bidi_stream (c_next_local_stream_id_uni c) \<and>
      unat (c_next_local_stream_id_bidi c) \<le> unat NGTCP2_MAX_VARINT + 4 \<and>
      unat (c_next_local_stream_id_uni c) \<le> unat NGTCP2_MAX_VARINT + 4 \<and>
      c_max_local_stream_id_bidi c \<le> NGTCP2_MAX_VARINT \<and> c_max_local_stream_id_uni c \<le> NGTCP2_MAX_VARINT \<and>
      0 < c_next_local_stream_id_bidi c)"

text \<open>A local stream that exists has been opened, a remote one is within the limit the peer was told.\<close>

definition stream_opened :: "'u ngtcp2_conn \<Rightarrow> u64 \<Rightarrow> bool" where
  "stream_opened c k =
     (if conn_local_stream c k then k < (if bidi_stream k then c_next_local_stream_id_bidi c else c_next_local_stream_id_uni c)
      else k \<le> (if bidi_stream k then c_max_remote_stream_id_bidi c else c_max_remote_stream_id_uni c))"

definition conn_inv :: "'u ngtcp2_conn \<Rightarrow> bool" where
  "conn_inv c =
     (map_wf (c_strms c) \<and> mem_ok (c_mem c) \<and>
      (\<forall>k s. strm_of c k = Some s \<longrightarrow> strm_inv k s \<and> stream_opened c k) \<and>
      (\<exists>s. strm_of c 0 = Some s \<and> \<not> strm_has s NGTCP2_STRM_FLAG_SHUT_RD) \<and>
      distinct (c_fc_strms c) \<and>
      ids_inv c \<and>
      idtr_wf (c_remote_bidi_idtr c) \<and> server (c_remote_bidi_idtr c) = (\<not> c_server c) \<and>
      idtr_wf (c_remote_uni_idtr c) \<and> server (c_remote_uni_idtr c) = (\<not> c_server c) \<and>
      acktr_wf (c_acktr c) \<and> rtb_wf (c_rtb c) \<and>
      c_rx_offset c \<le> c_max_rx_offset c \<and> c_max_rx_offset c \<le> c_unsent_max_rx_offset c \<and>
      c_unsent_max_rx_offset c \<le> NGTCP2_MAX_VARINT)"

text \<open>
  The streams with a pending MAX_STREAM_DATA exist. While the callback for a closed stream runs, the stream is still in
  that list, so this is not part of \<open>conn_inv\<close>.
\<close>

definition conn_ok :: "'u ngtcp2_conn \<Rightarrow> bool" where
  "conn_ok c = (conn_inv c \<and> set (c_fc_strms c) \<subseteq> dom (strm_of c))"

text \<open>The other fields do not matter.\<close>

lemma conn_inv_upd [simp]:
  "conn_inv (c_state_update f1 c) = conn_inv c" "conn_inv (c_conn_id_update f2 c) = conn_inv c"
  "conn_inv (c_client_conn_id_update f3 c) = conn_inv c" "conn_inv (c_last_tx_pkt_num_update f4 c) = conn_inv c"
  "conn_inv (c_max_rx_pkt_num_update f5 c) = conn_inv c"
  "conn_inv (c_unsent_max_remote_stream_id_bidi_update f6 c) = conn_inv c"
  "conn_inv (c_remote_stream_id_bidi_window_start_update f8 c) = conn_inv c"
  "conn_inv (c_unsent_max_remote_stream_id_uni_update f9 c) = conn_inv c"
  "conn_inv (c_remote_stream_id_uni_window_start_update f11 c) = conn_inv c"
  "conn_inv (c_tx_offset_update f12 c) = conn_inv c" "conn_inv (c_max_tx_offset_update f13 c) = conn_inv c"
  "conn_inv (c_frq_update f14 c) = conn_inv c" "conn_inv (c_version_update f15 c) = conn_inv c"
  "conn_inv (c_flags_update f16 c) = conn_inv c" "conn_inv (c_hs_tx_ckm_update f17 c) = conn_inv c"
  "conn_inv (c_hs_rx_ckm_update f18 c) = conn_inv c" "conn_inv (c_early_ckm_update f19 c) = conn_inv c"
  "conn_inv (c_tx_ckm_update f20 c) = conn_inv c" "conn_inv (c_rx_ckm_update f21 c) = conn_inv c"
  "conn_inv (c_aead_overhead_update f22 c) = conn_inv c" "conn_inv (c_buffed_rx_ppkts_update f23 c) = conn_inv c"
  "conn_inv (c_early_rtb_update f24 c) = conn_inv c" "conn_inv (c_local_settings_update f25 c) = conn_inv c"
  "conn_inv (c_remote_settings_update f26 c) = conn_inv c" "conn_inv (c_next_ack_expiry_update f27 c) = conn_inv c"
  "conn_inv (c_immediate_ack_update f28 c) = conn_inv c" "conn_inv (c_decrypt_buf_len_update f29 c) = conn_inv c"
  by (simp_all add: conn_inv_def ids_inv_def stream_opened_def conn_local_stream_def)

lemma conn_inv_tables:
  assumes "conn_inv c"
  shows "acktr_wf a \<Longrightarrow> conn_inv (c\<lparr>c_acktr := a\<rparr>)" and "rtb_wf t \<Longrightarrow> conn_inv (c\<lparr>c_rtb := t\<rparr>)"
proof -
  have "stream_opened (c\<lparr>c_acktr := a\<rparr>) = stream_opened c" "conn_local_stream (c\<lparr>c_acktr := a\<rparr>) = conn_local_stream c"
    "stream_opened (c\<lparr>c_rtb := t\<rparr>) = stream_opened c" "conn_local_stream (c\<lparr>c_rtb := t\<rparr>) = conn_local_stream c"
    by (simp_all add: stream_opened_def conn_local_stream_def fun_eq_iff)
  then show "acktr_wf a \<Longrightarrow> conn_inv (c\<lparr>c_acktr := a\<rparr>)" "rtb_wf t \<Longrightarrow> conn_inv (c\<lparr>c_rtb := t\<rparr>)"
    using assms unfolding conn_inv_def ids_inv_def by simp_all
qed

section \<open>A new stream\<close>

text \<open>The two initialisers of \<open>ngtcp2_strm_init\<close> with an allocator that grants its requests.\<close>

definition new_strm :: "u64 \<Rightarrow> u64 \<Rightarrow> u64 \<Rightarrow> ngtcp2_strm" where
  "new_strm k max_rx max_tx =
     \<lparr>s_tx_offset = 0, s_acked_tx_offset = ngtcp2_gaptr.make [ngtcp2_range_init 0 UINT64_MAX], s_max_tx_offset = max_tx,
      s_last_rx_offset = 0, s_rob = \<lparr>rob_gap = [ngtcp2_range_init 0 UINT64_MAX], rob_data = [], rob_chunk = 8192\<rparr>,
      s_max_rx_offset = max_rx, s_unsent_max_rx_offset = max_rx, s_tx_buf = ngtcp2_buf_init [], s_stream_id = k,
      s_flags = 0, s_app_error_code = 0\<rparr>"

lemma strm_init_ok: "mem_ok m \<Longrightarrow> ngtcp2_strm_init m k 0 max_rx max_tx = Inr (new_strm k max_rx max_tx, m)"
  by (simp add: ngtcp2_strm_init_def ngtcp2_gaptr_init_def ngtcp2_rob_init_def ngtcp2_rob_gap_new_def malloc_mem_ok
      new_strm_def ngtcp2_gaptr.defs)

lemma new_strm_inv: "max_rx \<le> NGTCP2_MAX_VARINT \<Longrightarrow> strm_inv k (new_strm k max_rx max_tx)"
proof -
  let ?s = "new_strm k max_rx max_tx"
  assume "max_rx \<le> NGTCP2_MAX_VARINT"
  moreover have "ngtcp2_rob_init (\<lambda>_. True) 8192 = Inr (s_rob ?s, \<lambda>_. True)"
    by (simp add: new_strm_def ngtcp2_rob_init_def ngtcp2_rob_gap_new_def malloc_mem_ok mem_ok_True)
  then have "rob_inv (\<lambda>_. 0) 0 (s_rob ?s)" by (rule rob_init_inv) simp
  moreover have "gaptr_wf (s_acked_tx_offset ?s)"
    by (simp add: new_strm_def gaptr_wf_def ngtcp2_gaptr.defs gaps_wf_Cons ngtcp2_range_init_def less_UINT64_MAX)
  ultimately show ?thesis
    by (auto simp: strm_inv_def new_strm_def gap_set_def ngtcp2_range_init_def range_set_def word_le_nat_alt)
qed

lemma init_stream_ok:
  assumes "map_wf (c_strms c)" and "mem_ok (c_mem c)" and "map_room (c_strms c)" and "strm_of c k = None"
  defines "s \<equiv> new_strm k (ucast (set_max_stream_data (c_local_settings c))) (ucast (set_max_stream_data (c_remote_settings c)))"
  shows "\<exists>mp. ngtcp2_conn_init_stream c k = Inr (None, c\<lparr>c_strms := mp\<rparr>) \<and> map_wf mp \<and>
    strm_of (c\<lparr>c_strms := mp\<rparr>) = (strm_of c)(k \<mapsto> s)"
proof -
  let ?e = "\<lparr>key = k, obj = s\<rparr>"
  have "map_abs (c_strms c) (key ?e) = None" using assms(4) by (simp add: strm_of_def)
  then obtain mp where mp: "ngtcp2_map_insert (c_mem c) (c_strms c) ?e [] = Inr (None, mp, c_mem c)" "map_wf mp"
      "map_abs mp = (map_abs (c_strms c))(key ?e \<mapsto> ?e)"
    using map_insert_ok(1) [OF assms(1,3,2)] by blast
  then show ?thesis
    using strm_init_ok [OF assms(2)] by (auto simp: ngtcp2_conn_init_stream_def s_def strm_of_def fun_eq_iff)
qed

section \<open>A new connection\<close>

lemma map_init_ok:
  "mem_ok m \<Longrightarrow> \<exists>mp. ngtcp2_map_init m = (None, Some mp, m) \<and> map_wf mp \<and> map_room mp \<and>
    map_abs mp = (\<lambda>_. None) \<and> map_size mp = 0 \<and> tablelen mp = 256"
  by (auto simp: ngtcp2_map_init_def malloc_mem_ok map_wf_def table_wf_def map_room_def INITIAL_TABLE_LENGTH_def
      map_abs_def fun_eq_iff)

lemma acktr_init_ok: "mem_ok m \<Longrightarrow> \<exists>a. ngtcp2_acktr_init m sz = Inr (None, Some a, m) \<and> acktr_wf a \<and> ent a = []"
proof -
  assume "mem_ok m"
  then obtain rb :: "ngtcp2_acktr_ack_entry ngtcp2_ringbuf" where
      "ngtcp2_ringbuf_init m 128 sz = Inr (None, Some rb, m)" "rb_wf rb" "rb_list rb = []" "length (rb_buf rb) = 128"
    using init_wf [of 7 m sz] by auto
  then show ?thesis by (simp add: ngtcp2_acktr_init_def acktr_wf_def ack_list_def desc_def)
qed

lemma idtr_init_ok:
  "mem_ok m \<Longrightarrow> \<exists>t. ngtcp2_idtr_init m srv = Inr (t, m) \<and> idtr_wf t \<and> server t = srv"
  using idtr_init_wf [of m srv] by (simp add: ngtcp2_idtr_init_def ngtcp2_idtr_gap_new_def malloc_mem_ok)

lemma ucast_le_varint [simp]: "(ucast (x :: u32) :: u64) \<le> NGTCP2_MAX_VARINT"
proof -
  have "unat x < 2 ^ 32" using unsigned_less [of x] by simp
  moreover have "unat (ucast x :: u64) = unat x"
    using calculation by (simp add: unsigned_ucast_eq take_bit_nat_eq_self)
  ultimately show ?thesis by (simp add: word_le_nat_alt)
qed

definition fresh_conn :: "'u ngtcp2_conn \<Rightarrow> bool" where
  "fresh_conn c =
     (map_wf (c_strms c) \<and> map_room (c_strms c) \<and> mem_ok (c_mem c) \<and>
      strm_of c = [0 \<mapsto> new_strm 0 (ucast (set_max_stream_data (c_local_settings c))) NGTCP2_STRM0_MAX_STREAM_DATA] \<and>
      c_fc_strms c = [] \<and> c_max_local_stream_id_bidi c = 0 \<and> c_max_local_stream_id_uni c = 0 \<and>
      idtr_wf (c_remote_bidi_idtr c) \<and> server (c_remote_bidi_idtr c) = (\<not> c_server c) \<and>
      idtr_wf (c_remote_uni_idtr c) \<and> server (c_remote_uni_idtr c) = (\<not> c_server c) \<and>
      acktr_wf (c_acktr c) \<and> ent (c_acktr c) = [] \<and> c_rtb c = ngtcp2_rtb_init (\<lambda>_. 0) \<and> c_rx_offset c = 0 \<and>
      c_last_tx_pkt_num c = 0 \<and> c_max_rx_pkt_num c = 0 \<and>
      c_max_rx_offset c = ucast (set_max_data (c_local_settings c)) \<and> c_unsent_max_rx_offset c = c_max_rx_offset c)"

lemma insert_room: "map_wf mp \<Longrightarrow> map_room mp \<Longrightarrow> 4 * Suc (map_size mp) \<le> 3 * unat (tablelen mp) \<Longrightarrow>
    ngtcp2_map_insert m mp e [] = Inr (None, mp', m') \<Longrightarrow> Suc (map_size mp) < 2 ^ 61 \<Longrightarrow> map_room mp'"
proof -
  assume a: "map_wf mp" "map_room mp" "4 * Suc (map_size mp) \<le> 3 * unat (tablelen mp)" "Suc (map_size mp) < 2 ^ 61"
    "ngtcp2_map_insert m mp e [] = Inr (None, mp', m')"
  have "unat (tablelen mp * 3) = unat (tablelen mp) * 3"
    using a(2) by (simp add: map_room_def unat_mult_lem [THEN iffD1])
  then have "\<not> szmul (szadd (map_size mp) 1) 4 > unat (tablelen mp * 3)" using a by (simp add: szmul_def szadd_def map_room_def)
  then show ?thesis using a by (auto simp: ngtcp2_map_insert_def map_room_def szadd_def Let_def rbind_def split: sum.splits if_splits)
qed

lemma conn_new_ok:
  fixes u :: 'u
  assumes m: "mem_ok m"
  shows "\<exists>c. conn_new m conn_id version settings u srv = Inr (None, Some c) \<and> fresh_conn c \<and> c_server c = srv \<and>
    c_local_settings c = settings \<and> c_user_data c = u"
proof -
  let ?s = "new_strm 0 (ucast (set_max_stream_data settings)) NGTCP2_STRM0_MAX_STREAM_DATA"
  let ?e = "\<lparr>key = 0, obj = ?s\<rparr>"
  obtain mp0 :: "ngtcp2_strm ngtcp2_map" where mp0: "ngtcp2_map_init m = (None, Some mp0, m)" "map_wf mp0" "map_room mp0"
      "map_abs mp0 = (\<lambda>_. None)" "map_size mp0 = 0" "tablelen mp0 = 256"
    using map_init_ok [OF m] by blast
  obtain mp where mp: "ngtcp2_map_insert m mp0 ?e [] = Inr (None, mp, m)" "map_wf mp" "map_abs mp = [0 \<mapsto> ?e]"
    using map_insert_ok(1) [OF mp0(2,3) m, of ?e] mp0(4) by auto
  have room: "map_room mp" using insert_room [OF mp0(2,3) _ mp(1)] mp0(5,6) by simp
  obtain t where t: "ngtcp2_idtr_init m (\<not> srv) = Inr (t, m)" "idtr_wf t" "server t = (\<not> srv)"
    using idtr_init_ok [OF m] by blast
  obtain a where a: "ngtcp2_acktr_init m 24 = Inr (None, Some a, m)" "acktr_wf a" "ent a = []" using acktr_init_ok [OF m] by blast
  have "\<exists>c. conn_new m conn_id version settings u srv = Inr (None, Some c) \<and> c_server c = srv \<and>
      c_local_settings c = settings \<and> c_mem c = m \<and> c_strms c = mp \<and> c_fc_strms c = [] \<and> c_remote_bidi_idtr c = t \<and>
      c_remote_uni_idtr c = t \<and> c_acktr c = a \<and> c_rtb c = ngtcp2_rtb_init (\<lambda>_. 0) \<and> c_rx_offset c = 0 \<and>
      c_max_rx_offset c = ucast (set_max_data settings) \<and> c_unsent_max_rx_offset c = ucast (set_max_data settings) \<and>
      c_max_local_stream_id_bidi c = 0 \<and> c_max_local_stream_id_uni c = 0 \<and> c_user_data c = u \<and>
      c_last_tx_pkt_num c = 0 \<and> c_max_rx_pkt_num c = 0"
    using mp0(1) mp(1) t(1) a(1) by (simp add: conn_new_def malloc_mem_ok [OF m] strm_init_ok [OF m])
  then obtain c :: "'u ngtcp2_conn" where c: "conn_new m conn_id version settings u srv = Inr (None, Some c)" "c_server c = srv"
      "c_local_settings c = settings" "c_mem c = m" "c_strms c = mp" "c_fc_strms c = []" "c_remote_bidi_idtr c = t"
      "c_remote_uni_idtr c = t" "c_acktr c = a" "c_rtb c = ngtcp2_rtb_init (\<lambda>_. 0)" "c_rx_offset c = 0"
      "c_max_rx_offset c = ucast (set_max_data settings)" "c_unsent_max_rx_offset c = ucast (set_max_data settings)"
      "c_max_local_stream_id_bidi c = 0" "c_max_local_stream_id_uni c = 0" "c_user_data c = u"
      "c_last_tx_pkt_num c = 0" "c_max_rx_pkt_num c = 0"
    by blast
  have "strm_of c = [0 \<mapsto> ?s]" using c(5) mp(3) by (simp add: strm_of_def fun_eq_iff)
  then have "fresh_conn c" using c mp(2) room t a(2,3) m by (simp add: fresh_conn_def)
  then show ?thesis using c(1-3,16) by blast
qed

lemma fresh_conn_inv:
  assumes "fresh_conn c" and "ids_inv c"
  shows "conn_ok c"
  using assms new_strm_inv [of "ucast (set_max_stream_data (c_local_settings c))" 0 NGTCP2_STRM0_MAX_STREAM_DATA] rtb_init_ok
  by (simp add: fresh_conn_def conn_ok_def conn_inv_def stream_opened_def ids_inv_def bidi_stream_def strm_has_def new_strm_def)

lemma client_new_ok:
  assumes "mem_ok m"
  shows "\<exists>c. ngtcp2_conn_client_new m conn_id version settings u = Inr (None, Some c) \<and> conn_ok c \<and>
    fresh_conn c \<and> \<not> c_server c \<and> c_local_settings c = settings \<and> c_user_data c = u"
proof -
  obtain c where c: "conn_new m conn_id version settings u False = Inr (None, Some c)" "fresh_conn c" "\<not> c_server c"
      "c_local_settings c = settings" "c_user_data c = u"
    using conn_new_ok [OF assms, of conn_id version settings u False] by auto
  let ?c = "c\<lparr>c_client_conn_id := conn_id, c_next_local_stream_id_bidi := 4, c_next_local_stream_id_uni := 2\<rparr>"
  have "fresh_conn ?c" using c(2) by (simp add: fresh_conn_def)
  moreover have "ids_inv ?c" using c(2,3) by (simp add: ids_inv_def conn_local_stream_def bidi_stream_def fresh_conn_def)
  ultimately have "conn_ok ?c" by (rule fresh_conn_inv)
  then show ?thesis using c \<open>fresh_conn ?c\<close> by (simp add: ngtcp2_conn_client_new_def fresh_conn_def)
qed

lemma server_new_ok:
  assumes "mem_ok m"
  shows "\<exists>c. ngtcp2_conn_server_new m conn_id version settings u = Inr (None, Some c) \<and> conn_ok c \<and>
    fresh_conn c \<and> c_server c \<and> c_local_settings c = settings \<and> c_user_data c = u"
proof -
  obtain c where c: "conn_new m conn_id version settings u True = Inr (None, Some c)" "fresh_conn c" "c_server c"
      "c_local_settings c = settings" "c_user_data c = u"
    using conn_new_ok [OF assms, of conn_id version settings u True] by auto
  have "idtr_wf (c_remote_bidi_idtr c)" "mem_ok (c_mem c)" "idtr_assert (c_remote_bidi_idtr c) 0"
    using c(2,3) by (simp_all add: fresh_conn_def idtr_assert_def)
  then obtain rv t where t: "ngtcp2_idtr_open (c_mem c) (c_remote_bidi_idtr c) 0 = Inr (rv, t, c_mem c)" "idtr_wf t"
      "server t = server (c_remote_bidi_idtr c)"
    using idtr_open_correct_aux [of "c_mem c" "c_remote_bidi_idtr c" 0] by (metis (full_types))
  let ?c = "c\<lparr>c_remote_bidi_idtr := t, c_next_local_stream_id_bidi := 1, c_next_local_stream_id_uni := 3\<rparr>"
  have "fresh_conn ?c" using c(2) t(2,3) by (simp add: fresh_conn_def)
  moreover have "ids_inv ?c" using c(2,3) by (simp add: ids_inv_def conn_local_stream_def bidi_stream_def fresh_conn_def)
  ultimately have "conn_ok ?c" by (rule fresh_conn_inv)
  then show ?thesis using c t(1) \<open>fresh_conn ?c\<close> by (simp add: ngtcp2_conn_server_new_def fresh_conn_def)
qed

end
