(* ===== verification/Conn_Ack.thy ===== *)
theory Conn_Ack
  imports Conn_Inv
begin

text \<open>
  The part of \<^verbatim>\<open>lib/ngtcp2_conn.c\<close> that acknowledges packets: the delayed ACK timer, the registration of received
  packets, the construction of ACK frames from the tracker, and the processing of ACK frames of the peer, down to
  the stream data the application is told to be acknowledged.
\<close>

section \<open>The ACK timer\<close>

definition conn_set_next_ack_expiry :: "'u ngtcp2_conn \<Rightarrow> u64 \<Rightarrow> 'u ngtcp2_conn" where
  "conn_set_next_ack_expiry c ts = c\<lparr>c_next_ack_expiry := ts + NGTCP2_DELAYED_ACK_TIMEOUT, c_immediate_ack := False\<rparr>"

definition conn_invalidate_next_ack_expiry :: "'u ngtcp2_conn \<Rightarrow> 'u ngtcp2_conn" where
  "conn_invalidate_next_ack_expiry c = c\<lparr>c_next_ack_expiry := 0, c_immediate_ack := False\<rparr>"

definition conn_immediate_ack :: "'u ngtcp2_conn \<Rightarrow> 'u ngtcp2_conn" where
  "conn_immediate_ack c = c\<lparr>c_immediate_ack := True\<rparr>"

definition conn_next_ack_expired :: "'u ngtcp2_conn \<Rightarrow> u64 \<Rightarrow> bool" where
  "conn_next_ack_expired c ts = (c_immediate_ack c \<or> (c_next_ack_expiry c \<noteq> 0 \<and> c_next_ack_expiry c \<le> ts))"

definition conn_commit_tx_ack :: "'u ngtcp2_conn \<Rightarrow> 'u ngtcp2_conn" where
  "conn_commit_tx_ack c =
     (let c = conn_invalidate_next_ack_expiry c in c\<lparr>c_acktr := (c_acktr c)\<lparr>active_ack := False\<rparr>\<rparr>)"

definition ngtcp2_conn_sched_ack ::
    "'u ngtcp2_conn \<Rightarrow> u64 \<Rightarrow> bool \<Rightarrow> u64 \<Rightarrow> bool \<Rightarrow> (rv \<times> 'u ngtcp2_conn) res" where
  "ngtcp2_conn_sched_ack c n active ts unprot =
     (let (rv, rpkt, m) = ngtcp2_acktr_entry_new (c_mem c) n ts unprot; c = c\<lparr>c_mem := m\<rparr> in
      case rpkt of
        None \<Rightarrow> Inr (rv, c)
      | Some rpkt \<Rightarrow>
          rbind (ngtcp2_acktr_add (c_acktr c) rpkt active) (\<lambda>(rv, acktr).
          let c = c\<lparr>c_acktr := acktr\<rparr> in
          if rv \<noteq> None then Inr (rv, c)
          else if \<not> c_immediate_ack c \<and> c_next_ack_expiry c = 0 \<and> active_ack (c_acktr c)
          then Inr (None, conn_set_next_ack_expiry c ts)
          else Inr (None, c)))"

section \<open>Building an ACK frame\<close>

text \<open>
  The local variables of \<^verbatim>\<open>conn_create_ack_frame\<close>: the frame with its blocks so far, \<^verbatim>\<open>initial\<close>, \<^verbatim>\<open>gap\<close> (not
  initialised before the first block is closed), \<^verbatim>\<open>first_pkt_num\<close>, \<^verbatim>\<open>last_pkt_num\<close> and \<^verbatim>\<open>num_blks_max\<close>.
\<close>

record ack_build =
  ab_ack :: ngtcp2_ack
  ab_initial :: bool
  ab_gap :: u64
  ab_first :: u64
  ab_last :: u64
  ab_max :: nat

definition conn_ensure_ack_blks :: "mem \<Rightarrow> nat \<Rightarrow> nat \<Rightarrow> rv \<times> nat \<times> mem" where
  "conn_ensure_ack_blks m num_blks_max n =
     (if n \<le> num_blks_max then (None, num_blks_max, m)
      else let num_blks_max = num_blks_max * 2; (ok, m) = malloc m in
           if \<not> ok then (Some NGTCP2_ERR_NOMEM, num_blks_max, m) else (None, num_blks_max, m))"

text \<open>Closing the run of packet numbers: the first one is \<^verbatim>\<open>first_ack_blklen\<close>, every other one a block.\<close>

definition close_run :: "mem \<Rightarrow> ack_build \<Rightarrow> (rv \<times> ack_build \<times> mem) res" where
  "close_run m b =
     (if ab_initial b then
        Inr (None, b\<lparr>ab_initial := False, ab_ack := (ab_ack b)\<lparr>first_ack_blklen := ab_first b - ab_last b\<rparr>\<rparr>, m)
      else
        let blk_idx = num_blks (ab_ack b); ack = (ab_ack b)\<lparr>num_blks := num_blks (ab_ack b) + 1\<rparr>;
            (rv, num_blks_max, m) = conn_ensure_ack_blks m (ab_max b) (num_blks ack) in
        if rv \<noteq> None then Inr (rv, b, m)
        else if blk_idx < num_blks_max \<and> blk_idx = length (blks ack)
        then Inr (None, b\<lparr>ab_max := num_blks_max,
                ab_ack := ack\<lparr>blks := blks ack @ [\<lparr>gap = ab_gap b, blklen = ab_first b - ab_last b\<rparr>]\<rparr>\<rparr>, m)
        else Inl OutOfBounds)"

text \<open>The loop returns the entries from \<^verbatim>\<open>*prpkt\<close> on.\<close>

fun ack_runs :: "mem \<Rightarrow> bool \<Rightarrow> ngtcp2_acktr_entry list \<Rightarrow> ack_build \<Rightarrow>
    (rv \<times> ngtcp2_acktr_entry list \<times> ack_build \<times> mem) res" where
  "ack_runs m unprot [] b = Inr (None, [], b, m)"
| "ack_runs m unprot (p # ps) b =
     (if unprot \<and> \<not> unprotected p then ack_runs m unprot ps b
      else if pkt_num p + 1 = ab_last b then ack_runs m unprot ps (b\<lparr>ab_last := pkt_num p\<rparr>)
      else
        rbind (close_run m b) (\<lambda>(rv, b, m).
        if rv \<noteq> None then Inr (rv, p # ps, b, m)
        else
          let b = b\<lparr>ab_gap := ab_last b - pkt_num p - 2, ab_first := pkt_num p, ab_last := pkt_num p\<rparr> in
          if num_blks (ab_ack b) = NGTCP2_MAX_ACK_BLKS then Inr (None, p # ps, b, m)
          else ack_runs m unprot ps b))"

definition conn_create_ack_frame ::
    "'u ngtcp2_conn \<Rightarrow> u64 \<Rightarrow> bool \<Rightarrow> (rv \<times> ngtcp2_ack option \<times> 'u ngtcp2_conn) res" where
  "conn_create_ack_frame c ts unprot =
     (if \<not> active_ack (c_acktr c) then Inr (None, None, conn_invalidate_next_ack_expiry c)
      else
        let es = ngtcp2_acktr_get (c_acktr c);
            es = (if unprot then dropWhile (\<lambda>e. \<not> unprotected e) es else es) in
        case es of
          [] \<Rightarrow> Inr (None, None, conn_invalidate_next_ack_expiry c)
        | e # es \<Rightarrow>
            let (ok, m) = malloc (c_mem c) in
            if \<not> ok then Inr (Some NGTCP2_ERR_NOMEM, None, c\<lparr>c_mem := m\<rparr>)
            else
              let ack = \<lparr>largest_ack = pkt_num e,
                    ack_delay = drop_bit (unat (set_ack_delay_exponent (c_local_settings c))) (ts - tstamp e),
                    first_ack_blklen = 0, num_blks = 0, blks = []\<rparr>;
                  b = \<lparr>ab_ack = ack, ab_initial = True, ab_gap = 0, ab_first = pkt_num e, ab_last = pkt_num e, ab_max = 8\<rparr>
              in
                rbind (ack_runs m unprot es b) (\<lambda>(rv, rest, b, m).
                if rv \<noteq> None then Inr (rv, None, c\<lparr>c_mem := m\<rparr>)
                else
                  rbind (close_run m b) (\<lambda>(rv, b, m).
                  let c = c\<lparr>c_mem := m\<rparr> in
                  if rv \<noteq> None then Inr (rv, None, c)
                  else
                    let acktr = (if rest \<noteq> []
                      then ngtcp2_acktr_forget (c_acktr c) (length (ent (c_acktr c)) - length rest) else c_acktr c)
                    in Inr (None, Some (ab_ack b), c\<lparr>c_acktr := acktr\<rparr>))))"

section \<open>What the frame acknowledges\<close>

text \<open>
  While the loop runs, the frame under construction together with the open run from \<open>ab_last\<close> to \<open>ab_first\<close>
  acknowledges the packet numbers seen so far. \<open>built_ranges\<close> are the ranges it would have if the run were closed.
\<close>

definition closed_ranges :: "ack_build \<Rightarrow> (int \<times> int) list" where
  "closed_ranges b = (if ab_initial b then [] else ack_ranges (ab_ack b))"

definition built_ranges :: "ack_build \<Rightarrow> (int \<times> int) list" where
  "built_ranges b = closed_ranges b @ [(uint (ab_last b), uint (ab_first b))]"

text \<open>The lowest packet number of the closed runs, from which the next gap is counted.\<close>

definition low_of :: "ngtcp2_ack \<Rightarrow> int" where
  "low_of fr = fst (last (ack_ranges fr))"

definition build_ok :: "ack_build \<Rightarrow> bool" where
  "build_ok b =
     (ab_last b \<le> ab_first b \<and> num_blks (ab_ack b) = length (blks (ab_ack b)) \<and>
      (if ab_initial b then ab_first b = largest_ack (ab_ack b) \<and> blks (ab_ack b) = []
       else uint (ab_gap b) = low_of (ab_ack b) - uint (ab_first b) - 2))"

lemma ack_blk_ranges_Nil_iff [simp]: "ack_blk_ranges low bl = [] \<longleftrightarrow> bl = []"
  by (cases bl) (simp_all add: Let_def)

lemma ack_blk_ranges_snoc:
  "ack_blk_ranges low (bl @ [x]) =
    ack_blk_ranges low bl @
    (let hi = (if bl = [] then low else fst (last (ack_blk_ranges low bl))) - uint (gap x) - 2 in [(hi - uint (blklen x), hi)])"
  by (induction bl arbitrary: low) (auto simp: Let_def)

lemma ack_ranges_snoc:
  "ack_ranges (fr\<lparr>num_blks := n, blks := blks fr @ [x]\<rparr>) =
    ack_ranges fr @ (let hi = low_of fr - uint (gap x) - 2 in [(hi - uint (blklen x), hi)])"
  by (cases "blks fr") (auto simp: ack_ranges_def low_of_def Let_def ack_blk_ranges_snoc)

lemma uint_diff: "(b :: u64) \<le> a \<Longrightarrow> uint (a - b) = uint a - uint b"
  by (rule uint_sub_lem [THEN iffD1]) (simp add: word_le_def)

lemma close_run_ok:
  assumes b: "build_ok b" and m: "mem_ok m" and n: "num_blks (ab_ack b) \<le> ab_max b" "0 < ab_max b"
  shows "\<exists>b'. close_run m b = Inr (None, b', m) \<and> \<not> ab_initial b' \<and> ack_ranges (ab_ack b') = built_ranges b \<and>
    low_of (ab_ack b') = uint (ab_last b) \<and> num_blks (ab_ack b') = length (blks (ab_ack b')) \<and>
    num_blks (ab_ack b') = (if ab_initial b then 0 else num_blks (ab_ack b) + 1) \<and>
    num_blks (ab_ack b') \<le> ab_max b' \<and> 0 < ab_max b' \<and> largest_ack (ab_ack b') = largest_ack (ab_ack b) \<and>
    ack_delay (ab_ack b') = ack_delay (ab_ack b) \<and> ab_last b' = ab_last b"
proof -
  have d: "uint (ab_first b - ab_last b) = uint (ab_first b) - uint (ab_last b)"
    using b by (simp add: build_ok_def uint_diff)
  show ?thesis
  proof (cases "ab_initial b")
    case True
    then show ?thesis using b d n
      by (simp add: close_run_def build_ok_def built_ranges_def closed_ranges_def low_of_def ack_ranges_def Let_def)
  next
    case False
    let ?n = "num_blks (ab_ack b)"
    obtain mx where mx: "conn_ensure_ack_blks m (ab_max b) (?n + 1) = (None, mx, m)" "?n < mx"
      using n malloc_mem_ok [OF m] by (cases "?n + 1 \<le> ab_max b") (auto simp: conn_ensure_ack_blks_def)
    let ?x = "\<lparr>gap = ab_gap b, blklen = ab_first b - ab_last b\<rparr> :: ngtcp2_ack_blk"
    let ?a = "(ab_ack b)\<lparr>num_blks := ?n + 1, blks := blks (ab_ack b) @ [?x]\<rparr>"
    have g: "uint (ab_gap b) = low_of (ab_ack b) - uint (ab_first b) - 2" and len: "?n = length (blks (ab_ack b))"
      using b False by (simp_all add: build_ok_def)
    have r: "ack_ranges ?a = built_ranges b"
      using False d g by (simp add: ack_ranges_snoc built_ranges_def closed_ranges_def Let_def)
    have "low_of ?a = uint (ab_last b)" unfolding low_of_def r by (simp add: built_ranges_def)
    then show ?thesis using False mx r len by (simp add: close_run_def Let_def)
  qed
qed

text \<open>The packet numbers that count: all, or those of unprotected packets.\<close>

definition counted :: "bool \<Rightarrow> ngtcp2_acktr_entry list \<Rightarrow> u64 set" where
  "counted unprot ps = pkt_num ` set (filter (\<lambda>e. unprot \<longrightarrow> unprotected e) ps)"

definition run_inv :: "ack_build \<Rightarrow> bool" where
  "run_inv b = (build_ok b \<and> num_blks (ab_ack b) \<le> ab_max b \<and> 0 < ab_max b \<and>
     list_all (\<lambda>(lo, hi). 0 \<le> lo) (built_ranges b))"

lemma counted_simps [simp]:
  "counted unprot [] = {}"
  "counted unprot (p # ps) = (if unprot \<and> \<not> unprotected p then {} else {pkt_num p}) \<union> counted unprot ps"
  by (auto simp: counted_def)

lemma in_ranges_append [simp]: "in_ranges (rs @ rs') n \<longleftrightarrow> in_ranges rs n \<or> in_ranges rs' n"
  by (simp add: in_ranges_def)

lemma extend_run:
  assumes "run_inv b" and "p + 1 = ab_last b" and "p < ab_last b"
  shows "run_inv (b\<lparr>ab_last := p\<rparr>)"
    and "in_ranges (built_ranges (b\<lparr>ab_last := p\<rparr>)) n \<longleftrightarrow> in_ranges (built_ranges b) n \<or> n = p"
proof -
  have l: "ab_last b \<le> ab_first b" using assms(1) by (simp add: run_inv_def build_ok_def)
  then have "p \<le> ab_first b" using assms(3) by simp
  then show "run_inv (b\<lparr>ab_last := p\<rparr>)"
    using assms(1) by (simp add: run_inv_def build_ok_def built_ranges_def closed_ranges_def split: if_splits)
  have "uint (ab_last b) = uint p + 1"
    using uint_diff [of p "ab_last b"] assms(2,3) by (metis add.commute add_diff_cancel_left' less_imp_le uint_1 add_diff_cancel_right' diff_add_cancel)
  then show "in_ranges (built_ranges (b\<lparr>ab_last := p\<rparr>)) n \<longleftrightarrow> in_ranges (built_ranges b) n \<or> n = p"
    using l by (auto simp: built_ranges_def closed_ranges_def in_ranges_def word_le_def word_uint_eq_iff)
qed

lemma next_run:
  assumes b: "\<not> ab_initial b" "num_blks (ab_ack b) = length (blks (ab_ack b))" "low_of (ab_ack b) = uint l"
      "num_blks (ab_ack b) \<le> ab_max b" "0 < ab_max b" "list_all (\<lambda>(lo, hi). 0 \<le> lo) (ack_ranges (ab_ack b))"
    and p: "p + 1 \<noteq> l" "p < l"
  shows "run_inv (b\<lparr>ab_gap := l - p - 2, ab_first := p, ab_last := p\<rparr>)"
    and "in_ranges (built_ranges (b\<lparr>ab_gap := l - p - 2, ab_first := p, ab_last := p\<rparr>)) n \<longleftrightarrow>
      in_ranges (ack_ranges (ab_ack b)) n \<or> n = p"
proof -
  have d: "uint (l - p) = uint l - uint p" using p(2) by (simp add: uint_diff)
  have "uint (l - p) \<noteq> 1"
  proof
    assume "uint (l - p) = 1"
    then have "l - p = 1" by (simp add: word_uint_eq_iff)
    then show False using p(1) by (simp add: algebra_simps)
  qed
  moreover have "uint (l - p) \<noteq> 0" using p(2) d by (simp add: word_less_def)
  moreover have "0 \<le> uint (l - p)" by simp
  ultimately have "2 \<le> uint (l - p)" by linarith
  then have "uint (l - p - 2) = uint l - uint p - 2"
    using uint_diff [of 2 "l - p"] d by (simp add: word_le_def)
  then show "run_inv (b\<lparr>ab_gap := l - p - 2, ab_first := p, ab_last := p\<rparr>)"
    using b by (simp add: run_inv_def build_ok_def built_ranges_def closed_ranges_def)
  show "in_ranges (built_ranges (b\<lparr>ab_gap := l - p - 2, ab_first := p, ab_last := p\<rparr>)) n \<longleftrightarrow>
      in_ranges (ack_ranges (ab_ack b)) n \<or> n = p"
    using b(1) by (auto simp: built_ranges_def closed_ranges_def in_ranges_def word_uint_eq_iff)
qed

definition runs_post :: "bool \<Rightarrow> ack_build \<Rightarrow> ngtcp2_acktr_entry list \<Rightarrow> ngtcp2_acktr_entry list \<Rightarrow> ack_build \<Rightarrow> bool" where
  "runs_post unprot b ps rest b' \<longleftrightarrow>
     run_inv b' \<and> num_blks (ab_ack b') \<le> 255 \<and> largest_ack (ab_ack b') = largest_ack (ab_ack b) \<and>
     (\<exists>pre. ps = pre @ rest \<and> (rest \<noteq> [] \<longrightarrow> num_blks (ab_ack b') = 255) \<and>
       (\<forall>n. in_ranges (built_ranges b') n \<longleftrightarrow>
         in_ranges (built_ranges b) n \<or> n \<in> counted unprot (pre @ take 1 rest)))"

lemma runs_post_step:
  assumes "runs_post unprot b1 ps rest b'" and "largest_ack (ab_ack b1) = largest_ack (ab_ack b)"
    and "\<And>n. in_ranges (built_ranges b1) n \<longleftrightarrow> in_ranges (built_ranges b) n \<or> n \<in> counted unprot [p]"
  shows "runs_post unprot b (p # ps) rest b'"
proof -
  obtain pre where pre: "ps = pre @ rest" "rest \<noteq> [] \<longrightarrow> num_blks (ab_ack b') = 255"
      "\<forall>n. in_ranges (built_ranges b') n \<longleftrightarrow> in_ranges (built_ranges b1) n \<or> n \<in> counted unprot (pre @ take 1 rest)"
    using assms(1) unfolding runs_post_def by blast
  have "\<forall>n. in_ranges (built_ranges b') n \<longleftrightarrow>
      in_ranges (built_ranges b) n \<or> n \<in> counted unprot ((p # pre) @ take 1 rest)"
    using pre(3) assms(3) by auto
  then show ?thesis using assms(1,2) pre(1,2) unfolding runs_post_def by (metis append_Cons)
qed

lemma ack_runs_ok:
  assumes "run_inv b" and "mem_ok m" and "num_blks (ab_ack b) < 255" and "desc ps" and "\<forall>p \<in> set ps. pkt_num p < ab_last b"
  shows "\<exists>rest b'. ack_runs m unprot ps b = Inr (None, rest, b', m) \<and> runs_post unprot b ps rest b'"
  using assms
proof (induction ps arbitrary: b)
  case Nil
  then show ?case by (auto simp: runs_post_def)
next
  case (Cons p ps)
  have ds: "desc ps" "\<forall>q \<in> set ps. pkt_num q < pkt_num p" using Cons.prems(4) by (auto simp: desc_Cons)
  have lt: "pkt_num p < ab_last b" "\<forall>q \<in> set ps. pkt_num q < ab_last b" using Cons.prems(5) by auto
  consider "unprot \<and> \<not> unprotected p" | "\<not> (unprot \<and> \<not> unprotected p)" "pkt_num p + 1 = ab_last b"
    | "\<not> (unprot \<and> \<not> unprotected p)" "pkt_num p + 1 \<noteq> ab_last b" by blast
  then show ?case
  proof cases
    case 1
    obtain rest b' where "ack_runs m unprot ps b = Inr (None, rest, b', m)" "runs_post unprot b ps rest b'"
      using Cons.IH [OF Cons.prems(1-3) ds(1) lt(2)] by blast
    then show ?thesis using 1 by (auto intro: runs_post_step)
  next
    case 2
    let ?b = "b\<lparr>ab_last := pkt_num p\<rparr>"
    note e = extend_run [OF Cons.prems(1) 2(2) lt(1)]
    obtain rest b' where "ack_runs m unprot ps ?b = Inr (None, rest, b', m)" "runs_post unprot ?b ps rest b'"
      using Cons.IH [OF e(1) Cons.prems(2) _ ds(1)] Cons.prems(3) ds(2) by auto
    moreover have "in_ranges (built_ranges ?b) n \<longleftrightarrow> in_ranges (built_ranges b) n \<or> n \<in> counted unprot [p]" for n
      using e(2) [of n] 2(1) by auto
    ultimately have "runs_post unprot b (p # ps) rest b'" by (intro runs_post_step [of unprot ?b]) simp_all
    moreover have "ack_runs m unprot (p # ps) b = ack_runs m unprot ps ?b" using 2 by auto
    ultimately show ?thesis using \<open>ack_runs m unprot ps ?b = _\<close> by metis
  next
    case 3
    have bo: "build_ok b" "num_blks (ab_ack b) \<le> ab_max b" "0 < ab_max b" "list_all (\<lambda>(lo, hi). 0 \<le> lo) (built_ranges b)"
      using Cons.prems(1) by (simp_all add: run_inv_def)
    obtain c where c: "close_run m b = Inr (None, c, m)" "\<not> ab_initial c" "ack_ranges (ab_ack c) = built_ranges b"
        "low_of (ab_ack c) = uint (ab_last b)" "num_blks (ab_ack c) = length (blks (ab_ack c))"
        "num_blks (ab_ack c) = (if ab_initial b then 0 else num_blks (ab_ack b) + 1)" "num_blks (ab_ack c) \<le> ab_max c"
        "0 < ab_max c" "largest_ack (ab_ack c) = largest_ack (ab_ack b)" "ab_last c = ab_last b"
      using close_run_ok [OF bo(1) Cons.prems(2) bo(2,3)] by blast
    let ?b = "c\<lparr>ab_gap := ab_last c - pkt_num p - 2, ab_first := pkt_num p, ab_last := pkt_num p\<rparr>"
    have all: "list_all (\<lambda>(lo, hi). 0 \<le> lo) (ack_ranges (ab_ack c))" using bo(4) c(3) by simp
    have p': "pkt_num p + 1 \<noteq> ab_last c" "pkt_num p < ab_last c" using 3(2) lt(1) c(10) by simp_all
    have low: "low_of (ab_ack c) = uint (ab_last c)" using c(4,10) by simp
    note n = next_run [OF c(2,5) low c(7,8) all p']
    have r: "in_ranges (built_ranges ?b) n \<longleftrightarrow> in_ranges (built_ranges b) n \<or> n \<in> counted unprot [p]" for n
      using n(2) [of n] c(3) 3(1) by auto
    show ?thesis
    proof (cases "num_blks (ab_ack c) = 255")
      case True
      have "runs_post unprot b (p # ps) (p # ps) ?b"
        unfolding runs_post_def using n(1) True c(9) r by (auto intro!: exI [of _ "[]"])
      then show ?thesis using 3 c(1) True by auto
    next
      case False
      then have "num_blks (ab_ack ?b) < 255" using c(6) Cons.prems(3) by (auto split: if_splits)
      then obtain rest b' where "ack_runs m unprot ps ?b = Inr (None, rest, b', m)" "runs_post unprot ?b ps rest b'"
        using Cons.IH [OF n(1) Cons.prems(2) _ ds(1)] ds(2) by auto
      then show ?thesis using 3 c(1,9) False runs_post_step [of unprot ?b ps rest b' b p] r by auto
    qed
  qed
qed

section \<open>Properties\<close>

lemma counted_dropWhile:
  "counted unprot (if unprot then dropWhile (\<lambda>e. \<not> unprotected e) ps else ps) = counted unprot ps"
  by (induction ps) auto

lemma desc_suffix: "desc (xs @ ys) \<Longrightarrow> desc ys"
  by (simp add: desc_def sorted_wrt_append)

lemma first_run:
  fixes d :: u64
  assumes "mem_ok m" and "desc (e # ps)"
  defines "b \<equiv> \<lparr>ab_ack = \<lparr>largest_ack = pkt_num e, ack_delay = d, first_ack_blklen = 0, num_blks = 0, blks = []\<rparr>,
    ab_initial = True, ab_gap = 0, ab_first = pkt_num e, ab_last = pkt_num e, ab_max = 8\<rparr>"
  shows "\<exists>pre rest b1 b2. ps = pre @ rest \<and> ack_runs m unprot ps b = Inr (None, rest, b1, m) \<and>
    close_run m b1 = Inr (None, b2, m) \<and> ack_valid (ab_ack b2) \<and> largest_ack (ab_ack b2) = pkt_num e \<and>
    num_blks (ab_ack b2) \<le> 256 \<and> (rest \<noteq> [] \<longrightarrow> num_blks (ab_ack b2) = 256) \<and>
    (\<forall>n. acked (ab_ack b2) n \<longleftrightarrow> n = pkt_num e \<or> n \<in> counted unprot (pre @ take 1 rest))"
proof -
  have inv: "run_inv b" by (simp add: b_def run_inv_def build_ok_def built_ranges_def closed_ranges_def)
  have e0: "in_ranges (built_ranges b) n \<longleftrightarrow> n = pkt_num e" for n
    by (auto simp: b_def built_ranges_def closed_ranges_def in_ranges_def word_uint_eq_iff)
  have "\<forall>p \<in> set ps. pkt_num p < ab_last b" "desc ps" "num_blks (ab_ack b) < 255"
    using assms(2) by (simp_all add: desc_Cons b_def)
  then obtain rest b1 where 1: "ack_runs m unprot ps b = Inr (None, rest, b1, m)" "runs_post unprot b ps rest b1"
    using ack_runs_ok [OF inv assms(1)] by blast
  then obtain pre where pre: "ps = pre @ rest" "rest \<noteq> [] \<longrightarrow> num_blks (ab_ack b1) = 255" "run_inv b1"
      "num_blks (ab_ack b1) \<le> 255" "largest_ack (ab_ack b1) = pkt_num e"
      "\<forall>n. in_ranges (built_ranges b1) n \<longleftrightarrow> n = pkt_num e \<or> n \<in> counted unprot (pre @ take 1 rest)"
    unfolding runs_post_def e0 by (auto simp: b_def)
  have i1: "ab_initial b1 \<Longrightarrow> num_blks (ab_ack b1) = 0" using pre(3) by (simp add: run_inv_def build_ok_def)
  have bo: "build_ok b1" "num_blks (ab_ack b1) \<le> ab_max b1" "0 < ab_max b1" using pre(3) by (simp_all add: run_inv_def)
  obtain b2 where 2: "close_run m b1 = Inr (None, b2, m)" "ack_ranges (ab_ack b2) = built_ranges b1"
      "num_blks (ab_ack b2) = length (blks (ab_ack b2))"
      "num_blks (ab_ack b2) = (if ab_initial b1 then 0 else num_blks (ab_ack b1) + 1)"
      "largest_ack (ab_ack b2) = largest_ack (ab_ack b1)"
    using close_run_ok [OF bo(1) assms(1) bo(2,3)] by blast
  have "ack_valid (ab_ack b2)" using 2(2,3) pre(3) by (simp add: ack_valid_def run_inv_def)
  moreover have "num_blks (ab_ack b2) \<le> 256" using 2(4) pre(4) by (simp split: if_splits)
  moreover have "rest \<noteq> [] \<longrightarrow> num_blks (ab_ack b2) = 256" using 2(4) pre(2) i1 by auto
  moreover have "acked (ab_ack b2) n \<longleftrightarrow> n = pkt_num e \<or> n \<in> counted unprot (pre @ take 1 rest)" for n
    unfolding acked_def 2(2) using pre(6) by blast
  ultimately show ?thesis using pre(1,5) 1(1) 2(1,5) by auto
qed

text \<open>
  C40. The ACK frame acknowledges what was received. When an ACK is due, \<^verbatim>\<open>conn_create_ack_frame\<close> builds a frame whose
  ranges, taken as integers, hold exactly the packet numbers of the tracked packets (for an unprotected packet: of
  those that came unprotected), the largest first, so it never acknowledges a packet that was not received and leaves
  none out; only when the frame has 256 blocks are the remaining, oldest packets left out and forgotten. The frame
  passes the check that the receiver makes, and the tracker stays well formed.
\<close>

theorem create_ack_frame_exact:
  assumes "acktr_wf (c_acktr c)" and "active_ack (c_acktr c)" and "mem_ok (c_mem c)"
    and "counted unprot (ent (c_acktr c)) \<noteq> {}"
  shows "\<exists>fr c' pre rest. conn_create_ack_frame c ts unprot = Inr (None, Some fr, c') \<and>
    ent (c_acktr c) = pre @ rest \<and> ent (c_acktr c') = pre \<and> acktr_wf (c_acktr c') \<and> ack_valid fr \<and>
    (\<forall>n. acked fr n \<longleftrightarrow> n \<in> counted unprot (pre @ take 1 rest)) \<and>
    acked fr (largest_ack fr) \<and> (\<forall>n. acked fr n \<longrightarrow> n \<le> largest_ack fr) \<and>
    num_blks fr \<le> 256 \<and> (rest \<noteq> [] \<longrightarrow> num_blks fr = 256)"
proof -
  let ?a = "c_acktr c" let ?es = "if unprot then dropWhile (\<lambda>e. \<not> unprotected e) (ent ?a) else ent ?a"
  have ds: "desc (ent ?a)" using assms(1) by (simp add: acktr_wf_def)
  obtain sk where sk: "ent ?a = sk @ ?es" "counted unprot sk = {}"
  proof (cases unprot)
    case True
    have "counted True (takeWhile (\<lambda>e. \<not> unprotected e) ps) = {}" for ps by (induction ps) auto
    then show ?thesis using that [of "takeWhile (\<lambda>e. \<not> unprotected e) (ent ?a)"] True by simp
  qed (use that [of "[]"] in simp)
  have "?es \<noteq> []"
  proof
    assume "?es = []"
    then have "counted unprot (ent ?a) = {}" using counted_dropWhile [of unprot "ent ?a"] counted_simps(1) by metis
    then show False using assms(4) by simp
  qed
  then obtain e ps where es: "?es = e # ps" by (cases ?es) auto
  have de: "desc (e # ps)" using ds sk(1) es desc_suffix by metis
  have ce: "unprot \<longrightarrow> unprotected e" using es by (auto simp: dropWhile_eq_Cons_conv split: if_splits)
  define d where "d = drop_bit (unat (set_ack_delay_exponent (c_local_settings c))) (ts - tstamp e)"
  let ?b = "\<lparr>ab_ack = \<lparr>largest_ack = pkt_num e, ack_delay = d, first_ack_blklen = 0, num_blks = 0, blks = []\<rparr>,
    ab_initial = True, ab_gap = 0, ab_first = pkt_num e, ab_last = pkt_num e, ab_max = 8\<rparr> :: ack_build"
  obtain pre rest b1 b2 where r: "ps = pre @ rest" "ack_runs (c_mem c) unprot ps ?b = Inr (None, rest, b1, c_mem c)"
      "close_run (c_mem c) b1 = Inr (None, b2, c_mem c)" "ack_valid (ab_ack b2)" "largest_ack (ab_ack b2) = pkt_num e"
      "num_blks (ab_ack b2) \<le> 256" "rest \<noteq> [] \<longrightarrow> num_blks (ab_ack b2) = 256"
      "\<forall>n. acked (ab_ack b2) n \<longleftrightarrow> n = pkt_num e \<or> n \<in> counted unprot (pre @ take 1 rest)"
    using first_run [OF assms(3) de, where d = d] by blast
  let ?pre = "sk @ e # pre"
  have split: "ent ?a = ?pre @ rest" using sk(1) es r(1) by simp
  let ?a' = "if rest \<noteq> [] then ngtcp2_acktr_forget ?a (length (ent ?a) - length rest) else ?a"
  let ?c = "c\<lparr>c_mem := c_mem c, c_acktr := ?a'\<rparr>"
  have frame: "conn_create_ack_frame c ts unprot = Inr (None, Some (ab_ack b2), ?c)"
    unfolding conn_create_ack_frame_def ngtcp2_acktr_get_def Let_def es malloc_mem_ok [OF assms(3)]
    using assms(2) r(2) [unfolded d_def] r(3) by simp
  have fg: "acktr_wf ?a'" "ent ?a' = ?pre"
    using acktr_forget_ok [OF assms(1), of "length (ent ?a) - length rest"] assms(1) split by auto
  have ak: "acked (ab_ack b2) n \<longleftrightarrow> n \<in> counted unprot (?pre @ take 1 rest)" for n
    using r(8) sk(2) ce by (auto simp: counted_def)
  have "n \<le> pkt_num e" if "n \<in> counted unprot (pre @ take 1 rest)" for n
    using that de r(1) by (auto simp: counted_def desc_Cons less_imp_le dest!: in_set_takeD)
  then have "acked (ab_ack b2) (largest_ack (ab_ack b2))" "\<forall>n. acked (ab_ack b2) n \<longrightarrow> n \<le> largest_ack (ab_ack b2)"
    using r(5,8) by auto
  then show ?thesis using frame split fg ak r(4,6,7) by (intro exI [of _ "ab_ack b2"] exI [of _ ?c] exI [of _ ?pre] exI [of _ rest]) simp
qed

lemma create_ack_frame_exact_witness:
  "\<exists>c fr c'. ngtcp2_conn_client_new (\<lambda>_. True) 7 1 zero_settings () = Inr (None, Some c) \<and>
     conn_create_ack_frame (c\<lparr>c_acktr := acktr_ex\<rparr>) 100 False = Inr (None, Some fr, c') \<and>
     (\<forall>n. acked fr n \<longleftrightarrow> n \<in> {9, 5, 4, 3, 1})"
proof -
  obtain c :: "unit ngtcp2_conn" where c: "ngtcp2_conn_client_new (\<lambda>_. True) 7 1 zero_settings () = Inr (None, Some c)"
      "conn_ok c" "c_local_settings c = zero_settings"
    using client_new_ok [OF mem_ok_True, of 7 1 zero_settings "()"] by blast
  let ?c = "c\<lparr>c_acktr := acktr_ex\<rparr>"
  have "acktr_wf (c_acktr ?c)" "active_ack (c_acktr ?c)" "mem_ok (c_mem ?c)" "counted False (ent (c_acktr ?c)) \<noteq> {}"
    using acktr_ex_wf c(2) by (simp_all add: acktr_ex_def conn_ok_def conn_inv_def)
  then obtain fr c' pre rest where f: "conn_create_ack_frame ?c 100 False = Inr (None, Some fr, c')"
      "ent (c_acktr ?c) = pre @ rest" "\<forall>n. acked fr n \<longleftrightarrow> n \<in> counted False (pre @ take 1 rest)"
      "rest \<noteq> [] \<longrightarrow> num_blks fr = 256"
    using create_ack_frame_exact [of ?c False 100] by blast
  have "conn_create_ack_frame ?c 100 False = Inr (None, Some \<lparr>largest_ack = 9, ack_delay = 100, first_ack_blklen = 0,
      num_blks = 2, blks = [\<lparr>gap = 2, blklen = 2\<rparr>, \<lparr>gap = 0, blklen = 0\<rparr>]\<rparr>, ?c)"
    using c(2,3) by (simp add: conn_create_ack_frame_def ngtcp2_acktr_get_def acktr_ex_def entry_def conn_ok_def conn_inv_def
        malloc_mem_ok close_run_def conn_ensure_ack_blks_def zero_settings_def)
  then have "rest = []" using f(1,4) by auto
  then have "pre = ent acktr_ex" using f(2) by simp
  then have "\<forall>n. acked fr n \<longleftrightarrow> n \<in> {9, 5, 4, 3, 1}" using f(3) \<open>rest = []\<close> by (auto simp: acktr_ex_def entry_def)
  then show ?thesis using c(1) f(1) by blast
qed

end
