(* ===== verification/Conn_Stream.thy ===== *)
theory Conn_Stream
  imports Conn_Ack
begin

text \<open>
  Streams of a connection (\<^verbatim>\<open>lib/ngtcp2_conn.c\<close>): receiving STREAM, RST_STREAM, STOP_SENDING, MAX_STREAM_DATA, MAX_DATA,
  MAX_STREAM_ID, PING and PONG frames, delivering stream data in order, closing and shutting down streams, and what
  an acknowledgement means for the streams (\<^verbatim>\<open>call_acked_stream_offset\<close> of \<^verbatim>\<open>lib/ngtcp2_rtb.c\<close>).

  The loops that hand over buffered data call the application, which may change the connection, so they carry fuel:
  two more than there are chunks in the buffer. \<open>Inl OutOfFuel\<close> would be the result of a loop that needs more.
\<close>

section \<open>Flow control\<close>

definition conn_should_send_max_stream_data :: "'u ngtcp2_conn \<Rightarrow> ngtcp2_strm \<Rightarrow> bool" where
  "conn_should_send_max_stream_data c strm =
     (ucast (set_max_stream_data (c_local_settings c) div 2) < s_unsent_max_rx_offset strm - s_max_rx_offset strm)"

definition conn_should_send_max_data :: "'u ngtcp2_conn \<Rightarrow> bool" where
  "conn_should_send_max_data c =
     (ucast (set_max_data (c_local_settings c) div 2) < c_unsent_max_rx_offset c - c_max_rx_offset c)"

definition conn_extend_max_stream_offset :: "'u ngtcp2_conn \<Rightarrow> u64 \<Rightarrow> u64 \<Rightarrow> 'u ngtcp2_conn res" where
  "conn_extend_max_stream_offset c k datalen =
     rbind (strm_at c k) (\<lambda>strm.
     let strm = (if s_unsent_max_rx_offset strm \<le> NGTCP2_MAX_VARINT - datalen
                 then strm\<lparr>s_unsent_max_rx_offset := s_unsent_max_rx_offset strm + datalen\<rparr> else strm);
         c = put_strm c k strm
     in if \<not> strm_has strm (NGTCP2_STRM_FLAG_SHUT_RD OR NGTCP2_STRM_FLAG_STOP_SENDING) \<and>
           k \<notin> set (c_fc_strms c) \<and> conn_should_send_max_stream_data c strm
        then Inr (c\<lparr>c_fc_strms := k # c_fc_strms c\<rparr>) else Inr c)"

text \<open>Taking a stream out of the list of those with a pending MAX_STREAM_DATA, if it is in it.\<close>

definition fc_unlink :: "'u ngtcp2_conn \<Rightarrow> u64 \<Rightarrow> 'u ngtcp2_conn" where
  "fc_unlink c k = c\<lparr>c_fc_strms := remove1 k (c_fc_strms c)\<rparr>"

definition conn_max_data_violated :: "'u ngtcp2_conn \<Rightarrow> u64 \<Rightarrow> bool" where
  "conn_max_data_violated c datalen = (c_max_rx_offset c - c_rx_offset c < datalen)"

definition ngtcp2_conn_extend_max_stream_offset :: "'u ngtcp2_conn \<Rightarrow> u64 \<Rightarrow> u64 \<Rightarrow> (rv \<times> 'u ngtcp2_conn) res" where
  "ngtcp2_conn_extend_max_stream_offset c stream_id datalen =
     rbind (ngtcp2_conn_find_stream c stream_id) (\<lambda>strm.
     case strm of
       None \<Rightarrow> Inr (Some NGTCP2_ERR_STREAM_NOT_FOUND, c)
     | Some _ \<Rightarrow> rbind (conn_extend_max_stream_offset c stream_id datalen) (\<lambda>c. Inr (None, c)))"

definition ngtcp2_conn_extend_max_offset :: "'u ngtcp2_conn \<Rightarrow> u64 \<Rightarrow> 'u ngtcp2_conn" where
  "ngtcp2_conn_extend_max_offset c datalen =
     (if NGTCP2_MAX_VARINT < datalen \<or> c_unsent_max_rx_offset c > NGTCP2_MAX_VARINT - datalen
      then c\<lparr>c_unsent_max_rx_offset := NGTCP2_MAX_VARINT\<rparr>
      else c\<lparr>c_unsent_max_rx_offset := c_unsent_max_rx_offset c + datalen\<rparr>)"

section \<open>Closing\<close>

text \<open>The last statement of the function increments a parameter, not what it points to.\<close>

definition handle_remote_stream_id_extension :: "u64 \<Rightarrow> u64 \<Rightarrow> ngtcp2_idtr \<Rightarrow> u64" where
  "handle_remote_stream_id_extension unsent_max_remote_stream_id remote_stream_id_window_start idtr =
     (if unsent_max_remote_stream_id \<le> NGTCP2_MAX_VARINT - 4 \<and>
         remote_stream_id_window_start < ngtcp2_idtr_first_gap idtr
      then unsent_max_remote_stream_id + 4 else unsent_max_remote_stream_id)"

definition ngtcp2_conn_close_stream ::
    "'u ngtcp2_conn_callbacks \<Rightarrow> 'u ngtcp2_conn \<Rightarrow> u64 \<Rightarrow> u16 \<Rightarrow> (rv \<times> 'u ngtcp2_conn) res" where
  "ngtcp2_conn_close_stream cb c k app_error_code =
     rbind (strm_at c k) (\<lambda>strm.
     let app_error_code = (if s_app_error_code strm = 0 then s_app_error_code strm else app_error_code) in
     rbind (ngtcp2_map_remove (c_strms c) k) (\<lambda>(rv, strms).
     rv_then (Inr (rv, c\<lparr>c_strms := strms\<rparr>)) (\<lambda>c.
     rv_then (Inr (conn_call_stream_close cb c (s_stream_id strm) app_error_code)) (\<lambda>c.
     let c = (if \<not> conn_local_stream c (s_stream_id strm) then
                if bidi_stream (s_stream_id strm)
                then c\<lparr>c_unsent_max_remote_stream_id_bidi := handle_remote_stream_id_extension
                         (c_unsent_max_remote_stream_id_bidi c) (c_remote_stream_id_bidi_window_start c) (c_remote_bidi_idtr c)\<rparr>
                else c\<lparr>c_unsent_max_remote_stream_id_uni := handle_remote_stream_id_extension
                         (c_unsent_max_remote_stream_id_uni c) (c_remote_stream_id_uni_window_start c) (c_remote_uni_idtr c)\<rparr>
              else c)
     in Inr (None, conn_immediate_ack (fc_unlink c k))))))"

definition ngtcp2_conn_close_stream_if_shut_rdwr ::
    "'u ngtcp2_conn_callbacks \<Rightarrow> 'u ngtcp2_conn \<Rightarrow> u64 \<Rightarrow> u16 \<Rightarrow> (rv \<times> 'u ngtcp2_conn) res" where
  "ngtcp2_conn_close_stream_if_shut_rdwr cb c k app_error_code =
     rbind (strm_at c k) (\<lambda>strm.
     if s_flags strm AND NGTCP2_STRM_FLAG_SHUT_RDWR = NGTCP2_STRM_FLAG_SHUT_RDWR \<and>
        (strm_has strm NGTCP2_STRM_FLAG_RECV_RST \<or> ngtcp2_rob_first_gap_offset (s_rob strm) = s_last_rx_offset strm) \<and>
        (strm_has strm NGTCP2_STRM_FLAG_SENT_RST \<or>
         ngtcp2_gaptr_first_gap_offset (s_acked_tx_offset strm) = s_tx_offset strm)
     then ngtcp2_conn_close_stream cb c k app_error_code
     else Inr (None, c))"

section \<open>Shutting down\<close>

definition conn_rst_stream :: "'u ngtcp2_conn \<Rightarrow> ngtcp2_strm \<Rightarrow> u16 \<Rightarrow> rv \<times> 'u ngtcp2_conn" where
  "conn_rst_stream c strm app_error_code =
     (let (rv, frc, m) = ngtcp2_frame_chain_new (c_mem c)
            (FrRstStream \<lparr>rst_stream_id = s_stream_id strm, rst_app_error_code = app_error_code,
                          rst_final_offset = s_tx_offset strm\<rparr>);
          c = c\<lparr>c_mem := m\<rparr>
      in case frc of None \<Rightarrow> (rv, c) | Some frc \<Rightarrow> (None, c\<lparr>c_frq := frc @ c_frq c\<rparr>))"

definition conn_stop_sending :: "'u ngtcp2_conn \<Rightarrow> ngtcp2_strm \<Rightarrow> u16 \<Rightarrow> rv \<times> 'u ngtcp2_conn" where
  "conn_stop_sending c strm app_error_code =
     (let (rv, frc, m) = ngtcp2_frame_chain_new (c_mem c)
            (FrStopSending \<lparr>ss_stream_id = s_stream_id strm, ss_app_error_code = app_error_code\<rparr>);
          c = c\<lparr>c_mem := m\<rparr>
      in case frc of None \<Rightarrow> (rv, c) | Some frc \<Rightarrow> (None, fc_unlink (c\<lparr>c_frq := frc @ c_frq c\<rparr>) (s_stream_id strm)))"

definition conn_shutdown_stream_write :: "'u ngtcp2_conn \<Rightarrow> u64 \<Rightarrow> u16 \<Rightarrow> (rv \<times> 'u ngtcp2_conn) res" where
  "conn_shutdown_stream_write c k app_error_code =
     rbind (strm_at c k) (\<lambda>strm.
     if strm_has strm NGTCP2_STRM_FLAG_SENT_RST then Inr (None, c)
     else
       let strm = strm\<lparr>s_flags := s_flags strm OR (NGTCP2_STRM_FLAG_SHUT_WR OR NGTCP2_STRM_FLAG_SENT_RST),
                       s_app_error_code := app_error_code\<rparr>
       in Inr (conn_rst_stream (put_strm c k strm) strm app_error_code))"

definition conn_shutdown_stream_read :: "'u ngtcp2_conn \<Rightarrow> u64 \<Rightarrow> u16 \<Rightarrow> (rv \<times> 'u ngtcp2_conn) res" where
  "conn_shutdown_stream_read c k app_error_code =
     rbind (strm_at c k) (\<lambda>strm.
     if strm_has strm NGTCP2_STRM_FLAG_STOP_SENDING then Inr (None, c)
     else
       let strm = strm\<lparr>s_flags := s_flags strm OR NGTCP2_STRM_FLAG_STOP_SENDING, s_app_error_code := app_error_code\<rparr>
       in Inr (conn_stop_sending (put_strm c k strm) strm app_error_code))"

text \<open>The three functions of the interface find the stream and refuse stream 0 and the reserved error code.\<close>

definition for_shutdown ::
    "'u ngtcp2_conn \<Rightarrow> u64 \<Rightarrow> u16 \<Rightarrow> (rv \<times> 'u ngtcp2_conn) res \<Rightarrow> (rv \<times> 'u ngtcp2_conn) res" where
  "for_shutdown c stream_id app_error_code k =
     (if stream_id = 0 \<or> app_error_code = NGTCP2_STOPPING then Inr (Some NGTCP2_ERR_INVALID_ARGUMENT, c)
      else
        rbind (ngtcp2_conn_find_stream c stream_id) (\<lambda>strm.
        case strm of None \<Rightarrow> Inr (Some NGTCP2_ERR_STREAM_NOT_FOUND, c) | Some _ \<Rightarrow> k))"

definition ngtcp2_conn_shutdown_stream :: "'u ngtcp2_conn \<Rightarrow> u64 \<Rightarrow> u16 \<Rightarrow> (rv \<times> 'u ngtcp2_conn) res" where
  "ngtcp2_conn_shutdown_stream c stream_id app_error_code =
     for_shutdown c stream_id app_error_code
       (rv_then (conn_shutdown_stream_read c stream_id app_error_code) (\<lambda>c.
        conn_shutdown_stream_write c stream_id app_error_code))"

definition ngtcp2_conn_shutdown_stream_write :: "'u ngtcp2_conn \<Rightarrow> u64 \<Rightarrow> u16 \<Rightarrow> (rv \<times> 'u ngtcp2_conn) res" where
  "ngtcp2_conn_shutdown_stream_write c stream_id app_error_code =
     for_shutdown c stream_id app_error_code (conn_shutdown_stream_write c stream_id app_error_code)"

definition ngtcp2_conn_shutdown_stream_read :: "'u ngtcp2_conn \<Rightarrow> u64 \<Rightarrow> u16 \<Rightarrow> (rv \<times> 'u ngtcp2_conn) res" where
  "ngtcp2_conn_shutdown_stream_read c stream_id app_error_code =
     for_shutdown c stream_id app_error_code (conn_shutdown_stream_read c stream_id app_error_code)"

section \<open>Handing over buffered data\<close>

fun emit_stream0 ::
    "'u ngtcp2_conn_callbacks \<Rightarrow> nat \<Rightarrow> 'u ngtcp2_conn \<Rightarrow> u64 \<Rightarrow> (rv \<times> 'u ngtcp2_conn) res" where
  "emit_stream0 cb 0 c rx_offset = Inl OutOfFuel"
| "emit_stream0 cb (Suc n) c rx_offset =
     rbind (strm_at c 0) (\<lambda>strm.
     rbind (ngtcp2_rob_data_at (s_rob strm) rx_offset) (\<lambda>data.
     let datalen = length data in
     if datalen = 0 then rassert (rx_offset = ngtcp2_strm_rx_offset strm) (Inr (None, c))
     else
       let rx_offset = rx_offset + of_nat datalen in
       rv_then (Inr (conn_call_recv_stream0_data cb c data)) (\<lambda>c.
       rbind (strm_at c 0) (\<lambda>strm.
       let c = put_strm c 0 (strm\<lparr>s_unsent_max_rx_offset := s_unsent_max_rx_offset strm + of_nat datalen\<rparr>) in
       rbind (conn_extend_max_stream_offset c 0 (of_nat datalen)) (\<lambda>c.
       rbind (strm_at c 0) (\<lambda>strm.
       rbind (ngtcp2_rob_pop (s_rob strm) (rx_offset - of_nat datalen) datalen) (\<lambda>rob.
       emit_stream0 cb n (put_strm c 0 (strm\<lparr>s_rob := rob\<rparr>)) rx_offset)))))))"

definition conn_emit_pending_stream0_data ::
    "'u ngtcp2_conn_callbacks \<Rightarrow> 'u ngtcp2_conn \<Rightarrow> u64 \<Rightarrow> (rv \<times> 'u ngtcp2_conn) res" where
  "conn_emit_pending_stream0_data cb c rx_offset =
     rbind (strm_at c 0) (\<lambda>strm. emit_stream0 cb (length (rob_data (s_rob strm)) + 2) c rx_offset)"

fun emit_stream ::
    "'u ngtcp2_conn_callbacks \<Rightarrow> nat \<Rightarrow> 'u ngtcp2_conn \<Rightarrow> u64 \<Rightarrow> u64 \<Rightarrow> (rv \<times> 'u ngtcp2_conn) res" where
  "emit_stream cb 0 c k rx_offset = Inl OutOfFuel"
| "emit_stream cb (Suc n) c k rx_offset =
     rbind (strm_at c k) (\<lambda>strm.
     rbind (ngtcp2_rob_data_at (s_rob strm) rx_offset) (\<lambda>data.
     let datalen = length data in
     if datalen = 0 then rassert (rx_offset = ngtcp2_strm_rx_offset strm) (Inr (None, c))
     else
       let rx_offset = rx_offset + of_nat datalen in
       rv_then (Inr (conn_call_recv_stream_data cb c (s_stream_id strm)
                       (strm_has strm NGTCP2_STRM_FLAG_SHUT_RD \<and> rx_offset = s_last_rx_offset strm) data)) (\<lambda>c.
       rbind (strm_at c k) (\<lambda>strm.
       rbind (ngtcp2_rob_pop (s_rob strm) (rx_offset - of_nat datalen) datalen) (\<lambda>rob.
       emit_stream cb n (put_strm c k (strm\<lparr>s_rob := rob\<rparr>)) k rx_offset)))))"

definition conn_emit_pending_stream_data ::
    "'u ngtcp2_conn_callbacks \<Rightarrow> 'u ngtcp2_conn \<Rightarrow> u64 \<Rightarrow> u64 \<Rightarrow> (rv \<times> 'u ngtcp2_conn) res" where
  "conn_emit_pending_stream_data cb c k rx_offset =
     rbind (strm_at c k) (\<lambda>strm. emit_stream cb (length (rob_data (s_rob strm)) + 2) c k rx_offset)"

end
