(* ===== verification/Conn_Frame.thy ===== *)
theory Conn_Frame
  imports Conn_Stream
begin

text \<open>
  The handlers of received frames (\<^verbatim>\<open>conn_recv_*\<close> of \<^verbatim>\<open>lib/ngtcp2_conn.c\<close>). A handler returns 0 or an error code;
  the connection is returned in either case. Failed assertions, accesses outside of an object and a loop that would
  not end are the errors \<open>Inl\<close> of the result.
\<close>

section \<open>Finding the stream of a frame\<close>

text \<open>
  The checks of the stream ID that the handlers of STREAM, RST_STREAM, STOP_SENDING and MAX_STREAM_DATA share: a
  local stream must have been opened, a remote one must be within the limit.
\<close>

definition check_stream_id :: "'u ngtcp2_conn \<Rightarrow> u64 \<Rightarrow> rv" where
  "check_stream_id c stream_id =
     (if bidi_stream stream_id then
        if conn_local_stream c stream_id then
          if c_next_local_stream_id_bidi c \<le> stream_id then Some NGTCP2_ERR_STREAM_STATE else None
        else if c_max_remote_stream_id_bidi c < stream_id then Some NGTCP2_ERR_STREAM_ID else None
      else
        if conn_local_stream c stream_id then
          if c_next_local_stream_id_uni c \<le> stream_id then Some NGTCP2_ERR_STREAM_STATE else None
        else if c_max_remote_stream_id_uni c < stream_id then Some NGTCP2_ERR_STREAM_ID else None)"

text \<open>The tracker that \<^verbatim>\<open>idtr\<close> points to.\<close>

definition remote_idtr :: "'u ngtcp2_conn \<Rightarrow> u64 \<Rightarrow> ngtcp2_idtr" where
  "remote_idtr c stream_id = (if bidi_stream stream_id then c_remote_bidi_idtr c else c_remote_uni_idtr c)"

definition open_remote :: "'u ngtcp2_conn \<Rightarrow> u64 \<Rightarrow> (rv \<times> 'u ngtcp2_conn) res" where
  "open_remote c stream_id =
     rbind (ngtcp2_idtr_open (c_mem c) (remote_idtr c stream_id) stream_id) (\<lambda>(rv, idtr, m).
     let c = c\<lparr>c_mem := m\<rparr> in
     Inr (rv, if bidi_stream stream_id then c\<lparr>c_remote_bidi_idtr := idtr\<rparr> else c\<lparr>c_remote_uni_idtr := idtr\<rparr>))"

text \<open>A stream object for a stream the peer has opened; the sending side of a unidirectional one is shut.\<close>

definition new_remote_stream :: "'u ngtcp2_conn \<Rightarrow> u64 \<Rightarrow> (rv \<times> 'u ngtcp2_conn) res" where
  "new_remote_stream c stream_id =
     (let (ok, m) = malloc (c_mem c); c = c\<lparr>c_mem := m\<rparr> in
      if \<not> ok then Inr (Some NGTCP2_ERR_NOMEM, c)
      else
        rv_then (ngtcp2_conn_init_stream c stream_id) (\<lambda>c.
        if \<not> bidi_stream stream_id
        then rbind (strm_at c stream_id) (\<lambda>strm.
             Inr (None, put_strm c stream_id (ngtcp2_strm_shutdown strm NGTCP2_STRM_FLAG_SHUT_WR)))
        else Inr (None, c)))"

section \<open>STREAM\<close>

text \<open>
  Data at the next offset is delivered with what it makes available, other data is buffered. Where
  \<^verbatim>\<open>fr->datalen - ncut\<close> would wrap, the copy reads outside of the frame.
\<close>

definition deliver_or_buffer ::
    "'u ngtcp2_conn_callbacks \<Rightarrow> 'u ngtcp2_conn \<Rightarrow> ngtcp2_stream \<Rightarrow> u64 \<Rightarrow> (rv \<times> 'u ngtcp2_conn) res" where
  "deliver_or_buffer cb c fr rx_offset =
     (let k = st_stream_id fr in
      rbind (strm_at c k) (\<lambda>strm.
      if st_offset fr \<le> rx_offset then
        let ncut = unat (rx_offset - st_offset fr) in
        if st_datalen fr < ncut then Inl OutOfBounds
        else
          rbind (rdn (st_data fr) ncut (st_datalen fr - ncut)) (\<lambda>data.
          let rx_offset = rx_offset + of_nat (st_datalen fr - ncut);
              c = put_strm c k (strm\<lparr>s_rob := ngtcp2_rob_remove_prefix (s_rob strm) rx_offset\<rparr>)
          in if s_stream_id strm = 0
             then rv_then (Inr (conn_call_recv_stream0_data cb c (map Some data))) (\<lambda>c.
                  conn_emit_pending_stream0_data cb c rx_offset)
             else rv_then (Inr (conn_call_recv_stream_data cb c (s_stream_id strm)
                             (strm_has strm NGTCP2_STRM_FLAG_SHUT_RD \<and> rx_offset = s_last_rx_offset strm)
                             (map Some data))) (\<lambda>c.
                  conn_emit_pending_stream_data cb c k rx_offset))
      else
        rbind (ngtcp2_strm_recv_reordering (c_mem c) strm fr) (\<lambda>(rv, strm, m).
        Inr (rv, put_strm (c\<lparr>c_mem := m\<rparr>) k strm))))"

text \<open>The end of \<^verbatim>\<open>conn_recv_stream\<close>.\<close>

definition recv_stream_data ::
    "'u ngtcp2_conn_callbacks \<Rightarrow> 'u ngtcp2_conn \<Rightarrow> ngtcp2_stream \<Rightarrow> u64 \<Rightarrow> (rv \<times> 'u ngtcp2_conn) res" where
  "recv_stream_data cb c fr rx_offset =
     rv_then (deliver_or_buffer cb c fr rx_offset) (\<lambda>c.
     ngtcp2_conn_close_stream_if_shut_rdwr cb c (st_stream_id fr) NGTCP2_NO_ERROR)"

text \<open>From the flow control checks on; the stream exists.\<close>

definition recv_on_stream ::
    "'u ngtcp2_conn_callbacks \<Rightarrow> 'u ngtcp2_conn \<Rightarrow> ngtcp2_stream \<Rightarrow> (rv \<times> 'u ngtcp2_conn) res" where
  "recv_on_stream cb c fr =
     (let k = st_stream_id fr; fr_end_offset = st_offset fr + of_nat (st_datalen fr) in
      rbind (strm_at c k) (\<lambda>strm.
      if s_max_rx_offset strm < fr_end_offset then Inr (Some NGTCP2_ERR_FLOW_CONTROL, c)
      else
        let datalen = fr_end_offset - s_last_rx_offset strm;
            counts = (s_last_rx_offset strm < fr_end_offset \<and> s_stream_id strm \<noteq> 0) in
        if counts \<and> conn_max_data_violated c datalen then Inr (Some NGTCP2_ERR_FLOW_CONTROL, c)
        else
          let c = (if counts then c\<lparr>c_rx_offset := c_rx_offset c + datalen\<rparr> else c) in
          if st_fin fr then
            if strm_has strm NGTCP2_STRM_FLAG_SHUT_RD then
              if s_last_rx_offset strm \<noteq> fr_end_offset then Inr (Some NGTCP2_ERR_FINAL_OFFSET, c) else Inr (None, c)
            else if s_last_rx_offset strm > fr_end_offset then Inr (Some NGTCP2_ERR_FINAL_OFFSET, c)
            else
              let strm = ngtcp2_strm_shutdown (strm\<lparr>s_last_rx_offset := fr_end_offset\<rparr>) NGTCP2_STRM_FLAG_SHUT_RD;
                  c = put_strm c k strm
              in if strm_has strm NGTCP2_STRM_FLAG_STOP_SENDING
                 then ngtcp2_conn_close_stream_if_shut_rdwr cb c k (s_app_error_code strm)
                 else
                   let c = fc_unlink c k; rx_offset = ngtcp2_strm_rx_offset strm in
                   if fr_end_offset = rx_offset
                   then rv_then (Inr (conn_call_recv_stream_data cb c (s_stream_id strm) True [])) (\<lambda>c.
                        ngtcp2_conn_close_stream_if_shut_rdwr cb c k NGTCP2_NO_ERROR)
                   else recv_stream_data cb c fr rx_offset
          else if strm_has strm NGTCP2_STRM_FLAG_SHUT_RD \<and> s_last_rx_offset strm < fr_end_offset
          then Inr (Some NGTCP2_ERR_FINAL_OFFSET, c)
          else
            let strm = strm\<lparr>s_last_rx_offset := max (s_last_rx_offset strm) fr_end_offset\<rparr>;
                c = put_strm c k strm; rx_offset = ngtcp2_strm_rx_offset strm
            in if fr_end_offset \<le> rx_offset then Inr (None, c)
               else if strm_has strm NGTCP2_STRM_FLAG_STOP_SENDING then Inr (None, c)
               else recv_stream_data cb c fr rx_offset))"

definition conn_recv_stream ::
    "'u ngtcp2_conn_callbacks \<Rightarrow> 'u ngtcp2_conn \<Rightarrow> ngtcp2_stream \<Rightarrow> (rv \<times> 'u ngtcp2_conn) res" where
  "conn_recv_stream cb c fr =
     (let k = st_stream_id fr; local_stream = conn_local_stream c k in
      if k = 0 \<and> st_fin fr then Inr (Some NGTCP2_ERR_PROTO, c)
      else if \<not> st_fin fr \<and> st_datalen fr = 0 then Inr (Some NGTCP2_ERR_FRAME_FORMAT, c)
      else if check_stream_id c k \<noteq> None then Inr (check_stream_id c k, c)
      else if \<not> bidi_stream k \<and> local_stream \<and> st_offset fr + of_nat (st_datalen fr) \<noteq> 0
      then Inr (Some NGTCP2_ERR_FINAL_OFFSET, c)
      else if NGTCP2_MAX_VARINT - of_nat (st_datalen fr) < st_offset fr then Inr (Some NGTCP2_ERR_PROTO, c)
      else
        rbind (ngtcp2_conn_find_stream c k) (\<lambda>strm.
        if strm = None then
          if local_stream then Inr (None, c)
          else
            rbind (open_remote c k) (\<lambda>(rv, c).
            if rv = Some NGTCP2_ERR_STREAM_IN_USE then Inr (None, c)
            else rassert (rv = None) (rv_then (new_remote_stream c k) (\<lambda>c. recv_on_stream cb c fr)))
        else recv_on_stream cb c fr))"

section \<open>RST_STREAM and STOP_SENDING\<close>

definition conn_recv_rst_stream ::
    "'u ngtcp2_conn_callbacks \<Rightarrow> 'u ngtcp2_conn \<Rightarrow> ngtcp2_rst_stream \<Rightarrow> (rv \<times> 'u ngtcp2_conn) res" where
  "conn_recv_rst_stream cb c fr =
     (let k = rst_stream_id fr; local_stream = conn_local_stream c k; final_offset = rst_final_offset fr in
      if k = 0 then Inr (Some NGTCP2_ERR_PROTO, c)
      else if check_stream_id c k \<noteq> None then Inr (check_stream_id c k, c)
      else
        rbind (ngtcp2_conn_find_stream c k) (\<lambda>strm.
        case strm of
          None \<Rightarrow>
            if local_stream then
              if \<not> bidi_stream k \<and> final_offset \<noteq> 0 then Inr (Some NGTCP2_ERR_FINAL_OFFSET, c) else Inr (None, c)
            else
              rbind (ngtcp2_idtr_is_open (remote_idtr c k) k) (\<lambda>used.
              if used = None then
                if ucast (set_max_stream_data (c_local_settings c)) < final_offset \<or> conn_max_data_violated c final_offset
                then Inr (Some NGTCP2_ERR_FLOW_CONTROL, c)
                else rbind (open_remote c k) (\<lambda>(_, c). Inr (None, c\<lparr>c_rx_offset := c_rx_offset c + final_offset\<rparr>))
              else Inr (None, c))
        | Some strm \<Rightarrow>
            if strm_has strm NGTCP2_STRM_FLAG_SHUT_RD \<and> s_last_rx_offset strm \<noteq> final_offset
            then Inr (Some NGTCP2_ERR_FINAL_OFFSET, c)
            else if \<not> strm_has strm NGTCP2_STRM_FLAG_SHUT_RD \<and> s_last_rx_offset strm > final_offset
            then Inr (Some NGTCP2_ERR_FINAL_OFFSET, c)
            else
              let datalen = final_offset - s_last_rx_offset strm in
              if s_max_rx_offset strm < final_offset \<or> conn_max_data_violated c datalen
              then Inr (Some NGTCP2_ERR_FLOW_CONTROL, c)
              else
                let c = c\<lparr>c_rx_offset := c_rx_offset c + datalen\<rparr>;
                    c = put_strm c k (strm\<lparr>s_flags := s_flags strm OR (NGTCP2_STRM_FLAG_SHUT_RD OR NGTCP2_STRM_FLAG_RECV_RST)\<rparr>)
                in ngtcp2_conn_close_stream_if_shut_rdwr cb c k (rst_app_error_code fr)))"

definition conn_recv_stop_sending ::
    "'u ngtcp2_conn_callbacks \<Rightarrow> 'u ngtcp2_conn \<Rightarrow> ngtcp2_stop_sending \<Rightarrow> (rv \<times> 'u ngtcp2_conn) res" where
  "conn_recv_stop_sending cb c fr =
     (let k = ss_stream_id fr in
      if k = 0 then Inr (Some NGTCP2_ERR_PROTO, c)
      else if check_stream_id c k \<noteq> None then Inr (check_stream_id c k, c)
      else
        rbind (ngtcp2_conn_find_stream c k) (\<lambda>strm.
        case strm of
          None \<Rightarrow>
            if \<not> conn_local_stream c k then
              rbind (ngtcp2_idtr_is_open (remote_idtr c k) k) (\<lambda>used.
              if used = None then rbind (open_remote c k) (\<lambda>(_, c). Inr (None, c)) else Inr (None, c))
            else Inr (None, c)
        | Some strm \<Rightarrow>
            rv_then (Inr (conn_rst_stream c strm NGTCP2_STOPPING)) (\<lambda>c.
            rbind (strm_at c k) (\<lambda>strm.
            let c = put_strm c k (strm\<lparr>s_flags := s_flags strm OR (NGTCP2_STRM_FLAG_SHUT_WR OR NGTCP2_STRM_FLAG_SENT_RST)\<rparr>)
            in ngtcp2_conn_close_stream_if_shut_rdwr cb c k (ss_app_error_code fr)))))"

section \<open>Limits of the peer, PING and PONG\<close>

text \<open>An allocation failure of the tracker is not noticed here.\<close>

definition conn_recv_max_stream_data :: "'u ngtcp2_conn \<Rightarrow> ngtcp2_max_stream_data \<Rightarrow> (rv \<times> 'u ngtcp2_conn) res" where
  "conn_recv_max_stream_data c fr =
     (let k = msd_stream_id fr;
          extend = (\<lambda>c. rbind (strm_at c k) (\<lambda>strm.
            Inr (None, put_strm c k (strm\<lparr>s_max_tx_offset := max (s_max_tx_offset strm) (msd_max_stream_data fr)\<rparr>))))
      in
      if check_stream_id c k \<noteq> None then Inr (check_stream_id c k, c)
      else
        rbind (ngtcp2_conn_find_stream c k) (\<lambda>strm.
        if strm = None then
          if conn_local_stream c k then Inr (None, c)
          else
            rbind (open_remote c k) (\<lambda>(rv, c).
            if rv = Some NGTCP2_ERR_STREAM_IN_USE then Inr (None, c) else rv_then (new_remote_stream c k) extend)
        else extend c))"

definition conn_recv_max_data :: "'u ngtcp2_conn \<Rightarrow> ngtcp2_max_data \<Rightarrow> 'u ngtcp2_conn" where
  "conn_recv_max_data c fr = c\<lparr>c_max_tx_offset := max (c_max_tx_offset c) (md_max_data fr)\<rparr>"

definition conn_recv_max_stream_id ::
    "'u ngtcp2_conn_callbacks \<Rightarrow> 'u ngtcp2_conn \<Rightarrow> ngtcp2_max_stream_id \<Rightarrow> rv \<times> 'u ngtcp2_conn" where
  "conn_recv_max_stream_id cb c fr =
     (let n = msi_max_stream_id fr;
          c = (if bidi_stream n then c\<lparr>c_max_local_stream_id_bidi := max (c_max_local_stream_id_bidi c) n\<rparr>
               else c\<lparr>c_max_local_stream_id_uni := max (c_max_local_stream_id_uni c) n\<rparr>)
      in conn_call_extend_max_stream_id cb c n)"

definition conn_recv_pong :: "'u ngtcp2_conn \<Rightarrow> ngtcp2_pong \<Rightarrow> rv" where
  "conn_recv_pong c fr = (if pong_datalen fr = 0 then Some NGTCP2_ERR_FRAME_FORMAT else None)"

definition conn_recv_ping :: "'u ngtcp2_conn \<Rightarrow> ngtcp2_ping \<Rightarrow> (rv \<times> 'u ngtcp2_conn) res" where
  "conn_recv_ping c fr =
     (if ping_datalen fr = 0 then Inr (None, c)
      else
        let (ok, m) = malloc (c_mem c); c = c\<lparr>c_mem := m\<rparr> in
        if \<not> ok then Inr (Some NGTCP2_ERR_NOMEM, c)
        else rbind (rdn (ping_data fr) 0 (ping_datalen fr)) (\<lambda>data.
             Inr (None, c\<lparr>c_frq := FrPong \<lparr>pong_datalen = ping_datalen fr, pong_data = data\<rparr> # c_frq c\<rparr>)))"

section \<open>ACK\<close>

text \<open>
  What the acknowledgement of a packet means for the streams it carried: \<^verbatim>\<open>call_acked_stream_offset\<close>. The
  retransmission buffer takes it as a function on its own state; a failed assertion in it ends the processing, and is
  passed on afterwards.
\<close>

fun call_acked_stream_offset ::
    "'u ngtcp2_conn_callbacks \<Rightarrow> ('u ngtcp2_conn \<Rightarrow> u64 \<Rightarrow> u64 \<Rightarrow> u64 \<Rightarrow> int \<times> 'u ngtcp2_conn) \<Rightarrow>
     ngtcp2_frame_chain \<Rightarrow> 'u ngtcp2_conn \<Rightarrow> (rv \<times> 'u ngtcp2_conn) res" where
  "call_acked_stream_offset cb f [] c = Inr (None, c)"
| "call_acked_stream_offset cb f (FrStream fr # frc) c =
     rbind (ngtcp2_conn_find_stream c (st_stream_id fr)) (\<lambda>strm.
     case strm of
       None \<Rightarrow> call_acked_stream_offset cb f frc c
     | Some strm \<Rightarrow>
         let prev_stream_offset = ngtcp2_gaptr_first_gap_offset (s_acked_tx_offset strm);
             (rv, acked, m) = ngtcp2_gaptr_push (c_mem c) (s_acked_tx_offset strm) (st_offset fr) (of_nat (st_datalen fr));
             c = put_strm (c\<lparr>c_mem := m\<rparr>) (st_stream_id fr) (strm\<lparr>s_acked_tx_offset := acked\<rparr>)
         in if rv \<noteq> None then Inr (rv, c)
            else
              let stream_offset = ngtcp2_gaptr_first_gap_offset acked; datalen = stream_offset - prev_stream_offset in
              if datalen = 0 \<and> \<not> st_fin fr then call_acked_stream_offset cb f frc c
              else
                rv_then (Inr (conn_call (Some (\<lambda>c. f c (s_stream_id strm) prev_stream_offset datalen)) c)) (\<lambda>c.
                rv_then (ngtcp2_conn_close_stream_if_shut_rdwr cb c (st_stream_id fr) NGTCP2_NO_ERROR) (\<lambda>c.
                call_acked_stream_offset cb f frc c)))"
| "call_acked_stream_offset cb f (fr # frc) c = call_acked_stream_offset cb f frc c"

definition on_acked ::
    "'u ngtcp2_conn_callbacks \<Rightarrow> ngtcp2_rtb_entry \<Rightarrow> 'u ngtcp2_conn res \<Rightarrow> rv \<times> 'u ngtcp2_conn res" where
  "on_acked cb e s =
     (case cb_acked_stream_data_offset cb of
        None \<Rightarrow> (None, s)
      | Some f \<Rightarrow>
          (case rbind s (call_acked_stream_offset cb f (re_frc e)) of
             Inl x \<Rightarrow> (Some NGTCP2_ERR_INTERNAL, Inl x)
           | Inr (rv, c) \<Rightarrow> (rv, Inr c)))"

definition conn_recv_ack ::
    "'u ngtcp2_conn_callbacks \<Rightarrow> 'u ngtcp2_conn \<Rightarrow> ngtcp2_ack \<Rightarrow> bool \<Rightarrow> (rv \<times> 'u ngtcp2_conn) res" where
  "conn_recv_ack cb c fr unprot =
     rbind (ngtcp2_pkt_validate_ack fr) (\<lambda>rv.
     if rv \<noteq> None then Inr (rv, c)
     else
       rbind (ngtcp2_acktr_recv_ack (c_acktr c) fr unprot) (\<lambda>acktr.
       let c = c\<lparr>c_acktr := acktr\<rparr> in
       rbind (ngtcp2_rtb_recv_ack (on_acked cb) (c_rtb c) fr unprot (Inr c)) (\<lambda>(rv, rtb, s).
       rbind s (\<lambda>c. Inr (rv, c\<lparr>c_rtb := rtb\<rparr>)))))"

definition conn_recv_connection_close :: "'u ngtcp2_conn \<Rightarrow> 'u ngtcp2_conn" where
  "conn_recv_connection_close c = c\<lparr>c_state := NGTCP2_CS_DRAINING\<rparr>"

end
