(* ===== verification/Conn_Api.thy ===== *)
theory Conn_Api
  imports Conn_Frame
begin

text \<open>
  What the application may do. A callback acts on the connection through the functions of the library's interface
  (and on its own \<^verbatim>\<open>user_data\<close>): \<open>api_step\<close> lists them. Each keeps the invariant of the connection and leaves alone what
  the handlers rely on while a callback runs.
\<close>

section \<open>The interface\<close>

inductive api_step :: "'u ngtcp2_conn \<Rightarrow> 'u ngtcp2_conn \<Rightarrow> bool" where
  user_data: "api_step c (c\<lparr>c_user_data := u\<rparr>)"
| handshake_completed: "api_step c (ngtcp2_conn_handshake_completed c)"
| early_data_rejected: "api_step c (ngtcp2_conn_early_data_rejected c)"
| aead_overhead: "api_step c (ngtcp2_conn_set_aead_overhead c n)"
| hs_tx_keys: "api_step c (snd (ngtcp2_conn_set_handshake_tx_keys c k iv))"
| hs_rx_keys: "api_step c (snd (ngtcp2_conn_set_handshake_rx_keys c k iv))"
| early_keys: "api_step c (snd (ngtcp2_conn_update_early_keys c k iv))"
| tx_keys: "api_step c (snd (ngtcp2_conn_update_tx_keys c k iv))"
| rx_keys: "api_step c (snd (ngtcp2_conn_update_rx_keys c k iv))"
| remote_params: "ngtcp2_conn_set_remote_transport_params c exttype params = Inr (rv, c') \<Longrightarrow> api_step c c'"
| early_params: "api_step c (snd (ngtcp2_conn_set_early_remote_transport_params c params))"
| local_params: "ngtcp2_conn_get_local_transport_params c params exttype = Inr (rv, params', c') \<Longrightarrow> api_step c c'"
| open_bidi: "map_room (c_strms c) \<Longrightarrow> ngtcp2_conn_open_bidi_stream c = Inr (rv, k, c') \<Longrightarrow> api_step c c'"
| open_uni: "map_room (c_strms c) \<Longrightarrow> ngtcp2_conn_open_uni_stream c = Inr (rv, k, c') \<Longrightarrow> api_step c c'"
| shutdown_both: "ngtcp2_conn_shutdown_stream c k code = Inr (rv, c') \<Longrightarrow> api_step c c'"
| shutdown_write: "ngtcp2_conn_shutdown_stream_write c k code = Inr (rv, c') \<Longrightarrow> api_step c c'"
| shutdown_read: "ngtcp2_conn_shutdown_stream_read c k code = Inr (rv, c') \<Longrightarrow> api_step c c'"
| extend_stream: "n \<le> NGTCP2_MAX_VARINT \<Longrightarrow> ngtcp2_conn_extend_max_stream_offset c k n = Inr (rv, c') \<Longrightarrow> api_step c c'"
| extend_conn: "api_step c (ngtcp2_conn_extend_max_offset c n)"

section \<open>What a step keeps\<close>

text \<open>The receiving side of a stream, which only the handlers change.\<close>

definition same_rx :: "ngtcp2_strm \<Rightarrow> ngtcp2_strm \<Rightarrow> bool" where
  "same_rx s s' =
     (s_rob s' = s_rob s \<and> s_last_rx_offset s' = s_last_rx_offset s \<and> s_max_rx_offset s' = s_max_rx_offset s \<and>
      (s_unsent_max_rx_offset s' = s_unsent_max_rx_offset s \<or> s_unsent_max_rx_offset s' \<le> NGTCP2_MAX_VARINT) \<and>
      s_tx_offset s' = s_tx_offset s \<and> s_acked_tx_offset s' = s_acked_tx_offset s \<and>
      strm_has s' NGTCP2_STRM_FLAG_SHUT_RD = strm_has s NGTCP2_STRM_FLAG_SHUT_RD)"

definition keeps :: "'u ngtcp2_conn \<Rightarrow> 'u ngtcp2_conn \<Rightarrow> bool" where
  "keeps c c' =
     (conn_inv c' \<and> c_server c' = c_server c \<and> c_acktr c' = c_acktr c \<and> c_rtb c' = c_rtb c \<and>
      c_rx_offset c' = c_rx_offset c \<and> c_max_rx_offset c' = c_max_rx_offset c \<and>
      c_remote_bidi_idtr c' = c_remote_bidi_idtr c \<and> c_remote_uni_idtr c' = c_remote_uni_idtr c \<and>
      (\<forall>k s. strm_of c k = Some s \<longrightarrow> (\<exists>s'. strm_of c' k = Some s' \<and> same_rx s s')) \<and>
      (\<forall>k. strm_of c k = None \<longrightarrow> strm_of c' k \<noteq> None \<longrightarrow> conn_local_stream c k) \<and>
      set (c_fc_strms c') \<subseteq> set (c_fc_strms c) \<union> dom (strm_of c'))"

lemma same_rx_refl [simp]: "same_rx s s"
  by (simp add: same_rx_def)

lemma same_rx_trans: "same_rx s s' \<Longrightarrow> same_rx s' s'' \<Longrightarrow> same_rx s s''"
  by (auto simp: same_rx_def)

lemma keeps_refl [simp]: "conn_inv c \<Longrightarrow> keeps c c"
  by (simp add: keeps_def)

lemma conn_local_stream_cong: "c_server c' = c_server c \<Longrightarrow> conn_local_stream c' = conn_local_stream c"
  by (simp add: conn_local_stream_def fun_eq_iff)

lemma keeps_trans:
  assumes "keeps c c'" and "keeps c' c''"
  shows "keeps c c''"
proof -
  have "\<exists>s'. strm_of c'' k = Some s' \<and> same_rx s s'" if "strm_of c k = Some s" for k s
    using that assms same_rx_trans unfolding keeps_def by metis
  moreover have "conn_local_stream c k" if "strm_of c k = None" "strm_of c'' k \<noteq> None" for k
    using that assms conn_local_stream_cong [of c' c] unfolding keeps_def by metis
  moreover have "set (c_fc_strms c'') \<subseteq> set (c_fc_strms c) \<union> dom (strm_of c'')"
  proof
    fix k
    assume "k \<in> set (c_fc_strms c'')"
    moreover have "strm_of c' k \<noteq> None \<Longrightarrow> strm_of c'' k \<noteq> None" using assms(2) unfolding keeps_def by blast
    ultimately show "k \<in> set (c_fc_strms c) \<union> dom (strm_of c'')" using assms unfolding keeps_def by blast
  qed
  ultimately show ?thesis using assms unfolding keeps_def by simp
qed

lemma keeps_ok: "keeps c c' \<Longrightarrow> conn_ok c \<Longrightarrow> conn_ok c'"
  unfolding keeps_def conn_ok_def by blast

text \<open>A change of one stream that respects the stream invariant keeps the invariant of the connection.\<close>

lemma conn_inv_put:
  assumes inv: "conn_inv c" and s: "strm_of c k = Some s" and s': "strm_inv k s'"
    and rd: "k = 0 \<Longrightarrow> \<not> strm_has s' NGTCP2_STRM_FLAG_SHUT_RD"
  shows "conn_inv (put_strm c k s')"
proof -
  have of: "strm_of (put_strm c k s') = (strm_of c)(k \<mapsto> s')" using s by (simp add: strm_of_put)
  have "stream_opened (put_strm c k s') j = stream_opened c j" "ids_inv (put_strm c k s') = ids_inv c" for j
    by (simp_all add: stream_opened_def ids_inv_def conn_local_stream_def)
  then show ?thesis using inv s s' rd of unfolding conn_inv_def by auto
qed

lemma keeps_put:
  assumes "conn_inv c" and "strm_of c k = Some s" and "strm_inv k s'" and "same_rx s s'"
  shows "keeps c (put_strm c k s')"
proof -
  have "k = 0 \<Longrightarrow> \<not> strm_has s' NGTCP2_STRM_FLAG_SHUT_RD" using assms by (auto simp: conn_inv_def same_rx_def)
  then have "conn_inv (put_strm c k s')" using conn_inv_put [OF assms(1-3)] by blast
  then show ?thesis using assms(2,4) by (auto simp: keeps_def strm_of_put)
qed

section \<open>Every function of the interface\<close>

text \<open>Changes of fields that neither the invariant nor the handlers look at.\<close>

lemma keeps_upd:
  assumes "conn_inv c" and "c_strms c' = c_strms c" and "conn_inv c'" and "c_server c' = c_server c"
    and "c_acktr c' = c_acktr c" "c_rtb c' = c_rtb c" "c_rx_offset c' = c_rx_offset c" "c_max_rx_offset c' = c_max_rx_offset c"
    and "c_remote_bidi_idtr c' = c_remote_bidi_idtr c" "c_remote_uni_idtr c' = c_remote_uni_idtr c"
    and "set (c_fc_strms c') \<subseteq> set (c_fc_strms c) \<union> dom (strm_of c)"
  shows "keeps c c'"
proof -
  have "strm_of c' = strm_of c" using assms(2) by (simp add: strm_of_def fun_eq_iff)
  then show ?thesis using assms by (simp add: keeps_def)
qed

lemma km_new_ok: "mem_ok m \<Longrightarrow> ngtcp2_crypto_km_new m k iv = (None, Some \<lparr>km_key = k, km_iv = iv\<rparr>, m)"
  by (simp add: ngtcp2_crypto_km_new_def malloc_mem_ok)

lemma conn_inv_mem: "conn_inv c \<Longrightarrow> mem_ok (c_mem c)"
  by (simp add: conn_inv_def)

lemma conn_inv_user_data [simp]: "conn_inv (c\<lparr>c_user_data := u\<rparr>) = conn_inv c"
proof -
  have "strm_of (c\<lparr>c_user_data := u\<rparr>) = strm_of c" by (simp add: strm_of_def fun_eq_iff)
  then show ?thesis by (simp add: conn_inv_def ids_inv_def stream_opened_def conn_local_stream_def)
qed

lemma c_mem_same [simp]: "c\<lparr>c_mem := c_mem c\<rparr> = c"
  by simp

lemma keys_keep:
  assumes "conn_inv c"
  shows "keeps c (snd (ngtcp2_conn_set_handshake_tx_keys c k iv))" "keeps c (snd (ngtcp2_conn_set_handshake_rx_keys c k iv))"
    "keeps c (snd (ngtcp2_conn_update_early_keys c k iv))" "keeps c (snd (ngtcp2_conn_update_tx_keys c k iv))"
    "keeps c (snd (ngtcp2_conn_update_rx_keys c k iv))"
  unfolding ngtcp2_conn_set_handshake_tx_keys_def ngtcp2_conn_set_handshake_rx_keys_def ngtcp2_conn_update_early_keys_def
    ngtcp2_conn_update_tx_keys_def ngtcp2_conn_update_rx_keys_def km_new_ok [OF conn_inv_mem [OF assms]]
  by (auto intro!: keeps_upd simp: assms Let_def)

lemma settings_keep:
  assumes "conn_inv c"
  shows "conn_inv (apply_remote_settings c params)" "keeps c (apply_remote_settings c params)"
    "keeps c (snd (ngtcp2_conn_set_early_remote_transport_params c params))"
proof -
  let ?c = "apply_remote_settings c params"
  have "stream_opened ?c = stream_opened c" "conn_local_stream ?c = conn_local_stream c"
    by (simp_all add: apply_remote_settings_def Let_def stream_opened_def conn_local_stream_def fun_eq_iff)
  then show inv: "conn_inv ?c"
    using assms unfolding conn_inv_def ids_inv_def by (simp add: apply_remote_settings_def Let_def)
  then show "keeps c ?c" using assms by (intro keeps_upd) (simp_all add: apply_remote_settings_def Let_def)
  then show "keeps c (snd (ngtcp2_conn_set_early_remote_transport_params c params))"
    using assms by (simp add: ngtcp2_conn_set_early_remote_transport_params_def)
qed

lemma conn_inv_strm0:
  assumes "conn_inv c"
  obtains s where "strm_of c 0 = Some s" "strm_inv 0 s" "\<not> strm_has s NGTCP2_STRM_FLAG_SHUT_RD"
  using assms unfolding conn_inv_def by blast

lemma conn_inv_strm: "conn_inv c \<Longrightarrow> strm_of c k = Some s \<Longrightarrow> strm_inv k s"
  by (simp add: conn_inv_def)

lemma conn_inv_map [simp]: "conn_inv c \<Longrightarrow> map_wf (c_strms c)"
  by (simp add: conn_inv_def)

lemma max_tx_keeps:
  assumes "conn_inv c" and "strm_of c k = Some s"
  shows "keeps c (put_strm c k (s\<lparr>s_max_tx_offset := x\<rparr>))"
  using keeps_put [OF assms] conn_inv_strm [OF assms] by (simp add: strm_inv_def same_rx_def strm_has_def)

lemma remote_params_keep:
  assumes "conn_inv c" and "ngtcp2_conn_set_remote_transport_params c exttype params = Inr (rv, c')"
  shows "keeps c c'"
proof -
  let ?c = "apply_remote_settings c params"
  obtain s where s: "strm_of ?c 0 = Some s" using conn_inv_strm0 [OF settings_keep(1) [OF assms(1)]] by blast
  let ?c' = "put_strm ?c 0 (s\<lparr>s_max_tx_offset := ucast (set_max_stream_data (c_remote_settings ?c))\<rparr>)"
  have k: "keeps ?c ?c'" by (rule max_tx_keeps [OF settings_keep(1) [OF assms(1)] s])
  then have "conn_inv ?c'" by (simp add: keeps_def)
  then have "keeps ?c' (?c'\<lparr>c_flags := c_flags ?c' OR NGTCP2_CONN_FLAG_TRANSPORT_PARAM_RECVED\<rparr>)" by (intro keeps_upd) simp_all
  then have "keeps c (?c'\<lparr>c_flags := c_flags ?c' OR NGTCP2_CONN_FLAG_TRANSPORT_PARAM_RECVED\<rparr>)"
    using keeps_trans settings_keep(2) [OF assms(1)] k by blast
  moreover have "strm_at ?c 0 = Inr s" using s strm_at_ok conn_inv_map [OF settings_keep(1) [OF assms(1)]] by blast
  ultimately show ?thesis
    using assms unfolding ngtcp2_conn_set_remote_transport_params_def
    by (auto simp: Let_def rbind_def split: sum.splits if_splits)
qed

lemma local_params_keep:
  "conn_inv c \<Longrightarrow> ngtcp2_conn_get_local_transport_params c params exttype = Inr (rv, params', c') \<Longrightarrow> keeps c c'"
  unfolding ngtcp2_conn_get_local_transport_params_def transport_params_copy_from_settings_def
  by (auto simp: Let_def rbind_def split: sum.splits if_splits intro!: keeps_upd)

section \<open>Opening streams\<close>

lemma bidi_stream_nat: "bidi_stream x \<longleftrightarrow> even (unat x div 2)"
proof -
  have "bidi_stream x \<longleftrightarrow> \<not> bit x 1" using and_exp_eq_0_iff_not_bit [of x 1] by (simp add: bidi_stream_def)
  also have "bit x 1 \<longleftrightarrow> bit (unat x) 1" by (simp add: bit_unsigned_iff)
  also have "bit (unat x) 1 \<longleftrightarrow> odd (unat x div 2)" by (simp add: bit_iff_odd)
  finally show ?thesis by simp
qed

lemma conn_local_nat: "conn_local_stream c x \<longleftrightarrow> odd (unat x) = c_server c"
proof -
  have "x mod 2 = 0 \<longleftrightarrow> even (unat x)" by (simp add: word_unat_eq_iff unat_mod even_iff_mod_2_eq_zero)
  then show ?thesis by (auto simp: conn_local_stream_def)
qed

lemma next_id:
  assumes "x \<le> NGTCP2_MAX_VARINT"
  shows "unat (x + 4) = unat x + 4" "x < x + 4" "bidi_stream (x + 4) = bidi_stream x"
    "conn_local_stream c (x + 4) = conn_local_stream c x" "unat (x + 4) \<le> unat NGTCP2_MAX_VARINT + 4"
proof -
  have "unat x \<le> unat NGTCP2_MAX_VARINT" using assms by (simp add: word_le_nat_alt)
  then show u: "unat (x + 4) = unat x + 4" and "unat (x + 4) \<le> unat NGTCP2_MAX_VARINT + 4"
    by (simp_all add: unat_word_ariths)
  then show "x < x + 4" by (simp add: word_less_nat_alt)
  show "conn_local_stream c (x + 4) = conn_local_stream c x" unfolding conn_local_nat u by simp
  show "bidi_stream (x + 4) = bidi_stream x" unfolding bidi_stream_nat u by presburger
qed

text \<open>A new local stream at the next ID of its kind.\<close>

definition next_local :: "'u ngtcp2_conn \<Rightarrow> bool \<Rightarrow> u64" where
  "next_local c bidi = (if bidi then c_next_local_stream_id_bidi c else c_next_local_stream_id_uni c)"

definition bump_next :: "bool \<Rightarrow> 'u ngtcp2_conn \<Rightarrow> 'u ngtcp2_conn" where
  "bump_next bidi c =
     (if bidi then c\<lparr>c_next_local_stream_id_bidi := c_next_local_stream_id_bidi c + 4\<rparr>
      else c\<lparr>c_next_local_stream_id_uni := c_next_local_stream_id_uni c + 4\<rparr>)"

lemma bump_next_strm [simp]: "strm_of (bump_next bidi c) = strm_of c"
  by (simp add: bump_next_def)

lemma new_local_keeps:
  assumes inv: "conn_inv c" and le: "next_local c bidi \<le> NGTCP2_MAX_VARINT" and mp: "map_wf mp"
    and st: "strm_of (c\<lparr>c_strms := mp\<rparr>) = (strm_of c)(next_local c bidi \<mapsto> s)" and s: "strm_inv (next_local c bidi) s"
    and c': "c' = bump_next bidi (c\<lparr>c_strms := mp\<rparr>)"
  shows "keeps c c'" and "strm_of c (next_local c bidi) = None"
proof -
  let ?k = "next_local c bidi"
  have ids: "ids_inv c" using inv by (simp add: conn_inv_def)
  then have k: "conn_local_stream c ?k" "bidi_stream ?k = bidi"
    by (cases bidi; simp add: ids_inv_def next_local_def)+
  have op: "strm_of c j \<noteq> None \<Longrightarrow> stream_opened c j" for j using inv unfolding conn_inv_def by blast
  show none: "strm_of c ?k = None"
  proof (rule ccontr)
    assume "strm_of c ?k \<noteq> None"
    then have "stream_opened c ?k" by (rule op)
    then show False using k by (cases bidi) (simp_all add: stream_opened_def next_local_def)
  qed
  note n = next_id [OF le]
  have loc: "conn_local_stream c' = conn_local_stream c" by (rule conn_local_stream_cong) (simp add: c' bump_next_def)
  have "ids_inv c'"
    using ids n by (cases bidi) (auto simp: ids_inv_def c' bump_next_def next_local_def loc [unfolded c' bump_next_def]
        intro: less_trans cong: conn_local_stream_cong)
  have sub: "stream_opened c' j" if "stream_opened c j" for j
    using that n(2) unfolding stream_opened_def loc
    by (cases bidi) (auto simp: c' bump_next_def next_local_def intro: less_trans split: if_splits)
  have new: "stream_opened c' ?k" using n(2) k unfolding stream_opened_def loc by (cases bidi) (simp_all add: c' bump_next_def next_local_def)
  have st': "strm_of c' = (strm_of c)(?k \<mapsto> s)" using st c' by simp
  have k0: "?k \<noteq> 0" using none conn_inv_strm0 [OF inv] by (metis option.distinct(1))
  have str: "strm_inv j t \<and> stream_opened c' j" if "strm_of c' j = Some t" for j t
    using that inv s sub new unfolding st' conn_inv_def by (auto split: if_splits)
  have "conn_inv c'"
    unfolding conn_inv_def
  proof (intro conjI allI impI)
    show "\<exists>s. strm_of c' 0 = Some s \<and> \<not> strm_has s NGTCP2_STRM_FLAG_SHUT_RD"
      using conn_inv_strm0 [OF inv] k0 unfolding st' by (metis fun_upd_other)
  qed (use str inv mp \<open>ids_inv c'\<close> in \<open>auto simp: conn_inv_def c' bump_next_def\<close>)
  moreover have "strm_of c j = None \<Longrightarrow> strm_of c' j \<noteq> None \<Longrightarrow> conn_local_stream c j" for j
    using k(1) unfolding st' by (auto split: if_splits)
  ultimately show "keeps c c'"
    using none unfolding keeps_def st' by (auto simp: c' bump_next_def)
qed

lemma new_local_ok:
  assumes inv: "conn_inv c" and room: "map_room (c_strms c)" and le: "next_local c bidi \<le> NGTCP2_MAX_VARINT"
  defines "s \<equiv> new_strm (next_local c bidi) (ucast (set_max_stream_data (c_local_settings c)))
    (ucast (set_max_stream_data (c_remote_settings c)))"
  shows "\<exists>mp. ngtcp2_conn_init_stream c (next_local c bidi) = Inr (None, c\<lparr>c_strms := mp\<rparr>) \<and> map_wf mp \<and>
    strm_of (c\<lparr>c_strms := mp\<rparr>) = (strm_of c)(next_local c bidi \<mapsto> s) \<and> strm_inv (next_local c bidi) s"
proof -
  have ids: "ids_inv c" and op: "strm_of c j \<noteq> None \<Longrightarrow> stream_opened c j" for j using inv unfolding conn_inv_def by blast+
  have "strm_of c (next_local c bidi) = None"
  proof (rule ccontr)
    assume "strm_of c (next_local c bidi) \<noteq> None"
    then have "stream_opened c (next_local c bidi)" by (rule op)
    then show False using ids by (cases bidi) (simp_all add: stream_opened_def next_local_def ids_inv_def)
  qed
  then show ?thesis using init_stream_ok [of c "next_local c bidi"] inv room new_strm_inv by (auto simp: s_def conn_inv_def)
qed

lemma open_bidi_keep:
  assumes inv: "conn_inv c" and room: "map_room (c_strms c)" and r: "ngtcp2_conn_open_bidi_stream c = Inr (rv, k, c')"
  shows "keeps c c'"
proof (cases "c_next_local_stream_id_bidi c > c_max_local_stream_id_bidi c")
  case True
  then show ?thesis using r inv by (simp add: ngtcp2_conn_open_bidi_stream_def)
next
  case False
  then have le: "next_local c True \<le> NGTCP2_MAX_VARINT"
    using inv by (auto simp: conn_inv_def ids_inv_def next_local_def)
  obtain mp s where mp: "ngtcp2_conn_init_stream c (next_local c True) = Inr (None, c\<lparr>c_strms := mp\<rparr>)" "map_wf mp"
      "strm_of (c\<lparr>c_strms := mp\<rparr>) = (strm_of c)(next_local c True \<mapsto> s)" "strm_inv (next_local c True) s"
    using new_local_ok [OF inv room le] by blast
  have "c' = bump_next True (c\<lparr>c_strms := mp\<rparr>)"
    using r False mp(1) malloc_mem_ok [OF conn_inv_mem [OF inv]]
    by (simp add: ngtcp2_conn_open_bidi_stream_def next_local_def bump_next_def Let_def)
  then show ?thesis by (rule new_local_keeps(1) [OF inv le mp(2-4)])
qed

lemma shut_strm_inv: "strm_inv k s \<Longrightarrow> strm_inv k (ngtcp2_strm_shutdown s fl)"
  by (simp add: strm_inv_def ngtcp2_strm_shutdown_def)

text \<open>The receiving side of the stream that is opened here is shut at once.\<close>

lemma open_uni_keep:
  assumes inv: "conn_inv c" and room: "map_room (c_strms c)" and r: "ngtcp2_conn_open_uni_stream c = Inr (rv, k, c')"
  shows "keeps c c'"
proof (cases "c_next_local_stream_id_uni c > c_max_local_stream_id_uni c")
  case True
  then show ?thesis using r inv by (simp add: ngtcp2_conn_open_uni_stream_def)
next
  case False
  then have le: "next_local c False \<le> NGTCP2_MAX_VARINT"
    using inv by (auto simp: conn_inv_def ids_inv_def next_local_def)
  obtain mp s where mp: "ngtcp2_conn_init_stream c (next_local c False) = Inr (None, c\<lparr>c_strms := mp\<rparr>)" "map_wf mp"
      "strm_of (c\<lparr>c_strms := mp\<rparr>) = (strm_of c)(next_local c False \<mapsto> s)" "strm_inv (next_local c False) s"
    using new_local_ok [OF inv room le] by blast
  let ?c = "c\<lparr>c_strms := mp\<rparr>" let ?k = "next_local c False" let ?s = "ngtcp2_strm_shutdown s NGTCP2_STRM_FLAG_SHUT_RD"
  let ?mp = "map_store mp ?k ?s"
  have "strm_at ?c ?k = Inr s" using mp(2,3) by (intro strm_at_ok) simp_all
  then have "c' = bump_next False (put_strm ?c ?k ?s)"
    using r False mp(1) malloc_mem_ok [OF conn_inv_mem [OF inv]]
    by (simp add: ngtcp2_conn_open_uni_stream_def next_local_def bump_next_def Let_def)
  then have c': "c' = bump_next False (c\<lparr>c_strms := ?mp\<rparr>)" by (simp add: put_strm_def)
  have "strm_of (put_strm ?c ?k ?s) = (strm_of c)(?k \<mapsto> ?s)" using mp(3) by (simp add: strm_of_put)
  then have st: "strm_of (c\<lparr>c_strms := ?mp\<rparr>) = (strm_of c)(?k \<mapsto> ?s)" by (simp add: put_strm_def)
  show ?thesis
    by (rule new_local_keeps(1) [OF inv le map_wf_store [OF mp(2)] st shut_strm_inv [OF mp(4)] c'])
qed

section \<open>Shutting down and extending limits\<close>

lemma rst_stream_ok:
  "mem_ok (c_mem c) \<Longrightarrow> \<exists>fr. conn_rst_stream c strm code = (None, c\<lparr>c_frq := fr # c_frq c\<rparr>)"
  unfolding conn_rst_stream_def ngtcp2_frame_chain_new_def by (simp add: malloc_mem_ok) blast

lemma stop_sending_ok:
  "mem_ok (c_mem c) \<Longrightarrow> \<exists>fr. conn_stop_sending c strm code = (None, fc_unlink (c\<lparr>c_frq := fr # c_frq c\<rparr>) (s_stream_id strm))"
  unfolding conn_stop_sending_def ngtcp2_frame_chain_new_def by (simp add: malloc_mem_ok) blast

lemma fc_unlink_inv: "conn_inv c \<Longrightarrow> conn_inv (fc_unlink c k)"
proof -
  assume inv: "conn_inv c"
  have "stream_opened (fc_unlink c k) = stream_opened c" "conn_local_stream (fc_unlink c k) = conn_local_stream c"
    by (simp_all add: fc_unlink_def stream_opened_def conn_local_stream_def fun_eq_iff)
  then show ?thesis using inv unfolding conn_inv_def ids_inv_def by (simp add: fc_unlink_def)
qed

lemma fc_unlink_keeps: "conn_inv c \<Longrightarrow> keeps c (fc_unlink c k)"
  using fc_unlink_inv [of c k] set_remove1_subset [of k "c_fc_strms c"]
  by (intro keeps_upd) (auto simp: fc_unlink_def)

text \<open>Flags other than the one that shuts the receiving side, and the error code, may change.\<close>

lemma flags_keep:
  assumes "conn_inv c" and "strm_of c k = Some s" and "fl AND NGTCP2_STRM_FLAG_SHUT_RD = 0"
  shows "keeps c (put_strm c k (s\<lparr>s_flags := s_flags s OR fl, s_app_error_code := code\<rparr>))"
  using keeps_put [OF assms(1,2)] conn_inv_strm [OF assms(1,2)] assms(3)
  by (simp add: strm_inv_def same_rx_def strm_has_def bit.conj_disj_distrib2)

lemma shutdown_write_keep:
  assumes inv: "conn_inv c" and s: "strm_of c k = Some s"
  shows "\<exists>c'. conn_shutdown_stream_write c k code = Inr (None, c') \<and> keeps c c'"
proof -
  let ?s = "s\<lparr>s_flags := s_flags s OR (NGTCP2_STRM_FLAG_SHUT_WR OR NGTCP2_STRM_FLAG_SENT_RST), s_app_error_code := code\<rparr>"
  let ?c = "put_strm c k ?s"
  have k: "keeps c ?c" by (rule flags_keep [OF inv s]) simp
  then have i: "conn_inv ?c" by (simp add: keeps_def)
  obtain fr where fr: "conn_rst_stream ?c ?s code = (None, ?c\<lparr>c_frq := fr # c_frq ?c\<rparr>)"
    using rst_stream_ok [OF conn_inv_mem [OF i]] by blast
  have "keeps ?c (?c\<lparr>c_frq := fr # c_frq ?c\<rparr>)" using i by (intro keeps_upd) simp_all
  then show ?thesis
    using keeps_trans [OF k] fr strm_at_ok [OF conn_inv_map [OF inv] s] inv by (simp add: conn_shutdown_stream_write_def Let_def)
qed

lemma shutdown_read_keep:
  assumes inv: "conn_inv c" and s: "strm_of c k = Some s"
  shows "\<exists>c'. conn_shutdown_stream_read c k code = Inr (None, c') \<and> keeps c c'"
proof -
  let ?s = "s\<lparr>s_flags := s_flags s OR NGTCP2_STRM_FLAG_STOP_SENDING, s_app_error_code := code\<rparr>"
  let ?c = "put_strm c k ?s"
  have k: "keeps c ?c" by (rule flags_keep [OF inv s]) simp
  then have i: "conn_inv ?c" by (simp add: keeps_def)
  obtain fr where fr: "conn_stop_sending ?c ?s code = (None, fc_unlink (?c\<lparr>c_frq := fr # c_frq ?c\<rparr>) (s_stream_id ?s))"
    using stop_sending_ok [OF conn_inv_mem [OF i]] by blast
  have k2: "keeps ?c (?c\<lparr>c_frq := fr # c_frq ?c\<rparr>)" using i by (intro keeps_upd) simp_all
  then have "keeps c (fc_unlink (?c\<lparr>c_frq := fr # c_frq ?c\<rparr>) (s_stream_id ?s))"
    using keeps_trans [OF keeps_trans [OF k k2] fc_unlink_keeps] by (simp add: keeps_def)
  then show ?thesis
    using fr strm_at_ok [OF conn_inv_map [OF inv] s] inv by (simp add: conn_shutdown_stream_read_def Let_def)
qed

lemma for_shutdown_keep:
  assumes "conn_inv c" and "for_shutdown c k code r = Inr (rv, c')"
    and "\<And>s. strm_of c k = Some s \<Longrightarrow> r = Inr (rv, c') \<Longrightarrow> keeps c c'"
  shows "keeps c c'"
  using assms by (auto simp: for_shutdown_def find_stream_ok split: if_splits option.splits)

lemma shutdown_keep:
  assumes inv: "conn_inv c"
  shows "ngtcp2_conn_shutdown_stream_write c k code = Inr (rv, c') \<Longrightarrow> keeps c c'"
    and "ngtcp2_conn_shutdown_stream_read c k code = Inr (rv, c') \<Longrightarrow> keeps c c'"
    and "ngtcp2_conn_shutdown_stream c k code = Inr (rv, c') \<Longrightarrow> keeps c c'"
proof -
  show "ngtcp2_conn_shutdown_stream_write c k code = Inr (rv, c') \<Longrightarrow> keeps c c'"
    unfolding ngtcp2_conn_shutdown_stream_write_def
    by (erule for_shutdown_keep [OF inv]) (use shutdown_write_keep [OF inv, of k _ code] in fastforce)
  show "ngtcp2_conn_shutdown_stream_read c k code = Inr (rv, c') \<Longrightarrow> keeps c c'"
    unfolding ngtcp2_conn_shutdown_stream_read_def
    by (erule for_shutdown_keep [OF inv]) (use shutdown_read_keep [OF inv, of k _ code] in fastforce)
  assume "ngtcp2_conn_shutdown_stream c k code = Inr (rv, c')"
  then show "keeps c c'" unfolding ngtcp2_conn_shutdown_stream_def
  proof (rule for_shutdown_keep [OF inv])
    fix s
    assume s: "strm_of c k = Some s"
      and r: "rv_then (conn_shutdown_stream_read c k code) (\<lambda>c. conn_shutdown_stream_write c k code) = Inr (rv, c')"
    obtain c1 where c1: "conn_shutdown_stream_read c k code = Inr (None, c1)" "keeps c c1"
      using shutdown_read_keep [OF inv s] by blast
    obtain s1 where "conn_inv c1" "strm_of c1 k = Some s1" using c1(2) s unfolding keeps_def by blast
    then obtain c2 where "conn_shutdown_stream_write c1 k code = Inr (None, c2)" "keeps c1 c2"
      using shutdown_write_keep by blast
    then show "keeps c c'" using r c1 keeps_trans by auto
  qed
qed

lemma varint_room:
  assumes "n \<le> NGTCP2_MAX_VARINT" and "u \<le> NGTCP2_MAX_VARINT - n"
  shows "unat (u + n) = unat u + unat n" "unat u + unat n \<le> unat NGTCP2_MAX_VARINT" "u + n \<le> NGTCP2_MAX_VARINT"
proof -
  have n: "unat n \<le> unat NGTCP2_MAX_VARINT" "unat (NGTCP2_MAX_VARINT - n) = unat NGTCP2_MAX_VARINT - unat n"
    using assms(1) by (simp_all add: word_le_nat_alt unat_sub)
  have "unat u \<le> unat (NGTCP2_MAX_VARINT - n)" using assms(2) by (simp only: word_le_nat_alt)
  then show sum: "unat u + unat n \<le> unat NGTCP2_MAX_VARINT" using n by linarith
  then show eq: "unat (u + n) = unat u + unat n" by (simp add: unat_word_ariths)
  show "u + n \<le> NGTCP2_MAX_VARINT" unfolding word_le_nat_alt eq by (rule sum)
qed

lemma strm_inv_extend:
  assumes "strm_inv k s" and "n \<le> NGTCP2_MAX_VARINT" and "s_unsent_max_rx_offset s \<le> NGTCP2_MAX_VARINT - n"
  shows "strm_inv k (s\<lparr>s_unsent_max_rx_offset := s_unsent_max_rx_offset s + n\<rparr>)"
proof -
  let ?u = "s_unsent_max_rx_offset s"
  note v = varint_room [OF assms(2,3)]
  have "s_max_rx_offset s \<le> ?u + n" using assms(1) v(1) by (simp add: strm_inv_def word_le_nat_alt)
  then show ?thesis using assms(1) v by (auto simp: strm_inv_def)
qed

text \<open>Putting a stream into the list of those with a pending MAX_STREAM_DATA.\<close>

lemma fc_link_inv:
  assumes inv: "conn_inv c" and "strm_of c k = Some s" and "k \<notin> set (c_fc_strms c)"
  shows "conn_inv (c\<lparr>c_fc_strms := k # c_fc_strms c\<rparr>)"
proof -
  let ?d = "c\<lparr>c_fc_strms := k # c_fc_strms c\<rparr>"
  have "stream_opened ?d = stream_opened c" "conn_local_stream ?d = conn_local_stream c"
    by (simp_all add: stream_opened_def conn_local_stream_def fun_eq_iff)
  then show ?thesis using inv assms(3) unfolding conn_inv_def ids_inv_def by simp
qed

lemma extend_stream_keep:
  assumes inv: "conn_inv c" and s: "strm_of c k = Some s" and n: "n \<le> NGTCP2_MAX_VARINT"
  shows "\<exists>c'. conn_extend_max_stream_offset c k n = Inr c' \<and> keeps c c'"
proof -
  let ?s = "if s_unsent_max_rx_offset s \<le> NGTCP2_MAX_VARINT - n
    then s\<lparr>s_unsent_max_rx_offset := s_unsent_max_rx_offset s + n\<rparr> else s"
  let ?c = "put_strm c k ?s"
  have "strm_inv k ?s" using strm_inv_extend [OF conn_inv_strm [OF inv s] n] conn_inv_strm [OF inv s] by simp
  moreover have "same_rx s ?s" using varint_room(3) [OF n] by (simp add: same_rx_def strm_has_def)
  ultimately have k: "keeps c ?c" by (rule keeps_put [OF inv s])
  then have i: "conn_inv ?c" by (simp add: keeps_def)
  have "keeps ?c (?c\<lparr>c_fc_strms := k # c_fc_strms ?c\<rparr>)" if "k \<notin> set (c_fc_strms c)"
    using fc_link_inv [OF i, of k ?s] that s by (intro keeps_upd [OF i]) (auto simp: strm_of_put)
  then show ?thesis
    using keeps_trans [OF k] k strm_at_ok [OF conn_inv_map [OF inv] s]
    by (simp add: conn_extend_max_stream_offset_def Let_def)
qed

lemma extend_keep:
  assumes inv: "conn_inv c"
  shows "n \<le> NGTCP2_MAX_VARINT \<Longrightarrow> ngtcp2_conn_extend_max_stream_offset c k n = Inr (rv, c') \<Longrightarrow> keeps c c'"
    and "keeps c (ngtcp2_conn_extend_max_offset c n)"
proof -
  show "n \<le> NGTCP2_MAX_VARINT \<Longrightarrow> ngtcp2_conn_extend_max_stream_offset c k n = Inr (rv, c') \<Longrightarrow> keeps c c'"
    using extend_stream_keep [OF inv, of k _ n] inv
    by (fastforce simp: ngtcp2_conn_extend_max_stream_offset_def find_stream_ok split: option.splits)
  let ?d = "ngtcp2_conn_extend_max_offset c n" let ?u = "c_unsent_max_rx_offset c"
  have "c_unsent_max_rx_offset ?d \<le> NGTCP2_MAX_VARINT \<and> ?u \<le> c_unsent_max_rx_offset ?d"
  proof (cases "NGTCP2_MAX_VARINT < n \<or> ?u > NGTCP2_MAX_VARINT - n")
    case True
    then show ?thesis using inv by (auto simp: ngtcp2_conn_extend_max_offset_def conn_inv_def)
  next
    case False
    then have "n \<le> NGTCP2_MAX_VARINT" "?u \<le> NGTCP2_MAX_VARINT - n" by (simp_all only: de_Morgan_disj not_less)
    note v = varint_room [OF this]
    show ?thesis using False v by (simp add: ngtcp2_conn_extend_max_offset_def word_le_nat_alt)
  qed
  moreover have "stream_opened ?d = stream_opened c" "conn_local_stream ?d = conn_local_stream c"
    by (simp_all add: ngtcp2_conn_extend_max_offset_def stream_opened_def conn_local_stream_def fun_eq_iff)
  ultimately have "conn_inv ?d"
    using inv unfolding conn_inv_def ids_inv_def
    by (auto simp: ngtcp2_conn_extend_max_offset_def)
  then show "keeps c ?d" using inv by (intro keeps_upd) (simp_all add: ngtcp2_conn_extend_max_offset_def)
qed

theorem api_step_keeps: "api_step c c' \<Longrightarrow> conn_inv c \<Longrightarrow> keeps c c'"
proof (induction rule: api_step.induct)
  case (user_data c u)
  then show ?case by (intro keeps_upd) simp_all
next
  case (handshake_completed c)
  then show ?case by (intro keeps_upd) (simp_all add: ngtcp2_conn_handshake_completed_def)
next
  case (early_data_rejected c)
  then show ?case by (intro keeps_upd) (simp_all add: ngtcp2_conn_early_data_rejected_def)
next
  case (aead_overhead c n)
  then show ?case by (intro keeps_upd) (simp_all add: ngtcp2_conn_set_aead_overhead_def)
qed (auto intro: keys_keep remote_params_keep settings_keep local_params_keep open_bidi_keep open_uni_keep shutdown_keep extend_keep)

lemma api_steps_keep: "api_step\<^sup>*\<^sup>* c c' \<Longrightarrow> conn_inv c \<Longrightarrow> keeps c c'"
proof (induction rule: rtranclp_induct)
  case (step d e)
  then show ?case using api_step_keeps [of d e] keeps_trans [of c d e] by (simp add: keeps_def)
qed simp

section \<open>Callbacks\<close>

text \<open>
  The contract of the application: every callback acts on the connection it is given through the interface only.
\<close>

definition acts :: "('u ngtcp2_conn \<Rightarrow> 'r \<times> 'u ngtcp2_conn) \<Rightarrow> bool" where
  "acts f = (\<forall>c. api_step\<^sup>*\<^sup>* c (snd (f c)))"

definition app_ok :: "'u ngtcp2_conn_callbacks \<Rightarrow> bool" where
  "app_ok cb =
     ((\<forall>f id. cb_recv_client_initial cb = Some f \<longrightarrow> acts (\<lambda>c. f c id)) \<and>
      (\<forall>data. acts (\<lambda>c. cb_recv_stream0_data cb c data)) \<and>
      (\<forall>f h. cb_send_pkt cb = Some f \<longrightarrow> acts (\<lambda>c. f c h)) \<and>
      (\<forall>f h fr. cb_send_frame cb = Some f \<longrightarrow> acts (\<lambda>c. f c h fr)) \<and>
      (\<forall>f h. cb_recv_pkt cb = Some f \<longrightarrow> acts (\<lambda>c. f c h)) \<and>
      (\<forall>f h fr. cb_recv_frame cb = Some f \<longrightarrow> acts (\<lambda>c. f c h fr)) \<and>
      (\<forall>f. cb_handshake_completed cb = Some f \<longrightarrow> acts f) \<and>
      (\<forall>f h sv n. cb_recv_version_negotiation cb = Some f \<longrightarrow> acts (\<lambda>c. f c h sv n)) \<and>
      (\<forall>f k fin data. cb_recv_stream_data cb = Some f \<longrightarrow> acts (\<lambda>c. f c k fin data)) \<and>
      (\<forall>f k off n. cb_acked_stream_data_offset cb = Some f \<longrightarrow> acts (\<lambda>c. f c k off n)) \<and>
      (\<forall>f k code. cb_stream_close cb = Some f \<longrightarrow> acts (\<lambda>c. f c k code)) \<and>
      (\<forall>f h sr. cb_recv_stateless_reset cb = Some f \<longrightarrow> acts (\<lambda>c. f c h sr)) \<and>
      (\<forall>f. cb_recv_server_stateless_retry cb = Some f \<longrightarrow> acts f) \<and>
      (\<forall>f n. cb_extend_max_stream_id cb = Some f \<longrightarrow> acts (\<lambda>c. f c n)) \<and>
      (\<forall>fl b. acts (\<lambda>c. cb_send_client_initial cb c fl b)) \<and>
      (\<forall>fl. acts (\<lambda>c. cb_send_client_handshake cb c fl)) \<and>
      (\<forall>fl b. acts (\<lambda>c. cb_send_server_handshake cb c fl b)))"

lemma acts_keeps: "acts f \<Longrightarrow> conn_inv c \<Longrightarrow> keeps c (snd (f c))"
  using api_steps_keep by (auto simp: acts_def)

lemma conn_call_keeps:
  assumes "conn_inv c" and "\<And>g. f = Some g \<Longrightarrow> acts g"
  shows "keeps c (snd (conn_call f c))"
proof (cases f)
  case (Some g)
  then have "keeps c (snd (g c))" using assms acts_keeps by blast
  then show ?thesis by (cases "g c") (simp add: Some conn_call_def)
qed (simp add: assms(1) conn_call_def)

lemma call_keeps:
  assumes "app_ok cb" and "conn_inv c"
  shows "keeps c (snd (conn_call_recv_stream_data cb c k fin data))"
    "keeps c (snd (conn_call_stream_close cb c k code))"
    "keeps c (snd (conn_call_extend_max_stream_id cb c n))"
    "keeps c (snd (conn_call_recv_frame cb c h fr))" "keeps c (snd (conn_call_recv_pkt cb c h))"
    "keeps c (snd (conn_call_send_frame cb c h fr))" "keeps c (snd (conn_call_send_pkt cb c h))"
    "keeps c (snd (conn_call_handshake_completed cb c))"
  unfolding conn_call_recv_stream_data_def conn_call_stream_close_def conn_call_extend_max_stream_id_def
    conn_call_recv_frame_def conn_call_recv_pkt_def conn_call_send_frame_def conn_call_send_pkt_def
    conn_call_handshake_completed_def
  using assms by (auto intro!: conn_call_keeps simp: app_ok_def)

lemma stream0_call_keeps:
  assumes "app_ok cb" and "conn_inv c"
  shows "keeps c (snd (conn_call_recv_stream0_data cb c data))"
proof -
  have "keeps c (snd (cb_recv_stream0_data cb c data))"
    using acts_keeps [of "\<lambda>c. cb_recv_stream0_data cb c data" c] assms by (simp add: app_ok_def)
  then show ?thesis by (auto simp: conn_call_recv_stream0_data_def Let_def split: prod.splits option.splits)
qed

end
