(* ===== verification/Conn_Safe.thy ===== *)
theory Conn_Safe
  imports Conn_Api
begin

text \<open>
  The handlers of received frames keep the invariant of the connection for any application that acts through the
  interface, whatever the peer sends: no assertion fails, nothing is accessed outside of its bounds, every loop ends.
  In-order delivery: what the application is given of a stream is its prefix up to the first byte that is missing.
\<close>

section \<open>Safe results\<close>

text \<open>
  A result, and the invariant. When the callback for a closed stream fails, the stream stays in the list of those with a
  pending MAX_STREAM_DATA; the connection has failed then.
\<close>

definition safe :: "(rv \<times> 'u ngtcp2_conn) res \<Rightarrow> bool" where
  "safe r = (\<exists>rv c. r = Inr (rv, c) \<and> conn_inv c \<and> (rv = Some NGTCP2_ERR_CALLBACK_FAILURE \<or> conn_ok c))"

lemma safe_ok: "conn_ok c \<Longrightarrow> safe (Inr (rv, c))"
  by (simp add: safe_def conn_ok_def)

lemma safe_keeps: "conn_ok c \<Longrightarrow> keeps c c' \<Longrightarrow> safe (Inr (rv, c'))"
  using keeps_ok [of c c'] by (simp add: safe_ok)

lemma safe_rv_then: "safe r \<Longrightarrow> (\<And>c. r = Inr (None, c) \<Longrightarrow> conn_ok c \<Longrightarrow> safe (k c)) \<Longrightarrow> safe (rv_then r k)"
  by (auto simp: safe_def rv_then_def split: if_splits)

lemma conn_ok_inv [simp]: "conn_ok c \<Longrightarrow> conn_inv c"
  by (simp add: conn_ok_def)

lemma conn_ok_put:
  assumes "conn_ok c" and "strm_of c k = Some s" and "strm_inv k s'" and "k = 0 \<Longrightarrow> \<not> strm_has s' NGTCP2_STRM_FLAG_SHUT_RD"
  shows "conn_ok (put_strm c k s')"
  using assms conn_inv_put [of c k s s'] by (auto simp: conn_ok_def strm_of_put)

lemma keeps_inv: "keeps c c' \<Longrightarrow> conn_inv c'"
  by (simp add: keeps_def)

lemma keeps_strm:
  assumes "keeps c c'" and "strm_of c k = Some s"
  obtains s' where "strm_of c' k = Some s'" "same_rx s s'"
  using assms unfolding keeps_def by blast

lemma keeps_dom: "keeps c c' \<Longrightarrow> dom (strm_of c) \<subseteq> dom (strm_of c')"
  unfolding keeps_def by blast

lemma keeps_fc: "keeps c c' \<Longrightarrow> set (c_fc_strms c') \<subseteq> set (c_fc_strms c) \<union> dom (strm_of c')"
  unfolding keeps_def by blast

section \<open>Handing over buffered data\<close>

text \<open>
  \<open>pending S b s\<close>: the reorder buffer of the stream holds \<open>S\<close> from \<open>b\<close> on, and the next limit is within its bound.
\<close>

definition pending :: "(u64 \<Rightarrow> u8) \<Rightarrow> u64 \<Rightarrow> ngtcp2_strm \<Rightarrow> bool" where
  "pending S b s = (rob_inv S b (s_rob s) \<and> unat (s_unsent_max_rx_offset s) \<le> unat NGTCP2_MAX_VARINT + unat b)"

lemma pending_same_rx: "pending S b s \<Longrightarrow> same_rx s s' \<Longrightarrow> pending S b s'"
  by (auto simp: pending_def same_rx_def word_le_nat_alt)

text \<open>Limits of a stream on which data up to \<open>e\<close> is there.\<close>

lemma first_gap_le:
  assumes "strm_inv k s"
  shows "ngtcp2_rob_first_gap_offset (s_rob s) \<le> s_last_rx_offset s"
    and "unat (ngtcp2_rob_first_gap_offset (s_rob s)) \<le> unat NGTCP2_MAX_VARINT"
proof -
  let ?f = "ngtcp2_rob_first_gap_offset (s_rob s)" and ?l = "s_last_rx_offset s"
  obtain S b where r: "rob_inv S b (s_rob s)" using assms unfolding strm_inv_def by blast
  have l: "?l \<le> NGTCP2_MAX_VARINT" using assms by (simp add: strm_inv_def)
  then have "?l < UINT64_MAX" by (simp add: word_less_nat_alt word_le_nat_alt unat_UINT64_MAX)
  then have "?l \<in> gap_set (rob_gap (s_rob s))" using assms by (auto simp: strm_inv_def)
  moreover obtain g gs where g: "rob_gap (s_rob s) = g # gs" "\<And>x. x < r_begin g \<Longrightarrow> x \<notin> gap_set (rob_gap (s_rob s))"
    using rob_inv_gap [OF r] by metis
  ultimately have "r_begin g \<le> ?l" by (meson not_less)
  then show "?f \<le> ?l" by (simp add: g(1) ngtcp2_rob_first_gap_offset_def)
  then show "unat ?f \<le> unat NGTCP2_MAX_VARINT" using l by (simp add: word_le_nat_alt)
qed

lemma strm_inv_rob:
  assumes "strm_inv k s" and "rob_inv S e rob" and "gap_set (rob_gap rob) = gap_set (rob_gap (s_rob s))"
    and "rob_chunk rob = rob_chunk (s_rob s)" and "unat u \<le> unat NGTCP2_MAX_VARINT + unat e" and "s_max_rx_offset s \<le> u"
  shows "strm_inv k (s\<lparr>s_unsent_max_rx_offset := u, s_rob := rob\<rparr>)"
  using assms by (auto simp: strm_inv_def)

lemma map_store_twice: "map_store (map_store mp k x) k y = map_store mp k y"
  by (simp add: map_store_def)

lemma put_strm_twice [simp]: "put_strm (put_strm c k s) k s' = put_strm c k s'"
  by (simp add: put_strm_def map_store_twice)

text \<open>What handing over data changes of a stream: chunks that are used up, and the next limit.\<close>

definition same_gaps :: "ngtcp2_strm \<Rightarrow> ngtcp2_strm \<Rightarrow> bool" where
  "same_gaps s s' =
     (rob_gap (s_rob s') = rob_gap (s_rob s) \<and> rob_chunk (s_rob s') = rob_chunk (s_rob s) \<and>
      s_last_rx_offset s' = s_last_rx_offset s \<and> s_max_rx_offset s' = s_max_rx_offset s \<and>
      s_tx_offset s' = s_tx_offset s \<and> s_acked_tx_offset s' = s_acked_tx_offset s \<and>
      strm_has s' NGTCP2_STRM_FLAG_SHUT_RD = strm_has s NGTCP2_STRM_FLAG_SHUT_RD)"

lemma same_gaps_trans: "same_gaps s s' \<Longrightarrow> same_gaps s' s'' \<Longrightarrow> same_gaps s s''"
  by (simp add: same_gaps_def)

lemma same_rx_gaps: "same_rx s s' \<Longrightarrow> same_gaps s s'"
  by (simp add: same_rx_def same_gaps_def)

lemma same_gaps_first: "same_gaps s s' \<Longrightarrow> ngtcp2_rob_first_gap_offset (s_rob s') = ngtcp2_rob_first_gap_offset (s_rob s)"
  by (simp add: same_gaps_def ngtcp2_rob_first_gap_offset_def)

text \<open>
  The data callback for a stream, and an application that records in \<open>log\<close> what it is given for stream \<open>k\<close>, and does
  not ask the peer to stop sending on it.
\<close>

definition deliver ::
    "'u ngtcp2_conn_callbacks \<Rightarrow> 'u ngtcp2_conn \<Rightarrow> u64 \<Rightarrow> bool \<Rightarrow> u8 option list \<Rightarrow> rv \<times> 'u ngtcp2_conn" where
  "deliver cb c k fin data =
     (if k = 0 then conn_call_recv_stream0_data cb c data else conn_call_recv_stream_data cb c k fin data)"

definition records :: "'u ngtcp2_conn_callbacks \<Rightarrow> u64 \<Rightarrow> ('u \<Rightarrow> u8 option list) \<Rightarrow> bool" where
  "records cb k log =
     ((\<forall>c fin data. fst (deliver cb c k fin data) = None \<and>
        log (c_user_data (snd (deliver cb c k fin data))) = log (c_user_data c) @ data) \<and>
      (\<forall>c code. fst (conn_call_stream_close cb c k code) = None \<and>
        log (c_user_data (snd (conn_call_stream_close cb c k code))) = log (c_user_data c)) \<and>
      (\<forall>c fin data s s'. strm_of c k = Some s \<longrightarrow> strm_of (snd (deliver cb c k fin data)) k = Some s' \<longrightarrow>
        strm_has s' NGTCP2_STRM_FLAG_STOP_SENDING = strm_has s NGTCP2_STRM_FLAG_STOP_SENDING))"

text \<open>The side of the connection, its acknowledgements and the state of its flow control.\<close>

definition same_limits :: "'u ngtcp2_conn \<Rightarrow> 'u ngtcp2_conn \<Rightarrow> bool" where
  "same_limits c c' =
     (c_server c' = c_server c \<and> c_acktr c' = c_acktr c \<and> c_rx_offset c' = c_rx_offset c \<and>
      c_max_rx_offset c' = c_max_rx_offset c)"

lemma same_limits_trans: "same_limits c c' \<Longrightarrow> same_limits c' c'' \<Longrightarrow> same_limits c c''"
  by (simp add: same_limits_def)

lemma keeps_limits: "keeps c c' \<Longrightarrow> same_limits c c'"
  by (simp add: keeps_def same_limits_def)

lemma same_limits_put [simp]: "same_limits c (put_strm c' k s) = same_limits c c'"
  by (simp add: same_limits_def)

lemma deliver_keeps: "app_ok cb \<Longrightarrow> conn_inv c \<Longrightarrow> keeps c (snd (deliver cb c k fin data))"
  by (simp add: deliver_def call_keeps stream0_call_keeps)

text \<open>What both loops establish, from offset \<open>b\<close> on.\<close>

definition emitted ::
    "'u ngtcp2_conn_callbacks \<Rightarrow> (u64 \<Rightarrow> u8) \<Rightarrow> u64 \<Rightarrow> ngtcp2_strm \<Rightarrow> u64 \<Rightarrow> 'u ngtcp2_conn \<Rightarrow> (rv \<times> 'u ngtcp2_conn) res \<Rightarrow> bool" where
  "emitted cb S k s b c r =
     (\<exists>rv c' s'. r = Inr (rv, c') \<and> conn_ok c' \<and> strm_of c' k = Some s' \<and> same_gaps s s' \<and> same_limits c c' \<and>
        (rv = None \<longrightarrow> pending S (ngtcp2_rob_first_gap_offset (s_rob s)) s') \<and>
        (\<forall>log. records cb k log \<longrightarrow> rv = None \<and>
           strm_has s' NGTCP2_STRM_FLAG_STOP_SENDING = strm_has s NGTCP2_STRM_FLAG_STOP_SENDING \<and>
           log (c_user_data c') = log (c_user_data c) @ map Some (slice S b (ngtcp2_rob_first_gap_offset (s_rob s)))))"

lemma emitted_stop:
  "conn_ok c \<Longrightarrow> strm_of c k = Some s \<Longrightarrow> pending S (ngtcp2_rob_first_gap_offset (s_rob s)) s \<Longrightarrow>
    emitted cb S k s (ngtcp2_rob_first_gap_offset (s_rob s)) c (Inr (None, c))"
  by (simp add: emitted_def same_gaps_def same_limits_def)

lemma emitted_failed:
  assumes "keeps c c'" and "strm_of c k = Some s" and "deliver cb c k fin data = (Some x, c')" and "conn_ok c"
  shows "emitted cb S k s b c (Inr (Some x, c'))"
proof -
  obtain s' where "strm_of c' k = Some s'" "same_rx s s'" using keeps_strm [OF assms(1,2)] .
  moreover have "\<not> records cb k log" for log using assms(3) unfolding records_def by (metis fst_conv option.distinct(1))
  ultimately show ?thesis using keeps_ok [OF assms(1,4)] same_rx_gaps keeps_limits [OF assms(1)] by (auto simp: emitted_def)
qed

lemma emitted_step:
  assumes e: "emitted cb S k s2 e c2 r" and g: "same_gaps s s2" and d: "deliver cb c k fin data = (None, c1)"
    and u: "c_user_data c2 = c_user_data c1" and lim: "same_limits c c2" and data: "data = map Some (slice S b e)"
    and be: "b \<le> e" "e \<le> ngtcp2_rob_first_gap_offset (s_rob s)"
    and fl: "strm_of c k = Some s" "strm_of c1 k = Some s1" "s_flags s2 = s_flags s1"
  shows "emitted cb S k s b c r"
proof -
  let ?f = "ngtcp2_rob_first_gap_offset (s_rob s)"
  have f: "ngtcp2_rob_first_gap_offset (s_rob s2) = ?f" by (rule same_gaps_first [OF g])
  have log: "log (c_user_data c2) @ map Some (slice S e ?f) = log (c_user_data c) @ map Some (slice S b ?f)"
    if "records cb k log" for log
  proof -
    have "log (c_user_data c2) = log (c_user_data c) @ data" using that d u unfolding records_def by (metis snd_conv)
    then show ?thesis using slice_append [OF be, of S] data by (simp flip: map_append)
  qed
  have stop: "strm_has s2 NGTCP2_STRM_FLAG_STOP_SENDING = strm_has s NGTCP2_STRM_FLAG_STOP_SENDING"
    if "records cb k log" for log
    using that d fl unfolding records_def strm_has_def by (metis snd_conv)
  obtain rv c' s' where r: "r = Inr (rv, c')" "conn_ok c'" "strm_of c' k = Some s'" "same_gaps s2 s'" "same_limits c2 c'"
      "rv = None \<longrightarrow> pending S ?f s'"
      "\<And>log. records cb k log \<Longrightarrow> rv = None \<and>
         strm_has s' NGTCP2_STRM_FLAG_STOP_SENDING = strm_has s2 NGTCP2_STRM_FLAG_STOP_SENDING \<and>
         log (c_user_data c') = log (c_user_data c2) @ map Some (slice S e ?f)"
    using e unfolding emitted_def f by blast
  then show ?thesis
    using same_gaps_trans [OF g r(4)] same_limits_trans [OF lim r(5)] log stop unfolding emitted_def by metis
qed

lemma emit_stream_ok:
  assumes app: "app_ok cb" and k: "k \<noteq> 0"
  shows "conn_ok c \<Longrightarrow> strm_of c k = Some s \<Longrightarrow> pending S b s \<Longrightarrow>
    length (rob_data (s_rob s)) + 2 \<le> n \<or> (b = ngtcp2_rob_first_gap_offset (s_rob s) \<and> 1 \<le> n) \<Longrightarrow>
    emitted cb S k s b c (emit_stream cb n c k b)"
proof (induction n arbitrary: c s b)
  case 0
  then show ?case by simp
next
  case (Suc n)
  note ok = Suc.prems(1) and inv = conn_ok_inv [OF Suc.prems(1)] and s = Suc.prems(2) and p = Suc.prems(3)
  let ?f = "ngtcp2_rob_first_gap_offset (s_rob s)"
  have at: "strm_at c k = Inr s" and id: "s_stream_id s = k"
    using strm_at_ok [OF conn_inv_map [OF inv] s] conn_inv_strm [OF inv s] by (simp_all add: strm_inv_def)
  have rob: "rob_inv S b (s_rob s)" using p by (simp add: pending_def)
  consider "b = ?f" "ngtcp2_rob_data_at (s_rob s) b = Inr []"
    | d rest e where "rob_data (s_rob s) = d # rest" "e = min ?f (d_offset d + rob_chunk (s_rob s))" "b < e"
        "ngtcp2_rob_data_at (s_rob s) b = Inr (map Some (slice S b e))"
    using rob_data_at_inv [OF rob] by blast
  then show ?case
  proof cases
    case 1
    then have "emit_stream cb (Suc n) c k b = Inr (None, c)" using at by (simp add: ngtcp2_strm_rx_offset_def)
    then show ?thesis using emitted_stop [OF ok s] p 1(1) by simp
  next
    case 2
    let ?data = "map Some (slice S b e)" let ?fin = "strm_has s NGTCP2_STRM_FLAG_SHUT_RD \<and> e = s_last_rx_offset s"
    have ne: "length ?data \<noteq> 0" and off: "b + of_nat (length ?data) = e" and ef: "e \<le> ?f"
      using 2(2,3) by (simp_all add: word_less_nat_alt of_nat_diff)
    have eb: "e - of_nat (length ?data) = b" using off by (metis add_diff_cancel_right')
    have ne': "slice S b e \<noteq> []" using ne by (metis length_0_conv length_map)
    obtain rv c1 where d: "deliver cb c k ?fin ?data = (rv, c1)" by (cases "deliver cb c k ?fin ?data")
    have k1: "keeps c c1" using deliver_keeps [OF app inv, of k ?fin ?data] d by simp
    obtain s1 where s1: "strm_of c1 k = Some s1" "same_rx s s1" using keeps_strm [OF k1 s] .
    have step: "emit_stream cb (Suc n) c k b = rv_then (Inr (rv, c1)) (\<lambda>c.
       rbind (strm_at c k) (\<lambda>strm.
       rbind (ngtcp2_rob_pop (s_rob strm) (e - of_nat (length ?data)) (length ?data)) (\<lambda>rob.
       emit_stream cb n (put_strm c k (strm\<lparr>s_rob := rob\<rparr>)) k e)))"
      using at id 2(4) ne' off d k by (simp add: deliver_def Let_def)
    show ?thesis
    proof (cases rv)
      case (Some x)
      then show ?thesis using step emitted_failed [OF k1 s _ ok] d by simp
    next
      case None
      have rob1: "s_rob s1 = s_rob s" using s1(2) by (simp add: same_rx_def)
      obtain rob where r: "ngtcp2_rob_pop (s_rob s) b (unat e - unat b) = Inr rob" "rob_inv S e rob"
          "rob_gap rob = rob_gap (s_rob s)" "rob_chunk rob = rob_chunk (s_rob s)"
          "e = ?f \<or> length (rob_data rob) < length (rob_data (s_rob s))"
        using rob_pop_inv [OF rob 2(1-3)] by blast
      let ?s2 = "s1\<lparr>s_rob := rob\<rparr>" let ?c2 = "put_strm c1 k ?s2"
      have p1: "unat (s_unsent_max_rx_offset s1) \<le> unat NGTCP2_MAX_VARINT + unat e"
        using pending_same_rx [OF p s1(2)] 2(3) by (simp add: pending_def word_less_nat_alt)
      have si: "strm_inv k s1" using conn_inv_strm [OF keeps_inv [OF k1] s1(1)] .
      then have "strm_inv k ?s2"
        using strm_inv_rob [OF si r(2) _ _ p1] r(3,4) rob1 by (simp add: strm_inv_def)
      then have inv2: "conn_ok ?c2" using conn_ok_put [OF keeps_ok [OF k1 ok] s1(1)] k by blast
      have s2: "strm_of ?c2 k = Some ?s2" using s1(1) by (simp add: strm_of_put)
      have p2: "pending S e ?s2" using r(2) p1 by (simp add: pending_def)
      have g2: "same_gaps s ?s2" using s1(2) r(3,4) by (simp add: same_rx_def same_gaps_def strm_has_def)
      have "b \<noteq> ?f" using 2(3) ef by auto
      then have "length (rob_data (s_rob ?s2)) + 2 \<le> n \<or> (e = ngtcp2_rob_first_gap_offset (s_rob ?s2) \<and> 1 \<le> n)"
        using Suc.prems(4) r(5) same_gaps_first [OF g2] by auto
      then have "emitted cb S k ?s2 e ?c2 (emit_stream cb n ?c2 k e)" by (rule Suc.IH [OF inv2 s2 p2])
      then have "emitted cb S k s b c (emit_stream cb n ?c2 k e)"
        using emitted_step [OF _ g2 d [unfolded None] _ _ refl less_imp_le [OF 2(3)] ef s s1(1)] keeps_limits [OF k1] by simp
      moreover have "emit_stream cb (Suc n) c k b = emit_stream cb n ?c2 k e"
        unfolding step None using strm_at_ok [OF conn_inv_map [OF keeps_inv [OF k1]] s1(1)] r(1) rob1 eb by simp
      ultimately show ?thesis by simp
    qed
  qed
qed

text \<open>For stream 0 the limit grows with what is delivered: by twice the length, as far as the second addition fits.\<close>

definition stream0_limit :: "u64 \<Rightarrow> u64 \<Rightarrow> u64" where
  "stream0_limit u n = (let u = u + n in if u \<le> NGTCP2_MAX_VARINT - n then u + n else u)"

lemma stream0_limit_ok:
  assumes "unat u \<le> unat NGTCP2_MAX_VARINT + unat b" and "unat b + unat n \<le> unat NGTCP2_MAX_VARINT"
  shows "unat (stream0_limit u n) \<le> unat NGTCP2_MAX_VARINT + (unat b + unat n)" "u \<le> stream0_limit u n"
proof -
  have n: "n \<le> NGTCP2_MAX_VARINT" using assms(2) by (simp add: word_le_nat_alt)
  have a: "unat (u + n) = unat u + unat n" using assms by (simp add: unat_word_ariths)
  note v = varint_room [OF n, of "u + n"]
  show "unat (stream0_limit u n) \<le> unat NGTCP2_MAX_VARINT + (unat b + unat n)"
    using a v assms(1) unfolding stream0_limit_def Let_def by auto
  show "u \<le> stream0_limit u n"
    using a v unfolding stream0_limit_def Let_def word_le_nat_alt by auto
qed

lemma extend_after_add:
  assumes wf: "map_wf (c_strms c)" and s: "strm_of c k = Some s"
  shows "\<exists>c'. conn_extend_max_stream_offset (put_strm c k (s\<lparr>s_unsent_max_rx_offset := s_unsent_max_rx_offset s + n\<rparr>)) k n = Inr c' \<and>
    (let s' = s\<lparr>s_unsent_max_rx_offset := stream0_limit (s_unsent_max_rx_offset s) n\<rparr> in
     c' = put_strm c k s' \<or>
     k \<notin> set (c_fc_strms c) \<and> c' = (put_strm c k s')\<lparr>c_fc_strms := k # c_fc_strms c\<rparr>)"
proof -
  let ?s = "s\<lparr>s_unsent_max_rx_offset := s_unsent_max_rx_offset s + n\<rparr>"
  have "strm_at (put_strm c k ?s) k = Inr ?s" using wf s by (intro strm_at_ok) (simp_all add: strm_of_put)
  then show ?thesis by (auto simp: conn_extend_max_stream_offset_def stream0_limit_def Let_def)
qed

lemma put_after_extend:
  assumes wf: "map_wf (c_strms c)" and s: "strm_of c k = Some s"
    and c': "c' = put_strm c k s' \<or> k \<notin> set (c_fc_strms c) \<and> c' = (put_strm c k s')\<lparr>c_fc_strms := k # c_fc_strms c\<rparr>"
    and inv: "conn_ok (put_strm c k s'')"
  shows "strm_at c' k = Inr s'" "conn_ok (put_strm c' k s'')" "strm_of (put_strm c' k s'') k = Some s''"
    "c_user_data (put_strm c' k s'') = c_user_data c" "same_limits c (put_strm c' k s'')"
proof -
  have of: "strm_of c' k = Some s'" using c' s by (auto simp: strm_of_put)
  then show "strm_of (put_strm c' k s'') k = Some s''" by (simp add: strm_of_put)
  have "map_wf (c_strms c')" using c' wf by auto
  then show "strm_at c' k = Inr s'" using of by (rule strm_at_ok)
  show "c_user_data (put_strm c' k s'') = c_user_data c" "same_limits c (put_strm c' k s'')"
    using c' by (auto simp: same_limits_def)
  show "conn_ok (put_strm c' k s'')"
    using c'
  proof
    assume a: "k \<notin> set (c_fc_strms c) \<and> c' = (put_strm c k s')\<lparr>c_fc_strms := k # c_fc_strms c\<rparr>"
    let ?d = "put_strm c k s''"
    have "put_strm c' k s'' = ?d\<lparr>c_fc_strms := k # c_fc_strms ?d\<rparr>"
      using a by (simp add: put_strm_def map_store_twice)
    moreover have "strm_of ?d k = Some s''" "k \<notin> set (c_fc_strms ?d)" using s a by (simp_all add: strm_of_put)
    ultimately show ?thesis using fc_link_inv [of ?d k s''] inv by (auto simp: conn_ok_def)
  qed (use inv in simp)
qed

lemma emit_stream0_ok:
  assumes app: "app_ok cb"
  shows "conn_ok c \<Longrightarrow> strm_of c 0 = Some s \<Longrightarrow> pending S b s \<Longrightarrow>
    length (rob_data (s_rob s)) + 2 \<le> n \<or> (b = ngtcp2_rob_first_gap_offset (s_rob s) \<and> 1 \<le> n) \<Longrightarrow>
    emitted cb S 0 s b c (emit_stream0 cb n c b)"
proof (induction n arbitrary: c s b)
  case 0
  then show ?case by simp
next
  case (Suc n)
  note ok = Suc.prems(1) and inv = conn_ok_inv [OF Suc.prems(1)] and s = Suc.prems(2) and p = Suc.prems(3)
  let ?f = "ngtcp2_rob_first_gap_offset (s_rob s)"
  have at: "strm_at c 0 = Inr s" using strm_at_ok [OF conn_inv_map [OF inv] s] .
  have rob: "rob_inv S b (s_rob s)" using p by (simp add: pending_def)
  consider "b = ?f" "ngtcp2_rob_data_at (s_rob s) b = Inr []"
    | d rest e where "rob_data (s_rob s) = d # rest" "e = min ?f (d_offset d + rob_chunk (s_rob s))" "b < e"
        "ngtcp2_rob_data_at (s_rob s) b = Inr (map Some (slice S b e))"
    using rob_data_at_inv [OF rob] by blast
  then show ?case
  proof cases
    case 1
    then have "emit_stream0 cb (Suc n) c b = Inr (None, c)" using at by (simp add: ngtcp2_strm_rx_offset_def)
    then show ?thesis using emitted_stop [OF ok s] p 1(1) by simp
  next
    case 2
    let ?data = "map Some (slice S b e)" let ?n = "of_nat (length ?data) :: u64"
    have ne: "length ?data \<noteq> 0" and off: "b + ?n = e" and ef: "e \<le> ?f"
      using 2(2,3) by (simp_all add: word_less_nat_alt of_nat_diff)
    have "?n = e - b" using off by (metis add_diff_cancel_left')
    then have un: "unat b + unat ?n = unat e" using 2(3) unat_sub [of b e] by (simp add: word_less_nat_alt word_le_nat_alt)
    have eb: "e - ?n = b" using off by (metis add_diff_cancel_right')
    have ne': "slice S b e \<noteq> []" using ne by (metis length_0_conv length_map)
    obtain rv c1 where d: "deliver cb c 0 False ?data = (rv, c1)" by (cases "deliver cb c 0 False ?data")
    have k1: "keeps c c1" using deliver_keeps [OF app inv, of 0 False ?data] d by simp
    obtain s1 where s1: "strm_of c1 0 = Some s1" "same_rx s s1" using keeps_strm [OF k1 s] .
    have step: "emit_stream0 cb (Suc n) c b = rv_then (Inr (rv, c1)) (\<lambda>c.
       rbind (strm_at c 0) (\<lambda>strm.
       let c = put_strm c 0 (strm\<lparr>s_unsent_max_rx_offset := s_unsent_max_rx_offset strm + ?n\<rparr>) in
       rbind (conn_extend_max_stream_offset c 0 ?n) (\<lambda>c.
       rbind (strm_at c 0) (\<lambda>strm.
       rbind (ngtcp2_rob_pop (s_rob strm) (e - ?n) (length ?data)) (\<lambda>rob.
       emit_stream0 cb n (put_strm c 0 (strm\<lparr>s_rob := rob\<rparr>)) e)))))"
      using at 2(4) ne' off d by (simp add: deliver_def Let_def)
    show ?thesis
    proof (cases rv)
      case (Some x)
      then show ?thesis using step emitted_failed [OF k1 s _ ok] d by simp
    next
      case None
      let ?u = "stream0_limit (s_unsent_max_rx_offset s1) ?n"
      have wf1: "map_wf (c_strms c1)" and si: "strm_inv 0 s1" and i1: "conn_inv c1"
        using keeps_inv [OF k1] conn_inv_strm [OF keeps_inv [OF k1] s1(1)] by simp_all
      have rob1: "s_rob s1 = s_rob s" using s1(2) by (simp add: same_rx_def)
      obtain rob where r: "ngtcp2_rob_pop (s_rob s) b (unat e - unat b) = Inr rob" "rob_inv S e rob"
          "rob_gap rob = rob_gap (s_rob s)" "rob_chunk rob = rob_chunk (s_rob s)"
          "e = ?f \<or> length (rob_data rob) < length (rob_data (s_rob s))"
        using rob_pop_inv [OF rob 2(1-3)] by blast
      have le: "unat b + unat ?n \<le> unat NGTCP2_MAX_VARINT"
        unfolding un using ef first_gap_le(2) [OF conn_inv_strm [OF inv s]] by (simp add: word_le_nat_alt)
      have pb: "unat (s_unsent_max_rx_offset s1) \<le> unat NGTCP2_MAX_VARINT + unat b"
        using pending_same_rx [OF p s1(2)] by (simp add: pending_def)
      have lim: "unat ?u \<le> unat NGTCP2_MAX_VARINT + unat e" "s_unsent_max_rx_offset s1 \<le> ?u"
        using stream0_limit_ok [OF pb le, unfolded un] by simp_all
      let ?s' = "s1\<lparr>s_unsent_max_rx_offset := ?u\<rparr>" let ?s2 = "s1\<lparr>s_unsent_max_rx_offset := ?u, s_rob := rob\<rparr>"
      have "s_max_rx_offset s1 \<le> ?u" using si order_trans [OF _ lim(2)] by (simp add: strm_inv_def)
      then have "strm_inv 0 ?s2" using strm_inv_rob [OF si r(2) _ _ lim(1)] r(3,4) rob1 by simp
      moreover have "\<not> strm_has ?s2 NGTCP2_STRM_FLAG_SHUT_RD"
        using conn_inv_strm0 [OF i1] s1(1) by (auto simp: strm_has_def)
      ultimately have inv2: "conn_ok (put_strm c1 0 ?s2)" using conn_ok_put [OF keeps_ok [OF k1 ok] s1(1)] by blast
      obtain c' where c': "conn_extend_max_stream_offset
            (put_strm c1 0 (s1\<lparr>s_unsent_max_rx_offset := s_unsent_max_rx_offset s1 + ?n\<rparr>)) 0 ?n = Inr c'"
          "c' = put_strm c1 0 ?s' \<or> 0 \<notin> set (c_fc_strms c1) \<and> c' = (put_strm c1 0 ?s')\<lparr>c_fc_strms := 0 # c_fc_strms c1\<rparr>"
        using extend_after_add [OF wf1 s1(1), of ?n] by (auto simp: Let_def)
      note a = put_after_extend [OF wf1 s1(1) c'(2) inv2]
      let ?c2 = "put_strm c' 0 ?s2"
      have p2: "pending S e ?s2" using r(2) lim(1) by (simp add: pending_def)
      have g2: "same_gaps s ?s2" using s1(2) r(3,4) by (simp add: same_rx_def same_gaps_def strm_has_def)
      have "b \<noteq> ?f" using 2(3) ef by auto
      then have "length (rob_data (s_rob ?s2)) + 2 \<le> n \<or> (e = ngtcp2_rob_first_gap_offset (s_rob ?s2) \<and> 1 \<le> n)"
        using Suc.prems(4) r(5) same_gaps_first [OF g2] by auto
      then have "emitted cb S 0 ?s2 e ?c2 (emit_stream0 cb n ?c2 e)" by (rule Suc.IH [OF a(2,3) p2])
      then have "emitted cb S 0 s b c (emit_stream0 cb n ?c2 e)"
        using emitted_step [OF _ g2 d [unfolded None] a(4) same_limits_trans [OF keeps_limits [OF k1] a(5)] refl
          less_imp_le [OF 2(3)] ef s s1(1)] by simp
      moreover have "emit_stream0 cb (Suc n) c b = emit_stream0 cb n ?c2 e"
        unfolding step None using strm_at_ok [OF wf1 s1(1)] c'(1) a(1) r(1) rob1 eb by simp
      ultimately show ?thesis by simp
    qed
  qed
qed

lemma emit_pending_ok:
  assumes "app_ok cb" and "conn_ok c" and "strm_of c k = Some s" and "pending S b s"
  shows "k \<noteq> 0 \<Longrightarrow> emitted cb S k s b c (conn_emit_pending_stream_data cb c k b)"
    and "k = 0 \<Longrightarrow> emitted cb S k s b c (conn_emit_pending_stream0_data cb c b)"
  using emit_stream_ok [OF assms(1) _ assms(2-4)] emit_stream0_ok [OF assms(1,2) _ assms(4)] assms
    strm_at_ok [OF conn_inv_map [OF conn_ok_inv [OF assms(2)]] assms(3)]
  by (auto simp: conn_emit_pending_stream_data_def conn_emit_pending_stream0_data_def
      simp del: emit_stream.simps emit_stream0.simps)

section \<open>Closing\<close>

lemma conn_call_rv: "fst (conn_call f c) = None \<or> fst (conn_call f c) = Some NGTCP2_ERR_CALLBACK_FAILURE"
  by (auto simp: conn_call_def split: option.splits prod.splits)

lemma conn_inv_remove:
  assumes inv: "conn_inv c" and k: "k \<noteq> 0" and s: "strm_of c k = Some s"
  shows "\<exists>mp. ngtcp2_map_remove (c_strms c) k = Inr (None, mp) \<and> conn_inv (c\<lparr>c_strms := mp\<rparr>) \<and>
    strm_of (c\<lparr>c_strms := mp\<rparr>) = (strm_of c)(k := None)"
proof -
  obtain e where "map_abs (c_strms c) k = Some e" using s by (auto simp: strm_of_def)
  then obtain mp where mp: "ngtcp2_map_remove (c_strms c) k = Inr (None, mp)" "map_wf mp"
      "map_abs mp = (map_abs (c_strms c))(k := None)"
    using map_remove_ok(2) [of "c_strms c" k e] inv by (auto simp: conn_inv_def)
  let ?c = "c\<lparr>c_strms := mp\<rparr>"
  have of: "strm_of ?c = (strm_of c)(k := None)" using mp(3) by (simp add: strm_of_def fun_eq_iff)
  have "stream_opened ?c = stream_opened c" "conn_local_stream ?c = conn_local_stream c"
    by (simp_all add: stream_opened_def conn_local_stream_def fun_eq_iff)
  then have "conn_inv ?c" using inv mp(2) k unfolding conn_inv_def ids_inv_def of by auto
  then show ?thesis using mp(1) of by blast
qed

lemma conn_inv_unsent_ids:
  "conn_inv (c\<lparr>c_unsent_max_remote_stream_id_bidi := x\<rparr>) = conn_inv c"
  "conn_inv (c\<lparr>c_unsent_max_remote_stream_id_uni := x\<rparr>) = conn_inv c"
  by simp_all

lemma subset_unlinked: "A = B - {k} \<Longrightarrow> B \<subseteq> C \<union> D \<Longrightarrow> E \<subseteq> D \<Longrightarrow> C \<subseteq> insert k E \<Longrightarrow> A \<subseteq> D"
  by blast

lemma close_stream_ok:
  assumes app: "app_ok cb" and ok: "conn_ok c" and s: "strm_of c k = Some s" and k: "k \<noteq> 0"
  shows "\<exists>rv c'. ngtcp2_conn_close_stream cb c k code = Inr (rv, c') \<and> conn_inv c' \<and>
    (rv = None \<and> conn_ok c' \<or> rv = Some NGTCP2_ERR_CALLBACK_FAILURE) \<and>
    (\<forall>log. records cb k log \<longrightarrow> rv = None \<and> log (c_user_data c') = log (c_user_data c))"
proof -
  note inv = conn_ok_inv [OF ok]
  have at: "strm_at c k = Inr s" and id: "s_stream_id s = k"
    using strm_at_ok [OF conn_inv_map [OF inv] s] conn_inv_strm [OF inv s] by (simp_all add: strm_inv_def)
  obtain mp where mp: "ngtcp2_map_remove (c_strms c) k = Inr (None, mp)" "conn_inv (c\<lparr>c_strms := mp\<rparr>)"
      "strm_of (c\<lparr>c_strms := mp\<rparr>) = (strm_of c)(k := None)"
    using conn_inv_remove [OF inv k s] by blast
  let ?c1 = "c\<lparr>c_strms := mp\<rparr>" let ?code = "if s_app_error_code s = 0 then s_app_error_code s else code"
  obtain rv c2 where d: "conn_call_stream_close cb ?c1 k ?code = (rv, c2)" by (cases "conn_call_stream_close cb ?c1 k ?code")
  have k2: "keeps ?c1 c2" using call_keeps(2) [OF app mp(2), of k ?code] d by simp
  have rv: "rv = None \<or> rv = Some NGTCP2_ERR_CALLBACK_FAILURE"
    using d conn_call_rv unfolding conn_call_stream_close_def by (metis fst_conv)
  have log: "rv = None \<and> log (c_user_data c2) = log (c_user_data c)" if "records cb k log" for log
  proof -
    have "fst (conn_call_stream_close cb ?c1 k ?code) = None \<and>
        log (c_user_data (snd (conn_call_stream_close cb ?c1 k ?code))) = log (c_user_data ?c1)"
      using that unfolding records_def by blast
    then show ?thesis unfolding d by simp
  qed
  show ?thesis
  proof (cases rv)
    case (Some x)
    then have "ngtcp2_conn_close_stream cb c k code = Inr (rv, c2)"
      using at id mp(1) d by (simp add: ngtcp2_conn_close_stream_def Let_def)
    then show ?thesis using rv Some k2 log by (auto simp: keeps_def)
  next
    case None
    define c3 where "c3 = (if \<not> conn_local_stream c2 k then
                if bidi_stream k
                then c2\<lparr>c_unsent_max_remote_stream_id_bidi := handle_remote_stream_id_extension
                         (c_unsent_max_remote_stream_id_bidi c2) (c_remote_stream_id_bidi_window_start c2) (c_remote_bidi_idtr c2)\<rparr>
                else c2\<lparr>c_unsent_max_remote_stream_id_uni := handle_remote_stream_id_extension
                         (c_unsent_max_remote_stream_id_uni c2) (c_remote_stream_id_uni_window_start c2) (c_remote_uni_idtr c2)\<rparr>
              else c2)"
    have i3: "conn_inv c3" "c_fc_strms c3 = c_fc_strms c2" "strm_of c3 = strm_of c2" "c_user_data c3 = c_user_data c2"
      using keeps_inv [OF k2] by (simp_all add: c3_def)
    define c4 where "c4 = fc_unlink c3 k"
    have "distinct (c_fc_strms c2)" using keeps_inv [OF k2] by (simp add: conn_inv_def)
    then have "set (c_fc_strms c4) = set (c_fc_strms c2) - {k}" using i3(2) by (simp add: c4_def fc_unlink_def)
    moreover have "set (c_fc_strms c2) \<subseteq> set (c_fc_strms c) \<union> dom (strm_of c2)" "dom (strm_of ?c1) \<subseteq> dom (strm_of c2)"
      using keeps_fc [OF k2] keeps_dom [OF k2] by simp_all
    moreover have "set (c_fc_strms c) \<subseteq> insert k (dom (strm_of ?c1))" using ok unfolding conn_ok_def mp(3) by auto
    ultimately have "set (c_fc_strms c4) \<subseteq> dom (strm_of c2)" by (rule subset_unlinked)
    moreover have "strm_of c4 = strm_of c2" using i3(3) by (simp add: c4_def fc_unlink_def)
    ultimately have "conn_ok c4" using fc_unlink_inv [OF i3(1)] by (simp add: conn_ok_def c4_def)
    then have "conn_ok (conn_immediate_ack c4)" by (simp add: conn_ok_def conn_immediate_ack_def)
    moreover have "ngtcp2_conn_close_stream cb c k code = Inr (None, conn_immediate_ack c4)"
      using at id mp(1) d None by (simp add: ngtcp2_conn_close_stream_def Let_def c3_def c4_def)
    moreover have "c_user_data (conn_immediate_ack c4) = c_user_data c2"
      using i3(4) by (simp add: conn_immediate_ack_def c4_def fc_unlink_def)
    ultimately show ?thesis using log None by (auto simp: conn_ok_def)
  qed
qed

lemma close_if_open:
  assumes "strm_at c k = Inr s" and "\<not> strm_has s NGTCP2_STRM_FLAG_SHUT_RD"
  shows "ngtcp2_conn_close_stream_if_shut_rdwr cb c k code = Inr (None, c)"
proof -
  have "s_flags s AND NGTCP2_STRM_FLAG_SHUT_RDWR \<noteq> NGTCP2_STRM_FLAG_SHUT_RDWR"
  proof
    assume "s_flags s AND NGTCP2_STRM_FLAG_SHUT_RDWR = NGTCP2_STRM_FLAG_SHUT_RDWR"
    then have "(s_flags s AND 3) AND 1 = 3 AND 1" by simp
    then have "s_flags s AND 1 = 1" by (simp add: and.assoc)
    then show False using assms(2) by (simp add: strm_has_def)
  qed
  then show ?thesis using assms(1) by (simp add: ngtcp2_conn_close_stream_if_shut_rdwr_def)
qed

lemma close_if_ok:
  assumes app: "app_ok cb" and ok: "conn_ok c" and s: "strm_of c k = Some s"
  shows "\<exists>rv c'. ngtcp2_conn_close_stream_if_shut_rdwr cb c k code = Inr (rv, c') \<and> conn_inv c' \<and>
    (rv = None \<and> conn_ok c' \<or> rv = Some NGTCP2_ERR_CALLBACK_FAILURE) \<and>
    (\<forall>log. records cb k log \<longrightarrow> rv = None \<and> log (c_user_data c') = log (c_user_data c))"
proof -
  have at: "strm_at c k = Inr s" using strm_at_ok [OF conn_inv_map [OF conn_ok_inv [OF ok]] s] .
  show ?thesis
  proof (cases "k = 0")
    case True
    then have "\<not> strm_has s NGTCP2_STRM_FLAG_SHUT_RD" using conn_inv_strm0 [OF conn_ok_inv [OF ok]] s by auto
    then show ?thesis using close_if_open [OF at] ok by simp
  next
    case False
    then show ?thesis
      using close_stream_ok [OF app ok s, of code] at ok by (auto simp: ngtcp2_conn_close_stream_if_shut_rdwr_def)
  qed
qed

lemma close_if_safe:
  "app_ok cb \<Longrightarrow> conn_ok c \<Longrightarrow> strm_of c k = Some s \<Longrightarrow> safe (ngtcp2_conn_close_stream_if_shut_rdwr cb c k code)"
  using close_if_ok [of cb c k s code] by (auto simp: safe_def)

end
