(* ===== verification/Conn_Deliver.thy ===== *)
theory Conn_Deliver
  imports Conn_Safe
begin

text \<open>
  Receiving STREAM frames: for any frame the invariant of the connection is kept, and the application is given the
  stream in order.
\<close>

section \<open>The end of the handler\<close>

text \<open>A decoded STREAM frame: its data is in a packet, so its length is far from the largest offset.\<close>

definition stream_frame_ok :: "ngtcp2_stream \<Rightarrow> bool" where
  "stream_frame_ok fr = (length (st_data fr) = st_datalen fr \<and> st_datalen fr < 2 ^ 62)"

definition fr_end :: "ngtcp2_stream \<Rightarrow> u64" where
  "fr_end fr = st_offset fr + of_nat (st_datalen fr)"

text \<open>The frame ends within the largest offset, so the sum does not wrap.\<close>

definition ends_ok :: "ngtcp2_stream \<Rightarrow> bool" where
  "ends_ok fr = (unat (fr_end fr) = unat (st_offset fr) + st_datalen fr \<and> fr_end fr \<le> NGTCP2_MAX_VARINT)"

lemma rob_inv_first:
  assumes "rob_inv S b rob"
  shows "b \<le> ngtcp2_rob_first_gap_offset rob" "ngtcp2_rob_first_gap_offset rob \<in> gap_set (rob_gap rob)"
    "x \<in> gap_set (rob_gap rob) \<Longrightarrow> ngtcp2_rob_first_gap_offset rob \<le> x"
proof -
  obtain g gs where g: "rob_gap rob = g # gs" "b \<le> r_begin g" "\<And>x. x < r_begin g \<Longrightarrow> x \<notin> gap_set (rob_gap rob)"
    using rob_inv_gap [OF assms] by metis
  have f: "ngtcp2_rob_first_gap_offset rob = r_begin g" by (simp add: ngtcp2_rob_first_gap_offset_def g(1))
  have "gaps_wf (g # gs)" using assms g(1) by (simp add: rob_inv_def)
  then show "ngtcp2_rob_first_gap_offset rob \<in> gap_set (rob_gap rob)" using gaps_wf_least(1) g(1) f by simp
  show "b \<le> ngtcp2_rob_first_gap_offset rob" using f g(2) by simp
  show "x \<in> gap_set (rob_gap rob) \<Longrightarrow> ngtcp2_rob_first_gap_offset rob \<le> x" using f g(3) [of x] by (cases "x < r_begin g") auto
qed

text \<open>The gaps left after the frame: from \<open>fr_end\<close> on, everything below has been delivered.\<close>

lemma deliver_prefix:
  assumes s: "strm_inv k s" and p: "pending S b s" and e: "ngtcp2_rob_first_gap_offset (s_rob s) < e" "e \<le> s_last_rx_offset s"
  defines "s' \<equiv> s\<lparr>s_rob := ngtcp2_rob_remove_prefix (s_rob s) e\<rparr>"
  shows "strm_inv k s'" "pending S e s'" "gap_set (rob_gap (s_rob s')) = {x \<in> gap_set (rob_gap (s_rob s)). e \<le> x}"
proof -
  have r: "rob_inv S b (s_rob s)" using p by (simp add: pending_def)
  have be: "b \<le> e" using rob_inv_first(1) [OF r] e(1) by simp
  have em: "e < UINT64_MAX"
    using e(2) s by (simp add: strm_inv_def word_less_nat_alt word_le_nat_alt unat_UINT64_MAX)
  note rp = rob_remove_prefix_inv [OF r be em]
  show g: "gap_set (rob_gap (s_rob s')) = {x \<in> gap_set (rob_gap (s_rob s)). e \<le> x}" using rp by (simp add: s'_def)
  have u: "unat (s_unsent_max_rx_offset s) \<le> unat NGTCP2_MAX_VARINT + unat e"
    using p be by (simp add: pending_def word_le_nat_alt)
  then show "pending S e s'" using rp by (simp add: pending_def s'_def)
  have "{s_last_rx_offset s ..< UINT64_MAX} \<subseteq> gap_set (rob_gap (s_rob s'))"
    using s e(2) unfolding g by (auto simp: strm_inv_def)
  then show "strm_inv k s'"
    using s rp u by (auto simp: strm_inv_def s'_def ngtcp2_rob_remove_prefix_def)
qed

lemma buffer_frame:
  assumes s: "strm_inv k s" and p: "pending S b s" and m: "mem_ok m" and fr: "stream_frame_ok fr" "ends_ok fr"
    and e: "fr_end fr \<le> s_last_rx_offset s"
  shows "\<exists>s' S'. ngtcp2_strm_recv_reordering m s fr = Inr (None, s', m) \<and> strm_inv k s' \<and> pending S' b s' \<and>
    s' = s\<lparr>s_rob := s_rob s'\<rparr> \<and> (segment_of S (st_offset fr) (st_data fr) \<longrightarrow> S' = S) \<and>
    gap_set (rob_gap (s_rob s')) = gap_set (rob_gap (s_rob s)) - {st_offset fr ..< fr_end fr}"
proof -
  have r: "rob_inv S b (s_rob s)" and ch: "rob_chunk (s_rob s) = 8192" using p s by (simp_all add: pending_def strm_inv_def)
  have "unat (st_offset fr) + length (st_data fr) \<le> unat NGTCP2_MAX_VARINT"
    using fr by (simp add: ends_ok_def stream_frame_ok_def word_le_nat_alt)
  then obtain rob' S' where rob: "ngtcp2_rob_push m (s_rob s) (st_offset fr) (st_data fr) = Inr (None, rob', m)"
      "rob_inv S' b rob'" "gap_set (rob_gap rob') = gap_set (rob_gap (s_rob s)) - {st_offset fr ..< fr_end fr}"
      "rob_chunk rob' = rob_chunk (s_rob s)" "segment_of S (st_offset fr) (st_data fr) \<longrightarrow> S' = S"
    using rob_push_any [OF m r, of "st_offset fr" "st_data fr"] fr ch by (auto simp: fr_end_def stream_frame_ok_def)
  let ?s = "s\<lparr>s_rob := rob'\<rparr>"
  have "{s_last_rx_offset s ..< UINT64_MAX} \<subseteq> gap_set (rob_gap rob')"
    using s e unfolding rob(3) by (auto simp: strm_inv_def)
  then have "strm_inv k ?s" using s rob(2,4) p unfolding strm_inv_def pending_def by auto
  moreover have "pending S' b ?s" using p rob(2) by (simp add: pending_def)
  moreover have "ngtcp2_strm_recv_reordering m s fr = Inr (None, ?s, m)"
    using rob(1) fr(1) by (simp add: ngtcp2_strm_recv_reordering_def stream_frame_ok_def rdn_def)
  ultimately show ?thesis using rob(3,5) by (intro exI [of _ ?s] exI [of _ S']) simp
qed

text \<open>What the frame leaves of the stream \<open>s\<close>, in the new state \<open>c'\<close>, and what is handed over.\<close>

definition received ::
    "'u ngtcp2_conn_callbacks \<Rightarrow> (u64 \<Rightarrow> u8) \<Rightarrow> u64 \<Rightarrow> ngtcp2_stream \<Rightarrow> ngtcp2_strm \<Rightarrow> 'u ngtcp2_conn \<Rightarrow> rv \<Rightarrow> 'u ngtcp2_conn \<Rightarrow> bool" where
  "received cb S b fr s c rv c' =
     (let k = st_stream_id fr in
      \<exists>s'. strm_of c' k = Some s' \<and> s_last_rx_offset s' = s_last_rx_offset s \<and> s_max_rx_offset s' = s_max_rx_offset s \<and>
        strm_has s' NGTCP2_STRM_FLAG_SHUT_RD = strm_has s NGTCP2_STRM_FLAG_SHUT_RD \<and>
        gap_set (rob_gap (s_rob s')) = gap_set (rob_gap (s_rob s)) - {st_offset fr ..< fr_end fr} \<and> same_limits c c' \<and>
        (\<forall>log. records cb k log \<and> b = ngtcp2_strm_rx_offset s \<and> segment_of S (st_offset fr) (st_data fr) \<longrightarrow>
           rv = None \<and> pending S (ngtcp2_strm_rx_offset s') s' \<and>
           strm_has s' NGTCP2_STRM_FLAG_STOP_SENDING = strm_has s NGTCP2_STRM_FLAG_STOP_SENDING \<and>
           log (c_user_data c') = log (c_user_data c) @ map Some (slice S b (ngtcp2_strm_rx_offset s'))))"

lemma cut_is_slice:
  assumes "segment_of S off data" and "unat off \<le> unat b" and "unat b \<le> unat off + length data"
    and "unat e = unat off + length data"
  shows "drop (unat b - unat off) data = slice S b e"
proof (rule nth_equalityI)
  show "length (drop (unat b - unat off) data) = length (slice S b e)" using assms(2-4) by simp
  fix i
  assume "i < length (drop (unat b - unat off) data)"
  then have i: "unat b - unat off + i < length data" by simp
  have "off + of_nat (unat b - unat off + i) = of_nat (unat b + i)" using assms(2) by (simp add: of_nat_diff)
  then show "drop (unat b - unat off) data ! i = slice S b e ! i"
    using assms i by (simp add: segment_of_def slice_def)
qed

lemma deliver_case:
  assumes "stream_frame_ok fr" and "ends_ok fr" and "st_offset fr \<le> rx" and "rx < fr_end fr"
  defines "ncut \<equiv> unat (rx - st_offset fr)"
  shows "ncut = unat rx - unat (st_offset fr)" "ncut \<le> st_datalen fr" "rx + of_nat (st_datalen fr - ncut) = fr_end fr"
    "rdn (st_data fr) ncut (st_datalen fr - ncut) = Inr (drop ncut (st_data fr))"
    "segment_of S (st_offset fr) (st_data fr) \<Longrightarrow> drop ncut (st_data fr) = slice S rx (fr_end fr)"
proof -
  show n: "ncut = unat rx - unat (st_offset fr)" using assms(3) by (simp add: ncut_def unat_sub)
  show le: "ncut \<le> st_datalen fr" using assms(2,4) n by (simp add: ends_ok_def word_less_nat_alt)
  have "rx + of_nat (st_datalen fr - ncut) = rx + of_nat (st_datalen fr) - (rx - st_offset fr)"
    using le by (simp add: of_nat_diff ncut_def)
  then show "rx + of_nat (st_datalen fr - ncut) = fr_end fr" by (simp add: fr_end_def)
  show "rdn (st_data fr) ncut (st_datalen fr - ncut) = Inr (drop ncut (st_data fr))"
    using assms(1) le by (simp add: rdn_def stream_frame_ok_def)
  show "drop ncut (st_data fr) = slice S rx (fr_end fr)" if "segment_of S (st_offset fr) (st_data fr)"
    using cut_is_slice [OF that, of rx "fr_end fr"] assms(1-4) n
    by (simp add: ends_ok_def stream_frame_ok_def word_le_nat_alt word_less_nat_alt)
qed

lemma first_gap_unique:
  assumes "rob_inv S b rob" and "x \<in> gap_set (rob_gap rob)" and "\<And>y. y \<in> gap_set (rob_gap rob) \<Longrightarrow> x \<le> y"
  shows "ngtcp2_rob_first_gap_offset rob = x"
  using rob_inv_first(2,3) [OF assms(1)] assms(2,3) by (meson order_antisym)

text \<open>A frame that starts at or below the next offset is delivered, and what is buffered behind it.\<close>

lemma deliver_now:
  fixes fr :: ngtcp2_stream and s :: ngtcp2_strm
  defines "k \<equiv> st_stream_id fr" and "rx \<equiv> ngtcp2_strm_rx_offset s"
    and "s' \<equiv> s\<lparr>s_rob := ngtcp2_rob_remove_prefix (s_rob s) (fr_end fr)\<rparr>"
    and "data \<equiv> map Some (drop (unat (ngtcp2_strm_rx_offset s - st_offset fr)) (st_data fr))"
  assumes app: "app_ok cb" and ok: "conn_ok c" and s: "strm_of c k = Some s" and p: "pending S b s"
    and fr: "stream_frame_ok fr" "ends_ok fr" and e: "rx < fr_end fr" "fr_end fr \<le> s_last_rx_offset s" and now: "st_offset fr \<le> rx"
  shows "\<exists>rv' c' s''. deliver_or_buffer cb c fr rx = Inr (rv', c') \<and> conn_ok c' \<and> strm_of c' k = Some s'' \<and> same_gaps s' s'' \<and> same_limits c c' \<and>
      (\<forall>log. records cb k log \<longrightarrow> rv' = None \<and> pending S (ngtcp2_rob_first_gap_offset (s_rob s')) s'' \<and>
         strm_has s'' NGTCP2_STRM_FLAG_STOP_SENDING = strm_has s NGTCP2_STRM_FLAG_STOP_SENDING \<and>
         log (c_user_data c') = log (c_user_data c) @ data @ map Some (slice S (fr_end fr) (ngtcp2_rob_first_gap_offset (s_rob s'))))"
proof -
  note inv = conn_ok_inv [OF ok]
  have at: "strm_at c k = Inr s" and si: "strm_inv k s"
    using strm_at_ok [OF conn_inv_map [OF inv] s] conn_inv_strm [OF inv s] by simp_all
  have id: "s_stream_id s = k" using si by (simp add: strm_inv_def)
  have sh0: "k = 0 \<Longrightarrow> \<not> strm_has s NGTCP2_STRM_FLAG_SHUT_RD" using conn_inv_strm0 [OF inv] s by auto
  note dc = deliver_case [OF fr now e(1)]
  note pre = deliver_prefix [OF si p e(1) [unfolded rx_def ngtcp2_strm_rx_offset_def] e(2), folded s'_def]
  define c1 where "c1 = put_strm c k s'"
  have ok1: "conn_ok c1" unfolding c1_def using conn_ok_put [OF ok s pre(1)] sh0 by (simp add: s'_def strm_has_def)
  have s1: "strm_of c1 k = Some s'" using s by (simp add: c1_def strm_of_put)
  define fin where "fin = (strm_has s NGTCP2_STRM_FLAG_SHUT_RD \<and> fr_end fr = s_last_rx_offset s)"
  obtain rv c2 where d: "deliver cb c1 k fin data = (rv, c2)" by (cases "deliver cb c1 k fin data")
  have k2: "keeps c1 c2" using deliver_keeps [OF app conn_ok_inv [OF ok1], of k fin data] d by simp
  obtain s2 where s2: "strm_of c2 k = Some s2" "same_rx s' s2" using keeps_strm [OF k2 s1] .
  have lim: "same_limits c c2" using keeps_limits [OF k2] by (simp add: c1_def same_limits_def)
  have ff: "ngtcp2_rob_first_gap_offset (s_rob s') = ngtcp2_rob_first_gap_offset (s_rob s2)" using s2(2) by (simp add: same_rx_def)
  have step: "deliver_or_buffer cb c fr rx = rv_then (Inr (rv, c2)) (\<lambda>c.
      if k = 0 then conn_emit_pending_stream0_data cb c (fr_end fr) else conn_emit_pending_stream_data cb c k (fr_end fr))"
    using at id now dc(2-4) d
    by (auto simp: deliver_or_buffer_def k_def [symmetric] Let_def deliver_def data_def fin_def c1_def s'_def rx_def)
  show ?thesis
  proof (cases rv)
    case (Some x)
    then have "\<not> records cb k log" for log using d unfolding records_def by (metis fst_conv option.distinct(1))
    then show ?thesis using step Some keeps_ok [OF k2 ok1] s2 same_rx_gaps lim by auto
  next
    case None
    have "emitted cb S k s2 (fr_end fr) c2 (deliver_or_buffer cb c fr rx)"
      using emit_pending_ok [OF app keeps_ok [OF k2 ok1] s2(1) pending_same_rx [OF pre(2) s2(2)]] None step by simp
    then obtain rv' c' s'' where r: "deliver_or_buffer cb c fr rx = Inr (rv', c')" "conn_ok c'" "strm_of c' k = Some s''"
        "same_gaps s2 s''" "same_limits c2 c'" "rv' = None \<longrightarrow> pending S (ngtcp2_rob_first_gap_offset (s_rob s')) s''"
        "\<And>log. records cb k log \<Longrightarrow> rv' = None \<and>
           strm_has s'' NGTCP2_STRM_FLAG_STOP_SENDING = strm_has s2 NGTCP2_STRM_FLAG_STOP_SENDING \<and>
           log (c_user_data c') = log (c_user_data c2) @ map Some (slice S (fr_end fr) (ngtcp2_rob_first_gap_offset (s_rob s')))"
      unfolding emitted_def ff by blast
    have u: "log (c_user_data c2) = log (c_user_data c) @ data" if "records cb k log" for log
      using that d unfolding records_def by (metis snd_conv c1_def put_strm_sel(25))
    have st: "strm_has s2 NGTCP2_STRM_FLAG_STOP_SENDING = strm_has s NGTCP2_STRM_FLAG_STOP_SENDING" if "records cb k log" for log
    proof -
      have "strm_has s' NGTCP2_STRM_FLAG_STOP_SENDING = strm_has s NGTCP2_STRM_FLAG_STOP_SENDING" by (simp add: s'_def strm_has_def)
      then show ?thesis using that d s1 s2(1) unfolding records_def by (metis snd_conv)
    qed
    have "log (c_user_data c') = log (c_user_data c) @ data @ map Some (slice S (fr_end fr) (ngtcp2_rob_first_gap_offset (s_rob s')))"
      if "records cb k log" for log
      using r(7) [OF that] u [OF that] by simp
    then show ?thesis using r same_gaps_trans [OF same_rx_gaps [OF s2(2)] r(4)] same_limits_trans [OF lim r(5)] st by blast
  qed
qed

lemma buffer_later:
  assumes ok: "conn_ok c" and s: "strm_of c (st_stream_id fr) = Some s" and p: "pending S b s"
    and fr: "stream_frame_ok fr" "ends_ok fr" "fr_end fr \<le> s_last_rx_offset s" and later: "\<not> st_offset fr \<le> ngtcp2_strm_rx_offset s"
  shows "\<exists>c'. deliver_or_buffer cb c fr (ngtcp2_strm_rx_offset s) = Inr (None, c') \<and> conn_ok c' \<and> received cb S b fr s c None c'"
proof -
  define k where "k = st_stream_id fr"
  note inv = conn_ok_inv [OF ok] and s = s [folded k_def]
  have at: "strm_at c k = Inr s" and si: "strm_inv k s"
    using strm_at_ok [OF conn_inv_map [OF inv] s] conn_inv_strm [OF inv s] by simp_all
  have sh0: "k = 0 \<Longrightarrow> \<not> strm_has s NGTCP2_STRM_FLAG_SHUT_RD" using conn_inv_strm0 [OF inv] s by auto
  have m: "mem_ok (c_mem c)" using inv by (simp add: conn_inv_def)
  obtain s' S' where b: "ngtcp2_strm_recv_reordering (c_mem c) s fr = Inr (None, s', c_mem c)" "strm_inv k s'" "pending S' b s'"
      "s' = s\<lparr>s_rob := s_rob s'\<rparr>" "segment_of S (st_offset fr) (st_data fr) \<longrightarrow> S' = S"
      "gap_set (rob_gap (s_rob s')) = gap_set (rob_gap (s_rob s)) - {st_offset fr ..< fr_end fr}"
    using buffer_frame [OF si p m fr] by blast
  let ?c = "put_strm c k s'"
  have sel: "s_last_rx_offset s' = s_last_rx_offset s" "s_max_rx_offset s' = s_max_rx_offset s" "s_flags s' = s_flags s"
    by (subst b(4), simp)+
  have "rob_inv S b (s_rob s)" using p by (simp add: pending_def)
  note first = rob_inv_first [OF this]
  have "conn_ok ?c" using conn_ok_put [OF ok s b(2)] sh0 sel by (simp add: strm_has_def)
  moreover have "deliver_or_buffer cb c fr (ngtcp2_strm_rx_offset s) = Inr (None, ?c)"
    using at b(1) later by (simp add: deliver_or_buffer_def k_def [symmetric] Let_def)
  moreover have "strm_of ?c k = Some s'" using s by (simp add: strm_of_put)
  moreover have "ngtcp2_strm_rx_offset s' = ngtcp2_strm_rx_offset s"
    unfolding ngtcp2_strm_rx_offset_def using first_gap_unique [of S' b "s_rob s'"] b(3,6) first later
    by (auto simp: pending_def ngtcp2_strm_rx_offset_def)
  ultimately show ?thesis
    using b(3,5,6) sel by (auto simp: received_def k_def [symmetric] strm_has_def same_limits_def)
qed

lemma deliver_or_buffer_ok:
  assumes app: "app_ok cb" and ok: "conn_ok c" and s: "strm_of c (st_stream_id fr) = Some s" and p: "pending S b s"
    and fr: "stream_frame_ok fr" "ends_ok fr"
    and e: "ngtcp2_strm_rx_offset s < fr_end fr" "fr_end fr \<le> s_last_rx_offset s"
  shows "\<exists>rv c'. deliver_or_buffer cb c fr (ngtcp2_strm_rx_offset s) = Inr (rv, c') \<and> conn_ok c' \<and> received cb S b fr s c rv c'"
proof (cases "st_offset fr \<le> ngtcp2_strm_rx_offset s")
  case True
  define k where "k = st_stream_id fr"
  define rx where "rx = ngtcp2_strm_rx_offset s"
  define s' where "s' = s\<lparr>s_rob := ngtcp2_rob_remove_prefix (s_rob s) (fr_end fr)\<rparr>"
  define f where "f = ngtcp2_rob_first_gap_offset (s_rob s')"
  define data where "data = map Some (drop (unat (rx - st_offset fr)) (st_data fr))"
  note s = s [folded k_def] and e = e [folded rx_def]
  have rob: "rob_inv S b (s_rob s)" using p by (simp add: pending_def)
  have rxf: "rx = ngtcp2_rob_first_gap_offset (s_rob s)" by (simp add: rx_def ngtcp2_strm_rx_offset_def)
  note first = rob_inv_first [OF rob, folded rxf]
  note pre = deliver_prefix [OF conn_inv_strm [OF conn_ok_inv [OF ok] s] p e(1) [unfolded rxf] e(2), folded s'_def]
  obtain rv' c' s'' where r: "deliver_or_buffer cb c fr rx = Inr (rv', c')" "conn_ok c'" "strm_of c' k = Some s''"
      "same_gaps s' s''" "same_limits c c'" "\<And>log. records cb k log \<Longrightarrow> rv' = None \<and> pending S f s'' \<and>
         strm_has s'' NGTCP2_STRM_FLAG_STOP_SENDING = strm_has s NGTCP2_STRM_FLAG_STOP_SENDING \<and>
         log (c_user_data c') = log (c_user_data c) @ data @ map Some (slice S (fr_end fr) f)"
    using deliver_now [OF app ok s [unfolded k_def] p fr e [unfolded rx_def] True] unfolding k_def rx_def s'_def f_def data_def by blast
  have rf: "rx \<le> fr_end fr" "fr_end fr \<le> f"
    using e(1) rob_inv_first(1) [of S "fr_end fr" "s_rob s'"] pre(2) by (simp_all add: pending_def f_def)
  have gaps: "{x \<in> gap_set (rob_gap (s_rob s)). fr_end fr \<le> x} = gap_set (rob_gap (s_rob s)) - {st_offset fr ..< fr_end fr}"
    using order_trans [OF True [folded rx_def] first(3)] by (auto simp: not_less)
  have f'': "ngtcp2_strm_rx_offset s'' = f" using same_gaps_first [OF r(4)] by (simp add: ngtcp2_strm_rx_offset_def f_def)
  have "data @ map Some (slice S (fr_end fr) f) = map Some (slice S rx f)" if "segment_of S (st_offset fr) (st_data fr)"
    using slice_append [OF rf, of S] deliver_case(5) [OF fr True e(1) [unfolded rx_def] that] by (simp add: data_def rx_def flip: map_append)
  then have "received cb S b fr s c rv' c'"
    using r(3-6) pre(3) gaps f''
    by (auto simp: received_def k_def [symmetric] rx_def [symmetric] same_gaps_def s'_def strm_has_def)
  then show ?thesis using r(1,2) by (auto simp: rx_def)
next
  case False
  then show ?thesis using buffer_later [OF ok s p fr e(2) False] by blast
qed

end
