(* ===== verification/Conn_Recv.thy ===== *)
theory Conn_Recv
  imports Conn_Deliver
begin

text \<open>
  The handlers of received frames as a whole: whatever the peer sends, they keep the invariant of the connection; and
  the application is given every stream in order.
\<close>

section \<open>STREAM frames on an existing stream\<close>

lemma strm_inv_pending:
  assumes "strm_inv k s"
  obtains S b where "pending S b s"
  using assms unfolding strm_inv_def pending_def by blast

lemma strm_inv_last:
  assumes "strm_inv k s" and "s_last_rx_offset s \<le> e" and "e \<le> s_max_rx_offset s" and "e \<le> NGTCP2_MAX_VARINT"
  shows "strm_inv k (s\<lparr>s_last_rx_offset := e, s_flags := f\<rparr>)"
proof -
  have "{e ..< UINT64_MAX} \<subseteq> {s_last_rx_offset s ..< UINT64_MAX}" using assms(2) by auto
  also have "\<dots> \<subseteq> gap_set (rob_gap (s_rob s))" using assms(1) by (simp add: strm_inv_def)
  finally show ?thesis using assms by (simp add: strm_inv_def)
qed

lemma rx_counted:
  assumes "conn_ok c" and "\<not> conn_max_data_violated c n"
  shows "conn_ok (c\<lparr>c_rx_offset := c_rx_offset c + n\<rparr>)"
    and "unat (c_rx_offset c + n) = unat (c_rx_offset c) + unat n"
proof -
  have le: "c_rx_offset c \<le> c_max_rx_offset c" using assms(1) by (simp add: conn_ok_def conn_inv_def)
  have n: "unat n \<le> unat (c_max_rx_offset c) - unat (c_rx_offset c)"
    using assms(2) le by (simp add: conn_max_data_violated_def not_less word_le_nat_alt unat_sub)
  have b: "unat (c_max_rx_offset c) < 2 ^ 64" using unsigned_less [of "c_max_rx_offset c"] by simp
  show u: "unat (c_rx_offset c + n) = unat (c_rx_offset c) + unat n"
    using n le b by (simp add: unat_word_ariths word_le_nat_alt)
  then have "c_rx_offset c + n \<le> c_max_rx_offset c" using n le by (simp add: word_le_nat_alt)
  moreover have "stream_opened (c\<lparr>c_rx_offset := x\<rparr>) = stream_opened c" "ids_inv (c\<lparr>c_rx_offset := x\<rparr>) = ids_inv c" for x
    by (simp_all add: stream_opened_def ids_inv_def conn_local_stream_def fun_eq_iff)
  ultimately show "conn_ok (c\<lparr>c_rx_offset := c_rx_offset c + n\<rparr>)"
    using assms(1) unfolding conn_ok_def conn_inv_def by simp
qed

lemma recv_stream_data_safe:
  assumes app: "app_ok cb" and ok: "conn_ok c" and s: "strm_of c (st_stream_id fr) = Some s"
    and fr: "stream_frame_ok fr" "ends_ok fr"
    and e: "ngtcp2_strm_rx_offset s < fr_end fr" "fr_end fr \<le> s_last_rx_offset s"
  shows "safe (recv_stream_data cb c fr (ngtcp2_strm_rx_offset s))"
proof -
  obtain S b where "pending S b s" using strm_inv_pending [OF conn_inv_strm [OF conn_ok_inv [OF ok] s]] .
  then obtain rv c' where r: "deliver_or_buffer cb c fr (ngtcp2_strm_rx_offset s) = Inr (rv, c')" "conn_ok c'"
      "received cb S b fr s c rv c'"
    using deliver_or_buffer_ok [OF app ok s _ fr e] by blast
  obtain s' where "strm_of c' (st_stream_id fr) = Some s'" using r(3) by (auto simp: received_def Let_def)
  then show ?thesis
    unfolding recv_stream_data_def r(1) by (intro safe_rv_then safe_ok [OF r(2)]) (auto intro: close_if_safe [OF app])
qed

lemma rx_offset_le: "strm_inv k s \<Longrightarrow> ngtcp2_strm_rx_offset s \<le> s_last_rx_offset s"
  using first_gap_le(1) by (simp add: ngtcp2_strm_rx_offset_def)

text \<open>What is left of the handler for a frame without FIN that respects the limits.\<close>

lemma recv_on_stream_data:
  assumes at: "strm_at c (st_stream_id fr) = Inr s" and nf: "\<not> st_fin fr"
    and lim: "\<not> (s_max_rx_offset s < fr_end fr \<or>
      (s_last_rx_offset s < fr_end fr \<and> s_stream_id s \<noteq> 0) \<and> conn_max_data_violated c (fr_end fr - s_last_rx_offset s))"
  defines "c1 \<equiv> (if s_last_rx_offset s < fr_end fr \<and> s_stream_id s \<noteq> 0
      then c\<lparr>c_rx_offset := c_rx_offset c + (fr_end fr - s_last_rx_offset s)\<rparr> else c)"
  defines "s' \<equiv> s\<lparr>s_last_rx_offset := max (s_last_rx_offset s) (fr_end fr)\<rparr>"
  defines "c2 \<equiv> put_strm c1 (st_stream_id fr) s'"
  shows "recv_on_stream cb c fr =
    (if strm_has s NGTCP2_STRM_FLAG_SHUT_RD \<and> s_last_rx_offset s < fr_end fr then Inr (Some NGTCP2_ERR_FINAL_OFFSET, c1)
     else if fr_end fr \<le> ngtcp2_strm_rx_offset s' then Inr (None, c2)
     else if strm_has s' NGTCP2_STRM_FLAG_STOP_SENDING then Inr (None, c2)
     else recv_stream_data cb c2 fr (ngtcp2_strm_rx_offset s'))"
  using at lim nf unfolding recv_on_stream_def Let_def fr_end_def [symmetric] s'_def c2_def c1_def by auto

lemma recv_on_stream_safe:
  assumes app: "app_ok cb" and ok: "conn_ok c" and s: "strm_of c (st_stream_id fr) = Some s"
    and fr: "stream_frame_ok fr" "ends_ok fr" and z: "st_stream_id fr = 0 \<Longrightarrow> \<not> st_fin fr"
  shows "safe (recv_on_stream cb c fr)"
proof -
  define k e where "k = st_stream_id fr" and "e = fr_end fr"
  note s = s [folded k_def] and z = z [folded k_def]
  have at: "strm_at c k = Inr s" and si: "strm_inv k s"
    using strm_at_ok [OF conn_inv_map [OF conn_ok_inv [OF ok]] s] conn_inv_strm [OF conn_ok_inv [OF ok] s] by simp_all
  have e_def': "st_offset fr + of_nat (st_datalen fr) = e" by (simp add: e_def fr_end_def)
  have ev: "e \<le> NGTCP2_MAX_VARINT" using fr(2) by (simp add: ends_ok_def e_def)
  define n counts where "n = e - s_last_rx_offset s" and "counts = (s_last_rx_offset s < e \<and> s_stream_id s \<noteq> 0)"
  define c1 where "c1 = (if counts then c\<lparr>c_rx_offset := c_rx_offset c + n\<rparr> else c)"
  show ?thesis
  proof (cases "s_max_rx_offset s < e \<or> counts \<and> conn_max_data_violated c n")
    case True
    then have "recv_on_stream cb c fr = Inr (Some NGTCP2_ERR_FLOW_CONTROL, c)"
      using at by (auto simp: recv_on_stream_def k_def [symmetric] e_def' n_def counts_def Let_def)
    then show ?thesis using safe_ok [OF ok] by simp
  next
    case False
    then have em: "e \<le> s_max_rx_offset s" by (simp only: not_less de_Morgan_disj)
    have ok1: "conn_ok c1" unfolding c1_def using rx_counted(1) [OF ok, of n] ok False by (cases counts) simp_all
    have s1: "strm_of c1 k = Some s" using s by (simp add: c1_def)
    have sh: "strm_has s NGTCP2_STRM_FLAG_SHUT_RD \<Longrightarrow> k \<noteq> 0"
      using conn_inv_strm0 [OF conn_ok_inv [OF ok]] s by (metis option.inject)
    have new: "strm_inv k (s\<lparr>s_last_rx_offset := max (s_last_rx_offset s) e, s_flags := f\<rparr>)" for f
      using strm_inv_last [OF si, of "max (s_last_rx_offset s) e"] em ev si by (simp add: max_def strm_inv_def)
    have data: "safe (recv_stream_data cb c' fr (ngtcp2_strm_rx_offset s'))"
      if "conn_ok c'" "strm_of c' k = Some s'" "ngtcp2_strm_rx_offset s' < e" "e \<le> s_last_rx_offset s'" for c' s'
      using recv_stream_data_safe [OF app that(1) that(2) [unfolded k_def] fr] that(3,4) by (simp add: e_def)
    show ?thesis
    proof (cases "st_fin fr")
      case True
      define s' where "s' = ngtcp2_strm_shutdown (s\<lparr>s_last_rx_offset := e\<rparr>) NGTCP2_STRM_FLAG_SHUT_RD"
      define c2 where "c2 = put_strm c1 k s'"
      have r: "recv_on_stream cb c fr =
          (if strm_has s NGTCP2_STRM_FLAG_SHUT_RD then
              if s_last_rx_offset s \<noteq> e then Inr (Some NGTCP2_ERR_FINAL_OFFSET, c1) else Inr (None, c1)
           else if s_last_rx_offset s > e then Inr (Some NGTCP2_ERR_FINAL_OFFSET, c1)
           else if strm_has s' NGTCP2_STRM_FLAG_STOP_SENDING
           then ngtcp2_conn_close_stream_if_shut_rdwr cb c2 k (s_app_error_code s')
           else if e = ngtcp2_strm_rx_offset s'
           then rv_then (Inr (conn_call_recv_stream_data cb (fc_unlink c2 k) (s_stream_id s') True [])) (\<lambda>c.
                ngtcp2_conn_close_stream_if_shut_rdwr cb c k NGTCP2_NO_ERROR)
           else recv_stream_data cb (fc_unlink c2 k) fr (ngtcp2_strm_rx_offset s'))"
        using at False True
        unfolding recv_on_stream_def Let_def k_def [symmetric] e_def' s'_def c2_def c1_def counts_def n_def
        by auto
      show ?thesis
      proof (cases "strm_has s NGTCP2_STRM_FLAG_SHUT_RD \<or> s_last_rx_offset s > e")
        case True
        then show ?thesis unfolding r using safe_ok [OF ok1] by auto
      next
        case False
        then have le: "s_last_rx_offset s \<le> e" by (simp only: not_less de_Morgan_disj)
        have si': "strm_inv k s'" using new le by (simp add: s'_def ngtcp2_strm_shutdown_def max_absorb2)
        have ok2: "conn_ok c2" unfolding c2_def using conn_ok_put [OF ok1 s1 si'] z True by blast
        have s2: "strm_of c2 k = Some s'" using s1 by (simp add: c2_def strm_of_put)
        have ok3: "conn_ok (fc_unlink c2 k)" using keeps_ok [OF fc_unlink_keeps ok2] ok2 by simp
        have s3: "strm_of (fc_unlink c2 k) k = Some s'" using s2 by (simp add: fc_unlink_def)
        have rx: "ngtcp2_strm_rx_offset s' \<le> e" "s_last_rx_offset s' = e"
          using rx_offset_le [OF si'] by (simp_all add: s'_def ngtcp2_strm_shutdown_def)
        obtain rv c4 where d: "conn_call_recv_stream_data cb (fc_unlink c2 k) (s_stream_id s') True [] = (rv, c4)"
          by (cases "conn_call_recv_stream_data cb (fc_unlink c2 k) (s_stream_id s') True []")
        have k4: "keeps (fc_unlink c2 k) c4"
          using call_keeps(1) [OF app conn_ok_inv [OF ok3], of "s_stream_id s'" True "[]"] d by simp
        obtain s4 where s4: "strm_of c4 k = Some s4" using keeps_strm [OF k4 s3] .
        have "safe (rv_then (Inr (rv, c4)) (\<lambda>c. ngtcp2_conn_close_stream_if_shut_rdwr cb c k NGTCP2_NO_ERROR))"
          using s4 by (intro safe_rv_then safe_ok [OF keeps_ok [OF k4 ok3]]) (auto intro: close_if_safe [OF app])
        then show ?thesis
          unfolding r d using False safe_ok [OF ok1] close_if_safe [OF app ok2 s2] data [OF ok3 s3] rx by (simp add: order_less_le)
      qed
    next
      case nf: False
      define s' where "s' = s\<lparr>s_last_rx_offset := max (s_last_rx_offset s) e\<rparr>"
      define c2 where "c2 = put_strm c1 k s'"
      have r: "recv_on_stream cb c fr =
          (if strm_has s NGTCP2_STRM_FLAG_SHUT_RD \<and> s_last_rx_offset s < e then Inr (Some NGTCP2_ERR_FINAL_OFFSET, c1)
           else if e \<le> ngtcp2_strm_rx_offset s' then Inr (None, c2)
           else if strm_has s' NGTCP2_STRM_FLAG_STOP_SENDING then Inr (None, c2)
           else recv_stream_data cb c2 fr (ngtcp2_strm_rx_offset s'))"
        using recv_on_stream_data [of c fr s cb] at False nf
        unfolding k_def [symmetric] e_def [symmetric] s'_def c2_def c1_def counts_def n_def by blast
      have si': "strm_inv k s'" using new [of "s_flags s"] by (simp add: s'_def)
      have ok2: "conn_ok c2" unfolding c2_def using conn_ok_put [OF ok1 s1 si'] sh by (auto simp: s'_def strm_has_def)
      have s2: "strm_of c2 k = Some s'" using s1 by (simp add: c2_def strm_of_put)
      have "e \<le> s_last_rx_offset s'" by (simp add: s'_def)
      then show ?thesis unfolding r using safe_ok [OF ok1] safe_ok [OF ok2] data [OF ok2 s2] by auto
    qed
  qed
qed

section \<open>Streams the peer opens\<close>

lemma check_stream_id_opened:
  assumes "check_stream_id c k = None"
  shows "stream_opened c k"
  using assms by (auto simp: check_stream_id_def stream_opened_def not_less not_le split: if_splits)

lemma opened_check_stream_id: "stream_opened c k \<Longrightarrow> check_stream_id c k = None"
  by (auto simp: check_stream_id_def stream_opened_def not_less not_le split: if_splits)

text \<open>The tracker of remote stream IDs accepts any remote ID; the connection is otherwise unchanged.\<close>

definition opened_ids :: "'u ngtcp2_conn \<Rightarrow> u64 \<Rightarrow> bool" where
  "opened_ids c k = (id_from_stream_id k \<notin> gap_set (idgap (remote_idtr c k)))"

lemma remote_idtr_ok:
  assumes "conn_inv c" and "\<not> conn_local_stream c k"
  shows "idtr_wf (remote_idtr c k)" "idtr_assert (remote_idtr c k) k" "server (remote_idtr c k) = (\<not> c_server c)"
  using assms by (auto simp: conn_inv_def remote_idtr_def idtr_assert_def conn_local_stream_def)

lemma open_remote_ok:
  assumes ok: "conn_ok c" and k: "\<not> conn_local_stream c k"
  obtains rv t where "open_remote c k = Inr (rv, if bidi_stream k then c\<lparr>c_remote_bidi_idtr := t\<rparr> else c\<lparr>c_remote_uni_idtr := t\<rparr>)"
    "conn_ok (if bidi_stream k then c\<lparr>c_remote_bidi_idtr := t\<rparr> else c\<lparr>c_remote_uni_idtr := t\<rparr>)"
    "rv = (if opened_ids c k then Some NGTCP2_ERR_STREAM_IN_USE else None)"
proof -
  note inv = conn_ok_inv [OF ok] and r = remote_idtr_ok [OF conn_ok_inv [OF ok] k]
  have m: "mem_ok (c_mem c)" using inv by (simp add: conn_inv_def)
  have "\<exists>t. idtr_wf t \<and> server t = (\<not> c_server c) \<and> ngtcp2_idtr_open (c_mem c) (remote_idtr c k) k =
      Inr (if opened_ids c k then Some NGTCP2_ERR_STREAM_IN_USE else None, t, c_mem c)"
    using idtr_open_correct_aux [OF m r(1,2)] unfolding opened_ids_def r(3) by (auto split: if_splits)
  then obtain t where t: "idtr_wf t" "server t = (\<not> c_server c)"
      "ngtcp2_idtr_open (c_mem c) (remote_idtr c k) k =
         Inr (if opened_ids c k then Some NGTCP2_ERR_STREAM_IN_USE else None, t, c_mem c)"
    by blast
  have "stream_opened (c\<lparr>c_remote_bidi_idtr := t\<rparr>) = stream_opened c" "stream_opened (c\<lparr>c_remote_uni_idtr := t\<rparr>) = stream_opened c"
    "conn_local_stream (c\<lparr>c_remote_bidi_idtr := t\<rparr>) = conn_local_stream c"
    "conn_local_stream (c\<lparr>c_remote_uni_idtr := t\<rparr>) = conn_local_stream c"
    by (simp_all add: stream_opened_def conn_local_stream_def fun_eq_iff)
  then have "conn_ok (c\<lparr>c_remote_bidi_idtr := t\<rparr>)" "conn_ok (c\<lparr>c_remote_uni_idtr := t\<rparr>)"
    using ok t(1,2) unfolding conn_ok_def conn_inv_def ids_inv_def by simp_all
  then show thesis using that t(3) by (simp add: open_remote_def)
qed

lemma conn_inv_add:
  assumes inv: "conn_inv c" and wf: "map_wf mp" and of: "strm_of (c\<lparr>c_strms := mp\<rparr>) = (strm_of c)(k \<mapsto> s)"
    and s: "strm_inv k s" "stream_opened c k" and k: "k \<noteq> 0"
  shows "conn_inv (c\<lparr>c_strms := mp\<rparr>)"
proof -
  have "stream_opened (c\<lparr>c_strms := mp\<rparr>) = stream_opened c" "conn_local_stream (c\<lparr>c_strms := mp\<rparr>) = conn_local_stream c"
    by (simp_all add: stream_opened_def conn_local_stream_def fun_eq_iff)
  then show ?thesis using inv wf k s unfolding conn_inv_def ids_inv_def of by auto
qed

lemma new_remote_stream_ok:
  assumes ok: "conn_ok c" and none: "strm_of c k = None" and room: "map_room (c_strms c)" and op: "stream_opened c k"
  obtains c' s where "new_remote_stream c k = Inr (None, c')" "conn_ok c'" "strm_of c' = (strm_of c)(k \<mapsto> s)"
    "same_limits c c'" "c_user_data c' = c_user_data c" "c_server c' = c_server c"
    "s = (new_strm k (ucast (set_max_stream_data (c_local_settings c))) (ucast (set_max_stream_data (c_remote_settings c))))
           \<lparr>s_flags := (if bidi_stream k then 0 else NGTCP2_STRM_FLAG_SHUT_WR)\<rparr>"
proof -
  note inv = conn_ok_inv [OF ok]
  have m: "mem_ok (c_mem c)" and wf: "map_wf (c_strms c)" using inv by (simp_all add: conn_inv_def)
  define s where "s = new_strm k (ucast (set_max_stream_data (c_local_settings c))) (ucast (set_max_stream_data (c_remote_settings c)))"
  have fl: "s_flags s = 0" by (simp add: s_def new_strm_def)
  have k0: "k \<noteq> 0" using none conn_inv_strm0 [OF inv] by (metis option.distinct(1))
  obtain mp where mp: "ngtcp2_conn_init_stream c k = Inr (None, c\<lparr>c_strms := mp\<rparr>)" "map_wf mp"
      "strm_of (c\<lparr>c_strms := mp\<rparr>) = (strm_of c)(k \<mapsto> s)"
    using init_stream_ok [OF wf m room none] unfolding s_def by blast
  let ?c = "c\<lparr>c_strms := mp\<rparr>"
  have si: "strm_inv k s" unfolding s_def by (rule new_strm_inv) simp
  have ok': "conn_ok ?c"
    using conn_inv_add [OF inv mp(2,3) si op k0] ok unfolding conn_ok_def mp(3) by auto
  define s' where "s' = s\<lparr>s_flags := (if bidi_stream k then 0 else NGTCP2_STRM_FLAG_SHUT_WR)\<rparr>"
  have at: "strm_at ?c k = Inr s" using strm_at_ok [of ?c k s] mp(2,3) by simp
  have si': "strm_inv k s'" using si by (simp add: s'_def strm_inv_def)
  have new: "new_remote_stream c k = (if bidi_stream k then Inr (None, ?c) else Inr (None, put_strm ?c k s'))"
    using mp(1) at fl by (simp add: new_remote_stream_def malloc_mem_ok [OF m] Let_def s'_def ngtcp2_strm_shutdown_def)
  have ok2: "conn_ok (put_strm ?c k s')" using conn_ok_put [OF ok' _ si'] mp(3) k0 by simp
  show thesis
  proof (cases "bidi_stream k")
    case True
    then have "s' = s" using fl by (cases s) (simp add: s'_def)
    then show thesis using that [of ?c s'] new True ok' mp(3) by (simp add: same_limits_def s'_def s_def)
  next
    case False
    have "strm_of (put_strm ?c k s') = (strm_of c)(k \<mapsto> s')" using mp(3) by (simp add: strm_of_put)
    then show thesis using that [of "put_strm ?c k s'" s'] new False ok2 by (simp add: same_limits_def s'_def s_def)
  qed
qed

section \<open>The handlers that concern streams\<close>

lemma frame_ends:
  assumes "stream_frame_ok fr" and "\<not> NGTCP2_MAX_VARINT - of_nat (st_datalen fr) < st_offset fr"
  shows "ends_ok fr"
proof -
  have n: "unat (of_nat (st_datalen fr) :: u64) = st_datalen fr"
    using assms(1) by (simp add: stream_frame_ok_def unsigned_of_nat take_bit_nat_eq_self)
  then have "(of_nat (st_datalen fr) :: u64) \<le> NGTCP2_MAX_VARINT"
    using assms(1) by (simp add: word_le_nat_alt stream_frame_ok_def)
  moreover have "st_offset fr \<le> NGTCP2_MAX_VARINT - of_nat (st_datalen fr)" using assms(2) by (simp only: not_less)
  ultimately show ?thesis using varint_room [of "of_nat (st_datalen fr)" "st_offset fr"] n by (simp add: ends_ok_def fr_end_def)
qed

lemma find_stream_inv: "conn_ok c \<Longrightarrow> ngtcp2_conn_find_stream c k = Inr (strm_of c k)"
  by (simp add: find_stream_ok conn_inv_map)

lemma stream_opened_idtr [simp]:
  "stream_opened (c\<lparr>c_remote_bidi_idtr := t\<rparr>) = stream_opened c" "stream_opened (c\<lparr>c_remote_uni_idtr := t\<rparr>) = stream_opened c"
  by (simp_all add: stream_opened_def conn_local_stream_def fun_eq_iff)

lemma guard_result:
  "P \<or> Q \<or> R \<or> S \<or> T \<Longrightarrow> \<exists>rv. (if P then Inr (v, c) else if Q then Inr (w, c) else if R then Inr (x, c)
    else if S then Inr (y, c) else if T then Inr (z, c) else e) = Inr (rv, c)"
  by auto

lemma conn_recv_stream_safe:
  assumes app: "app_ok cb" and ok: "conn_ok c" and room: "map_room (c_strms c)" and fr: "stream_frame_ok fr"
  shows "safe (conn_recv_stream cb c fr)"
proof -
  define k where "k = st_stream_id fr"
  consider (err) "k = 0 \<and> st_fin fr \<or> \<not> st_fin fr \<and> st_datalen fr = 0 \<or> check_stream_id c k \<noteq> None \<or>
        \<not> bidi_stream k \<and> conn_local_stream c k \<and> st_offset fr + of_nat (st_datalen fr) \<noteq> 0 \<or>
        NGTCP2_MAX_VARINT - of_nat (st_datalen fr) < st_offset fr"
    | (ok) "\<not> (k = 0 \<and> st_fin fr)" "\<not> (\<not> st_fin fr \<and> st_datalen fr = 0)" "check_stream_id c k = None"
        "\<not> (\<not> bidi_stream k \<and> conn_local_stream c k \<and> st_offset fr + of_nat (st_datalen fr) \<noteq> 0)"
        "\<not> NGTCP2_MAX_VARINT - of_nat (st_datalen fr) < st_offset fr"
    by blast
  then show ?thesis
  proof cases
    case err
    have "\<exists>rv. conn_recv_stream cb c fr = Inr (rv, c)"
      unfolding conn_recv_stream_def Let_def k_def [symmetric] by (rule guard_result [OF err])
    then show ?thesis using safe_ok [OF ok] by metis
  next
    case 2: ok
    have z: "st_stream_id fr = 0 \<Longrightarrow> \<not> st_fin fr" using 2(1) by (simp add: k_def)
    note on = recv_on_stream_safe [OF app _ _ fr frame_ends [OF fr 2(5)] z, folded k_def]
    have r: "conn_recv_stream cb c fr =
        (if strm_of c k = None then
          if conn_local_stream c k then Inr (None, c)
          else
            rbind (open_remote c k) (\<lambda>(rv, c).
            if rv = Some NGTCP2_ERR_STREAM_IN_USE then Inr (None, c)
            else rassert (rv = None) (rv_then (new_remote_stream c k) (\<lambda>c. recv_on_stream cb c fr)))
        else recv_on_stream cb c fr)"
      unfolding conn_recv_stream_def Let_def k_def [symmetric] find_stream_inv [OF ok] rbind_simps
      using 2 by (simp only: if_False option.distinct simp_thms)
    consider s where "strm_of c k = Some s" | "strm_of c k = None" "conn_local_stream c k"
      | "strm_of c k = None" "\<not> conn_local_stream c k" by blast
    then show ?thesis
    proof cases
      case 1
      then show ?thesis unfolding r using on [OF ok] by simp
    next
      case 2
      then show ?thesis unfolding r using safe_ok [OF ok] by simp
    next
      case 3
      obtain rv t where o: "open_remote c k = Inr (rv, if bidi_stream k then c\<lparr>c_remote_bidi_idtr := t\<rparr> else c\<lparr>c_remote_uni_idtr := t\<rparr>)"
          "conn_ok (if bidi_stream k then c\<lparr>c_remote_bidi_idtr := t\<rparr> else c\<lparr>c_remote_uni_idtr := t\<rparr>)"
          "rv = (if opened_ids c k then Some NGTCP2_ERR_STREAM_IN_USE else None)"
        using open_remote_ok [OF ok 3(2)] .
      define c1 where "c1 = (if bidi_stream k then c\<lparr>c_remote_bidi_idtr := t\<rparr> else c\<lparr>c_remote_uni_idtr := t\<rparr>)"
      have c1: "strm_of c1 k = None" "map_room (c_strms c1)" "stream_opened c1 k"
        using 3(1) room check_stream_id_opened [OF 2(3)] by (simp_all add: c1_def)
      obtain c2 s where "new_remote_stream c1 k = Inr (None, c2)" "conn_ok c2" "strm_of c2 = (strm_of c1)(k \<mapsto> s)"
        using new_remote_stream_ok [OF o(2) [folded c1_def] c1] by metis
      then have n: "safe (rv_then (new_remote_stream c1 k) (\<lambda>c. recv_on_stream cb c fr))" using on by simp
      show ?thesis
        unfolding r using 3 n o(3) safe_ok [OF o(2) [folded c1_def]] by (simp add: o(1) [folded c1_def])
    qed
  qed
qed

lemma conn_ok_flags:
  assumes "conn_ok c" and "strm_of c k = Some s" and "k \<noteq> 0"
  shows "conn_ok (put_strm c k (s\<lparr>s_flags := f\<rparr>))" "strm_of (put_strm c k (s\<lparr>s_flags := f\<rparr>)) k = Some (s\<lparr>s_flags := f\<rparr>)"
proof -
  have "strm_inv k (s\<lparr>s_flags := f\<rparr>)" using conn_inv_strm [OF conn_ok_inv [OF assms(1)] assms(2)] by (simp add: strm_inv_def)
  then show "conn_ok (put_strm c k (s\<lparr>s_flags := f\<rparr>))" using conn_ok_put [OF assms(1,2)] assms(3) by blast
  show "strm_of (put_strm c k (s\<lparr>s_flags := f\<rparr>)) k = Some (s\<lparr>s_flags := f\<rparr>)" using assms(2) by (simp add: strm_of_put)
qed

lemma is_open_ok:
  assumes "conn_inv c" and "\<not> conn_local_stream c k"
  shows "\<exists>rv. ngtcp2_idtr_is_open (remote_idtr c k) k = Inr rv"
  using remote_idtr_ok(2) [OF assms] by (simp add: ngtcp2_idtr_is_open_def)

lemma open_remote_then:
  assumes ok: "conn_ok c" and k: "\<not> conn_local_stream c k"
    and f: "\<And>rv c'. conn_ok c' \<Longrightarrow> same_limits c c' \<Longrightarrow> safe (f (rv, c'))"
  shows "safe (rbind (open_remote c k) f)"
proof -
  obtain rv t where o: "open_remote c k = Inr (rv, if bidi_stream k then c\<lparr>c_remote_bidi_idtr := t\<rparr> else c\<lparr>c_remote_uni_idtr := t\<rparr>)"
      "conn_ok (if bidi_stream k then c\<lparr>c_remote_bidi_idtr := t\<rparr> else c\<lparr>c_remote_uni_idtr := t\<rparr>)"
    using open_remote_ok [OF ok k] .
  show ?thesis unfolding o(1) using f [OF o(2)] by (simp add: same_limits_def)
qed

lemma conn_recv_rst_stream_safe:
  assumes app: "app_ok cb" and ok: "conn_ok c"
  shows "safe (conn_recv_rst_stream cb c fr)"
proof -
  define k fin where "k = rst_stream_id fr" and "fin = rst_final_offset fr"
  note r = conn_recv_rst_stream_def [of cb c fr, unfolded Let_def, folded k_def fin_def, unfolded find_stream_inv [OF ok] rbind_simps]
  have gone: "safe (rbind (ngtcp2_idtr_is_open (remote_idtr c k) k) (\<lambda>used.
              if used = None then
                if ucast (set_max_stream_data (c_local_settings c)) < fin \<or> conn_max_data_violated c fin
                then Inr (Some NGTCP2_ERR_FLOW_CONTROL, c)
                else rbind (open_remote c k) (\<lambda>(_, c). Inr (None, c\<lparr>c_rx_offset := c_rx_offset c + fin\<rparr>))
              else Inr (None, c)))" if "\<not> conn_local_stream c k"
  proof -
    have "safe (rbind (open_remote c k) (\<lambda>(_, c). Inr (None, c\<lparr>c_rx_offset := c_rx_offset c + fin\<rparr>)))"
      if "\<not> conn_max_data_violated c fin"
    proof (rule open_remote_then [OF ok \<open>\<not> conn_local_stream c k\<close>])
      fix rv c'
      assume "conn_ok c'" "same_limits c c'"
      moreover from this have "\<not> conn_max_data_violated c' fin"
        using \<open>\<not> conn_max_data_violated c fin\<close> by (simp add: same_limits_def conn_max_data_violated_def)
      ultimately show "safe (case (rv, c') of (_, c) \<Rightarrow> Inr (None, c\<lparr>c_rx_offset := c_rx_offset c + fin\<rparr>))"
        using rx_counted(1) [of c' fin] by (simp add: safe_ok)
    qed
    then show ?thesis using is_open_ok [OF conn_ok_inv [OF ok] that] safe_ok [OF ok] by auto
  qed
  have there: "safe (
                let c = c\<lparr>c_rx_offset := c_rx_offset c + (fin - s_last_rx_offset s)\<rparr>;
                    c = put_strm c k (s\<lparr>s_flags := s_flags s OR (NGTCP2_STRM_FLAG_SHUT_RD OR NGTCP2_STRM_FLAG_RECV_RST)\<rparr>)
                in ngtcp2_conn_close_stream_if_shut_rdwr cb c k (rst_app_error_code fr))"
    if "strm_of c k = Some s" "\<not> conn_max_data_violated c (fin - s_last_rx_offset s)" "k \<noteq> 0" for s
  proof -
    define c1 where "c1 = c\<lparr>c_rx_offset := c_rx_offset c + (fin - s_last_rx_offset s)\<rparr>"
    have ok1: "conn_ok c1" unfolding c1_def by (rule rx_counted(1) [OF ok that(2)])
    have s1: "strm_of c1 k = Some s" using that(1) by (simp add: c1_def)
    show ?thesis
      unfolding Let_def c1_def [symmetric] by (rule close_if_safe [OF app conn_ok_flags [OF ok1 s1 that(3)]])
  qed
  show ?thesis
  proof (cases "k = 0 \<or> check_stream_id c k \<noteq> None")
    case True
    then show ?thesis unfolding r using safe_ok [OF ok] by (cases "k = 0") simp_all
  next
    case False
    then show ?thesis
      unfolding r using gone there safe_ok [OF ok] by (cases "strm_of c k") (auto simp: Let_def)
  qed
qed

lemma conn_recv_stop_sending_safe:
  assumes app: "app_ok cb" and ok: "conn_ok c"
  shows "safe (conn_recv_stop_sending cb c fr)"
proof -
  define k where "k = ss_stream_id fr"
  note r = conn_recv_stop_sending_def [of cb c fr, unfolded Let_def, folded k_def, unfolded find_stream_inv [OF ok] rbind_simps]
  note inv = conn_ok_inv [OF ok]
  have gone: "safe (rbind (ngtcp2_idtr_is_open (remote_idtr c k) k) (\<lambda>used.
      if used = None then rbind (open_remote c k) (\<lambda>(_, c). Inr (None, c)) else Inr (None, c)))" if "\<not> conn_local_stream c k"
    using open_remote_then [OF ok that, of "\<lambda>(_, c). Inr (None, c)"] is_open_ok [OF inv that] safe_ok [OF ok]
    by (auto simp: safe_ok)
  have there: "safe (rv_then (Inr (conn_rst_stream c s NGTCP2_STOPPING)) (\<lambda>c.
            rbind (strm_at c k) (\<lambda>strm.
            ngtcp2_conn_close_stream_if_shut_rdwr cb (put_strm c k
              (strm\<lparr>s_flags := s_flags strm OR (NGTCP2_STRM_FLAG_SHUT_WR OR NGTCP2_STRM_FLAG_SENT_RST)\<rparr>)) k (ss_app_error_code fr))))"
    if "strm_of c k = Some s" "k \<noteq> 0" for s
  proof -
    obtain f where f: "conn_rst_stream c s NGTCP2_STOPPING = (None, c\<lparr>c_frq := f # c_frq c\<rparr>)"
      using rst_stream_ok [OF conn_inv_mem [OF inv]] by blast
    define c1 where "c1 = c\<lparr>c_frq := f # c_frq c\<rparr>"
    have ok1: "conn_ok c1" and s1: "strm_of c1 k = Some s" using ok that(1) by (simp_all add: c1_def conn_ok_def)
    have at: "strm_at c1 k = Inr s" by (rule strm_at_ok [OF conn_inv_map [OF conn_ok_inv [OF ok1]] s1])
    show ?thesis using close_if_safe [OF app conn_ok_flags [OF ok1 s1 that(2)]] at f by (simp add: c1_def [symmetric])
  qed
  show ?thesis
  proof (cases "k = 0 \<or> check_stream_id c k \<noteq> None")
    case True
    then show ?thesis unfolding r using safe_ok [OF ok] by (cases "k = 0") simp_all
  next
    case False
    then show ?thesis
      unfolding r using gone there safe_ok [OF ok] by (cases "strm_of c k") simp_all
  qed
qed

lemma max_tx_safe:
  assumes "conn_ok c" and "strm_of c k = Some s"
  shows "safe (rbind (strm_at c k) (\<lambda>strm. Inr (None, put_strm c k (strm\<lparr>s_max_tx_offset := f strm\<rparr>))))"
proof -
  have "strm_inv k (s\<lparr>s_max_tx_offset := f s\<rparr>)"
    using conn_inv_strm [OF conn_ok_inv [OF assms(1)] assms(2)] by (simp add: strm_inv_def)
  moreover have "k = 0 \<Longrightarrow> \<not> strm_has (s\<lparr>s_max_tx_offset := f s\<rparr>) NGTCP2_STRM_FLAG_SHUT_RD"
    using conn_inv_strm0 [OF conn_ok_inv [OF assms(1)]] assms(2) by (auto simp: strm_has_def)
  ultimately have "conn_ok (put_strm c k (s\<lparr>s_max_tx_offset := f s\<rparr>))" using conn_ok_put [OF assms] by blast
  then show ?thesis using strm_at_ok [OF conn_inv_map [OF conn_ok_inv [OF assms(1)]] assms(2)] by (simp add: safe_ok)
qed

lemma conn_recv_max_stream_data_safe:
  assumes ok: "conn_ok c" and room: "map_room (c_strms c)"
  shows "safe (conn_recv_max_stream_data c fr)"
proof -
  define k where "k = msd_stream_id fr"
  note r = conn_recv_max_stream_data_def [of c fr, unfolded Let_def, folded k_def, unfolded find_stream_inv [OF ok] rbind_simps]
  consider "check_stream_id c k \<noteq> None" | s where "check_stream_id c k = None" "strm_of c k = Some s"
    | "check_stream_id c k = None" "strm_of c k = None" "conn_local_stream c k"
    | "check_stream_id c k = None" "strm_of c k = None" "\<not> conn_local_stream c k" by blast
  then show ?thesis
  proof cases
    case 1
    then show ?thesis unfolding r using safe_ok [OF ok] by simp
  next
    case 2
    then show ?thesis unfolding r using max_tx_safe [OF ok 2(2)] by simp
  next
    case 3
    then show ?thesis unfolding r using safe_ok [OF ok] by simp
  next
    case 4
    obtain rv t where o: "open_remote c k = Inr (rv, if bidi_stream k then c\<lparr>c_remote_bidi_idtr := t\<rparr> else c\<lparr>c_remote_uni_idtr := t\<rparr>)"
        "conn_ok (if bidi_stream k then c\<lparr>c_remote_bidi_idtr := t\<rparr> else c\<lparr>c_remote_uni_idtr := t\<rparr>)"
      using open_remote_ok [OF ok 4(3)] .
    define c1 where "c1 = (if bidi_stream k then c\<lparr>c_remote_bidi_idtr := t\<rparr> else c\<lparr>c_remote_uni_idtr := t\<rparr>)"
    have c1: "strm_of c1 k = None" "map_room (c_strms c1)" "stream_opened c1 k"
      using 4(2) room check_stream_id_opened [OF 4(1)] by (simp_all add: c1_def)
    obtain c2 s where "new_remote_stream c1 k = Inr (None, c2)" "conn_ok c2" "strm_of c2 = (strm_of c1)(k \<mapsto> s)"
      using new_remote_stream_ok [OF o(2) [folded c1_def] c1] by metis
    then show ?thesis
      unfolding r using 4 safe_ok [OF o(2) [folded c1_def]] max_tx_safe [of c2 k s] by (simp add: o(1) [folded c1_def])
  qed
qed

text \<open>A limit in a decoded frame is a variable-length integer.\<close>

lemma conn_recv_max_stream_id_safe:
  assumes app: "app_ok cb" and ok: "conn_ok c" and n: "msi_max_stream_id fr \<le> NGTCP2_MAX_VARINT"
  shows "safe (Inr (conn_recv_max_stream_id cb c fr))"
proof -
  define c1 where "c1 = (if bidi_stream (msi_max_stream_id fr)
      then c\<lparr>c_max_local_stream_id_bidi := max (c_max_local_stream_id_bidi c) (msi_max_stream_id fr)\<rparr>
      else c\<lparr>c_max_local_stream_id_uni := max (c_max_local_stream_id_uni c) (msi_max_stream_id fr)\<rparr>)"
  have "stream_opened c1 = stream_opened c" "conn_local_stream c1 = conn_local_stream c" "strm_of c1 = strm_of c"
    by (simp_all add: c1_def stream_opened_def conn_local_stream_def fun_eq_iff)
  moreover have "ids_inv c1"
    using ok n \<open>conn_local_stream c1 = conn_local_stream c\<close> by (auto simp: conn_ok_def conn_inv_def ids_inv_def c1_def)
  ultimately have ok1: "conn_ok c1"
    using ok unfolding conn_ok_def conn_inv_def by (simp add: c1_def)
  obtain rv c2 where d: "conn_call_extend_max_stream_id cb c1 (msi_max_stream_id fr) = (rv, c2)"
    by (cases "conn_call_extend_max_stream_id cb c1 (msi_max_stream_id fr)")
  then have "keeps c1 c2" using call_keeps(3) [OF app conn_ok_inv [OF ok1], of "msi_max_stream_id fr"] by simp
  then show ?thesis using safe_keeps [OF ok1] d by (simp add: conn_recv_max_stream_id_def Let_def c1_def)
qed

lemma conn_recv_ping_safe:
  assumes ok: "conn_ok c" and fr: "length (ping_data fr) = ping_datalen fr"
  shows "safe (conn_recv_ping c fr)"
proof -
  have "conn_ok (c\<lparr>c_frq := f\<rparr>)" for f using ok by (simp add: conn_ok_def)
  then show ?thesis
    using ok fr by (auto simp: conn_recv_ping_def malloc_mem_ok conn_inv_mem rdn_def safe_ok)
qed

section \<open>ACK\<close>

text \<open>
  The acknowledgement loops with a callback that may fail: \<open>I\<close> holds of its state as long as it succeeds, \<open>J\<close> after a
  failure. The list and the queue agree all the time, for any order of the entries.
\<close>

fun backs :: "ngtcp2_rtb_entry list \<Rightarrow> 's ack_state \<Rightarrow> bool" where
  "backs L (pq, bytes, la, s) =
     (pq_wf pq \<and> less pq = expiry_less \<and> mset (q pq) = mset L \<and> bytes = sum_list (map re_pktlen L) \<and> bytes < 2 ^ 64)"

definition ack_run :: "('s \<Rightarrow> bool) \<Rightarrow> (rv \<Rightarrow> 's \<Rightarrow> bool) \<Rightarrow> rv \<Rightarrow> ngtcp2_rtb_entry list \<Rightarrow> 's ack_state \<Rightarrow> bool" where
  "ack_run I J rv L st = (backs L st \<and> (let s = snd (snd (snd st)) in if rv = None then I s else J rv s))"

definition cb_keeps :: "(ngtcp2_rtb_entry \<Rightarrow> 's \<Rightarrow> rv \<times> 's) \<Rightarrow> ('s \<Rightarrow> bool) \<Rightarrow> (rv \<Rightarrow> 's \<Rightarrow> bool) \<Rightarrow> bool" where
  "cb_keeps cb I J = (\<forall>e s. I s \<longrightarrow> (let (rv, s') = cb e s in if rv = None then I s' else J rv s'))"

lemma ack_entry_run:
  assumes cb: "cb_keeps cb I J" and st: "ack_run I J None (F @ e # es) st"
  shows "\<exists>rv st'. ack_entry cb e st = Inr (rv, st') \<and> ack_run I J rv (F @ (if rv = None then es else e # es)) st'"
proof -
  obtain pq bytes la s where s: "st = (pq, bytes, la, s)" by (cases st)
  have b: "pq_wf pq" "less pq = expiry_less" "mset (q pq) = mset (F @ e # es)" "bytes = sum_list (map re_pktlen (F @ e # es))"
      "bytes < 2 ^ 64" and I: "I s"
    using st s by (simp_all add: ack_run_def)
  obtain rv s' where c: "cb e s = (rv, s')" by (cases "cb e s")
  have ij: "if rv = None then I s' else J rv s'" using cb [unfolded cb_keeps_def, rule_format, OF I, of e] c by simp
  have "e \<in> set (q pq)" using b(3) by (metis in_set_conv_decomp set_mset_mset)
  then obtain pq' where pq': "ngtcp2_pq_remove pq e = Inr pq'" "pq_wf pq'" "less pq' = less pq"
      "add_mset e (mset (q pq')) = mset (q pq)" using remove_ok [OF b(1)] by blast
  have m: "mset (q pq') = mset (F @ es)" using pq'(4) b(3) by simp
  have n: "re_pktlen e \<le> bytes" "bytes - re_pktlen e = sum_list (map re_pktlen (F @ es))" using b(4) by simp_all
  show ?thesis
  proof (cases rv)
    case None
    then have "ack_entry cb e st = Inr (None, (pq', bytes - re_pktlen e, max la (pn e), s'))"
      using s c pq'(1) n(1) by (simp add: ack_entry_def rtb_remove_def)
    moreover have "ack_run I J None (F @ es) (pq', bytes - re_pktlen e, max la (pn e), s')"
      using pq'(2,3) m n(2) b(2,5) ij None by (simp add: ack_run_def)
    ultimately show ?thesis by auto
  next
    case (Some x)
    then have "ack_entry cb e st = Inr (rv, (pq, bytes, la, s'))" using s c by (simp add: ack_entry_def)
    then show ?thesis using b ij Some by (auto simp: ack_run_def)
  qed
qed

definition loop_run ::
    "('s \<Rightarrow> bool) \<Rightarrow> (rv \<Rightarrow> 's \<Rightarrow> bool) \<Rightarrow> ngtcp2_rtb_entry list \<Rightarrow>
     (rv \<times> ngtcp2_rtb_entry list \<times> ngtcp2_rtb_entry list \<times> 's ack_state) res \<Rightarrow> bool" where
  "loop_run I J F r = (\<exists>rv kept rest st. r = Inr (rv, kept, rest, st) \<and> ack_run I J rv (F @ kept @ rest) st)"

lemma loop_run_keep:
  "loop_run I J (F @ [e]) r \<Longrightarrow> loop_run I J F (rbind r (\<lambda>(rv, kept, rest, st). Inr (rv, e # kept, rest, st)))"
  by (auto simp: loop_run_def)

lemma loop_run_stop: "ack_run I J rv (F @ es) st \<Longrightarrow> loop_run I J F (Inr (rv, [], es, st))"
  by (simp add: loop_run_def)

lemma loop_run_entry:
  assumes "cb_keeps cb I J" and "ack_run I J None (F @ e # es) st" and "\<And>st. ack_run I J None (F @ es) st \<Longrightarrow> loop_run I J F (f st)"
  shows "loop_run I J F (rbind (ack_entry cb e st) (\<lambda>(rv, st). if rv \<noteq> None then Inr (rv, [], e # es, st) else f st))"
  using ack_entry_run [OF assms(1,2)] assms(3) loop_run_stop by fastforce

lemma ack_first_run:
  "cb_keeps cb I J \<Longrightarrow> ack_run I J None (F @ es) st \<Longrightarrow> loop_run I J F (ack_first cb unprot mn largest es st)"
proof (induction es arbitrary: F st)
  case (Cons e es)
  then show ?case
    using loop_run_keep [OF Cons.IH [of "F @ [e]" st]] loop_run_entry [OF Cons.prems, of "ack_first cb unprot mn largest es"]
      Cons.IH [of F] loop_run_stop [OF Cons.prems(2)]
    by simp
qed (simp add: loop_run_stop)

lemma ack_blk_run:
  "cb_keeps cb I J \<Longrightarrow> ack_run I J None (F @ es) st \<Longrightarrow> loop_run I J F (ack_blk cb unprot mn largest es st)"
proof (induction es arbitrary: F st)
  case (Cons e es)
  then show ?case
    using loop_run_keep [OF Cons.IH [of "F @ [e]" st]] loop_run_entry [OF Cons.prems, of "ack_blk cb unprot mn largest es"]
      Cons.IH [of F] loop_run_stop [OF Cons.prems(2)]
    by simp
qed (simp add: loop_run_stop)

lemma ack_blks_run:
  assumes cb: "cb_keeps cb I J"
  shows "ack_run I J None (F @ es) st \<Longrightarrow> n \<le> length bl \<Longrightarrow>
    \<exists>rv es' st'. ack_blks cb unprot mn bl n es st = Inr (rv, es', st') \<and> ack_run I J rv (F @ es') st'"
proof (induction n arbitrary: F es st mn bl)
  case (Suc n)
  show ?case
  proof (cases "es = []")
    case False
    obtain b bs where bl: "bl = b # bs" "n \<le> length bs" using Suc.prems(2) by (cases bl) auto
    let ?hi = "mn - ngtcp2_ack_blk.gap b - 2" let ?lo = "?hi - blklen b"
    obtain rv kept rest st1 where k: "ack_blk cb unprot ?lo ?hi es st = Inr (rv, kept, rest, st1)"
        "ack_run I J rv (F @ kept @ rest) st1"
      using ack_blk_run [OF cb Suc.prems(1)] unfolding loop_run_def by blast
    show ?thesis
    proof (cases rv)
      case None
      then have "ack_run I J None ((F @ kept) @ rest) st1" using k(2) by simp
      then show ?thesis using Suc.IH [OF _ bl(2), of "F @ kept" rest st1 ?lo] k(1) bl(1) False None by (fastforce simp: Let_def)
    next
      case (Some x)
      then show ?thesis using k bl(1) False by (simp add: Let_def)
    qed
  qed (use Suc.prems in simp)
qed simp

lemma rtb_recv_ack_run:
  assumes wf: "rtb_wf rtb" and cb: "cb_keeps cb I J" and s: "I s" and n: "num_blks fr \<le> length (blks fr)"
  shows "\<exists>rv rtb' s'. ngtcp2_rtb_recv_ack cb rtb fr unprot s = Inr (rv, rtb', s') \<and> rtb_wf rtb' \<and>
    (if rv = None then I s' else J rv s')"
proof -
  define above es where "above = takeWhile (\<lambda>e. \<not> largest_ack fr \<ge> pn e) (rtb_head rtb)"
    and "es = dropWhile (\<lambda>e. \<not> largest_ack fr \<ge> pn e) (rtb_head rtb)"
  define st where "st = (rtb_pq rtb, bytes_in_flight rtb, largest_acked rtb, s)"
  define mn where "mn = largest_ack fr - first_ack_blklen fr"
  have hd: "rtb_head rtb = above @ es" by (simp add: above_def es_def)
  have r0: "ack_run I J None (above @ es) st" using wf s unfolding hd [symmetric] by (simp add: ack_run_def st_def rtb_wf_def)
  obtain rv kept rest st1 where k: "ack_first cb unprot mn (largest_ack fr) es st = Inr (rv, kept, rest, st1)"
      "ack_run I J rv (above @ kept @ rest) st1"
    using ack_first_run [OF cb r0] unfolding loop_run_def by blast
  have "\<exists>rv' es' st'. (if rv \<noteq> None then Inr (rv, rest, st1) else ack_blks cb unprot mn (blks fr) (num_blks fr) rest st1) =
      Inr (rv', es', st') \<and> ack_run I J rv' (above @ kept @ es') st'"
    using k(2) ack_blks_run [OF cb _ n, of "above @ kept" rest st1] by (cases rv) auto
  then obtain rv' es' pq bytes la s' where
      b: "(if rv \<noteq> None then Inr (rv, rest, st1) else ack_blks cb unprot mn (blks fr) (num_blks fr) rest st1) =
        Inr (rv', es', pq, bytes, la, s')" "ack_run I J rv' (above @ kept @ es') (pq, bytes, la, s')"
    by (metis prod_cases4)
  let ?r = "rtb\<lparr>rtb_pq := pq, rtb_head := above @ kept @ es', bytes_in_flight := bytes, largest_acked := la\<rparr>"
  show ?thesis
  proof (cases "es = []")
    case True
    then show ?thesis using wf s by (simp add: ngtcp2_rtb_recv_ack_def es_def)
  next
    case False
    then have "ngtcp2_rtb_recv_ack cb rtb fr unprot s = Inr (rv', ?r, s')"
      unfolding ngtcp2_rtb_recv_ack_def Let_def es_def [symmetric] above_def [symmetric] st_def [symmetric] mn_def [symmetric]
      by (simp only: if_False k(1) rbind_simps prod.case b(1))
    moreover have "rtb_wf ?r" using b(2) by (simp add: ack_run_def rtb_wf_def)
    ultimately show ?thesis using b(2) by (auto simp: ack_run_def)
  qed
qed

lemma gaptr_push_ok_any:
  assumes "mem_ok m" and "gaptr_wf t"
  shows "\<exists>t'. ngtcp2_gaptr_push m t offset datalen = (None, t', m) \<and> gaptr_wf t'"
  using assms by (simp add: ngtcp2_gaptr_push_eq gaptr_wf_def gaps_minus_wf)

lemma call_acked_safe:
  assumes app: "app_ok cb" and f: "\<And>k off n. acts (\<lambda>c. f c k off n)"
  shows "conn_ok c \<Longrightarrow> safe (call_acked_stream_offset cb f frc c)"
proof (induction frc arbitrary: c)
  case Nil
  then show ?case by (simp add: safe_ok)
next
  case (Cons x frc)
  show ?case
  proof (cases "\<exists>fr s. x = FrStream fr \<and> strm_of c (st_stream_id fr) = Some s")
    case False
    then show ?thesis using Cons.IH [OF Cons.prems] find_stream_inv [OF Cons.prems] by (cases x) (auto split: option.splits)
  next
    case True
    then obtain fr s where x: "x = FrStream fr" and s: "strm_of c (st_stream_id fr) = Some s" by blast
    define k where "k = st_stream_id fr"
    note inv = conn_ok_inv [OF Cons.prems] and s = s [folded k_def]
    define prev where "prev = ngtcp2_gaptr_first_gap_offset (s_acked_tx_offset s)"
    have si: "strm_inv k s" by (rule conn_inv_strm [OF inv s])
    then obtain acked where a: "ngtcp2_gaptr_push (c_mem c) (s_acked_tx_offset s) (st_offset fr) (of_nat (st_datalen fr)) =
        (None, acked, c_mem c)" "gaptr_wf acked"
      using gaptr_push_ok_any [OF conn_inv_mem [OF inv]] by (metis strm_inv_def)
    define s1 where "s1 = s\<lparr>s_acked_tx_offset := acked\<rparr>"
    define c1 where "c1 = put_strm c k s1"
    have si1: "strm_inv k s1" using si a(2) by (simp add: s1_def strm_inv_def)
    have sh: "k = 0 \<Longrightarrow> \<not> strm_has s1 NGTCP2_STRM_FLAG_SHUT_RD"
      using conn_inv_strm0 [OF inv] s by (auto simp: strm_has_def s1_def)
    have ok1: "conn_ok c1" unfolding c1_def by (rule conn_ok_put [OF Cons.prems s si1 sh])
    have st1: "strm_of c1 k = Some s1" using s by (simp add: c1_def strm_of_put)
    define n where "n = ngtcp2_gaptr_first_gap_offset acked - prev"
    obtain rv c2 where d: "conn_call (Some (\<lambda>c. f c (s_stream_id s) prev n)) c1 = (rv, c2)"
      by (cases "conn_call (Some (\<lambda>c. f c (s_stream_id s) prev n)) c1")
    have k2: "keeps c1 c2" using conn_call_keeps [OF conn_ok_inv [OF ok1], of "Some (\<lambda>c. f c (s_stream_id s) prev n)"] f d by auto
    obtain s2 where s2: "strm_of c2 k = Some s2" using keeps_strm [OF k2 st1] .
    have r: "call_acked_stream_offset cb f (x # frc) c =
        (if n = 0 \<and> \<not> st_fin fr then call_acked_stream_offset cb f frc c1
         else rv_then (Inr (rv, c2)) (\<lambda>c.
              rv_then (ngtcp2_conn_close_stream_if_shut_rdwr cb c k NGTCP2_NO_ERROR) (\<lambda>c.
              call_acked_stream_offset cb f frc c)))"
      using find_stream_inv [OF Cons.prems] s a(1) d
      by (simp add: x k_def [symmetric] n_def prev_def s1_def c1_def Let_def)
    have "safe (rv_then (Inr (rv, c2)) (\<lambda>c. rv_then (ngtcp2_conn_close_stream_if_shut_rdwr cb c k NGTCP2_NO_ERROR) (\<lambda>c.
        call_acked_stream_offset cb f frc c)))"
      using s2 by (intro safe_rv_then safe_keeps [OF ok1 k2]) (auto intro: safe_rv_then close_if_safe [OF app] Cons.IH)
    then show ?thesis unfolding r using Cons.IH [OF ok1] by simp
  qed
qed

lemma acktr_recv_ack_wf:
  assumes "acktr_wf a" and "ack_valid fr"
  obtains a' where "ngtcp2_acktr_recv_ack a fr unprot = Inr a'" "acktr_wf a'"
proof (cases "first_from (sel unprot (ack_ranges fr)) (ack_list a) 0")
  case None
  then show thesis using that recv_ack_ok [OF assms, of unprot] assms(1) by simp
next
  case (Some j)
  then have "ngtcp2_acktr_recv_ack a fr unprot = acktr_on_ack a j" using recv_ack_ok [OF assms, of unprot] by simp
  moreover have "j < length (ack_list a)" using first_from_Some [OF Some] by simp
  ultimately show thesis using that acktr_on_ack_ok [OF assms(1), of j] by auto
qed

lemma conn_recv_ack_safe:
  fixes c :: "'u ngtcp2_conn"
  assumes app: "app_ok cb" and ok: "conn_ok c" and fr: "wf_frame (FrAck fr)"
  shows "safe (conn_recv_ack cb c fr unprot)"
proof (cases "list_all (\<lambda>(lo, hi). 0 \<le> lo) (ack_ranges fr)")
  case False
  then show ?thesis using validate_ack_eq [OF fr] safe_ok [OF ok] by (simp add: conn_recv_ack_def)
next
  case True
  have n: "num_blks fr = length (blks fr)" using fr by simp
  have "acktr_wf (c_acktr c)" "rtb_wf (c_rtb c)" using ok by (simp_all add: conn_ok_def conn_inv_def)
  then obtain a where a: "ngtcp2_acktr_recv_ack (c_acktr c) fr unprot = Inr a" "acktr_wf a"
    using acktr_recv_ack_wf [of "c_acktr c" fr unprot] True n by (auto simp: ack_valid_def)
  define c1 where "c1 = c\<lparr>c_acktr := a\<rparr>"
  have ok1: "conn_ok c1"
    using conn_inv_tables(1) [OF conn_ok_inv [OF ok] a(2)] ok by (simp add: conn_ok_def c1_def)
  let ?I = "\<lambda>s :: 'u ngtcp2_conn res. \<exists>d. s = Inr d \<and> conn_ok d"
  let ?J = "\<lambda>rv (s :: 'u ngtcp2_conn res). \<exists>d. s = Inr d \<and> conn_inv d \<and> (rv = Some NGTCP2_ERR_CALLBACK_FAILURE \<or> conn_ok d)"
  have "cb_keeps (on_acked cb) ?I ?J"
  proof (unfold cb_keeps_def, intro allI impI)
    fix e and s :: "'u ngtcp2_conn res"
    assume "?I s"
    then obtain d where d: "s = Inr d" "conn_ok d" by blast
    show "let (rv, s') = on_acked cb e s in if rv = None then ?I s' else ?J rv s'"
    proof (cases "cb_acked_stream_data_offset cb")
      case None
      then show ?thesis using d by (simp add: on_acked_def)
    next
      case (Some f)
      then have "acts (\<lambda>c. f c k off n)" for k off n using app unfolding app_ok_def by blast
      then have "safe (call_acked_stream_offset cb f (re_frc e) d)" by (rule call_acked_safe [OF app _ d(2)])
      then show ?thesis using d Some by (auto simp: on_acked_def safe_def)
    qed
  qed
  then obtain rv rtb s where r: "ngtcp2_rtb_recv_ack (on_acked cb) (c_rtb c1) fr unprot (Inr c1) = Inr (rv, rtb, s)" "rtb_wf rtb"
      "if rv = None then ?I s else ?J rv s"
    using rtb_recv_ack_run [of "c_rtb c1" "on_acked cb" ?I ?J "Inr c1" fr unprot] ok1 n by (auto simp: conn_ok_def conn_inv_def)
  obtain d where d: "s = Inr d" "conn_inv d" "rv = Some NGTCP2_ERR_CALLBACK_FAILURE \<or> conn_ok d"
    using r(3) by (cases rv) auto
  have "conn_recv_ack cb c fr unprot = Inr (rv, d\<lparr>c_rtb := rtb\<rparr>)"
    using validate_ack_eq [OF fr] True a(1) r(1) d(1) by (simp add: conn_recv_ack_def c1_def)
  moreover have "conn_inv (d\<lparr>c_rtb := rtb\<rparr>)" by (rule conn_inv_tables(2) [OF d(2) r(2)])
  ultimately show ?thesis using d(3) by (auto simp: safe_def conn_ok_def)
qed

end
