(* ===== verification/Conn_Order.thy ===== *)
theory Conn_Order
  imports Conn_Recv
begin

text \<open>
  In-order delivery: whatever the order and the overlap of the STREAM frames of a stream, an application that records
  what it is given has the stream up to the first byte that has not arrived, each byte once.
\<close>

section \<open>One frame\<close>

text \<open>The stream is read from, and its reorder buffer holds \<open>S\<close> from the next offset on.\<close>

definition receiving :: "(u64 \<Rightarrow> u8) \<Rightarrow> ngtcp2_strm \<Rightarrow> bool" where
  "receiving S s =
     (pending S (ngtcp2_strm_rx_offset s) s \<and> \<not> strm_has s NGTCP2_STRM_FLAG_SHUT_RD \<and>
      \<not> strm_has s NGTCP2_STRM_FLAG_STOP_SENDING)"

text \<open>A frame with data of stream \<open>k\<close>, within a limit \<open>lim\<close> of the stream.\<close>

definition fits :: "u64 \<Rightarrow> u64 \<Rightarrow> ngtcp2_stream \<Rightarrow> bool" where
  "fits k lim fr =
     (st_stream_id fr = k \<and> \<not> st_fin fr \<and> 0 < st_datalen fr \<and> length (st_data fr) = st_datalen fr \<and>
      unat (st_offset fr) + st_datalen fr \<le> unat lim \<and> unat (st_offset fr) + st_datalen fr \<le> unat NGTCP2_MAX_VARINT)"

text \<open>The flow control of the connection allows for the rest of the stream's limit.\<close>

definition credit :: "u64 \<Rightarrow> ngtcp2_strm \<Rightarrow> 'u ngtcp2_conn \<Rightarrow> bool" where
  "credit k s c =
     (k \<noteq> 0 \<longrightarrow> unat (c_rx_offset c) + (unat (s_max_rx_offset s) - unat (s_last_rx_offset s)) \<le> unat (c_max_rx_offset c))"

lemma fits_frame:
  assumes "fits k lim fr"
  shows "stream_frame_ok fr" "ends_ok fr" "fr_end fr \<le> lim" "\<not> NGTCP2_MAX_VARINT - of_nat (st_datalen fr) < st_offset fr"
proof -
  have n: "unat (st_offset fr) + st_datalen fr \<le> unat NGTCP2_MAX_VARINT" using assms by (simp add: fits_def)
  show "stream_frame_ok fr" using assms by (simp add: fits_def stream_frame_ok_def)
  have d: "unat (of_nat (st_datalen fr) :: u64) = st_datalen fr" using n by (simp add: unsigned_of_nat take_bit_nat_eq_self)
  have e: "unat (fr_end fr) = unat (st_offset fr) + st_datalen fr" using n d by (simp add: fr_end_def unat_word_ariths)
  then show "ends_ok fr" using n by (simp add: ends_ok_def word_le_nat_alt)
  show "fr_end fr \<le> lim" using e assms by (simp add: fits_def word_le_nat_alt)
  have "(of_nat (st_datalen fr) :: u64) \<le> NGTCP2_MAX_VARINT" using d n by (simp add: word_le_nat_alt)
  then have "unat (NGTCP2_MAX_VARINT - of_nat (st_datalen fr)) = unat NGTCP2_MAX_VARINT - st_datalen fr" using d by (simp add: unat_sub)
  then show "\<not> NGTCP2_MAX_VARINT - of_nat (st_datalen fr) < st_offset fr" using n by (simp add: word_less_nat_alt)
qed

lemma credit_ok:
  assumes "credit k s c" and "k \<noteq> 0" and "e \<le> s_max_rx_offset s" and "s_last_rx_offset s \<le> e"
  shows "\<not> conn_max_data_violated c (e - s_last_rx_offset s)"
    and "unat (c_rx_offset c + (e - s_last_rx_offset s)) = unat (c_rx_offset c) + (unat e - unat (s_last_rx_offset s))"
proof -
  have n: "unat (e - s_last_rx_offset s) = unat e - unat (s_last_rx_offset s)" using assms(4) by (simp add: unat_sub)
  have le: "unat (c_rx_offset c) + (unat e - unat (s_last_rx_offset s)) \<le> unat (c_max_rx_offset c)"
    using assms(1-3) unfolding credit_def word_le_nat_alt by linarith
  then have "unat (c_max_rx_offset c - c_rx_offset c) = unat (c_max_rx_offset c) - unat (c_rx_offset c)"
    by (simp add: unat_sub word_le_nat_alt)
  then show "\<not> conn_max_data_violated c (e - s_last_rx_offset s)"
    using n le by (simp add: conn_max_data_violated_def word_less_nat_alt)
  have "unat (c_max_rx_offset c) < 2 ^ 64" using unsigned_less [of "c_max_rx_offset c"] by simp
  then show "unat (c_rx_offset c + (e - s_last_rx_offset s)) = unat (c_rx_offset c) + (unat e - unat (s_last_rx_offset s))"
    using n le by (simp add: unat_word_ariths)
qed

text \<open>What one frame achieves.\<close>

definition stream_step ::
    "(u64 \<Rightarrow> u8) \<Rightarrow> ('u \<Rightarrow> u8 option list) \<Rightarrow> u64 \<Rightarrow> u64 set \<Rightarrow> ngtcp2_strm \<Rightarrow> 'u ngtcp2_conn \<Rightarrow> 'u ngtcp2_conn \<Rightarrow> bool" where
  "stream_step S log k R s c c' =
     (\<exists>s'. strm_of c' k = Some s' \<and> conn_ok c' \<and> receiving S s' \<and> credit k s' c' \<and> c_server c' = c_server c \<and> c_acktr c' = c_acktr c \<and>
        s_max_rx_offset s' = s_max_rx_offset s \<and> gap_set (rob_gap (s_rob s')) = gap_set (rob_gap (s_rob s)) - R \<and>
        log (c_user_data c') = log (c_user_data c) @ map Some (slice S (ngtcp2_strm_rx_offset s) (ngtcp2_strm_rx_offset s')))"

lemma recv_on_stream_delivers:
  assumes app: "app_ok cb" and rec: "records cb (st_stream_id fr) log" and ok: "conn_ok c"
    and s: "strm_of c (st_stream_id fr) = Some s" and r: "receiving S s" and fr: "fits (st_stream_id fr) (s_max_rx_offset s) fr"
    and seg: "segment_of S (st_offset fr) (st_data fr)" and cr: "credit (st_stream_id fr) s c"
  shows "\<exists>c'. recv_on_stream cb c fr = Inr (None, c') \<and> stream_step S log (st_stream_id fr) {st_offset fr ..< fr_end fr} s c c'"
proof -
  define k e where "k = st_stream_id fr" and "e = fr_end fr"
  note s = s [folded k_def] and cr = cr [folded k_def] and rec = rec [folded k_def] and f = fits_frame [OF fr, folded e_def]
  have at: "strm_at c k = Inr s" and si: "strm_inv k s"
    using strm_at_ok [OF conn_inv_map [OF conn_ok_inv [OF ok]] s] conn_inv_strm [OF conn_ok_inv [OF ok] s] by simp_all
  have id: "s_stream_id s = k" using si by (simp add: strm_inv_def)
  have sh: "\<not> strm_has s NGTCP2_STRM_FLAG_SHUT_RD" "\<not> strm_has s NGTCP2_STRM_FLAG_STOP_SENDING"
    and p: "pending S (ngtcp2_strm_rx_offset s) s" using r by (simp_all add: receiving_def)
  have nf: "\<not> st_fin fr" using fr by (simp add: fits_def)
  define c1 where "c1 = (if s_last_rx_offset s < e \<and> s_stream_id s \<noteq> 0
      then c\<lparr>c_rx_offset := c_rx_offset c + (e - s_last_rx_offset s)\<rparr> else c)"
  define s1 where "s1 = s\<lparr>s_last_rx_offset := max (s_last_rx_offset s) e\<rparr>"
  define c2 where "c2 = put_strm c1 k s1"
  have lim: "\<not> (s_max_rx_offset s < e \<or>
      (s_last_rx_offset s < e \<and> s_stream_id s \<noteq> 0) \<and> conn_max_data_violated c (e - s_last_rx_offset s))"
    using credit_ok(1) [OF cr _ f(3)] f(3) id by (auto simp: not_less less_imp_le)
  have rx1: "ngtcp2_strm_rx_offset s1 = ngtcp2_strm_rx_offset s" by (simp add: s1_def ngtcp2_strm_rx_offset_def)
  have r: "recv_on_stream cb c fr = (if e \<le> ngtcp2_strm_rx_offset s then Inr (None, c2)
      else recv_stream_data cb c2 fr (ngtcp2_strm_rx_offset s))"
    using recv_on_stream_data [of c fr s cb, folded k_def e_def, OF at nf lim] sh rx1
    unfolding c1_def [symmetric] s1_def [symmetric] c2_def [symmetric] by (simp add: s1_def strm_has_def)
  have ok1: "conn_ok c1" using rx_counted(1) [OF ok] lim ok unfolding c1_def by auto
  have st1: "strm_of c1 k = Some s" "c_server c1 = c_server c" "c_user_data c1 = c_user_data c" "c_acktr c1 = c_acktr c" using s by (simp_all add: c1_def)
  have ev: "e \<le> NGTCP2_MAX_VARINT" using f(2) by (simp add: ends_ok_def e_def)
  have si1: "strm_inv k s1"
    using strm_inv_last [OF si, of "max (s_last_rx_offset s) e" "s_flags s"] f(3) ev si by (simp add: s1_def strm_inv_def)
  have ok2: "conn_ok c2" unfolding c2_def using conn_ok_put [OF ok1 st1(1) si1] sh by (simp add: s1_def strm_has_def)
  have st2: "strm_of c2 k = Some s1" using st1 by (simp add: c2_def strm_of_put)
  have cr2: "credit k s1 c2"
  proof (cases "s_last_rx_offset s < e \<and> k \<noteq> 0")
    case True
    then have "unat (c_rx_offset c2) = unat (c_rx_offset c) + (unat e - unat (s_last_rx_offset s))" "c_max_rx_offset c2 = c_max_rx_offset c"
      using credit_ok(2) [OF cr _ f(3)] id by (simp_all add: c2_def c1_def less_imp_le)
    then show ?thesis using cr f(3) True by (simp add: credit_def s1_def max_def word_le_nat_alt word_less_nat_alt)
  next
    case False
    then show ?thesis using cr id by (auto simp: credit_def s1_def c2_def c1_def max_def)
  qed
  have rob1: "s_rob s1 = s_rob s" "s_max_rx_offset s1 = s_max_rx_offset s" "s_flags s1 = s_flags s" by (simp_all add: s1_def)
  have p1: "pending S (ngtcp2_strm_rx_offset s) s1" using p by (simp add: pending_def s1_def)
  note first = rob_inv_first(3) [of S "ngtcp2_strm_rx_offset s" "s_rob s"]
  show ?thesis
  proof (cases "e \<le> ngtcp2_strm_rx_offset s")
    case True
    have "gap_set (rob_gap (s_rob s)) - {st_offset fr ..< e} = gap_set (rob_gap (s_rob s))"
      using first p True unfolding pending_def ngtcp2_strm_rx_offset_def [symmetric] by fastforce
    then have "stream_step S log k {st_offset fr ..< e} s c c2"
      using st2 ok2 cr2 p1 sh rob1 rx1 st1
      by (auto simp: stream_step_def receiving_def strm_has_def c2_def)
    then show ?thesis using r True by (auto simp: k_def e_def)
  next
    case False
    have e1: "ngtcp2_strm_rx_offset s1 < fr_end fr" "fr_end fr \<le> s_last_rx_offset s1"
      using False rx1 by (simp_all add: e_def not_le s1_def)
    obtain rv c' where d: "deliver_or_buffer cb c2 fr (ngtcp2_strm_rx_offset s) = Inr (rv, c')" "conn_ok c'"
        "received cb S (ngtcp2_strm_rx_offset s) fr s1 c2 rv c'"
      using deliver_or_buffer_ok [OF app ok2 st2 [unfolded k_def] p1 f(1,2) e1] rx1 by auto
    obtain s' where s': "strm_of c' k = Some s'" "s_last_rx_offset s' = s_last_rx_offset s1" "s_max_rx_offset s' = s_max_rx_offset s1"
        "strm_has s' NGTCP2_STRM_FLAG_SHUT_RD = strm_has s1 NGTCP2_STRM_FLAG_SHUT_RD" "same_limits c2 c'"
        "gap_set (rob_gap (s_rob s')) = gap_set (rob_gap (s_rob s1)) - {st_offset fr ..< e}"
        "rv = None" "pending S (ngtcp2_strm_rx_offset s') s'"
        "strm_has s' NGTCP2_STRM_FLAG_STOP_SENDING = strm_has s1 NGTCP2_STRM_FLAG_STOP_SENDING"
        "log (c_user_data c') = log (c_user_data c2) @ map Some (slice S (ngtcp2_strm_rx_offset s) (ngtcp2_strm_rx_offset s'))"
      using d(3) rec seg rx1 unfolding received_def Let_def k_def [symmetric] e_def [symmetric] by metis
    have sh': "\<not> strm_has s' NGTCP2_STRM_FLAG_SHUT_RD" using s'(4) sh(1) rob1(3) by (simp add: strm_has_def)
    have "ngtcp2_conn_close_stream_if_shut_rdwr cb c' k NGTCP2_NO_ERROR = Inr (None, c')"
      using close_if_open [OF strm_at_ok [OF conn_inv_map [OF conn_ok_inv [OF d(2)]] s'(1)] sh'] .
    then have "recv_on_stream cb c fr = Inr (None, c')"
      using r False d(1) s'(7) by (simp add: recv_stream_data_def k_def)
    moreover have "credit k s' c'" using cr2 s'(2,3,5) by (simp add: credit_def same_limits_def)
    then have "stream_step S log k {st_offset fr ..< e} s c c'"
      using d(2) s' sh sh' rob1 st1 by (simp add: stream_step_def receiving_def strm_has_def same_limits_def c2_def)
    ultimately show ?thesis by (auto simp: k_def e_def)
  qed
qed

section \<open>Any number of frames\<close>

lemma conn_recv_stream_delivers:
  assumes app: "app_ok cb" and rec: "records cb k log" and ok: "conn_ok c" and s: "strm_of c k = Some s"
    and r: "receiving S s" and cr: "credit k s c" and rd: "bidi_stream k \<or> \<not> conn_local_stream c k"
    and fr: "fits k (s_max_rx_offset s) fr" and seg: "segment_of S (st_offset fr) (st_data fr)"
  shows "\<exists>c'. conn_recv_stream cb c fr = Inr (None, c') \<and> stream_step S log k {st_offset fr ..< fr_end fr} s c c'"
proof -
  have k: "st_stream_id fr = k" and nf: "\<not> st_fin fr" "st_datalen fr \<noteq> 0" using fr by (simp_all add: fits_def)
  have "stream_opened c k" using ok s unfolding conn_ok_def conn_inv_def by blast
  then have ch: "check_stream_id c k = None" by (rule opened_check_stream_id)
  have "conn_recv_stream cb c fr = recv_on_stream cb c fr"
    unfolding conn_recv_stream_def Let_def k find_stream_inv [OF ok] s rbind_simps
    using nf ch rd fits_frame(4) [OF fr] by auto
  then show ?thesis using recv_on_stream_delivers [OF app _ ok _ r _ seg, of log] rec s fr cr k by simp
qed

text \<open>The STREAM frames of the stream as they arrive, in the packets of the peer.\<close>

fun recv_streams :: "'u ngtcp2_conn_callbacks \<Rightarrow> ngtcp2_stream list \<Rightarrow> 'u ngtcp2_conn \<Rightarrow> (rv \<times> 'u ngtcp2_conn) res" where
  "recv_streams cb [] c = Inr (None, c)"
| "recv_streams cb (fr # frs) c = rv_then (conn_recv_stream cb c fr) (recv_streams cb frs)"

definition arrived :: "ngtcp2_stream list \<Rightarrow> u64 set" where
  "arrived frs = (\<Union>fr \<in> set frs. {st_offset fr ..< fr_end fr})"

lemma rx_offset_mono:
  assumes "receiving S s" and "receiving S s'" and "gap_set (rob_gap (s_rob s')) \<subseteq> gap_set (rob_gap (s_rob s))"
  shows "ngtcp2_strm_rx_offset s \<le> ngtcp2_strm_rx_offset s'"
  using rob_inv_first(2) [of S _ "s_rob s'"] rob_inv_first(3) [of S _ "s_rob s"] assms
  unfolding receiving_def pending_def ngtcp2_strm_rx_offset_def by blast

lemma stream_step_trans:
  assumes a: "stream_step S log k R s c c'" and r: "receiving S s"
    and b: "\<And>s'. strm_of c' k = Some s' \<Longrightarrow> stream_step S log k R' s' c' c''"
  shows "stream_step S log k (R \<union> R') s c c''"
proof -
  obtain s' where s': "strm_of c' k = Some s'" "receiving S s'" "c_server c' = c_server c" "s_max_rx_offset s' = s_max_rx_offset s" "c_acktr c' = c_acktr c"
      "gap_set (rob_gap (s_rob s')) = gap_set (rob_gap (s_rob s)) - R"
      "log (c_user_data c') = log (c_user_data c) @ map Some (slice S (ngtcp2_strm_rx_offset s) (ngtcp2_strm_rx_offset s'))"
    using a unfolding stream_step_def by blast
  obtain s'' where s'': "strm_of c'' k = Some s''" "conn_ok c''" "receiving S s''" "credit k s'' c''" "c_server c'' = c_server c'"
      "s_max_rx_offset s'' = s_max_rx_offset s'" "c_acktr c'' = c_acktr c'" "gap_set (rob_gap (s_rob s'')) = gap_set (rob_gap (s_rob s')) - R'"
      "log (c_user_data c'') = log (c_user_data c') @ map Some (slice S (ngtcp2_strm_rx_offset s') (ngtcp2_strm_rx_offset s''))"
    using b [OF s'(1)] unfolding stream_step_def by blast
  have "slice S (ngtcp2_strm_rx_offset s) (ngtcp2_strm_rx_offset s'') =
      slice S (ngtcp2_strm_rx_offset s) (ngtcp2_strm_rx_offset s') @ slice S (ngtcp2_strm_rx_offset s') (ngtcp2_strm_rx_offset s'')"
    using slice_append rx_offset_mono [OF r s'(2)] rx_offset_mono [OF s'(2) s''(3)] s'(6) s''(8) by (metis Diff_subset)
  then show ?thesis using s' s'' by (auto simp: stream_step_def)
qed

lemma recv_streams_delivers:
  assumes app: "app_ok cb" and rec: "records cb k log"
  shows "conn_ok c \<Longrightarrow> strm_of c k = Some s \<Longrightarrow> receiving S s \<Longrightarrow> credit k s c \<Longrightarrow> bidi_stream k \<or> \<not> conn_local_stream c k \<Longrightarrow>
    list_all (\<lambda>fr. fits k (s_max_rx_offset s) fr \<and> segment_of S (st_offset fr) (st_data fr)) frs \<Longrightarrow>
    \<exists>c'. recv_streams cb frs c = Inr (None, c') \<and> stream_step S log k (arrived frs) s c c'"
proof (induction frs arbitrary: c s)
  case Nil
  then show ?case by (simp add: stream_step_def arrived_def)
next
  case (Cons fr frs)
  obtain c1 where c1: "conn_recv_stream cb c fr = Inr (None, c1)" "stream_step S log k {st_offset fr ..< fr_end fr} s c c1"
    using conn_recv_stream_delivers [OF app rec Cons.prems(1-5)] Cons.prems(6) by auto
  obtain s1 where s1: "strm_of c1 k = Some s1" "conn_ok c1" "receiving S s1" "credit k s1 c1" "c_server c1 = c_server c"
      "s_max_rx_offset s1 = s_max_rx_offset s"
    using c1(2) unfolding stream_step_def by blast
  have "bidi_stream k \<or> \<not> conn_local_stream c1 k" using Cons.prems(5) s1(5) by (simp add: conn_local_stream_def)
  then obtain c2 where c2: "recv_streams cb frs c1 = Inr (None, c2)" "stream_step S log k (arrived frs) s1 c1 c2"
    using Cons.IH [OF s1(2,1,3,4)] Cons.prems(6) s1(6) by auto
  have "stream_step S log k ({st_offset fr ..< fr_end fr} \<union> arrived frs) s c c2"
    using stream_step_trans [OF c1(2) Cons.prems(3)] c2(2) s1(1) by simp
  then show ?case using c1(1) c2(1) by (simp add: arrived_def)
qed

end
