(* ===== verification/Conn_Pkt.thy ===== *)
theory Conn_Pkt
  imports Conn_Frame
begin

text \<open>
  Receiving packets: from \<^verbatim>\<open>ngtcp2_conn_recv\<close> down to the handlers of \<open>Conn_Frame\<close>, during and after the handshake
  (\<^verbatim>\<open>lib/ngtcp2_conn.c\<close>).
\<close>

section \<open>Helpers\<close>

text \<open>
  \<^verbatim>\<open>nread = f(...); if (nread < 0) return (int)nread;\<close> for a function that does not change the connection.
\<close>

definition lib_then :: "'a res \<Rightarrow> 's \<Rightarrow> ('a \<Rightarrow> (rv \<times> 's) res) \<Rightarrow> (rv \<times> 's) res" where
  "lib_then r s k =
     (case r of Inl (LibErr e) \<Rightarrow> Inr (Some e, s) | Inl e \<Rightarrow> Inl e | Inr x \<Rightarrow> k x)"

lemma lib_then_simps [simp]:
  "lib_then (Inr x) s k = k x" "lib_then (Inl (LibErr e)) s k = Inr (Some e, s)" "lib_then (Inl AssertFail) s k = Inl AssertFail"
  "lib_then (Inl OutOfBounds) s k = Inl OutOfBounds" "lib_then (Inl OutOfFuel) s k = Inl OutOfFuel"
  by (simp_all add: lib_then_def)

abbreviation has_flag :: "u8 \<Rightarrow> u8 \<Rightarrow> bool" where
  "has_flag x f \<equiv> x AND f \<noteq> 0"

text \<open>\<^verbatim>\<open>len\<close> doubles until it is large enough; the doubling wraps beyond \<open>2 ^ 63\<close>, and would not end then.\<close>

fun grow_len :: "nat \<Rightarrow> nat \<Rightarrow> nat \<Rightarrow> nat res" where
  "grow_len 0 len n = Inl OutOfFuel"
| "grow_len (Suc k) len n = (if len < n then grow_len k (szmul len 2) n else Inr len)"

definition conn_ensure_decrypt_buffer :: "'u ngtcp2_conn \<Rightarrow> nat \<Rightarrow> (rv \<times> 'u ngtcp2_conn) res" where
  "conn_ensure_decrypt_buffer c n =
     (if c_decrypt_buf_len c \<ge> n then Inr (None, c)
      else
        rbind (grow_len 64 (if c_decrypt_buf_len c = 0 then 2048 else szmul (c_decrypt_buf_len c) 2) n) (\<lambda>len.
        let (ok, m) = malloc (c_mem c); c = c\<lparr>c_mem := m\<rparr> in
        if \<not> ok then Inr (Some NGTCP2_ERR_NOMEM, c) else Inr (None, c\<lparr>c_decrypt_buf_len := len\<rparr>)))"

definition conn_buffer_protected_pkt :: "'u ngtcp2_conn \<Rightarrow> bytes \<Rightarrow> u64 \<Rightarrow> rv \<times> 'u ngtcp2_conn" where
  "conn_buffer_protected_pkt c pkt ts =
     (if length (c_buffed_rx_ppkts c) \<ge> NGTCP2_MAX_NUM_BUFFED_RX_PPKTS then (None, c)
      else
        let (rv, pc, m) = ngtcp2_pkt_chain_new (c_mem c) pkt ts; c = c\<lparr>c_mem := m\<rparr> in
        case pc of None \<Rightarrow> (rv, c) | Some pc \<Rightarrow> (None, c\<lparr>c_buffed_rx_ppkts := c_buffed_rx_ppkts c @ [pc]\<rparr>))"

text \<open>
  The callback is given \<^verbatim>\<open>sv\<close>, an array of 16 on the stack, even when the versions did not fit and were decoded
  into \<^verbatim>\<open>p\<close>; then none of its elements has been initialised.
\<close>

definition conn_on_version_negotiation ::
    "'u ngtcp2_conn_callbacks \<Rightarrow> 'u ngtcp2_conn \<Rightarrow> ngtcp2_pkt_hd \<Rightarrow> bytes \<Rightarrow> (rv \<times> 'u ngtcp2_conn) res" where
  "conn_on_version_negotiation cb c h payload =
     (if length payload mod 4 \<noteq> 0 then Inr (Some NGTCP2_ERR_PROTO, c)
      else
        case cb_recv_version_negotiation cb of
          None \<Rightarrow> Inr (None, c)
        | Some f \<Rightarrow>
            let fits = length payload \<le> 64; (ok, m) = (if fits then (True, c_mem c) else malloc (c_mem c)); c = c\<lparr>c_mem := m\<rparr> in
            if \<not> ok then Inr (Some NGTCP2_ERR_NOMEM, c)
            else
              rbind (ngtcp2_pkt_decode_version_negotiation payload) (\<lambda>(vs, nsv).
              let sv = (if fits then map Some vs @ replicate (16 - length vs) None else replicate 16 None) in
              Inr (conn_call (Some (\<lambda>c. f c h sv nsv)) c)))"

section \<open>Stateless reset and Retry\<close>

definition token_diff :: "bytes \<Rightarrow> bytes \<Rightarrow> u8" where
  "token_diff token t = fold (\<lambda>(a, b) rv. rv OR (a XOR b)) (zip token t) 0"

definition conn_on_stateless_reset ::
    "'u ngtcp2_conn_callbacks \<Rightarrow> 'u ngtcp2_conn \<Rightarrow> ngtcp2_pkt_hd \<Rightarrow> bytes \<Rightarrow> (rv \<times> 'u ngtcp2_conn) res" where
  "conn_on_stateless_reset cb c h payload =
     lib_then (ngtcp2_pkt_decode_stateless_reset payload) c (\<lambda>sr.
     let token = set_stateless_reset_token (if c_server c then c_local_settings c else c_remote_settings c) in
     if token_diff token (sr_stateless_reset_token sr) \<noteq> 0 then Inr (Some NGTCP2_ERR_INVALID_ARGUMENT, c)
     else
       let c = c\<lparr>c_state := NGTCP2_CS_DRAINING\<rparr> in
       Inr (conn_call (map_option (\<lambda>f c. f c h sr) (cb_recv_stateless_reset cb)) c))"

text \<open>
  The results of \<^verbatim>\<open>ngtcp2_map_remove\<close>, \<^verbatim>\<open>ngtcp2_acktr_init\<close> and \<^verbatim>\<open>ngtcp2_map_insert\<close> are not looked at. An
  acknowledgement tracker whose initialisation has failed, and a freed stream that is still linked in \<^verbatim>\<open>fc_strms\<close>, are
  dangling: their next use is outside of any object.
\<close>

definition conn_recv_server_stateless_retry ::
    "'u ngtcp2_conn_callbacks \<Rightarrow> 'u ngtcp2_conn \<Rightarrow> (rv \<times> 'u ngtcp2_conn) res" where
  "conn_recv_server_stateless_retry cb c =
     rv_then (Inr (conn_call (cb_recv_server_stateless_retry cb)
                     (c\<lparr>c_flags := c_flags c OR NGTCP2_CONN_FLAG_STATELESS_RETRY\<rparr>))) (\<lambda>c.
     let (ok, m) = malloc (c_mem c); c = c\<lparr>c_mem := m\<rparr> in
     if \<not> ok then Inr (Some NGTCP2_ERR_NOMEM, c)
     else
       case ngtcp2_strm_init (c_mem c) 0 NGTCP2_STRM_FLAG_NONE (ucast (set_max_stream_data (c_local_settings c)))
              NGTCP2_STRM0_MAX_STREAM_DATA of
         Inl e \<Rightarrow> Inr (Some e, c)
       | Inr (strm0, m) \<Rightarrow>
           if 0 \<in> set (c_fc_strms c) then Inl OutOfBounds
           else
             rbind (ngtcp2_map_remove (c_strms c) 0) (\<lambda>(_, strms).
             rbind (ngtcp2_acktr_init m 24) (\<lambda>(_, acktr, m).
             case acktr of
               None \<Rightarrow> Inl OutOfBounds
             | Some acktr \<Rightarrow>
                 rbind (ngtcp2_map_insert m strms \<lparr>key = 0, obj = strm0\<rparr> []) (\<lambda>(_, strms, m).
                 Inr (None, c\<lparr>c_last_tx_pkt_num := 0, c_max_rx_pkt_num := 0, c_strms := strms, c_acktr := acktr,
                              c_rtb := ngtcp2_rtb_init (\<lambda>_. 0), c_mem := m,
                              c_flags := c_flags c AND NOT NGTCP2_CONN_FLAG_CONN_ID_NEGOTIATED,
                              c_state := NGTCP2_CS_CLIENT_INITIAL\<rparr>)))))"

section \<open>Protected packets\<close>

text \<open>The two \<^verbatim>\<open>switch\<close> statements of \<^verbatim>\<open>conn_recv_pkt\<close>.\<close>

definition requires_ack :: "ngtcp2_frame \<Rightarrow> bool" where
  "requires_ack fr = (case fr of FrAck _ \<Rightarrow> False | FrPadding _ \<Rightarrow> False | FrConnectionClose _ \<Rightarrow> False | _ \<Rightarrow> True)"

definition recv_frame ::
    "'u ngtcp2_conn_callbacks \<Rightarrow> ngtcp2_pkt_hd \<Rightarrow> 'u ngtcp2_conn \<Rightarrow> ngtcp2_frame \<Rightarrow> (rv \<times> 'u ngtcp2_conn) res" where
  "recv_frame cb h c fr =
     (case fr of
        FrAck fr \<Rightarrow> conn_recv_ack cb c fr False
      | FrStream fr \<Rightarrow>
          if st_stream_id fr = 0 \<and> has_flag (hd_flags h) NGTCP2_PKT_FLAG_LONG_FORM then Inr (Some NGTCP2_ERR_PROTO, c)
          else conn_recv_stream cb c fr
      | FrRstStream fr \<Rightarrow> conn_recv_rst_stream cb c fr
      | FrStopSending fr \<Rightarrow> conn_recv_stop_sending cb c fr
      | FrMaxStreamData fr \<Rightarrow> conn_recv_max_stream_data c fr
      | FrMaxData fr \<Rightarrow> Inr (None, conn_recv_max_data c fr)
      | FrMaxStreamId fr \<Rightarrow> Inr (conn_recv_max_stream_id cb c fr)
      | FrPing fr \<Rightarrow> conn_recv_ping c fr
      | FrPong fr \<Rightarrow> Inr (conn_recv_pong c fr, c)
      | FrConnectionClose _ \<Rightarrow> Inr (None, conn_recv_connection_close c)
      | FrApplicationClose _ \<Rightarrow> Inr (None, conn_recv_connection_close c)
      | _ \<Rightarrow> Inr (None, c))"

text \<open>
  The loops over the frames of a payload. They return \<^verbatim>\<open>rv\<close>, the value of \<^verbatim>\<open>require_ack\<close> and the connection; each
  round takes at least one byte, so as many rounds as there are bytes are enough.
\<close>

fun recv_pkt_frames ::
    "'u ngtcp2_conn_callbacks \<Rightarrow> ngtcp2_pkt_hd \<Rightarrow> nat \<Rightarrow> bytes \<Rightarrow> bool \<Rightarrow> 'u ngtcp2_conn \<Rightarrow> (rv \<times> bool \<times> 'u ngtcp2_conn) res" where
  "recv_pkt_frames cb h 0 payload req c = Inl OutOfFuel"
| "recv_pkt_frames cb h (Suc k) payload req c =
     (if payload = [] then Inr (None, req, c)
      else
        lib_then (ngtcp2_pkt_decode_frame payload) (req, c) (\<lambda>(fr, nread).
        case fr of
          None \<Rightarrow> Inl OutOfBounds
        | Some fr \<Rightarrow>
            rbind (rv_then (Inr (conn_call_recv_frame cb c h fr)) (\<lambda>c. recv_frame cb h c fr)) (\<lambda>(rv, c).
            let req = (req \<or> requires_ack fr) in
            if rv \<noteq> None then Inr (rv, req, c)
            else recv_pkt_frames cb h k (drop nread payload) req c)))"

text \<open>The end of both: the packet is to be acknowledged.\<close>

definition recv_pkt_done ::
    "ngtcp2_pkt_hd \<Rightarrow> u64 \<Rightarrow> bool \<Rightarrow> rv \<times> bool \<times> 'u ngtcp2_conn \<Rightarrow> (rv \<times> 'u ngtcp2_conn) res" where
  "recv_pkt_done h ts unprot = (\<lambda>(rv, req, c).
     if rv \<noteq> None then Inr (rv, c)
     else ngtcp2_conn_sched_ack (c\<lparr>c_max_rx_pkt_num := max (c_max_rx_pkt_num c) (hd_pkt_num h)\<rparr>) (hd_pkt_num h) req ts unprot)"

definition recv_protected_pkt ::
    "'u ngtcp2_conn_callbacks \<Rightarrow> 'u ngtcp2_conn \<Rightarrow> ngtcp2_pkt_hd \<Rightarrow> bytes \<Rightarrow> bytes \<Rightarrow> ngtcp2_crypto_km option \<Rightarrow> u64 \<Rightarrow>
     (rv \<times> 'u ngtcp2_conn) res" where
  "recv_protected_pkt cb c h payload ad ckm ts =
     rv_then (conn_ensure_decrypt_buffer c (length payload)) (\<lambda>c.
     let long = has_flag (hd_flags h) NGTCP2_PKT_FLAG_LONG_FORM in
     case conn_decrypt_pkt (length payload) payload ad (hd_pkt_num h) ckm (cb_decrypt cb) of
       Inl (LibErr e) \<Rightarrow>
         if e \<noteq> NGTCP2_ERR_TLS_DECRYPT \<or> long then Inr (Some e, c)
         else rbind (conn_on_stateless_reset cb c h payload) (\<lambda>(rv, c). Inr (if rv = None then None else Some e, c))
     | Inl e \<Rightarrow> Inl e
     | Inr plain \<Rightarrow>
         let c = (if long then c else c\<lparr>c_flags := c_flags c OR NGTCP2_CONN_FLAG_RECV_PROTECTED_PKT\<rparr>) in
         if \<not> long \<and> \<not> has_flag (hd_flags h) NGTCP2_PKT_FLAG_OMIT_CONN_ID \<and> c_conn_id c \<noteq> hd_conn_id h then Inr (None, c)
         else rbind (recv_pkt_frames cb h (Suc (length plain)) plain False c) (recv_pkt_done h ts False))"

section \<open>Handshake packets after the handshake\<close>

text \<open>
  The frame is decoded into an \<^verbatim>\<open>ngtcp2_frame\<close>, which has room for one ACK block, not into the larger
  \<^verbatim>\<open>ngtcp2_max_frame\<close> of the other loops.
\<close>

definition overflows_frame :: "ngtcp2_frame \<Rightarrow> bool" where
  "overflows_frame fr = (case fr of FrAck ack \<Rightarrow> 1 < num_blks ack | _ \<Rightarrow> False)"

fun delayed_frames ::
    "'u ngtcp2_conn_callbacks \<Rightarrow> ngtcp2_pkt_hd \<Rightarrow> nat \<Rightarrow> bytes \<Rightarrow> bool \<Rightarrow> 'u ngtcp2_conn \<Rightarrow> (rv \<times> bool \<times> 'u ngtcp2_conn) res" where
  "delayed_frames cb h 0 payload req c = Inl OutOfFuel"
| "delayed_frames cb h (Suc k) payload req c =
     (if payload = [] then Inr (None, req, c)
      else
        lib_then (ngtcp2_pkt_decode_frame payload) (req, c) (\<lambda>(fr, nread).
        case fr of
          None \<Rightarrow> Inl OutOfBounds
        | Some fr \<Rightarrow>
            if overflows_frame fr then Inl OutOfBounds
            else
            rbind (rv_then (Inr (conn_call_recv_frame cb c h fr)) (\<lambda>c.
              case fr of
                FrAck fr \<Rightarrow>
                  if hd_type h = NGTCP2_PKT_INITIAL then Inr (Some NGTCP2_ERR_PROTO, c) else conn_recv_ack cb c fr True
              | FrPadding _ \<Rightarrow> Inr (None, c)
              | FrStream fr \<Rightarrow> conn_recv_stream cb c fr
              | _ \<Rightarrow> Inr (Some NGTCP2_ERR_PROTO, c))) (\<lambda>(rv, c).
            if rv \<noteq> None then Inr (rv, req, c)
            else delayed_frames cb h k (drop nread payload) (req \<or> (case fr of FrStream _ \<Rightarrow> True | _ \<Rightarrow> False)) c)))"

definition conn_recv_delayed_handshake_pkt ::
    "'u ngtcp2_conn_callbacks \<Rightarrow> 'u ngtcp2_conn \<Rightarrow> ngtcp2_pkt_hd \<Rightarrow> bytes \<Rightarrow> bytes \<Rightarrow> u64 \<Rightarrow> (rv \<times> 'u ngtcp2_conn) res" where
  "conn_recv_delayed_handshake_pkt cb c h payload ad ts =
     (if hd_type h = NGTCP2_PKT_INITIAL \<and> (\<not> c_server c \<or> c_client_conn_id c \<noteq> hd_conn_id h) then Inr (None, c)
      else if hd_type h \<noteq> NGTCP2_PKT_INITIAL \<and> c_conn_id c \<noteq> hd_conn_id h then Inr (None, c)
      else
        rv_then (conn_ensure_decrypt_buffer c (length payload)) (\<lambda>c.
        lib_then (conn_decrypt_pkt (length payload) payload ad (hd_pkt_num h) (c_hs_rx_ckm c) (cb_hs_decrypt cb)) c (\<lambda>plain.
        rbind (delayed_frames cb h (Suc (length plain)) plain False c) (recv_pkt_done h ts True))))"

section \<open>\<open>conn_recv_pkt\<close>\<close>

definition pkt_num_bits :: "ngtcp2_pkt_hd \<Rightarrow> nat option" where
  "pkt_num_bits h =
     (if has_flag (hd_flags h) NGTCP2_PKT_FLAG_LONG_FORM then Some 32
      else if hd_type h = NGTCP2_PKT_01 then Some 8
      else if hd_type h = NGTCP2_PKT_02 then Some 16
      else if hd_type h = NGTCP2_PKT_03 then Some 32
      else None)"

text \<open>From the packet number on; the header has \<open>nread\<close> bytes.\<close>

definition recv_pkt_body ::
    "'u ngtcp2_conn_callbacks \<Rightarrow> 'u ngtcp2_conn \<Rightarrow> bytes \<Rightarrow> ngtcp2_pkt_hd \<Rightarrow> nat \<Rightarrow> u64 \<Rightarrow> (rv \<times> 'u ngtcp2_conn) res" where
  "recv_pkt_body cb c pkt h nread ts =
     (let payload = drop nread pkt; ad = take nread pkt in
      case pkt_num_bits h of
        None \<Rightarrow> Inl AssertFail
      | Some bits \<Rightarrow>
          let h = h\<lparr>hd_pkt_num := ngtcp2_pkt_adjust_pkt_num (c_max_rx_pkt_num c) (hd_pkt_num h) bits\<rparr> in
          rv_then (Inr (conn_call_recv_pkt cb c h)) (\<lambda>c.
          if has_flag (hd_flags h) NGTCP2_PKT_FLAG_LONG_FORM then
            if hd_type h = NGTCP2_PKT_INITIAL \<or> hd_type h = NGTCP2_PKT_HANDSHAKE
            then conn_recv_delayed_handshake_pkt cb c h payload ad ts
            else if hd_type h = NGTCP2_PKT_0RTT_PROTECTED then
              if \<not> c_server c \<or> c_client_conn_id c \<noteq> hd_conn_id h \<or> c_version c \<noteq> hd_version h then Inr (None, c)
              else if c_early_ckm c = None then Inr (None, c)
              else recv_protected_pkt cb c h payload ad (c_early_ckm c) ts
            else Inr (None, c)
          else recv_protected_pkt cb c h payload ad (c_rx_ckm c) ts))"

definition conn_recv_pkt ::
    "'u ngtcp2_conn_callbacks \<Rightarrow> 'u ngtcp2_conn \<Rightarrow> bytes \<Rightarrow> u64 \<Rightarrow> (rv \<times> 'u ngtcp2_conn) res" where
  "conn_recv_pkt cb c pkt ts =
     rbind (rd pkt 0) (\<lambda>b0.
     if has_flag b0 NGTCP2_HEADER_FORM_BIT then
       lib_then (ngtcp2_pkt_decode_hd_long pkt) c (\<lambda>(h, nread).
       if hd_version h = 0 then
         if c_server c \<or> c_client_conn_id c \<noteq> hd_conn_id h then Inr (None, c)
         else Inr (conn_call_recv_pkt cb c (h\<lparr>hd_type := NGTCP2_PKT_VERSION_NEGOTIATION, hd_pkt_num := 0\<rparr>))
       else if c_version c \<noteq> hd_version h then Inr (None, c)
       else recv_pkt_body cb c pkt h nread ts)
     else
       lib_then (ngtcp2_pkt_decode_hd_short pkt) c (\<lambda>(h, nread).
       if \<not> set_omit_connection_id (c_local_settings c) \<and> has_flag (hd_flags h) NGTCP2_PKT_FLAG_OMIT_CONN_ID
       then Inr (Some NGTCP2_ERR_PROTO, c)
       else recv_pkt_body cb c pkt h nread ts))"

end
