(* ===== verification/Conn_Handshake.thy ===== *)
theory Conn_Handshake
  imports Conn_Pkt
begin

text \<open>
  Receiving packets during the handshake, and \<^verbatim>\<open>ngtcp2_conn_recv\<close> with its state machine (\<^verbatim>\<open>lib/ngtcp2_conn.c\<close>).
\<close>

abbreviation NGTCP2_PROTO_VER_D8 :: u32 where "NGTCP2_PROTO_VER_D8 \<equiv> 0xff000008"

section \<open>Stream 0 during the handshake\<close>

text \<open>
  A STREAM frame in a handshake packet; \<open>failed\<close> is \<^verbatim>\<open>handshake_failed\<close>. The offset that the peer has reached is
  recorded before it is compared with the limit.
\<close>

definition hs_stream_frame ::
    "'u ngtcp2_conn_callbacks \<Rightarrow> ngtcp2_pkt_hd \<Rightarrow> 'u ngtcp2_conn \<Rightarrow> ngtcp2_stream \<Rightarrow> bool \<Rightarrow> (rv \<times> bool \<times> 'u ngtcp2_conn) res" where
  "hs_stream_frame cb h c fr failed =
     (if st_stream_id fr \<noteq> 0 then Inr (None, failed, c)
      else if st_datalen fr = 0 then Inr (Some NGTCP2_ERR_FRAME_FORMAT, failed, c)
      else if hd_type h = NGTCP2_PKT_INITIAL \<and> st_offset fr \<noteq> 0 then Inr (Some NGTCP2_ERR_PROTO, failed, c)
      else if st_fin fr then Inr (Some NGTCP2_ERR_PROTO, failed, c)
      else
        rbind (strm_at c 0) (\<lambda>strm0.
        let fr_end_offset = st_offset fr + of_nat (st_datalen fr); rx_offset = ngtcp2_strm_rx_offset strm0 in
        if rx_offset \<ge> fr_end_offset then Inr (None, failed, c)
        else
          let strm0 = strm0\<lparr>s_last_rx_offset := max (s_last_rx_offset strm0) fr_end_offset\<rparr>; c = put_strm c 0 strm0 in
          if s_max_rx_offset strm0 < fr_end_offset then Inr (Some NGTCP2_ERR_FLOW_CONTROL, failed, c)
          else if st_offset fr \<le> rx_offset then
            let ncut = unat (rx_offset - st_offset fr) in
            if st_datalen fr < ncut then Inl OutOfBounds
            else
              rbind (rdn (st_data fr) ncut (st_datalen fr - ncut)) (\<lambda>data.
              let datalen = of_nat (st_datalen fr - ncut); rx_offset = rx_offset + datalen;
                  c = put_strm c 0 (strm0\<lparr>s_rob := ngtcp2_rob_remove_prefix (s_rob strm0) rx_offset\<rparr>);
                  (rv, c) = conn_call_recv_stream0_data cb c (map Some data)
              in if rv \<noteq> None \<and> rv \<noteq> Some NGTCP2_ERR_TLS_HANDSHAKE then Inr (rv, failed, c)
                 else
                   rbind (strm_at c 0) (\<lambda>strm0.
                   let failed = (failed \<or> rv = Some NGTCP2_ERR_TLS_HANDSHAKE);
                       c = put_strm c 0 (strm0\<lparr>s_unsent_max_rx_offset := s_unsent_max_rx_offset strm0 + datalen\<rparr>)
                   in if failed then Inr (None, failed, c)
                      else rbind (conn_emit_pending_stream0_data cb c rx_offset) (\<lambda>(rv, c). Inr (rv, failed, c))))
          else if failed then Inr (None, failed, c)
          else
            rbind (ngtcp2_strm_recv_reordering (c_mem c) strm0 fr) (\<lambda>(rv, strm0, m).
            Inr (rv, failed, put_strm (c\<lparr>c_mem := m\<rparr>) 0 strm0))))"

text \<open>The result is \<^verbatim>\<open>rv\<close>, \<^verbatim>\<open>require_ack\<close>, \<^verbatim>\<open>handshake_failed\<close> and the connection.\<close>

definition hs_frame ::
    "'u ngtcp2_conn_callbacks \<Rightarrow> ngtcp2_pkt_hd \<Rightarrow> 'u ngtcp2_conn \<Rightarrow> ngtcp2_frame \<Rightarrow> bool \<Rightarrow> bool \<Rightarrow>
     (rv \<times> bool \<times> bool \<times> 'u ngtcp2_conn) res" where
  "hs_frame cb h c fr req failed =
     (case fr of
        FrAck fr \<Rightarrow>
          if hd_type h = NGTCP2_PKT_INITIAL \<or> hd_type h = NGTCP2_PKT_RETRY then Inr (Some NGTCP2_ERR_PROTO, req, failed, c)
          else rbind (conn_recv_ack cb c fr True) (\<lambda>(rv, c). Inr (rv, req, failed, c))
      | FrPadding _ \<Rightarrow> Inr (if hd_type h = NGTCP2_PKT_RETRY then Some NGTCP2_ERR_PROTO else None, req, failed, c)
      | FrStream fr \<Rightarrow> rbind (hs_stream_frame cb h c fr failed) (\<lambda>(rv, failed, c). Inr (rv, True, failed, c))
      | FrConnectionClose _ \<Rightarrow>
          if hd_type h = NGTCP2_PKT_HANDSHAKE then Inr (None, True, failed, conn_recv_connection_close c)
          else Inr (Some NGTCP2_ERR_PROTO, req, failed, c)
      | _ \<Rightarrow> Inr (Some NGTCP2_ERR_PROTO, req, failed, c))"

fun hs_frames ::
    "'u ngtcp2_conn_callbacks \<Rightarrow> ngtcp2_pkt_hd \<Rightarrow> nat \<Rightarrow> bytes \<Rightarrow> bool \<Rightarrow> bool \<Rightarrow> 'u ngtcp2_conn \<Rightarrow>
     (rv \<times> bool \<times> bool \<times> 'u ngtcp2_conn) res" where
  "hs_frames cb h 0 payload req failed c = Inl OutOfFuel"
| "hs_frames cb h (Suc k) payload req failed c =
     (if payload = [] then Inr (None, req, failed, c)
      else
        lib_then (ngtcp2_pkt_decode_frame payload) (req, failed, c) (\<lambda>(fr, nread).
        case fr of
          None \<Rightarrow> Inl OutOfBounds
        | Some fr \<Rightarrow>
            let (rv, c) = conn_call_recv_frame cb c h fr in
            if rv \<noteq> None then Inr (rv, req, failed, c)
            else
              rbind (hs_frame cb h c fr req failed) (\<lambda>(rv, req, failed, c).
              if rv \<noteq> None then Inr (rv, req, failed, c)
              else hs_frames cb h k (drop nread payload) req failed c)))"

section \<open>\<open>conn_recv_handshake_pkt\<close>\<close>

text \<open>Which packets are processed further: \<open>Inl\<close> is a return from the function.\<close>

definition hs_accept ::
    "'u ngtcp2_conn_callbacks \<Rightarrow> 'u ngtcp2_conn \<Rightarrow> ngtcp2_pkt_hd \<Rightarrow> bytes \<Rightarrow> bytes \<Rightarrow> u64 \<Rightarrow>
     ((rv \<times> 'u ngtcp2_conn) + 'u ngtcp2_conn) res" where
  "hs_accept cb c h pkt payload ts =
     (let negotiated = has_flag (c_flags c) NGTCP2_CONN_FLAG_CONN_ID_NEGOTIATED;
          negotiate = c\<lparr>c_flags := c_flags c OR NGTCP2_CONN_FLAG_CONN_ID_NEGOTIATED\<rparr>
      in
      if c_server c then
        if hd_type h = NGTCP2_PKT_INITIAL then
          if \<not> negotiated then
            rbind (conn_call_recv_client_initial cb (negotiate\<lparr>c_client_conn_id := hd_conn_id h\<rparr>)) (\<lambda>(rv, c).
            Inr (if rv \<noteq> None then Inl (rv, c) else Inr c))
          else Inr (Inr c)
        else if hd_type h = NGTCP2_PKT_HANDSHAKE then
          Inr (if c_conn_id c \<noteq> hd_conn_id h then Inl (None, c) else Inr c)
        else if hd_type h = NGTCP2_PKT_0RTT_PROTECTED then
          Inr (Inl (if \<not> negotiated then conn_buffer_protected_pkt c pkt ts else (None, c)))
        else Inr (Inl (Some NGTCP2_ERR_PROTO, c))
      else
        if hd_type h = NGTCP2_PKT_HANDSHAKE then
          Inr (if negotiated then if c_conn_id c \<noteq> hd_conn_id h then Inl (None, c) else Inr c
               else Inr (negotiate\<lparr>c_conn_id := hd_conn_id h\<rparr>))
        else if hd_type h = NGTCP2_PKT_RETRY then
          rbind (strm_at c 0) (\<lambda>strm0.
          Inr (if s_last_rx_offset strm0 \<noteq> 0 then Inl (Some NGTCP2_ERR_PROTO, c)
               else if c_conn_id c \<noteq> hd_conn_id h then Inl (None, c) else Inr c))
        else if hd_type h = NGTCP2_PKT_VERSION_NEGOTIATION then
          if c_client_conn_id c \<noteq> hd_conn_id h then Inr (Inl (None, c))
          else rbind (conn_on_version_negotiation cb c h payload) (\<lambda>(rv, c).
               Inr (Inl (if rv \<noteq> None then rv else Some NGTCP2_ERR_VERSION_NEGOTIATION, c)))
        else Inr (Inl (Some NGTCP2_ERR_PROTO, c)))"

text \<open>After the loop over the frames.\<close>

definition hs_done ::
    "'u ngtcp2_conn_callbacks \<Rightarrow> ngtcp2_pkt_hd \<Rightarrow> u64 \<Rightarrow> rv \<times> bool \<times> bool \<times> 'u ngtcp2_conn \<Rightarrow> (rv \<times> 'u ngtcp2_conn) res" where
  "hs_done cb h ts = (\<lambda>(rv, req, failed, c).
     if rv \<noteq> None then Inr (rv, c)
     else
       rbind (strm_at c 0) (\<lambda>strm0.
       if (hd_type h = NGTCP2_PKT_INITIAL \<or> hd_type h = NGTCP2_PKT_RETRY) \<and> ngtcp2_rob_first_gap_offset (s_rob strm0) = 0
       then Inr (Some NGTCP2_ERR_PROTO, c)
       else
         let c = c\<lparr>c_max_rx_pkt_num := max (c_max_rx_pkt_num c) (hd_pkt_num h)\<rparr> in
         if hd_type h = NGTCP2_PKT_RETRY then
           if failed then Inr (Some NGTCP2_ERR_PROTO, c) else conn_recv_server_stateless_retry cb c
         else
           rv_then (ngtcp2_conn_sched_ack c (hd_pkt_num h) req ts True) (\<lambda>c.
           Inr (if failed then Some NGTCP2_ERR_TLS_HANDSHAKE else None, c))))"

definition conn_recv_handshake_pkt ::
    "'u ngtcp2_conn_callbacks \<Rightarrow> 'u ngtcp2_conn \<Rightarrow> bytes \<Rightarrow> u64 \<Rightarrow> (rv \<times> 'u ngtcp2_conn) res" where
  "conn_recv_handshake_pkt cb c pkt ts =
     rbind (rd pkt 0) (\<lambda>b0.
     if \<not> has_flag b0 NGTCP2_HEADER_FORM_BIT then
       if c_state c = NGTCP2_CS_SERVER_INITIAL then Inr (None, c) else Inr (conn_buffer_protected_pkt c pkt ts)
     else
       lib_then (ngtcp2_pkt_decode_hd_long pkt) c (\<lambda>(h, nread).
       if c_server c \<and> c_early_ckm c \<noteq> None \<and> c_client_conn_id c = hd_conn_id h \<and> hd_type h = NGTCP2_PKT_0RTT_PROTECTED
       then conn_recv_pkt cb c pkt ts
       else if hd_version h \<noteq> 0 \<and> c_version c \<noteq> hd_version h then Inr (None, c)
       else
         let (h, hdpktlen) =
               (if hd_version h = 0 then (h\<lparr>hd_type := NGTCP2_PKT_VERSION_NEGOTIATION, hd_pkt_num := 0\<rparr>, nread - 4)
                else (h\<lparr>hd_pkt_num := ngtcp2_pkt_adjust_pkt_num (c_max_rx_pkt_num c) (hd_pkt_num h) 32\<rparr>, nread));
             payload = drop hdpktlen pkt; ad = take hdpktlen pkt
         in
         rv_then (Inr (conn_call_recv_pkt cb c h)) (\<lambda>c.
         rbind (hs_accept cb c h pkt payload ts) (\<lambda>r.
         case r of
           Inl (rv, c) \<Rightarrow> Inr (rv, c)
         | Inr c \<Rightarrow>
             rv_then (conn_ensure_decrypt_buffer c (length payload)) (\<lambda>c.
             lib_then (conn_decrypt_pkt (length payload) payload ad (hd_pkt_num h) (c_hs_rx_ckm c) (cb_hs_decrypt cb)) c (\<lambda>plain.
             rbind (hs_frames cb h (Suc (length plain)) plain False False c) (hs_done cb h ts)))))))"

section \<open>\<open>ngtcp2_conn_recv\<close>\<close>

text \<open>
  The loop over \<^verbatim>\<open>buffed_rx_ppkts\<close>; \<open>i\<close> is the position of \<^verbatim>\<open>pc\<close> in the list, which may grow at its end meanwhile. The
  list has at most 16 packets, so one round more is enough.
\<close>

fun process_pkts ::
    "('u ngtcp2_conn \<Rightarrow> bytes \<Rightarrow> (rv \<times> 'u ngtcp2_conn) res) \<Rightarrow> nat \<Rightarrow> nat \<Rightarrow> 'u ngtcp2_conn \<Rightarrow> (rv \<times> 'u ngtcp2_conn) res" where
  "process_pkts recv 0 i c = Inl OutOfFuel"
| "process_pkts recv (Suc k) i c =
     (if i < length (c_buffed_rx_ppkts c) then rv_then (recv c (pc_pkt (c_buffed_rx_ppkts c ! i))) (process_pkts recv k (Suc i))
      else Inr (None, c\<lparr>c_buffed_rx_ppkts := []\<rparr>))"

definition conn_process_buffered_protected_pkt ::
    "'u ngtcp2_conn_callbacks \<Rightarrow> 'u ngtcp2_conn \<Rightarrow> u64 \<Rightarrow> (rv \<times> 'u ngtcp2_conn) res" where
  "conn_process_buffered_protected_pkt cb c ts = process_pkts (\<lambda>c pkt. conn_recv_pkt cb c pkt ts) (Suc NGTCP2_MAX_NUM_BUFFED_RX_PPKTS) 0 c"

definition conn_process_buffered_0rtt_pkt ::
    "'u ngtcp2_conn_callbacks \<Rightarrow> 'u ngtcp2_conn \<Rightarrow> u64 \<Rightarrow> (rv \<times> 'u ngtcp2_conn) res" where
  "conn_process_buffered_0rtt_pkt cb c ts = process_pkts (\<lambda>c pkt. conn_recv_handshake_pkt cb c pkt ts) (Suc NGTCP2_MAX_NUM_BUFFED_RX_PPKTS) 0 c"

definition conn_handshake_completed :: "'u ngtcp2_conn_callbacks \<Rightarrow> 'u ngtcp2_conn \<Rightarrow> (rv \<times> 'u ngtcp2_conn) res" where
  "conn_handshake_completed cb c =
     rv_then (Inr (conn_call_handshake_completed cb c)) (\<lambda>c.
     rv_then (if c_max_local_stream_id_bidi c > 0
              then Inr (conn_call_extend_max_stream_id cb c (c_max_local_stream_id_bidi c)) else Inr (None, c)) (\<lambda>c.
     if c_max_local_stream_id_uni c > 0
     then Inr (conn_call_extend_max_stream_id cb c (c_max_local_stream_id_uni c)) else Inr (None, c)))"

definition ngtcp2_conn_recv ::
    "'u ngtcp2_conn_callbacks \<Rightarrow> 'u ngtcp2_conn \<Rightarrow> bytes \<Rightarrow> u64 \<Rightarrow> (rv \<times> 'u ngtcp2_conn) res" where
  "ngtcp2_conn_recv cb c pkt ts =
     (if length pkt = 0 then Inr (Some NGTCP2_ERR_INVALID_ARGUMENT, c)
      else if c_state c = NGTCP2_CS_CLIENT_WAIT_HANDSHAKE then
        rbind (conn_recv_handshake_pkt cb c pkt ts) (\<lambda>(rv, c).
        if rv = Some NGTCP2_ERR_TLS_HANDSHAKE
        then Inr (None, c\<lparr>c_state := NGTCP2_CS_CLIENT_TLS_HANDSHAKE_FAILED\<rparr>)
        else if rv \<noteq> None then Inr (rv, c)
        else if has_flag (c_flags c) NGTCP2_CONN_FLAG_HANDSHAKE_COMPLETED then
          rv_then (conn_handshake_completed cb c) (\<lambda>c.
          conn_process_buffered_protected_pkt cb (c\<lparr>c_state := NGTCP2_CS_CLIENT_HANDSHAKE_ALMOST_FINISHED\<rparr>) ts)
        else Inr (None, c))
      else if c_state c = NGTCP2_CS_SERVER_INITIAL \<or> c_state c = NGTCP2_CS_SERVER_WAIT_HANDSHAKE then
        rbind (conn_recv_handshake_pkt cb c pkt ts) (\<lambda>(rv, c).
        if rv = Some NGTCP2_ERR_TLS_HANDSHAKE
        then Inr (None, c\<lparr>c_state := NGTCP2_CS_SERVER_TLS_HANDSHAKE_FAILED\<rparr>)
        else if rv \<noteq> None then Inr (rv, c)
        else if c_state c = NGTCP2_CS_SERVER_INITIAL \<and> has_flag (c_flags c) NGTCP2_CONN_FLAG_CONN_ID_NEGOTIATED
        then conn_process_buffered_0rtt_pkt cb c ts
        else if has_flag (c_flags c) NGTCP2_CONN_FLAG_HANDSHAKE_COMPLETED then
          rv_then (conn_handshake_completed cb c) (\<lambda>c.
          let c = c\<lparr>c_state := NGTCP2_CS_POST_HANDSHAKE\<rparr> in
          if \<not> has_flag (c_flags c) NGTCP2_CONN_FLAG_TRANSPORT_PARAM_RECVED
          then Inr (Some NGTCP2_ERR_REQUIRED_TRANSPORT_PARAM, c)
          else conn_process_buffered_protected_pkt cb c ts)
        else Inr (None, c))
      else if c_state c = NGTCP2_CS_CLIENT_TLS_HANDSHAKE_FAILED \<or> c_state c = NGTCP2_CS_SERVER_TLS_HANDSHAKE_FAILED
      then conn_recv_handshake_pkt cb c pkt ts
      else if c_state c = NGTCP2_CS_CLIENT_HANDSHAKE_ALMOST_FINISHED \<or> c_state c = NGTCP2_CS_POST_HANDSHAKE
      then conn_recv_pkt cb c pkt ts
      else Inr (None, c))"

text \<open>The result of \<^verbatim>\<open>ngtcp2_accept\<close> and the header it has stored in \<^verbatim>\<open>dest\<close>.\<close>

definition ngtcp2_accept :: "bytes \<Rightarrow> (int \<times> ngtcp2_pkt_hd option) res" where
  "ngtcp2_accept pkt =
     (if length pkt = 0 then Inr (- 1, None)
      else
        rbind (rd pkt 0) (\<lambda>b0.
        if \<not> has_flag b0 NGTCP2_HEADER_FORM_BIT then Inr (- 1, None)
        else
          case ngtcp2_pkt_decode_hd_long pkt of
            Inl (LibErr _) \<Rightarrow> Inr (- 1, None)
          | Inl e \<Rightarrow> Inl e
          | Inr (h, _) \<Rightarrow>
              if hd_type h = NGTCP2_PKT_INITIAL \<or> hd_type h = NGTCP2_PKT_0RTT_PROTECTED
              then Inr (if hd_version h = NGTCP2_PROTO_VER_D8 then 0 else 1, Some h)
              else Inr (- 1, Some h)))"

end
