(* ===== verification/Conn_Robust.thy ===== *)
theory Conn_Robust
  imports Conn_Order Conn_Handshake
begin

text \<open>
  The frames of a packet: any sequence of bytes from the peer is processed without a failed assertion, without an
  access outside of an object and in bounded time, and leaves the connection in its invariant.
\<close>

section \<open>One frame\<close>

lemma recv_frame_safe:
  assumes app: "app_ok cb" and ok: "conn_ok c" and room: "map_room (c_strms c)"
    and fr: "frame_lengths fr" "frame_fits n fr" and n: "n < 2 ^ 62"
  shows "safe (recv_frame cb h c fr)"
proof (cases fr)
  case (FrStream f)
  then have "stream_frame_ok f" using fr n by (simp add: stream_frame_ok_def)
  then show ?thesis
    using conn_recv_stream_safe [OF app ok room] safe_ok [OF ok] FrStream by (simp add: recv_frame_def)
next
  case (FrAck f)
  then have "wf_frame (FrAck f)" using fr by simp
  then show ?thesis using conn_recv_ack_safe [OF app ok] FrAck by (simp add: recv_frame_def)
next
  case (FrMaxStreamId f)
  then have "msi_max_stream_id f \<le> NGTCP2_MAX_VARINT" using fr by (simp add: word_le_nat_alt)
  then show ?thesis using conn_recv_max_stream_id_safe [OF app ok] FrMaxStreamId by (simp add: recv_frame_def)
next
  case (FrMaxData f)
  have "conn_ok (conn_recv_max_data c f)" using ok by (simp add: conn_recv_max_data_def conn_ok_def)
  then show ?thesis using FrMaxData by (simp add: recv_frame_def safe_ok)
next
  case (FrConnectionClose f)
  have "conn_ok (conn_recv_connection_close c)" using ok by (simp add: conn_recv_connection_close_def conn_ok_def)
  then show ?thesis using FrConnectionClose by (simp add: recv_frame_def safe_ok)
next
  case (FrApplicationClose f)
  have "conn_ok (conn_recv_connection_close c)" using ok by (simp add: conn_recv_connection_close_def conn_ok_def)
  then show ?thesis using FrApplicationClose by (simp add: recv_frame_def safe_ok)
qed (use fr safe_ok [OF ok] conn_recv_rst_stream_safe [OF app ok] conn_recv_stop_sending_safe [OF app ok]
    conn_recv_max_stream_data_safe [OF ok room] conn_recv_ping_safe [OF ok] in \<open>simp_all add: recv_frame_def\<close>)

section \<open>All frames of a payload\<close>

text \<open>The table of streams can take another stream whenever a frame is about to be processed.\<close>

fun frames_room :: "'u ngtcp2_conn_callbacks \<Rightarrow> ngtcp2_pkt_hd \<Rightarrow> nat \<Rightarrow> bytes \<Rightarrow> 'u ngtcp2_conn \<Rightarrow> bool" where
  "frames_room cb h 0 payload c = True"
| "frames_room cb h (Suc k) payload c =
     (payload \<noteq> [] \<longrightarrow>
      (case ngtcp2_pkt_decode_frame payload of
         Inr (Some fr, n) \<Rightarrow>
           (case conn_call_recv_frame cb c h fr of
              (None, c1) \<Rightarrow>
                map_room (c_strms c1) \<and>
                (case recv_frame cb h c1 fr of Inr (None, c2) \<Rightarrow> frames_room cb h k (drop n payload) c2 | _ \<Rightarrow> True)
            | _ \<Rightarrow> True)
       | _ \<Rightarrow> True))"

definition safe_frames :: "(rv \<times> bool \<times> 'u ngtcp2_conn) res \<Rightarrow> bool" where
  "safe_frames r = (\<exists>rv req c. r = Inr (rv, req, c) \<and> conn_inv c \<and> (rv = Some NGTCP2_ERR_CALLBACK_FAILURE \<or> conn_ok c))"

lemma decode_cases:
  assumes "payload \<noteq> []" and "length payload < 2 ^ 62"
  obtains e where "ngtcp2_pkt_decode_frame payload = Inl (LibErr e)"
    | fr n where "ngtcp2_pkt_decode_frame payload = Inr (Some fr, n)" "frame_lengths fr" "frame_fits (length payload) fr"
        "0 < n" "n \<le> length payload"
proof (cases "ngtcp2_pkt_decode_frame payload")
  case (Inl e)
  then show thesis using that(1) decode_frame_fits [of payload] assms by (auto simp: rspec_def)
next
  case (Inr x)
  then show thesis using that(2) decode_frame_fits [of payload] assms by (cases x) (auto simp: rspec_def)
qed

lemma recv_pkt_frames_safe_aux:
  assumes app: "app_ok cb"
  shows "conn_ok c \<Longrightarrow> length payload < k \<Longrightarrow> length payload < 2 ^ 62 \<Longrightarrow> frames_room cb h k payload c \<Longrightarrow>
    safe_frames (recv_pkt_frames cb h k payload req c)"
proof (induction k arbitrary: payload req c)
  case 0
  then show ?case by simp
next
  case (Suc k)
  note ok = Suc.prems(1)
  show ?case
  proof (cases "payload = []")
    case True
    then show ?thesis using ok by (simp add: safe_frames_def)
  next
    case False
    show ?thesis
    proof (rule decode_cases [OF False Suc.prems(3)])
      fix e
      assume "ngtcp2_pkt_decode_frame payload = Inl (LibErr e)"
      then show ?thesis using False ok by (simp add: safe_frames_def)
    next
      fix fr n
      assume d: "ngtcp2_pkt_decode_frame payload = Inr (Some fr, n)" "frame_lengths fr" "frame_fits (length payload) fr"
        "0 < n" "n \<le> length payload"
      obtain rv c1 where c1: "conn_call_recv_frame cb c h fr = (rv, c1)" by (cases "conn_call_recv_frame cb c h fr")
      have ok1: "conn_ok c1" using keeps_ok [OF call_keeps(4) [OF app conn_ok_inv [OF ok]] ok, of h fr] c1 by simp
      show ?thesis
      proof (cases rv)
        case (Some x)
        then show ?thesis using False d(1) c1 ok1 by (simp add: safe_frames_def)
      next
        case None
        then have room: "map_room (c_strms c1)" using Suc.prems(4) False d(1) c1 by simp
        obtain rv2 c2 where r: "recv_frame cb h c1 fr = Inr (rv2, c2)" "conn_inv c2"
            "rv2 = Some NGTCP2_ERR_CALLBACK_FAILURE \<or> conn_ok c2"
          using recv_frame_safe [OF app ok1 room d(2,3) Suc.prems(3)] unfolding safe_def by blast
        show ?thesis
        proof (cases rv2)
          case (Some x)
          then show ?thesis using False d(1) c1 None r by (simp add: safe_frames_def)
        next
          case n2: None
          have "safe_frames (recv_pkt_frames cb h k (drop n payload) (req \<or> requires_ack fr) c2)"
            using Suc.IH [of c2 "drop n payload"] r(1,3) n2 d(1,4,5) Suc.prems False c1 None by auto
          then show ?thesis using False d(1) c1 None r(1) n2 by simp
        qed
      qed
    qed
  qed
qed

end
