(* ===== verification/Conn_Main.thy ===== *)
theory Conn_Main
  imports Conn_Robust
begin

text \<open>
  The properties of the connection: its invariant, the safety of what it does with received frames, and the delivery
  of streams. The application \<open>recorder\<close> serves as the example: it keeps what it is given for each stream.
\<close>

section \<open>An application that records\<close>

type_synonym recording = "u64 \<Rightarrow> u8 option list"

definition record_data :: "recording ngtcp2_conn \<Rightarrow> u64 \<Rightarrow> u8 option list \<Rightarrow> int \<times> recording ngtcp2_conn" where
  "record_data c k data = (0, c\<lparr>c_user_data := (c_user_data c)(k := c_user_data c k @ data)\<rparr>)"

definition recorder :: "recording ngtcp2_conn_callbacks" where
  "recorder =
     \<lparr>cb_send_client_initial = (\<lambda>c _ _. (None, c)), cb_send_client_handshake = (\<lambda>c _. (None, c)),
      cb_recv_client_initial = None, cb_send_server_handshake = (\<lambda>c _ _. (None, c)),
      cb_recv_stream0_data = (\<lambda>c data. record_data c 0 data), cb_send_pkt = None, cb_send_frame = None, cb_recv_pkt = None,
      cb_recv_frame = None, cb_handshake_completed = None, cb_recv_version_negotiation = None,
      cb_hs_encrypt = (\<lambda>_ _ _ _. None), cb_hs_decrypt = (\<lambda>p _ _ _. Inr p), cb_encrypt = (\<lambda>_ _ _ _. None),
      cb_decrypt = (\<lambda>p _ _ _. Inr p), cb_recv_stream_data = Some (\<lambda>c k fin data. record_data c k data),
      cb_acked_stream_data_offset = None, cb_stream_close = None, cb_recv_stateless_reset = None,
      cb_recv_server_stateless_retry = None, cb_extend_max_stream_id = None\<rparr>"

lemma record_data_acts: "acts (\<lambda>c. record_data c k data)"
  using api_step.user_data by (fastforce simp: acts_def record_data_def)

lemma recorder_app: "app_ok recorder"
  using record_data_acts by (simp add: app_ok_def recorder_def acts_def)

lemma recorder_deliver: "deliver recorder c k fin data = (None, c\<lparr>c_user_data := (c_user_data c)(k := c_user_data c k @ data)\<rparr>)"
  by (simp add: deliver_def conn_call_recv_stream0_data_def conn_call_recv_stream_data_def conn_call_def recorder_def record_data_def)

lemma strm_of_user_data [simp]: "strm_of (c\<lparr>c_user_data := u\<rparr>) = strm_of c"
  by (simp add: strm_of_def fun_eq_iff)

lemma recorder_records: "records recorder k (\<lambda>u. u k)"
proof -
  have "conn_call_stream_close recorder c k code = (None, c)" for c code
    by (simp add: conn_call_stream_close_def conn_call_def recorder_def)
  then show ?thesis unfolding records_def recorder_deliver by simp
qed

lemma new_strm_receiving:
  assumes "m \<le> NGTCP2_MAX_VARINT"
  shows "receiving S (new_strm k m t)" "ngtcp2_strm_rx_offset (new_strm k m t) = 0"
    "gap_set (rob_gap (s_rob (new_strm k m t))) = {0 ..< UINT64_MAX}"
proof -
  let ?s = "new_strm k m t"
  show rx: "ngtcp2_strm_rx_offset ?s = 0"
    by (simp add: new_strm_def ngtcp2_strm_rx_offset_def ngtcp2_rob_first_gap_offset_def ngtcp2_range_init_def)
  show "gap_set (rob_gap (s_rob ?s)) = {0 ..< UINT64_MAX}" by (simp add: new_strm_def gap_set_def ngtcp2_range_init_def range_set_def)
  have "ngtcp2_rob_init (\<lambda>_. True) 8192 = Inr (s_rob ?s, \<lambda>_. True)"
    by (simp add: new_strm_def ngtcp2_rob_init_def ngtcp2_rob_gap_new_def malloc_mem_ok mem_ok_True)
  then have "rob_inv S 0 (s_rob ?s)" by (rule rob_init_inv) simp
  moreover have "unat m \<le> unat NGTCP2_MAX_VARINT" using assms by (simp add: word_le_nat_alt)
  ultimately show "receiving S ?s" unfolding receiving_def rx by (simp add: pending_def strm_has_def new_strm_def)
qed

text \<open>The settings of the examples, and a new client connection with them.\<close>

definition example_settings :: ngtcp2_settings where
  "example_settings = zero_settings\<lparr>set_max_stream_data := 1000, set_max_data := 5000\<rparr>"

lemma example_client:
  obtains c :: "recording ngtcp2_conn" where "ngtcp2_conn_client_new (\<lambda>_. True) 7 1 example_settings (\<lambda>_. []) = Inr (None, Some c)" "conn_ok c"
    "map_room (c_strms c)" "strm_of c 0 = Some (new_strm 0 1000 NGTCP2_STRM0_MAX_STREAM_DATA)" "c_user_data c = (\<lambda>_. [])"
    "\<not> c_server c"
proof -
  obtain c :: "recording ngtcp2_conn" where
      c: "ngtcp2_conn_client_new (\<lambda>_. True) 7 1 example_settings (\<lambda>_. []) = Inr (None, Some c)" "conn_ok c" "fresh_conn c"
      "\<not> c_server c" "c_local_settings c = example_settings" "c_user_data c = (\<lambda>_. [])"
    using client_new_ok [OF mem_ok_True, of 7 1 example_settings "\<lambda>_. []"] by blast
  have "strm_of c 0 = Some (new_strm 0 1000 NGTCP2_STRM0_MAX_STREAM_DATA)"
    using c(3,5) by (simp add: fresh_conn_def example_settings_def zero_settings_def)
  moreover have "map_room (c_strms c)" using c(3) by (simp add: fresh_conn_def)
  ultimately show thesis using that [of c] c(1,2,4,6) by blast
qed

section \<open>Delivery\<close>

text \<open>
  C3. Streams are delivered in order. STREAM frames of a stream may arrive in any order, more than once, and overlap; as
  long as they carry parts of one stream \<open>S\<close> within the limits, none is refused, and an application that records what it
  is given has afterwards exactly the bytes of \<open>S\<close> up to the first one that has not arrived, appended to what it had.
\<close>

theorem conn_delivers_stream:
  assumes "app_ok cb" and "records cb k log" and "conn_ok c" and "strm_of c k = Some s" and "receiving S s" and "credit k s c"
    and "bidi_stream k \<or> \<not> conn_local_stream c k"
    and "list_all (\<lambda>fr. fits k (s_max_rx_offset s) fr \<and> segment_of S (st_offset fr) (st_data fr)) frs"
  shows "\<exists>c' s'. recv_streams cb frs c = Inr (None, c') \<and> conn_ok c' \<and> strm_of c' k = Some s' \<and> receiving S s' \<and>
    gap_set (rob_gap (s_rob s')) = gap_set (rob_gap (s_rob s)) - arrived frs \<and>
    ngtcp2_strm_rx_offset s' \<in> gap_set (rob_gap (s_rob s')) \<and>
    (\<forall>x. x < ngtcp2_strm_rx_offset s' \<longrightarrow> x \<notin> gap_set (rob_gap (s_rob s'))) \<and>
    log (c_user_data c') = log (c_user_data c) @ map Some (slice S (ngtcp2_strm_rx_offset s) (ngtcp2_strm_rx_offset s'))"
proof -
  obtain c' where c': "recv_streams cb frs c = Inr (None, c')" "stream_step S log k (arrived frs) s c c'"
    using recv_streams_delivers [OF assms] by blast
  obtain s' where s': "strm_of c' k = Some s'" "conn_ok c'" "receiving S s'"
      "gap_set (rob_gap (s_rob s')) = gap_set (rob_gap (s_rob s)) - arrived frs"
      "log (c_user_data c') = log (c_user_data c) @ map Some (slice S (ngtcp2_strm_rx_offset s) (ngtcp2_strm_rx_offset s'))"
    using c'(2) unfolding stream_step_def by blast
  have rob: "rob_inv S (ngtcp2_strm_rx_offset s') (s_rob s')" using s'(3) by (simp add: receiving_def pending_def)
  have "ngtcp2_strm_rx_offset s' \<in> gap_set (rob_gap (s_rob s'))"
    using rob_inv_first(2) [OF rob] by (simp add: ngtcp2_strm_rx_offset_def)
  moreover have "x \<notin> gap_set (rob_gap (s_rob s'))" if "x < ngtcp2_strm_rx_offset s'" for x
    using rob_inv_first(3) [OF rob, of x] that by (auto simp: ngtcp2_strm_rx_offset_def)
  ultimately show ?thesis using c'(1) s' by blast
qed

abbreviation example_frame :: "u64 \<Rightarrow> u64 \<Rightarrow> bytes \<Rightarrow> ngtcp2_stream" where
  "example_frame k off data \<equiv>
     \<lparr>st_flags = 0, st_fin = False, st_stream_id = k, st_offset = off, st_datalen = length data, st_data = data\<rparr>"

definition example_frames :: "ngtcp2_stream list" where
  "example_frames = [example_frame 0 2 [2, 3], example_frame 0 1 [1, 2], example_frame 0 0 [0, 1]]"

lemma example_frames_ok:
  "list_all (\<lambda>fr. fits 0 1000 fr \<and> segment_of ucast (st_offset fr) (st_data fr)) example_frames"
  "arrived example_frames = {0 ..< 4}"
proof -
  have "segment_of ucast off [a, b] \<longleftrightarrow> a = ucast off \<and> b = ucast (off + 1)" for off :: u64 and a b :: u8
    by (auto simp: segment_of_def less_Suc_eq numeral_2_eq_2)
  then show "list_all (\<lambda>fr. fits 0 1000 fr \<and> segment_of ucast (st_offset fr) (st_data fr)) example_frames"
    by (simp add: example_frames_def fits_def)
  have "{2 ..< 4} \<union> ({1 ..< 3} \<union> {0 ..< 2}) = ({0 ..< 4} :: u64 set)" by (auto simp: word_less_nat_alt word_le_nat_alt)
  then show "arrived example_frames = {0 ..< 4}" by (simp add: arrived_def example_frames_def fr_end_def)
qed

lemma conn_delivers_stream_witness:
  "\<exists>c c'. ngtcp2_conn_client_new (\<lambda>_. True) 7 1 example_settings (\<lambda>_. []) = Inr (None, Some c) \<and>
     recv_streams recorder example_frames c = Inr (None, c') \<and> c_user_data c' 0 = map Some [0, 1, 2, 3]"
proof -
  obtain c :: "recording ngtcp2_conn" where
      c: "ngtcp2_conn_client_new (\<lambda>_. True) 7 1 example_settings (\<lambda>_. []) = Inr (None, Some c)" "conn_ok c"
      "map_room (c_strms c)" "strm_of c 0 = Some (new_strm 0 1000 NGTCP2_STRM0_MAX_STREAM_DATA)" "c_user_data c = (\<lambda>_. [])"
      "\<not> c_server c"
    by (rule example_client)
  let ?s = "new_strm 0 1000 NGTCP2_STRM0_MAX_STREAM_DATA"
  have m: "(1000 :: u64) \<le> NGTCP2_MAX_VARINT" "s_max_rx_offset ?s = 1000" by (simp_all add: new_strm_def)
  note n = new_strm_receiving [OF m(1), where k = 0 and t = NGTCP2_STRM0_MAX_STREAM_DATA]
  obtain c' s' where r: "recv_streams recorder example_frames c = Inr (None, c')"
      "gap_set (rob_gap (s_rob s')) = {0 ..< UINT64_MAX} - {0 ..< 4}"
      "ngtcp2_strm_rx_offset s' \<in> gap_set (rob_gap (s_rob s'))"
      "\<forall>x. x < ngtcp2_strm_rx_offset s' \<longrightarrow> x \<notin> gap_set (rob_gap (s_rob s'))"
      "c_user_data c' 0 = c_user_data c 0 @ map Some (slice ucast 0 (ngtcp2_strm_rx_offset s'))"
    using conn_delivers_stream [OF recorder_app recorder_records c(2,4), of ucast example_frames] n m(2) example_frames_ok
    by (auto simp: credit_def bidi_stream_def)
  have g: "x \<in> gap_set (rob_gap (s_rob s')) \<longleftrightarrow> 4 \<le> x \<and> x < UINT64_MAX" for x
    unfolding r(2) by (auto simp: not_less)
  have "(4 :: u64) < UINT64_MAX" by (simp add: less_UINT64_MAX)
  then have "\<not> 4 < ngtcp2_strm_rx_offset s'" using r(4) g by blast
  moreover have "4 \<le> ngtcp2_strm_rx_offset s'" using r(3) g by blast
  ultimately have "ngtcp2_strm_rx_offset s' = 4" by (meson not_less order_antisym)
  moreover have "slice ucast 0 4 = [0, 1, 2, 3 :: u8]" by (simp add: slice_def upt_rec)
  ultimately show ?thesis using c(1,5) r(1,5) by auto
qed



section \<open>Safety\<close>

text \<open>
  C5. Whatever bytes the peer sends as the payload of a packet, the frames in it are processed safely: no assertion fails,
  nothing is accessed outside of its object, the loop ends, and the connection keeps its invariant, whatever the
  application does in its callbacks through the interface. (When a callback fails, only the list of streams with a
  pending MAX_STREAM_DATA may be left with a stream that is gone.)
\<close>

theorem recv_frames_safe:
  assumes "app_ok cb" and "conn_ok c" and "length payload < 2 ^ 62" and "frames_room cb h (Suc (length payload)) payload c"
  shows "\<exists>rv req' c'. recv_pkt_frames cb h (Suc (length payload)) payload req c = Inr (rv, req', c') \<and> conn_inv c' \<and>
    (rv = Some NGTCP2_ERR_CALLBACK_FAILURE \<or> conn_ok c')"
  using recv_pkt_frames_safe_aux [OF assms(1,2) _ assms(3,4), of req] by (simp add: safe_frames_def)

text \<open>A PING with data.\<close>

definition example_payload :: bytes where
  "example_payload = [0x07, 1, 0xaa]"

lemma example_decode: "ngtcp2_pkt_decode_frame example_payload = Inr (Some (FrPing \<lparr>ping_datalen = 1, ping_data = [0xaa]\<rparr>), 3)"
  by (simp add: example_payload_def ngtcp2_pkt_decode_frame_def as_frame_def ngtcp2_pkt_decode_ping_frame_def rd_def rdn_def
      has_mask_def Let_def)

lemma frames_room_Nil [simp]: "frames_room cb h k [] c"
  by (cases k) simp_all

lemma recv_frames_safe_witness:
  "\<exists>c rv req' c'. ngtcp2_conn_client_new (\<lambda>_. True) 7 1 example_settings (\<lambda>_. []) = Inr (None, Some c) \<and>
     recv_pkt_frames recorder (ngtcp2_pkt_hd_init 0 0x1f 7 1 1) (Suc (length example_payload)) example_payload False c =
       Inr (rv, req', c') \<and> conn_inv c'"
proof -
  obtain c :: "recording ngtcp2_conn" where
      c: "ngtcp2_conn_client_new (\<lambda>_. True) 7 1 example_settings (\<lambda>_. []) = Inr (None, Some c)" "conn_ok c"
      "map_room (c_strms c)" "strm_of c 0 = Some (new_strm 0 1000 NGTCP2_STRM0_MAX_STREAM_DATA)" "c_user_data c = (\<lambda>_. [])"
      "\<not> c_server c"
    by (rule example_client)
  let ?h = "ngtcp2_pkt_hd_init 0 0x1f 7 1 1"
  have r: "conn_call_recv_frame recorder d ?h fr = (None, d)" for d fr
    by (simp add: conn_call_recv_frame_def conn_call_def recorder_def)
  have d: "drop 3 example_payload = []" "length example_payload = 3" "example_payload \<noteq> []" by (simp_all add: example_payload_def)
  have "frames_room recorder ?h (Suc (length example_payload)) example_payload c"
    unfolding frames_room.simps example_decode using c(3) d(1) r by (simp split: sum.splits option.splits)
  then show ?thesis using recv_frames_safe [OF recorder_app c(2), of example_payload ?h False] c(1) d(2) by auto
qed




section \<open>The invariant\<close>



end
