(* ===== verification/Conn_Tx.thy ===== *)
theory Conn_Tx
  imports Conn_Pkt
begin

text \<open>
  Writing packets, first part (\<^verbatim>\<open>lib/ngtcp2_conn.c\<close>): what the functions that write packets share, and
  retransmission. A writer gets the buffer \<^verbatim>\<open>dest\<close> and returns \<^verbatim>\<open>ssize_t\<close>: \<open>Inl e\<close> is an error code, \<open>Inr pkt\<close> the packet
  it has left at the beginning of the buffer, whose length is the number returned (0 for \<open>[]\<close>). What an attempt that
  sends nothing leaves in the buffer is not kept: every packet is written from the beginning again.

  A chain of frames is a list; the position \<^verbatim>\<open>pfrc\<close> splits it into the frames before it, which have been written, and
  the others.
\<close>

section \<open>Helpers\<close>

type_synonym ('a, 'c) outcome = "(lib_error + 'a) \<times> 'c"
type_synonym 'c written = "(bytes, 'c) outcome"

definition wlib :: "'a res \<Rightarrow> 'c \<Rightarrow> ('a \<Rightarrow> ('b, 'c) outcome res) \<Rightarrow> ('b, 'c) outcome res" where
  "wlib r c k = (case r of Inl (LibErr e) \<Rightarrow> Inr (Inl e, c) | Inl e \<Rightarrow> Inl e | Inr x \<Rightarrow> k x)"

definition wthen :: "rv \<times> 'c \<Rightarrow> ('c \<Rightarrow> ('b, 'c) outcome res) \<Rightarrow> ('b, 'c) outcome res" where
  "wthen r k = (case r of (Some e, c) \<Rightarrow> Inr (Inl e, c) | (None, c) \<Rightarrow> k c)"

definition wbind :: "('a, 'c) outcome \<Rightarrow> ('a \<Rightarrow> 'c \<Rightarrow> ('b, 'c) outcome res) \<Rightarrow> ('b, 'c) outcome res" where
  "wbind r k = (case r of (Inl e, c) \<Rightarrow> Inr (Inl e, c) | (Inr x, c) \<Rightarrow> k x c)"

lemma wlib_simps [simp]:
  "wlib (Inr x) c k = k x" "wlib (Inl (LibErr e)) c k = Inr (Inl e, c)" "wlib (Inl AssertFail) c k = Inl AssertFail"
  "wlib (Inl OutOfBounds) c k = Inl OutOfBounds" "wlib (Inl OutOfFuel) c k = Inl OutOfFuel"
  by (simp_all add: wlib_def)

lemma wthen_simps [simp]: "wthen (None, c) k = k c" "wthen (Some e, c) k = Inr (Inl e, c)"
  by (simp_all add: wthen_def)

lemma wbind_simps [simp]: "wbind (Inr x, c) k = k x c" "wbind (Inl e, c) k = Inr (Inl e, c)"
  by (simp_all add: wbind_def)

lemma wlib_Inr: "wlib r c k = Inr (Inr x, c') \<Longrightarrow> \<exists>y. r = Inr y \<and> k y = Inr (Inr x, c')"
  by (auto simp: wlib_def split: sum.splits err.splits)

lemma wthen_Inr: "wthen r k = Inr (Inr x, c') \<Longrightarrow> \<exists>c1. r = (None, c1) \<and> k c1 = Inr (Inr x, c')"
  by (auto simp: wthen_def split: prod.splits option.splits)

lemma wbind_Inr: "wbind r k = Inr (Inr x, c') \<Longrightarrow> \<exists>y c1. r = (Inr y, c1) \<and> k y c1 = Inr (Inr x, c')"
  by (auto simp: wbind_def split: prod.splits sum.splits)

text \<open>\<^verbatim>\<open>ngtcp2_ppe_final(&ppe, NULL)\<close>, with the packet that is in the buffer then.\<close>

definition ppe_packet :: "ngtcp2_ppe \<Rightarrow> bytes res" where
  "ppe_packet ppe = rbind (ngtcp2_ppe_final ppe) (\<lambda>(n, ppe). Inr (take n (b_mem (ppe_buf ppe))))"

definition tx_ctx :: "'u ngtcp2_conn_callbacks \<Rightarrow> 'u ngtcp2_conn \<Rightarrow> ngtcp2_crypto_ctx" where
  "tx_ctx cb c = \<lparr>ctx_ckm = c_tx_ckm c, ctx_aead_overhead = c_aead_overhead c, ctx_encrypt = cb_encrypt cb\<rparr>"

definition hs_ctx :: "'u ngtcp2_conn_callbacks \<Rightarrow> 'u ngtcp2_conn \<Rightarrow> ngtcp2_crypto_ctx" where
  "hs_ctx cb c =
     \<lparr>ctx_ckm = c_hs_tx_ckm c, ctx_aead_overhead = NGTCP2_HANDSHAKE_AEAD_OVERHEAD, ctx_encrypt = cb_hs_encrypt cb\<rparr>"

definition conn_select_pkt_type :: "'u ngtcp2_conn \<Rightarrow> u64 \<Rightarrow> u8" where
  "conn_select_pkt_type c next_num =
     (let n = next_num - largest_acked (c_rtb c) in
      if UINT64_MAX div 2 \<le> next_num then NGTCP2_PKT_03
      else
        let n = n * 2 + 1 in
        if n > 0xffff then NGTCP2_PKT_03 else if n > 0xff then NGTCP2_PKT_02 else NGTCP2_PKT_01)"

text \<open>The header of the next short packet.\<close>

definition short_hd :: "'u ngtcp2_conn \<Rightarrow> ngtcp2_pkt_hd" where
  "short_hd c =
     ngtcp2_pkt_hd_init 0 (conn_select_pkt_type c (c_last_tx_pkt_num c + 1)) (c_conn_id c) (c_last_tx_pkt_num c + 1) (c_version c)"

text \<open>\<^verbatim>\<open>++conn->last_tx_pkt_num\<close>\<close>

definition next_pkt_num :: "'u ngtcp2_conn \<Rightarrow> 'u ngtcp2_conn" where
  "next_pkt_num c = c\<lparr>c_last_tx_pkt_num := c_last_tx_pkt_num c + 1\<rparr>"

text \<open>\<^verbatim>\<open>ngtcp2_acktr_add_ack\<close> on the tracker of the connection.\<close>

definition add_ack :: "'u ngtcp2_conn \<Rightarrow> u64 \<Rightarrow> ngtcp2_ack \<Rightarrow> bool \<Rightarrow> 'u ngtcp2_conn res" where
  "add_ack c num ack unprot =
     rbind (ngtcp2_acktr_add_ack (c_acktr c) num ack unprot) (\<lambda>acktr. Inr (c\<lparr>c_acktr := acktr\<rparr>))"

text \<open>Allocation of an entry of the retransmission buffer and of a frame chain with one frame.\<close>

definition conn_entry_new ::
    "'u ngtcp2_conn \<Rightarrow> ngtcp2_pkt_hd \<Rightarrow> ngtcp2_frame_chain \<Rightarrow> u64 \<Rightarrow> u64 \<Rightarrow> nat \<Rightarrow> u8 \<Rightarrow>
     (lib_error + ngtcp2_rtb_entry) \<times> 'u ngtcp2_conn" where
  "conn_entry_new c h frc ts deadline pktlen flags =
     (let (rv, e, m) = ngtcp2_rtb_entry_new (c_mem c) h frc ts deadline pktlen flags in
      (case e of None \<Rightarrow> Inl NGTCP2_ERR_NOMEM | Some e \<Rightarrow> Inr e, c\<lparr>c_mem := m\<rparr>))"

definition conn_frame_chain_new ::
    "'u ngtcp2_conn \<Rightarrow> ngtcp2_frame \<Rightarrow> (lib_error + ngtcp2_frame_chain) \<times> 'u ngtcp2_conn" where
  "conn_frame_chain_new c fr =
     (let (rv, frc, m) = ngtcp2_frame_chain_new (c_mem c) fr in
      (case frc of None \<Rightarrow> Inl NGTCP2_ERR_NOMEM | Some frc \<Rightarrow> Inr frc, c\<lparr>c_mem := m\<rparr>))"

text \<open>A packet enters the retransmission buffer; its number cannot be in use.\<close>

definition conn_rtb_add :: "'u ngtcp2_conn \<Rightarrow> ngtcp2_rtb_entry \<Rightarrow> (rv \<times> 'u ngtcp2_conn) res" where
  "conn_rtb_add c e =
     (let (rv, rtb, m) = ngtcp2_rtb_add (c_mem c) (c_rtb c) e; c = c\<lparr>c_rtb := rtb, c_mem := m\<rparr> in
      rassert (rv \<noteq> Some NGTCP2_ERR_INVALID_ARGUMENT) (Inr (rv, c)))"

section \<open>Frames of a packet\<close>

text \<open>The local variables of a function that writes several frames: \<^verbatim>\<open>ppe\<close>, \<^verbatim>\<open>send_pkt_cb_called\<close>, \<^verbatim>\<open>pkt_empty\<close>, and the connection.\<close>

record 'u writer =
  w_ppe :: ngtcp2_ppe
  w_called :: bool
  w_empty :: bool
  w_conn :: "'u ngtcp2_conn"

definition conn_ppe_write_frame ::
    "'u ngtcp2_conn_callbacks \<Rightarrow> ngtcp2_pkt_hd \<Rightarrow> ngtcp2_frame \<Rightarrow> 'u writer \<Rightarrow> (rv \<times> ngtcp2_frame \<times> 'u writer) res" where
  "conn_ppe_write_frame cb h fr w =
     (case ngtcp2_ppe_encode_frame (w_ppe w) fr of
        Inl (LibErr e) \<Rightarrow> Inr (Some e, fr, w)
      | Inl e \<Rightarrow> Inl e
      | Inr (ppe, fr) \<Rightarrow>
          let (rv, c) = (if w_called w then (None, w_conn w) else conn_call_send_pkt cb (w_conn w) h);
              w = w\<lparr>w_ppe := ppe, w_conn := c\<rparr>
          in if rv \<noteq> None then Inr (rv, fr, w)
             else let (rv, c) = conn_call_send_frame cb (w_conn w) h fr in Inr (rv, fr, w\<lparr>w_called := True, w_conn := c\<rparr>))"

text \<open>An ACK frame of a protected packet.\<close>

definition write_ack_frame :: "'u ngtcp2_conn_callbacks \<Rightarrow> ngtcp2_pkt_hd \<Rightarrow> ngtcp2_ack \<Rightarrow> 'u writer \<Rightarrow> (rv \<times> 'u writer) res" where
  "write_ack_frame cb h ack w =
     rbind (conn_ppe_write_frame cb h (FrAck ack) w) (\<lambda>(rv, _, w).
     if rv \<noteq> None then Inr (rv, w)
     else
       rbind (add_ack (conn_commit_tx_ack (w_conn w)) (hd_pkt_num h) ack False) (\<lambda>c.
       Inr (None, w\<lparr>w_conn := c, w_empty := False\<rparr>)))"

section \<open>Retransmission\<close>

text \<open>
  The loop of \<^verbatim>\<open>conn_retransmit_unprotected\<close>: the frames that were written, and those from \<^verbatim>\<open>*pfrc\<close> on.
\<close>

fun retransmit_frames ::
    "'u ngtcp2_conn_callbacks \<Rightarrow> ngtcp2_pkt_hd \<Rightarrow> ngtcp2_frame_chain \<Rightarrow> 'u writer \<Rightarrow>
     (rv \<times> ngtcp2_frame_chain \<times> ngtcp2_frame_chain \<times> 'u writer) res" where
  "retransmit_frames cb h [] w = Inr (None, [], [], w)"
| "retransmit_frames cb h (fr # frs) w =
     rbind (conn_ppe_write_frame cb h fr w) (\<lambda>(rv, fr, w).
     if rv \<noteq> None then Inr (rv, [], fr # frs, w)
     else
       rbind (retransmit_frames cb h frs (w\<lparr>w_empty := False\<rparr>)) (\<lambda>(rv, sent, rest, w).
       Inr (rv, fr # sent, rest, w)))"

text \<open>
  The end of both retransmission functions when not all frames fitted: the frames that were sent become a packet of
  their own, the others stay in the old entry.
\<close>

definition retransmit_split ::
    "u8 \<Rightarrow> ngtcp2_pkt_hd \<Rightarrow> u64 \<Rightarrow> ngtcp2_rtb_entry \<Rightarrow> ngtcp2_frame_chain \<Rightarrow> ngtcp2_frame_chain \<Rightarrow> bytes \<Rightarrow>
     'u ngtcp2_conn \<Rightarrow> (ngtcp2_rtb_entry \<times> 'u ngtcp2_conn) written res" where
  "retransmit_split flags h ts e sent rest pkt c =
     (if sent = [] then Inr (Inr pkt, e, next_pkt_num c)
      else
        case conn_entry_new c h [] ts (re_deadline e) (length pkt) flags of
          (Inl x, c) \<Rightarrow> Inr (Inl x, e, c)
        | (Inr nent, c) \<Rightarrow>
            rbind (ngtcp2_rtb_entry_extend_expiry (nent\<lparr>re_count := re_count e\<rparr>) ts) (\<lambda>nent.
            let e = e\<lparr>re_frc := rest\<rparr> in
            rbind (conn_rtb_add c (nent\<lparr>re_frc := sent\<rparr>)) (\<lambda>(rv, c).
            case rv of Some x \<Rightarrow> Inr (Inl x, e, c) | None \<Rightarrow> Inr (Inr pkt, e, next_pkt_num c))))"

text \<open>
  The frames of a packet that was sent unprotected. An ACK is not added. The last statements differ: when all frames
  have been written, the packet number is counted before the packet is encrypted.
\<close>

definition conn_retransmit_unprotected ::
    "'u ngtcp2_conn_callbacks \<Rightarrow> 'u ngtcp2_conn \<Rightarrow> bytes \<Rightarrow> ngtcp2_rtb_entry \<Rightarrow> u64 \<Rightarrow>
     (ngtcp2_rtb_entry \<times> 'u ngtcp2_conn) written res" where
  "conn_retransmit_unprotected cb c dest e ts =
     (let h = (re_hd e)\<lparr>hd_version := c_version c, hd_conn_id := c_conn_id c, hd_pkt_num := c_last_tx_pkt_num c + 1\<rparr> in
      wlib (ngtcp2_ppe_encode_hd (ngtcp2_ppe_init dest (hs_ctx cb c)) h) (e, c) (\<lambda>ppe.
      rbind (retransmit_frames cb h (re_frc e) \<lparr>w_ppe = ppe, w_called = False, w_empty = True, w_conn = c\<rparr>)
        (\<lambda>(rv, sent, rest, w).
      let e = e\<lparr>re_frc := sent @ rest\<rparr>; c = w_conn w; ppe = w_ppe w in
      case rv of
        Some x \<Rightarrow>
          if x \<noteq> NGTCP2_ERR_NOBUF \<or> w_empty w then Inr (Inl x, e, c)
          else wlib (ppe_packet ppe) (e, c) (\<lambda>pkt. retransmit_split NGTCP2_RTB_FLAG_UNPROTECTED h ts e sent rest pkt c)
      | None \<Rightarrow>
          if w_empty w then Inr (Inr [], e, c)
          else
            rbind (ngtcp2_rtb_entry_extend_expiry (e\<lparr>re_hd := h\<rparr>) ts) (\<lambda>e.
            rbind (if hd_type h = NGTCP2_PKT_INITIAL
                   then rbind (ngtcp2_ppe_padding ppe) (\<lambda>(len, ppe).
                        Inr (ppe, conn_call_send_frame cb c h (FrPadding \<lparr>pad_len = len\<rparr>)))
                   else Inr (ppe, None, c)) (\<lambda>(ppe, rv, c).
            case rv of
              Some x \<Rightarrow> Inr (Inl x, e, c)
            | None \<Rightarrow>
                let c = next_pkt_num c in
                wlib (ppe_packet ppe) (e, c) (\<lambda>pkt. Inr (Inr pkt, e, c)))))))"

text \<open>A frame that need not be sent again: its stream is gone, or a newer value has been sent.\<close>

definition frame_stale :: "'u ngtcp2_conn \<Rightarrow> ngtcp2_frame \<Rightarrow> bool res" where
  "frame_stale c fr =
     (case fr of
        FrStream f \<Rightarrow>
          rbind (ngtcp2_conn_find_stream c (st_stream_id f)) (\<lambda>strm.
          Inr (case strm of None \<Rightarrow> True | Some s \<Rightarrow> strm_has s NGTCP2_STRM_FLAG_SENT_RST))
      | FrStopSending f \<Rightarrow>
          rbind (ngtcp2_conn_find_stream c (ss_stream_id f)) (\<lambda>strm.
          Inr (case strm of None \<Rightarrow> True | Some s \<Rightarrow> strm_has s NGTCP2_STRM_FLAG_SHUT_RD))
      | FrMaxStreamId f \<Rightarrow>
          Inr (if bidi_stream (msi_max_stream_id f) then msi_max_stream_id f < c_max_remote_stream_id_bidi c
               else msi_max_stream_id f < c_max_remote_stream_id_uni c)
      | FrMaxStreamData f \<Rightarrow>
          rbind (ngtcp2_conn_find_stream c (msd_stream_id f)) (\<lambda>strm.
          Inr (case strm of None \<Rightarrow> True | Some s \<Rightarrow> msd_max_stream_data f < s_max_rx_offset s))
      | FrMaxData f \<Rightarrow> Inr (md_max_data f < c_max_rx_offset c)
      | _ \<Rightarrow> Inr False)"

definition is_stop_sending :: "ngtcp2_frame \<Rightarrow> bool" where
  "is_stop_sending fr = (case fr of FrStopSending _ \<Rightarrow> True | _ \<Rightarrow> False)"

text \<open>
  The loop of \<^verbatim>\<open>conn_retransmit_protected\<close>. A stale frame is removed and the loop goes on with the next one; only after a
  stale STOP_SENDING the next frame is written at once, unchecked, and when there is none \<^verbatim>\<open>*pfrc\<close> is a null pointer.
\<close>

function retransmit_live_frames ::
    "'u ngtcp2_conn_callbacks \<Rightarrow> ngtcp2_pkt_hd \<Rightarrow> ngtcp2_frame_chain \<Rightarrow> 'u writer \<Rightarrow>
     (rv \<times> ngtcp2_frame_chain \<times> ngtcp2_frame_chain \<times> 'u writer) res" where
  "retransmit_live_frames cb h [] w = Inr (None, [], [], w)"
| "retransmit_live_frames cb h (fr # frs) w =
     rbind (frame_stale (w_conn w) fr) (\<lambda>stale.
     if stale \<and> \<not> is_stop_sending fr then retransmit_live_frames cb h frs w
     else case (if stale then frs else fr # frs) of
       [] \<Rightarrow> Inl OutOfBounds
     | fr # frs \<Rightarrow>
         rbind (conn_ppe_write_frame cb h fr w) (\<lambda>(rv, fr, w).
         if rv \<noteq> None then Inr (rv, [], fr # frs, w)
         else
           rbind (retransmit_live_frames cb h frs (w\<lparr>w_empty := False\<rparr>)) (\<lambda>(rv, sent, rest, w).
           Inr (rv, fr # sent, rest, w))))"
  by pat_completeness auto
termination
  by (relation "measure (\<lambda>(cb, h, frs, w). length frs)") (auto split: if_splits)

text \<open>The ACK that is added to a retransmitted packet when there is room for it.\<close>

definition retransmit_ack :: "'u ngtcp2_conn_callbacks \<Rightarrow> ngtcp2_pkt_hd \<Rightarrow> u64 \<Rightarrow> 'u writer \<Rightarrow> (rv \<times> 'u writer) res" where
  "retransmit_ack cb h ts w =
     rbind (conn_create_ack_frame (w_conn w) ts False) (\<lambda>(rv, ack, c).
     let w = w\<lparr>w_conn := c\<rparr> in
     if rv \<noteq> None then Inr (rv, w)
     else case ack of
       None \<Rightarrow> Inr (None, w)
     | Some ack \<Rightarrow>
         rbind (write_ack_frame cb h ack w) (\<lambda>(rv, w). Inr (if rv = Some NGTCP2_ERR_NOBUF then None else rv, w)))"

definition conn_retransmit_protected ::
    "'u ngtcp2_conn_callbacks \<Rightarrow> 'u ngtcp2_conn \<Rightarrow> bytes \<Rightarrow> ngtcp2_rtb_entry \<Rightarrow> u64 \<Rightarrow>
     (ngtcp2_rtb_entry \<times> 'u ngtcp2_conn) written res" where
  "conn_retransmit_protected cb c dest e ts =
     (let ack_expired = conn_next_ack_expired c ts; num = c_last_tx_pkt_num c + 1;
          h = (re_hd e)\<lparr>hd_version := c_version c, hd_conn_id := c_conn_id c, hd_pkt_num := num,
                hd_type := conn_select_pkt_type c num\<rparr>
      in
      wlib (ngtcp2_ppe_encode_hd (ngtcp2_ppe_init dest (tx_ctx cb c)) h) (e, c) (\<lambda>ppe.
      rbind (retransmit_live_frames cb h (re_frc e) \<lparr>w_ppe = ppe, w_called = False, w_empty = True, w_conn = c\<rparr>)
        (\<lambda>(rv, sent, rest, w).
      let e = e\<lparr>re_frc := sent @ rest\<rparr> in
      if rv \<noteq> None \<and> rv \<noteq> Some NGTCP2_ERR_NOBUF \<or> w_empty w
      then Inr (case rv of Some x \<Rightarrow> Inl x | None \<Rightarrow> Inr [], e, w_conn w)
      else
        rbind (if ack_expired then retransmit_ack cb h ts w else Inr (None, w)) (\<lambda>(rv, w).
        let c = w_conn w; ppe = w_ppe w in
        case rv of
          Some x \<Rightarrow> Inr (Inl x, e, c)
        | None \<Rightarrow>
            if rest = [] then
              rbind (ngtcp2_rtb_entry_extend_expiry (e\<lparr>re_hd := h\<rparr>) ts) (\<lambda>e.
              wlib (ppe_packet ppe) (e, c) (\<lambda>pkt. Inr (Inr pkt, e, next_pkt_num c)))
            else wlib (ppe_packet ppe) (e, c) (\<lambda>pkt. retransmit_split 0 h ts e sent rest pkt c)))))"

text \<open>One lost packet; handshake packets are not sent any more once a protected packet has been decrypted.\<close>

definition retransmit_entry ::
    "'u ngtcp2_conn_callbacks \<Rightarrow> 'u ngtcp2_conn \<Rightarrow> bytes \<Rightarrow> ngtcp2_rtb_entry \<Rightarrow> u64 \<Rightarrow>
     (ngtcp2_rtb_entry \<times> 'u ngtcp2_conn) written res" where
  "retransmit_entry cb c dest e ts =
     (let ty = hd_type (re_hd e) in
      if has_flag (hd_flags (re_hd e)) NGTCP2_PKT_FLAG_LONG_FORM then
        if ty = NGTCP2_PKT_INITIAL \<or> ty = NGTCP2_PKT_HANDSHAKE then
          if has_flag (c_flags c) NGTCP2_CONN_FLAG_RECV_PROTECTED_PKT then Inr (Inr [], e, c)
          else conn_retransmit_unprotected cb c dest e ts
        else Inr (Inl NGTCP2_ERR_INVALID_ARGUMENT, e, c)
      else if ty = NGTCP2_PKT_01 \<or> ty = NGTCP2_PKT_02 \<or> ty = NGTCP2_PKT_03
      then conn_retransmit_protected cb c dest e ts
      else Inr (Inl NGTCP2_ERR_INVALID_ARGUMENT, e, c))"

text \<open>The entry goes back into the buffer; \<open>r\<close> is what is returned then.\<close>

definition readd :: "'u ngtcp2_conn \<Rightarrow> ngtcp2_rtb_entry \<Rightarrow> lib_error + bytes \<Rightarrow> 'u ngtcp2_conn written res" where
  "readd c e r =
     (let (rv, rtb, m) = ngtcp2_rtb_add (c_mem c) (c_rtb c) e; c = c\<lparr>c_rtb := rtb, c_mem := m\<rparr> in
      case rv of
        None \<Rightarrow> Inr (r, c)
      | Some x \<Rightarrow> rassert (ngtcp2_err_fatal (err_code x)) (Inr (Inl x, c)))"

fun retransmit_loop ::
    "'u ngtcp2_conn_callbacks \<Rightarrow> nat \<Rightarrow> 'u ngtcp2_conn \<Rightarrow> bytes \<Rightarrow> u64 \<Rightarrow> 'u ngtcp2_conn written res" where
  "retransmit_loop cb 0 c dest ts = Inl OutOfFuel"
| "retransmit_loop cb (Suc k) c dest ts =
     (case ngtcp2_rtb_top (c_rtb c) of
        None \<Rightarrow> Inr (Inr [], c)
      | Some e \<Rightarrow>
          if re_expiry e > ts then Inr (Inr [], c)
          else
            rbind (ngtcp2_rtb_pop (c_rtb c)) (\<lambda>rtb.
            let c = c\<lparr>c_rtb := rtb\<rparr> in
            if re_deadline e \<le> ts then Inr (Inl NGTCP2_ERR_PKT_TIMEOUT, c)
            else
              rbind (retransmit_entry cb c dest e ts) (\<lambda>(r, e, c).
              case r of
                Inl x \<Rightarrow> if x = NGTCP2_ERR_NOBUF then readd c e (Inl x) else Inr (Inl x, c)
              | Inr pkt \<Rightarrow>
                  if pkt = [] then retransmit_loop cb k c dest ts
                  else if re_frc e = [] then Inr (Inr pkt, c)
                  else readd c (e\<lparr>re_pktlen := length pkt\<rparr>) (Inr pkt))))"

text \<open>Every pass takes a packet from the buffer, so one pass more than it has packets is enough.\<close>

definition conn_retransmit ::
    "'u ngtcp2_conn_callbacks \<Rightarrow> 'u ngtcp2_conn \<Rightarrow> bytes \<Rightarrow> u64 \<Rightarrow> 'u ngtcp2_conn written res" where
  "conn_retransmit cb c dest ts = retransmit_loop cb (Suc (length (rtb_head (c_rtb c)))) c dest ts"

end
