(* ===== verification/Conn_Write.thy ===== *)
theory Conn_Write
  imports Conn_Tx
begin

text \<open>
  Writing packets, second part (\<^verbatim>\<open>lib/ngtcp2_conn.c\<close>): the handshake, packets with queued frames, streams, closing the
  connection, and the functions of the interface that choose between them.
\<close>

section \<open>Handshake packets\<close>

text \<open>\<^verbatim>\<open>conn_write_handshake_pkt\<close> sends from \<^verbatim>\<open>tx_buf\<close> of stream 0. First its ACK frame.\<close>

definition handshake_ack ::
    "'u ngtcp2_conn_callbacks \<Rightarrow> 'u ngtcp2_conn \<Rightarrow> ngtcp2_pkt_hd \<Rightarrow> u64 \<Rightarrow> ngtcp2_ppe \<Rightarrow> (ngtcp2_ppe, 'u ngtcp2_conn) outcome res" where
  "handshake_ack cb c h ts ppe =
     rbind (conn_create_ack_frame c ts True) (\<lambda>(rv, ack, c).
     wthen (rv, c) (\<lambda>c.
     case ack of
       None \<Rightarrow> Inr (Inr ppe, c)
     | Some ack \<Rightarrow>
         wlib (ngtcp2_ppe_encode_frame ppe (FrAck ack)) c (\<lambda>(ppe, _).
         wthen (conn_call_send_frame cb c h (FrAck ack)) (\<lambda>c.
         rbind (add_ack (conn_commit_tx_ack c) (hd_pkt_num h) ack True) (\<lambda>c. Inr (Inr ppe, c))))))"

text \<open>The STREAM frame with the next \<open>n\<close> bytes of the buffer.\<close>

definition handshake_stream ::
    "'u ngtcp2_conn_callbacks \<Rightarrow> 'u ngtcp2_conn \<Rightarrow> ngtcp2_pkt_hd \<Rightarrow> nat \<Rightarrow> ngtcp2_ppe \<Rightarrow>
     (ngtcp2_ppe \<times> ngtcp2_frame_chain, 'u ngtcp2_conn) outcome res" where
  "handshake_stream cb c h n ppe =
     (if n = 0 then Inr (Inr (ppe, []), c)
      else
        rbind (strm_at c 0) (\<lambda>strm0.
        rbind (rdn (b_mem (s_tx_buf strm0)) (b_pos (s_tx_buf strm0)) n) (\<lambda>data.
        wbind (conn_frame_chain_new c (FrStream \<lparr>st_flags = 0, st_fin = False, st_stream_id = 0, st_offset = s_tx_offset strm0,
                 st_datalen = n, st_data = data\<rparr>)) (\<lambda>frc c.
        wlib (ngtcp2_ppe_encode_frame ppe (List.hd frc)) c (\<lambda>(ppe, fr).
        wthen (conn_call_send_frame cb c h fr) (\<lambda>c.
        rbind (strm_at c 0) (\<lambda>strm0.
        let buf = s_tx_buf strm0 in
        Inr (Inr (ppe, [fr]), put_strm c 0 (strm0\<lparr>s_tx_buf := buf\<lparr>b_pos := b_pos buf + n\<rparr>,
               s_tx_offset := s_tx_offset strm0 + of_nat n\<rparr>)))))))))"

text \<open>An Initial packet is padded; when the handshake has failed a CONNECTION_CLOSE is added to others.\<close>

definition handshake_end ::
    "'u ngtcp2_conn_callbacks \<Rightarrow> 'u ngtcp2_conn \<Rightarrow> ngtcp2_pkt_hd \<Rightarrow> ngtcp2_frame_chain \<Rightarrow> ngtcp2_ppe \<Rightarrow>
     (ngtcp2_ppe \<times> ngtcp2_frame_chain, 'u ngtcp2_conn) outcome res" where
  "handshake_end cb c h frc ppe =
     (if hd_type h = NGTCP2_PKT_INITIAL then
        rbind (ngtcp2_ppe_padding ppe) (\<lambda>(len, ppe).
        if len > 0 then wthen (conn_call_send_frame cb c h (FrPadding \<lparr>pad_len = len\<rparr>)) (\<lambda>c. Inr (Inr (ppe, frc), c))
        else Inr (Inr (ppe, frc), c))
      else if c_state c = NGTCP2_CS_CLIENT_TLS_HANDSHAKE_FAILED \<or> c_state c = NGTCP2_CS_SERVER_TLS_HANDSHAKE_FAILED then
        wbind (conn_frame_chain_new c (FrConnectionClose \<lparr>cc_error_code = NGTCP2_TLS_HANDSHAKE_FAILED, cc_reasonlen = 0, cc_reason = []\<rparr>))
          (\<lambda>nfrc c.
        wlib (ngtcp2_ppe_encode_frame ppe (List.hd nfrc)) c (\<lambda>(ppe, fr).
        wthen (conn_call_send_frame cb c h fr) (\<lambda>c. Inr (Inr (ppe, frc @ [fr]), c))))
      else Inr (Inr (ppe, frc), c))"

text \<open>
  The length of the data is taken from what is left of the packet, less the overhead of a STREAM frame; the subtraction
  wraps when less is left, and the frame is then refused by the encoder.
\<close>

definition handshake_data ::
    "'u ngtcp2_conn_callbacks \<Rightarrow> 'u ngtcp2_conn \<Rightarrow> ngtcp2_pkt_hd \<Rightarrow> u64 \<Rightarrow> ngtcp2_ppe \<Rightarrow> 'u ngtcp2_conn written res" where
  "handshake_data cb c h ts ppe =
     rbind (strm_at c 0) (\<lambda>strm0.
     let len = ngtcp2_buf_len (s_tx_buf strm0); n = min len (szsub (ngtcp2_ppe_left ppe) NGTCP2_STREAM_OVERHEAD) in
     if n \<noteq> len \<and> hd_type h = NGTCP2_PKT_INITIAL then Inr (Inl NGTCP2_ERR_NOBUF, c)
     else
       rbind (handshake_stream cb c h n ppe) (\<lambda>r.
       wbind r (\<lambda>(ppe, frc) c.
       rbind (handshake_end cb c h frc ppe) (\<lambda>r.
       wbind r (\<lambda>(ppe, frc) c.
       wlib (ppe_packet ppe) c (\<lambda>pkt.
       if frc = [] then Inr (Inr pkt, next_pkt_num c)
       else
         wbind (conn_entry_new c h frc ts (ts + NGTCP2_PKT_DEADLINE_PERIOD) (length pkt) NGTCP2_RTB_FLAG_UNPROTECTED) (\<lambda>e c.
         rbind (conn_rtb_add c e) (\<lambda>r. wthen r (\<lambda>c. Inr (Inr pkt, next_pkt_num c))))))))))"

definition conn_write_handshake_pkt ::
    "'u ngtcp2_conn_callbacks \<Rightarrow> 'u ngtcp2_conn \<Rightarrow> bytes \<Rightarrow> u8 \<Rightarrow> u64 \<Rightarrow> 'u ngtcp2_conn written res" where
  "conn_write_handshake_pkt cb c dest ty ts =
     (let ack_expired = conn_next_ack_expired c ts;
          h = ngtcp2_pkt_hd_init NGTCP2_PKT_FLAG_LONG_FORM ty (c_conn_id c) (c_last_tx_pkt_num c + 1) (c_version c)
      in
      wlib (ngtcp2_ppe_encode_hd (ngtcp2_ppe_init dest (hs_ctx cb c)) h) c (\<lambda>ppe.
      wthen (conn_call_send_pkt cb c h) (\<lambda>c.
      if ty \<noteq> NGTCP2_PKT_INITIAL \<and> ack_expired then
        rbind (handshake_ack cb c h ts ppe) (\<lambda>r.
        wbind r (\<lambda>ppe c.
        if ngtcp2_ppe_left ppe < NGTCP2_STREAM_OVERHEAD + 1
        then let c = next_pkt_num c in wlib (ppe_packet ppe) c (\<lambda>pkt. Inr (Inr pkt, c))
        else handshake_data cb c h ts ppe))
      else handshake_data cb c h ts ppe)))"

definition conn_write_handshake_ack_pkt ::
    "'u ngtcp2_conn_callbacks \<Rightarrow> 'u ngtcp2_conn \<Rightarrow> bytes \<Rightarrow> u8 \<Rightarrow> u64 \<Rightarrow> 'u ngtcp2_conn written res" where
  "conn_write_handshake_ack_pkt cb c dest ty ts =
     (if \<not> conn_next_ack_expired c ts then Inr (Inr [], c)
      else
        rbind (conn_create_ack_frame c ts True) (\<lambda>(rv, ack, c).
        wthen (rv, c) (\<lambda>c.
        case ack of
          None \<Rightarrow> Inr (Inr [], c)
        | Some ack \<Rightarrow>
            let h = ngtcp2_pkt_hd_init NGTCP2_PKT_FLAG_LONG_FORM ty (c_conn_id c) (c_last_tx_pkt_num c + 1) (c_version c) in
            wlib (ngtcp2_ppe_encode_hd (ngtcp2_ppe_init dest (hs_ctx cb c)) h) c (\<lambda>ppe.
            wthen (conn_call_send_pkt cb c h) (\<lambda>c.
            wlib (ngtcp2_ppe_encode_frame ppe (FrAck ack)) c (\<lambda>(ppe, _).
            wthen (conn_call_send_frame cb c h (FrAck ack)) (\<lambda>c.
            rbind (add_ack (conn_commit_tx_ack c) (hd_pkt_num h) ack True) (\<lambda>c.
            let c = next_pkt_num c in wlib (ppe_packet ppe) c (\<lambda>pkt. Inr (Inr pkt, c))))))))))"

section \<open>The handshake of client and server\<close>

text \<open>\<^verbatim>\<open>ngtcp2_buf_init(tx_buf, payload, payloadlen); tx_buf->last += payloadlen\<close>\<close>

definition set_tx_buf :: "'u ngtcp2_conn \<Rightarrow> bytes \<Rightarrow> 'u ngtcp2_conn res" where
  "set_tx_buf c payload =
     rbind (strm_at c 0) (\<lambda>strm0.
     Inr (put_strm c 0 (strm0\<lparr>s_tx_buf := (ngtcp2_buf_init payload)\<lparr>b_last := length payload\<rparr>\<rparr>)))"

definition conn_write_client_initial ::
    "'u ngtcp2_conn_callbacks \<Rightarrow> 'u ngtcp2_conn \<Rightarrow> bytes \<Rightarrow> u64 \<Rightarrow> 'u ngtcp2_conn written res" where
  "conn_write_client_initial cb c dest ts =
     (let (r, c) = cb_send_client_initial cb c 0 (\<not> has_flag (c_flags c) NGTCP2_CONN_FLAG_STATELESS_RETRY) in
      case r of
        None \<Rightarrow> Inr (Inl NGTCP2_ERR_CALLBACK_FAILURE, c)
      | Some (num, payload) \<Rightarrow>
          if payload = [] then Inr (Inl NGTCP2_ERR_CALLBACK_FAILURE, c)
          else
            rbind (set_tx_buf c payload) (\<lambda>c.
            let c = (if \<not> has_flag (c_flags c) NGTCP2_CONN_FLAG_STATELESS_RETRY then c\<lparr>c_last_tx_pkt_num := num - 1\<rparr> else c) in
            conn_write_handshake_pkt cb c dest NGTCP2_PKT_INITIAL ts))"

definition conn_write_client_handshake ::
    "'u ngtcp2_conn_callbacks \<Rightarrow> 'u ngtcp2_conn \<Rightarrow> bytes \<Rightarrow> u64 \<Rightarrow> 'u ngtcp2_conn written res" where
  "conn_write_client_handshake cb c dest ts =
     rbind (strm_at c 0) (\<lambda>strm0.
     if ngtcp2_buf_len (s_tx_buf strm0) = 0 then
       let (r, c) = cb_send_client_handshake cb c 0 in
       case r of
         None \<Rightarrow> Inr (Inl NGTCP2_ERR_CALLBACK_FAILURE, c)
       | Some payload \<Rightarrow>
           if payload = [] then
             if c_state c = NGTCP2_CS_CLIENT_TLS_HANDSHAKE_FAILED then Inr (Inl NGTCP2_ERR_TLS_HANDSHAKE, c)
             else conn_write_handshake_ack_pkt cb c dest NGTCP2_PKT_HANDSHAKE ts
           else rbind (set_tx_buf c payload) (\<lambda>c. conn_write_handshake_pkt cb c dest NGTCP2_PKT_HANDSHAKE ts)
     else conn_write_handshake_pkt cb c dest NGTCP2_PKT_HANDSHAKE ts)"

text \<open>When there is data left in the buffer the packet number of the first packet is 0.\<close>

definition conn_write_server_handshake ::
    "'u ngtcp2_conn_callbacks \<Rightarrow> 'u ngtcp2_conn \<Rightarrow> bytes \<Rightarrow> bool \<Rightarrow> u64 \<Rightarrow> 'u ngtcp2_conn written res" where
  "conn_write_server_handshake cb c dest initial ts =
     (let start = (\<lambda>c num.
            let c = (if initial then c\<lparr>c_last_tx_pkt_num := num - 1, c_rtb := (c_rtb c)\<lparr>largest_acked := num - 1\<rparr>\<rparr> else c) in
            conn_write_handshake_pkt cb c dest NGTCP2_PKT_HANDSHAKE ts)
      in
      rbind (strm_at c 0) (\<lambda>strm0.
      if ngtcp2_buf_len (s_tx_buf strm0) = 0 then
        let (r, c) = cb_send_server_handshake cb c 0 initial in
        case r of
          None \<Rightarrow> Inr (Inl NGTCP2_ERR_CALLBACK_FAILURE, c)
        | Some (num, payload) \<Rightarrow>
            if payload = [] then
              if initial then Inr (Inl NGTCP2_ERR_CALLBACK_FAILURE, c)
              else if c_state c = NGTCP2_CS_SERVER_TLS_HANDSHAKE_FAILED then Inr (Inl NGTCP2_ERR_TLS_HANDSHAKE, c)
              else conn_write_handshake_ack_pkt cb c dest NGTCP2_PKT_HANDSHAKE ts
            else rbind (set_tx_buf c payload) (\<lambda>c. start c num)
      else start c 0))"

section \<open>Packets with queued frames\<close>

text \<open>
  The position \<^verbatim>\<open>pfrc\<close> in \<^verbatim>\<open>conn->frq\<close>, while callbacks may put frames in front of the queue: \<open>None\<close> is the address of
  \<^verbatim>\<open>conn->frq\<close> itself, \<open>Some n\<close> the link to the last \<open>n\<close> frames. The encoder changes STREAM frames only, which are never
  queued here.
\<close>

definition frq_rest :: "'u ngtcp2_conn \<Rightarrow> nat option \<Rightarrow> ngtcp2_frame_chain" where
  "frq_rest c p = (case p of None \<Rightarrow> c_frq c | Some n \<Rightarrow> drop (length (c_frq c) - n) (c_frq c))"

definition frq_sent :: "'u ngtcp2_conn \<Rightarrow> nat option \<Rightarrow> ngtcp2_frame_chain" where
  "frq_sent c p = (case p of None \<Rightarrow> [] | Some n \<Rightarrow> take (length (c_frq c) - n) (c_frq c))"

definition frq_drop :: "'u ngtcp2_conn \<Rightarrow> nat option \<Rightarrow> 'u ngtcp2_conn" where
  "frq_drop c p = c\<lparr>c_frq := frq_sent c p @ tl (frq_rest c p)\<rparr>"

definition frq_advance :: "'u ngtcp2_conn \<Rightarrow> nat option \<Rightarrow> nat option" where
  "frq_advance c p = Some (length (frq_rest c p) - 1)"

definition frq_stale :: "'u ngtcp2_conn \<Rightarrow> ngtcp2_frame \<Rightarrow> bool res" where
  "frq_stale c fr =
     (case fr of
        FrRstStream f \<Rightarrow>
          rbind (ngtcp2_conn_find_stream c (rst_stream_id f)) (\<lambda>strm.
          Inr (strm = None \<and> rst_app_error_code f \<noteq> NGTCP2_STOPPING))
      | FrStopSending f \<Rightarrow>
          rbind (ngtcp2_conn_find_stream c (ss_stream_id f)) (\<lambda>strm.
          Inr (case strm of None \<Rightarrow> True | Some s \<Rightarrow> strm_has s NGTCP2_STRM_FLAG_SHUT_RD))
      | _ \<Rightarrow> Inr False)"

lemma drop_suffix_pos: "drop (length xs - n) xs = y # ys \<Longrightarrow> 0 < n"
  by (cases n) simp_all

text \<open>The loop over the queue. A callback that fails makes the assertion fail.\<close>

function write_frq ::
    "'u ngtcp2_conn_callbacks \<Rightarrow> ngtcp2_pkt_hd \<Rightarrow> nat option \<Rightarrow> 'u writer \<Rightarrow> (rv \<times> nat option \<times> 'u writer) res" where
  "write_frq cb h p w =
     (case frq_rest (w_conn w) p of
        [] \<Rightarrow> Inr (None, p, w)
      | fr # _ \<Rightarrow>
          rbind (frq_stale (w_conn w) fr) (\<lambda>stale.
          if stale then write_frq cb h (map_option (\<lambda>n. n - 1) p) (w\<lparr>w_conn := frq_drop (w_conn w) p\<rparr>)
          else
            rbind (conn_ppe_write_frame cb h fr w) (\<lambda>(rv, _, w).
            if rv \<noteq> None then rassert (rv = Some NGTCP2_ERR_NOBUF) (Inr (rv, p, w))
            else write_frq cb h (frq_advance (w_conn w) p) (w\<lparr>w_empty := False\<rparr>))))"
  by pat_completeness auto
termination
  by (relation "inv_image (less_than <*lex*> less_than)
        (\<lambda>(cb, h, p, w). (if p = None then 1 else 0 :: nat, case p of None \<Rightarrow> length (c_frq (w_conn w)) | Some n \<Rightarrow> n))")
    (auto simp: frq_rest_def frq_sent_def frq_drop_def frq_advance_def split: option.splits dest: drop_suffix_pos)

text \<open>A MAX_STREAM_ID frame at the end, for bidirectional or unidirectional streams.\<close>

definition write_max_stream_id ::
    "'u ngtcp2_conn_callbacks \<Rightarrow> ngtcp2_pkt_hd \<Rightarrow> bool \<Rightarrow> rv \<Rightarrow> nat option \<Rightarrow> 'u writer \<Rightarrow> (rv \<times> nat option, 'u writer) outcome res" where
  "write_max_stream_id cb h bidi rv p w =
     (let c = w_conn w;
          unsent = (if bidi then c_unsent_max_remote_stream_id_bidi c else c_unsent_max_remote_stream_id_uni c);
          limit = (if bidi then c_max_remote_stream_id_bidi c else c_max_remote_stream_id_uni c)
      in
      if rv \<noteq> Some NGTCP2_ERR_NOBUF \<and> frq_rest c p = [] \<and> unsent > limit then
        case conn_frame_chain_new c (FrMaxStreamId \<lparr>msi_max_stream_id = unsent\<rparr>) of
          (Inl x, c) \<Rightarrow> Inr (Inl x, w\<lparr>w_conn := c\<rparr>)
        | (Inr nfrc, c) \<Rightarrow>
            let c = c\<lparr>c_frq := c_frq c @ nfrc\<rparr>; p = map_option (\<lambda>_. 1) p;
                c = (if bidi then c\<lparr>c_max_remote_stream_id_bidi := unsent\<rparr> else c\<lparr>c_max_remote_stream_id_uni := unsent\<rparr>)
            in
            rbind (conn_ppe_write_frame cb h (List.hd nfrc) (w\<lparr>w_conn := c\<rparr>)) (\<lambda>(rv, _, w).
            if rv \<noteq> None then rassert (rv = Some NGTCP2_ERR_NOBUF) (Inr (Inr (rv, p), w))
            else Inr (Inr (None, frq_advance (w_conn w) p), w\<lparr>w_empty := False\<rparr>))
      else Inr (Inr (rv, p), w))"

text \<open>The end of \<^verbatim>\<open>conn_write_pkt\<close>: encryption, and the frames that were sent wait for their acknowledgement.\<close>

definition write_pkt_end ::
    "ngtcp2_pkt_hd \<Rightarrow> u64 \<Rightarrow> rv \<Rightarrow> nat option \<Rightarrow> 'u writer \<Rightarrow> 'u ngtcp2_conn written res" where
  "write_pkt_end h ts rv p w =
     (let c = w_conn w in
      if w_empty w then Inr (case rv of Some x \<Rightarrow> Inl x | None \<Rightarrow> Inr [], c)
      else
        wlib (ppe_packet (w_ppe w)) c (\<lambda>pkt.
        if p = None then Inr (Inr pkt, next_pkt_num c)
        else
          wbind (conn_entry_new c h [] ts (ts + NGTCP2_PKT_DEADLINE_PERIOD) (length pkt) 0) (\<lambda>e c.
          rbind (conn_rtb_add (c\<lparr>c_frq := frq_rest c p\<rparr>) (e\<lparr>re_frc := frq_sent c p\<rparr>)) (\<lambda>r.
          wthen r (\<lambda>c. Inr (Inr pkt, next_pkt_num c))))))"

definition write_queued ::
    "'u ngtcp2_conn_callbacks \<Rightarrow> 'u ngtcp2_conn \<Rightarrow> bytes \<Rightarrow> ngtcp2_ack option \<Rightarrow> u64 \<Rightarrow> 'u ngtcp2_conn written res" where
  "write_queued cb c dest ack ts =
     (let h = short_hd c in
      wlib (ngtcp2_ppe_encode_hd (ngtcp2_ppe_init dest (tx_ctx cb c)) h) c (\<lambda>ppe.
      let w = \<lparr>w_ppe = ppe, w_called = False, w_empty = True, w_conn = c\<rparr> in
      rbind (case ack of None \<Rightarrow> Inr (None, w) | Some ack \<Rightarrow> write_ack_frame cb h ack w) (\<lambda>(rv, w).
      case rv of
        Some x \<Rightarrow> Inr (Inl x, w_conn w)
      | None \<Rightarrow>
          rbind (write_frq cb h None w) (\<lambda>(rv, p, w).
          rbind (write_max_stream_id cb h True rv p w) (\<lambda>(r, w).
          case r of
            Inl x \<Rightarrow> Inr (Inl x, w_conn w)
          | Inr (rv, p) \<Rightarrow>
              rbind (write_max_stream_id cb h False rv p w) (\<lambda>(r, w).
              case r of Inl x \<Rightarrow> Inr (Inl x, w_conn w) | Inr (rv, p) \<Rightarrow> write_pkt_end h ts rv p w))))))"

text \<open>New limits are queued: MAX_DATA when it is due or other frames are sent anyway, and MAX_STREAM_DATA for \<^verbatim>\<open>fc_strms\<close>.\<close>

definition queue_max_data :: "bool \<Rightarrow> 'u ngtcp2_conn \<Rightarrow> rv \<times> 'u ngtcp2_conn" where
  "queue_max_data acking c =
     (if (acking \<or> c_frq c \<noteq> [] \<or> conn_should_send_max_data c) \<and> c_unsent_max_rx_offset c > c_max_rx_offset c then
        case conn_frame_chain_new c (FrMaxData \<lparr>md_max_data = c_unsent_max_rx_offset c\<rparr>) of
          (Inl x, c) \<Rightarrow> (Some x, c)
        | (Inr nfrc, c) \<Rightarrow> (None, c\<lparr>c_frq := nfrc @ c_frq c, c_max_rx_offset := c_unsent_max_rx_offset c\<rparr>)
      else (None, c))"

fun queue_max_stream_data :: "u64 list \<Rightarrow> 'u ngtcp2_conn \<Rightarrow> (rv \<times> 'u ngtcp2_conn) res" where
  "queue_max_stream_data [] c = Inr (None, c)"
| "queue_max_stream_data (k # ks) c =
     rbind (strm_at c k) (\<lambda>strm.
     case conn_frame_chain_new c (FrMaxStreamData \<lparr>msd_stream_id = s_stream_id strm,
            msd_max_stream_data = s_unsent_max_rx_offset strm\<rparr>) of
       (Inl x, c) \<Rightarrow> Inr (Some x, c)
     | (Inr nfrc, c) \<Rightarrow>
         let c = put_strm (c\<lparr>c_frq := nfrc @ c_frq c\<rparr>) k (strm\<lparr>s_max_rx_offset := s_unsent_max_rx_offset strm\<rparr>) in
         queue_max_stream_data ks (c\<lparr>c_fc_strms := ks\<rparr>))"

definition conn_write_pkt ::
    "'u ngtcp2_conn_callbacks \<Rightarrow> 'u ngtcp2_conn \<Rightarrow> bytes \<Rightarrow> u64 \<Rightarrow> 'u ngtcp2_conn written res" where
  "conn_write_pkt cb c dest ts =
     rbind (if conn_next_ack_expired c ts then conn_create_ack_frame c ts False else Inr (None, None, c)) (\<lambda>(rv, ack, c).
     wthen (rv, c) (\<lambda>c.
     wthen (queue_max_data (ack \<noteq> None) c) (\<lambda>c.
     rbind (queue_max_stream_data (c_fc_strms c) c) (\<lambda>r.
     wthen r (\<lambda>c.
     if ack = None \<and> c_unsent_max_remote_stream_id_bidi c = c_max_remote_stream_id_bidi c \<and>
        c_unsent_max_remote_stream_id_uni c = c_max_remote_stream_id_uni c \<and> c_frq c = []
     then Inr (Inr [], c)
     else write_queued cb c dest ack ts)))))"

section \<open>Packets with one frame\<close>

definition conn_write_single_frame_pkt ::
    "'u ngtcp2_conn_callbacks \<Rightarrow> 'u ngtcp2_conn \<Rightarrow> bytes \<Rightarrow> ngtcp2_frame \<Rightarrow> 'u ngtcp2_conn written res" where
  "conn_write_single_frame_pkt cb c dest fr =
     (let h = short_hd c in
      wlib (ngtcp2_ppe_encode_hd (ngtcp2_ppe_init dest (tx_ctx cb c)) h) c (\<lambda>ppe.
      wthen (conn_call_send_pkt cb c h) (\<lambda>c.
      wlib (ngtcp2_ppe_encode_frame ppe fr) c (\<lambda>(ppe, fr).
      wthen (conn_call_send_frame cb c h fr) (\<lambda>c.
      wlib (ppe_packet ppe) c (\<lambda>pkt.
      rbind (case fr of FrAck ack \<Rightarrow> add_ack c (hd_pkt_num h) ack False | _ \<Rightarrow> Inr c) (\<lambda>c.
      Inr (Inr pkt, next_pkt_num c))))))))"

definition conn_write_protected_ack_pkt ::
    "'u ngtcp2_conn_callbacks \<Rightarrow> 'u ngtcp2_conn \<Rightarrow> bytes \<Rightarrow> u64 \<Rightarrow> 'u ngtcp2_conn written res" where
  "conn_write_protected_ack_pkt cb c dest ts =
     (if \<not> conn_next_ack_expired c ts then Inr (Inr [], c)
      else
        rbind (conn_create_ack_frame c ts False) (\<lambda>(rv, ack, c).
        wthen (rv, c) (\<lambda>c.
        case ack of
          None \<Rightarrow> Inr (Inr [], c)
        | Some ack \<Rightarrow>
            rbind (conn_write_single_frame_pkt cb c dest (FrAck ack)) (\<lambda>r.
            wbind r (\<lambda>pkt c. Inr (Inr pkt, conn_commit_tx_ack c))))))"

definition ngtcp2_conn_write_connection_close ::
    "'u ngtcp2_conn_callbacks \<Rightarrow> 'u ngtcp2_conn \<Rightarrow> bytes \<Rightarrow> u16 \<Rightarrow> 'u ngtcp2_conn written res" where
  "ngtcp2_conn_write_connection_close cb c dest error_code =
     (if c_last_tx_pkt_num c = UINT64_MAX then Inr (Inl NGTCP2_ERR_PKT_NUM_EXHAUSTED, c)
      else if c_state c = NGTCP2_CS_POST_HANDSHAKE then
        rbind (conn_write_single_frame_pkt cb c dest
          (FrConnectionClose \<lparr>cc_error_code = error_code, cc_reasonlen = 0, cc_reason = []\<rparr>)) (\<lambda>r.
        wbind r (\<lambda>pkt c. Inr (Inr pkt, if pkt \<noteq> [] then c\<lparr>c_state := NGTCP2_CS_CLOSING\<rparr> else c)))
      else Inr (Inl NGTCP2_ERR_INVALID_STATE, c))"

definition ngtcp2_conn_write_application_close ::
    "'u ngtcp2_conn_callbacks \<Rightarrow> 'u ngtcp2_conn \<Rightarrow> bytes \<Rightarrow> u16 \<Rightarrow> 'u ngtcp2_conn written res" where
  "ngtcp2_conn_write_application_close cb c dest app_error_code =
     (if app_error_code = NGTCP2_STOPPING then Inr (Inl NGTCP2_ERR_INVALID_ARGUMENT, c)
      else if c_last_tx_pkt_num c = UINT64_MAX then Inr (Inl NGTCP2_ERR_PKT_NUM_EXHAUSTED, c)
      else if c_state c = NGTCP2_CS_POST_HANDSHAKE then
        rbind (conn_write_single_frame_pkt cb c dest
          (FrApplicationClose \<lparr>ac_app_error_code = app_error_code, ac_reasonlen = 0, ac_reason = []\<rparr>)) (\<lambda>r.
        wbind r (\<lambda>pkt c. Inr (Inr pkt, c\<lparr>c_state := NGTCP2_CS_CLOSING\<rparr>)))
      else Inr (Inl NGTCP2_ERR_INVALID_STATE, c))"

definition ngtcp2_conn_in_closing_period :: "'u ngtcp2_conn \<Rightarrow> bool" where
  "ngtcp2_conn_in_closing_period c = (c_state c = NGTCP2_CS_CLOSING)"

definition ngtcp2_conn_in_draining_period :: "'u ngtcp2_conn \<Rightarrow> bool" where
  "ngtcp2_conn_in_draining_period c = (c_state c = NGTCP2_CS_DRAINING)"

section \<open>Streams\<close>

text \<open>Flags, type, connection ID and key of a packet with stream data: a short packet, or 0-RTT.\<close>

definition stream_pkt_kind :: "'u ngtcp2_conn \<Rightarrow> lib_error + u8 \<times> u8 \<times> u64 \<times> ngtcp2_crypto_km option" where
  "stream_pkt_kind c =
     (if c_tx_ckm c \<noteq> None then Inr (0, conn_select_pkt_type c (c_last_tx_pkt_num c + 1), c_conn_id c, c_tx_ckm c)
      else if c_early_ckm c \<noteq> None \<and> \<not> c_server c then
        if has_flag (c_flags c) NGTCP2_CONN_FLAG_EARLY_DATA_REJECTED then Inl NGTCP2_ERR_EARLY_DATA_REJECTED
        else Inr (NGTCP2_PKT_FLAG_LONG_FORM, NGTCP2_PKT_0RTT_PROTECTED, c_client_conn_id c, c_early_ckm c)
      else Inl NGTCP2_ERR_NOKEY)"

text \<open>The last part of \<^verbatim>\<open>ngtcp2_conn_write_stream\<close>: the packet is remembered, and the offsets advance by \<open>n\<close>.\<close>

definition stream_sent ::
    "'u ngtcp2_conn \<Rightarrow> ngtcp2_pkt_hd \<Rightarrow> ngtcp2_frame \<Rightarrow> u64 \<Rightarrow> u64 \<Rightarrow> nat \<Rightarrow> bool \<Rightarrow> bytes \<Rightarrow> (bytes \<times> nat, 'u ngtcp2_conn) outcome res" where
  "stream_sent c h fr ts k n fin pkt =
     wbind (conn_entry_new c h [fr] ts (ts + NGTCP2_PKT_DEADLINE_PERIOD) (length pkt) 0) (\<lambda>e c.
     rbind (if hd_type h = NGTCP2_PKT_0RTT_PROTECTED
            then Inr (None, c\<lparr>c_early_rtb := c_early_rtb c @
                   [e\<lparr>re_hd := h\<lparr>hd_flags := hd_flags h AND NOT NGTCP2_PKT_FLAG_LONG_FORM, hd_type := NGTCP2_PKT_01\<rparr>\<rparr>]\<rparr>)
            else conn_rtb_add c e) (\<lambda>r.
     wthen r (\<lambda>c.
     rbind (strm_at c k) (\<lambda>strm.
     let strm = strm\<lparr>s_tx_offset := s_tx_offset strm + of_nat n\<rparr>;
         strm = (if fin then ngtcp2_strm_shutdown strm NGTCP2_STRM_FLAG_SHUT_WR else strm);
         c = put_strm c k strm;
         c = (if k \<noteq> 0 then c\<lparr>c_tx_offset := c_tx_offset c + of_nat n\<rparr> else c)
     in Inr (Inr (pkt, n), next_pkt_num c)))))"

text \<open>How much data fits: the room that is \<open>left\<close>, and the limits the peer has set for the stream and for the connection.\<close>

definition stream_datalen :: "'u ngtcp2_conn \<Rightarrow> ngtcp2_strm \<Rightarrow> nat \<Rightarrow> nat \<Rightarrow> nat" where
  "stream_datalen c strm left datalen =
     (let n = min datalen left; n = min n (unat (s_max_tx_offset strm - s_tx_offset strm))
      in min n (unat (c_max_tx_offset c - c_tx_offset c)))"

definition write_stream_frame ::
    "'u ngtcp2_conn_callbacks \<Rightarrow> 'u ngtcp2_conn \<Rightarrow> ngtcp2_pkt_hd \<Rightarrow> ngtcp2_ppe \<Rightarrow> u64 \<Rightarrow> bool \<Rightarrow> bytes \<Rightarrow> nat \<Rightarrow> u64 \<Rightarrow>
     (bytes \<times> nat, 'u ngtcp2_conn) outcome res" where
  "write_stream_frame cb c h ppe k fin data n ts =
     wthen (conn_call_send_pkt cb c h) (\<lambda>c.
     rbind (strm_at c k) (\<lambda>strm.
     wbind (conn_frame_chain_new c (FrStream \<lparr>st_flags = 0, st_fin = fin, st_stream_id = k, st_offset = s_tx_offset strm,
              st_datalen = n, st_data = take n data\<rparr>)) (\<lambda>frc c.
     wlib (ngtcp2_ppe_encode_frame ppe (List.hd frc)) c (\<lambda>(ppe, fr).
     wthen (conn_call_send_frame cb c h fr) (\<lambda>c.
     wlib (ppe_packet ppe) c (\<lambda>pkt. stream_sent c h fr ts k n fin pkt))))))"

definition ngtcp2_conn_write_stream ::
    "'u ngtcp2_conn_callbacks \<Rightarrow> 'u ngtcp2_conn \<Rightarrow> bytes \<Rightarrow> u64 \<Rightarrow> bool \<Rightarrow> bytes \<Rightarrow> u64 \<Rightarrow> (bytes \<times> nat, 'u ngtcp2_conn) outcome res" where
  "ngtcp2_conn_write_stream cb c dest k fin data ts =
     (if c_last_tx_pkt_num c = UINT64_MAX then Inr (Inl NGTCP2_ERR_PKT_NUM_EXHAUSTED, c)
      else
        rbind (ngtcp2_conn_find_stream c k) (\<lambda>strm.
        case strm of
          None \<Rightarrow> Inr (Inl NGTCP2_ERR_STREAM_NOT_FOUND, c)
        | Some strm \<Rightarrow>
            if strm_has strm NGTCP2_STRM_FLAG_SHUT_WR then Inr (Inl NGTCP2_ERR_STREAM_SHUT_WR, c)
            else
              wbind (stream_pkt_kind c, c) (\<lambda>(flags, ty, conn_id, ckm) c.
              let h = ngtcp2_pkt_hd_init flags ty conn_id (c_last_tx_pkt_num c + 1) (c_version c);
                  ctx = \<lparr>ctx_ckm = ckm, ctx_aead_overhead = c_aead_overhead c, ctx_encrypt = cb_encrypt cb\<rparr>
              in
              wlib (ngtcp2_ppe_encode_hd (ngtcp2_ppe_init dest ctx) h) c (\<lambda>ppe.
              let left = ngtcp2_ppe_left ppe in
              if left \<le> NGTCP2_STREAM_OVERHEAD then Inr (Inl NGTCP2_ERR_NOBUF, c)
              else
                let n = stream_datalen c strm (left - NGTCP2_STREAM_OVERHEAD) (length data) in
                if length data > 0 \<and> n = 0 then Inr (Inl NGTCP2_ERR_STREAM_DATA_BLOCKED, c)
                else write_stream_frame cb c h ppe k (fin \<and> n = length data) data n ts))))"

section \<open>The interface\<close>

text \<open>The 0-RTT packets join the others; after a failure the remaining ones are deleted.\<close>

fun add_early_rtb :: "ngtcp2_rtb_entry list \<Rightarrow> 'u ngtcp2_conn \<Rightarrow> (rv \<times> 'u ngtcp2_conn) res" where
  "add_early_rtb [] c = Inr (None, c\<lparr>c_early_rtb := []\<rparr>)"
| "add_early_rtb (e # es) c =
     (let e = (if has_flag (c_flags c) NGTCP2_CONN_FLAG_EARLY_DATA_REJECTED then e\<lparr>re_expiry := 0\<rparr> else e) in
      rbind (conn_rtb_add c e) (\<lambda>(rv, c).
      if rv \<noteq> None then Inr (rv, c\<lparr>c_early_rtb := []\<rparr>) else add_early_rtb es c))"

definition conn_process_early_rtb :: "'u ngtcp2_conn \<Rightarrow> (rv \<times> 'u ngtcp2_conn) res" where
  "conn_process_early_rtb c = add_early_rtb (c_early_rtb c) c"

text \<open>What \<^verbatim>\<open>ngtcp2_conn_write_pkt\<close> does in each state when nothing was retransmitted.\<close>

definition write_by_state ::
    "'u ngtcp2_conn_callbacks \<Rightarrow> 'u ngtcp2_conn \<Rightarrow> bytes \<Rightarrow> u64 \<Rightarrow> 'u ngtcp2_conn written res" where
  "write_by_state cb c dest ts =
     (case c_state c of
        NGTCP2_CS_CLIENT_INITIAL \<Rightarrow>
          rbind (conn_write_client_initial cb c dest ts) (\<lambda>r.
          wbind r (\<lambda>pkt c. Inr (Inr pkt, c\<lparr>c_state := NGTCP2_CS_CLIENT_WAIT_HANDSHAKE\<rparr>)))
      | NGTCP2_CS_CLIENT_WAIT_HANDSHAKE \<Rightarrow> conn_write_client_handshake cb c dest ts
      | NGTCP2_CS_CLIENT_HANDSHAKE_ALMOST_FINISHED \<Rightarrow>
          rbind (conn_write_client_handshake cb c dest ts) (\<lambda>r.
          wbind r (\<lambda>pkt c.
          if pkt \<noteq> [] then Inr (Inr pkt, c)
          else
            let c = c\<lparr>c_state := NGTCP2_CS_POST_HANDSHAKE\<rparr> in
            if \<not> has_flag (c_flags c) NGTCP2_CONN_FLAG_TRANSPORT_PARAM_RECVED
            then Inr (Inl NGTCP2_ERR_REQUIRED_TRANSPORT_PARAM, c)
            else if c_early_rtb c = [] then Inr (Inr [], c)
            else rbind (conn_process_early_rtb c) (\<lambda>r. wthen r (\<lambda>c. conn_retransmit cb c dest ts))))
      | NGTCP2_CS_CLIENT_TLS_HANDSHAKE_FAILED \<Rightarrow> conn_write_client_handshake cb c dest ts
      | NGTCP2_CS_SERVER_INITIAL \<Rightarrow>
          rbind (conn_write_server_handshake cb c dest True ts) (\<lambda>r.
          wbind r (\<lambda>pkt c. Inr (Inr pkt, c\<lparr>c_state := NGTCP2_CS_SERVER_WAIT_HANDSHAKE\<rparr>)))
      | NGTCP2_CS_SERVER_WAIT_HANDSHAKE \<Rightarrow> conn_write_server_handshake cb c dest False ts
      | NGTCP2_CS_SERVER_TLS_HANDSHAKE_FAILED \<Rightarrow>
          rbind (strm_at c 0) (\<lambda>strm0. conn_write_server_handshake cb c dest (s_tx_offset strm0 = 0) ts)
      | NGTCP2_CS_POST_HANDSHAKE \<Rightarrow> conn_write_pkt cb c dest ts
      | _ \<Rightarrow> Inr (Inr [], c))"

definition ngtcp2_conn_write_pkt ::
    "'u ngtcp2_conn_callbacks \<Rightarrow> 'u ngtcp2_conn \<Rightarrow> bytes \<Rightarrow> u64 \<Rightarrow> 'u ngtcp2_conn written res" where
  "ngtcp2_conn_write_pkt cb c dest ts =
     (if c_last_tx_pkt_num c = UINT64_MAX then Inr (Inl NGTCP2_ERR_PKT_NUM_EXHAUSTED, c)
      else
        rbind (conn_retransmit cb c dest ts) (\<lambda>r.
        wbind r (\<lambda>pkt c. if pkt \<noteq> [] then Inr (Inr pkt, c) else write_by_state cb c dest ts)))"

definition ngtcp2_conn_write_ack_pkt ::
    "'u ngtcp2_conn_callbacks \<Rightarrow> 'u ngtcp2_conn \<Rightarrow> bytes \<Rightarrow> u64 \<Rightarrow> 'u ngtcp2_conn written res" where
  "ngtcp2_conn_write_ack_pkt cb c dest ts =
     (if c_last_tx_pkt_num c = UINT64_MAX then Inr (Inl NGTCP2_ERR_PKT_NUM_EXHAUSTED, c)
      else
        rbind (conn_retransmit cb c dest ts) (\<lambda>r.
        wbind r (\<lambda>pkt c.
        if pkt \<noteq> [] then Inr (Inr pkt, c)
        else if c_state c = NGTCP2_CS_POST_HANDSHAKE then conn_write_protected_ack_pkt cb c dest ts
        else if c_state c \<in> {NGTCP2_CS_CLIENT_INITIAL, NGTCP2_CS_CLIENT_WAIT_HANDSHAKE,
               NGTCP2_CS_CLIENT_HANDSHAKE_ALMOST_FINISHED, NGTCP2_CS_SERVER_INITIAL, NGTCP2_CS_SERVER_WAIT_HANDSHAKE}
        then conn_write_handshake_ack_pkt cb c dest NGTCP2_PKT_HANDSHAKE ts
        else Inr (Inr [], c))))"

end
