(* ===== verification/Conn_Peer.thy ===== *)
theory Conn_Peer
  imports Conn_Write Conn_Main Conn_Handshake
begin

text \<open>
  Two connections that talk to each other: a packet with stream data that \<^verbatim>\<open>ngtcp2_conn_write_stream\<close> of one endpoint wrote is
  given to \<^verbatim>\<open>ngtcp2_conn_recv\<close> of the other. The lemmas follow the packet: the length of its truncated packet number, its
  header and frame in the buffer, its encryption; then its decryption, the frame, the application's callback, and the
  acknowledgement that is scheduled. The AEAD is a parameter, with \<open>aead_ok\<close> as what is required of it.
\<close>

section \<open>Writing a packet with one frame\<close>

lemma select_pkt_type_bits:
  fixes c :: "'u ngtcp2_conn"
  assumes "largest_acked (c_rtb c) \<le> t" and "unat t < 2 ^ 62"
  shows "conn_select_pkt_type c t =
    (if unat t - unat (largest_acked (c_rtb c)) < 2 ^ 7 then NGTCP2_PKT_01
     else if unat t - unat (largest_acked (c_rtb c)) < 2 ^ 15 then NGTCP2_PKT_02 else NGTCP2_PKT_03)"
proof -
  define d where "d = t - largest_acked (c_rtb c)"
  have d: "unat d = unat t - unat (largest_acked (c_rtb c))" using assms(1) by (simp add: d_def unat_sub)
  have "unat (UINT64_MAX div 2) = 2 ^ 63 - 1" by (simp add: unat_div unat_UINT64_MAX)
  then have m: "\<not> UINT64_MAX div 2 \<le> t" using assms(2) by (simp add: word_le_nat_alt)
  have "unat d < 2 ^ 62" using d assms(2) by linarith
  then have "unat (d * 2 + 1) = unat d * 2 + 1" by (simp add: unat_word_ariths)
  then have g: "0xffff < d * 2 + 1 \<longleftrightarrow> 2 ^ 15 \<le> unat d" "0xff < d * 2 + 1 \<longleftrightarrow> 2 ^ 7 \<le> unat d" by (auto simp: word_less_nat_alt)
  show ?thesis unfolding conn_select_pkt_type_def Let_def d_def [symmetric] d [symmetric] if_not_P [OF m] g by auto
qed

lemma encode_hd_fits:
  assumes "hd_known h" and "ngtcp2_ppe_encode_hd (ngtcp2_ppe_init out cctx) h = Inr ppe"
  shows "length (hd_bytes h) + ctx_aead_overhead cctx \<le> length out"
proof (rule ccontr)
  assume "\<not> ?thesis"
  then have less: "length out < ctx_aead_overhead cctx \<or> length out - ctx_aead_overhead cctx < length (hd_bytes h)" by linarith
  have "ngtcp2_ppe_encode_hd (ngtcp2_ppe_init out cctx) h = fail NGTCP2_ERR_NOBUF"
  proof (cases "hd_flags h AND NGTCP2_PKT_FLAG_LONG_FORM \<noteq> 0")
    case True
    then show ?thesis using less
      by (auto simp: ngtcp2_ppe_encode_hd_def ngtcp2_ppe_init_def ngtcp2_buf_init_def ngtcp2_buf_left_def Let_def encode_hd_long_eq hd_bytes_def)
  next
    case False
    then obtain k where k: "short_pkt_num_len (hd_type h) = Some k" using assms(1) by (auto simp: hd_known_def)
    then show ?thesis using less False
      by (auto simp: ngtcp2_ppe_encode_hd_def ngtcp2_ppe_init_def ngtcp2_buf_init_def ngtcp2_buf_left_def Let_def encode_hd_short_eq [OF k] hd_bytes_def)
  qed
  then show False using assms(2) by simp
qed

lemma encode_frame_fits:
  assumes "encoding ppe bs" and "wf_frame fr" and "ngtcp2_ppe_encode_frame ppe fr = Inr r"
  shows "length bs + length (frame_bytes fr) + ctx_aead_overhead (ppe_ctx ppe) \<le> length (b_mem (ppe_buf ppe))"
proof (rule ccontr)
  assume "\<not> ?thesis"
  then have "ngtcp2_ppe_encode_frame ppe fr = fail NGTCP2_ERR_NOBUF"
    using assms(1) by (auto simp: ngtcp2_ppe_encode_frame_def Let_def encode_frame_eq [OF assms(2)] encoding_def ngtcp2_buf_left_def wr_or_nobuf_def)
  then show False using assms(3) by simp
qed

lemma one_frame_packet:
  assumes h: "hd_known h" "ngtcp2_ppe_encode_hd (ngtcp2_ppe_init out cctx) h = Inr p"
    and fr: "wf_frame fr" "ngtcp2_ppe_encode_frame p fr = Inr (p', fr')" and pkt: "ppe_packet p' = Inr pkt"
    and ckm: "ctx_ckm cctx = Some ckm" "8 \<le> length (km_iv ckm)" "length (km_iv ckm) \<le> 32"
    and aead: "aead_ok (ctx_encrypt cctx) dec (ctx_aead_overhead cctx)"
  obtains nonce ct where "pkt = hd_bytes h @ ct" "ngtcp2_crypto_create_nonce (km_iv ckm) (hd_pkt_num h) = Inr nonce"
    "dec ct (km_key ckm) nonce (hd_bytes h) = Inr (frame_bytes fr)" "length ct = length (frame_bytes fr) + ctx_aead_overhead cctx"
    "fr' = encoded_frame fr" "length pkt \<le> length out"
proof -
  have p: "encoding p (hd_bytes h)" "ppe_ctx p = cctx" "ppe_hdlen p = length (hd_bytes h)" "ppe_pkt_num p = hd_pkt_num h"
      "length (b_mem (ppe_buf p)) = length out"
    using encode_hd_ok [OF h(1) encode_hd_fits [OF h]] h(2) by auto
  note fits = encode_frame_fits [OF p(1) fr]
  have p': "encoding p' (hd_bytes h @ frame_bytes fr)" "ppe_ctx p' = cctx" "ppe_hdlen p' = length (hd_bytes h)"
      "ppe_pkt_num p' = hd_pkt_num h" "fr' = encoded_frame fr"
    using encode_frame_ok [OF p(1) fr(1) fits] fr(2) p by auto
  obtain nonce where n: "ngtcp2_crypto_create_nonce (km_iv ckm) (hd_pkt_num h) = Inr nonce"
    using create_nonce_eq [OF ckm(2)] by blast
  obtain ct where ct: "ctx_encrypt cctx (frame_bytes fr) (km_key ckm) nonce (hd_bytes h) = Some ct"
      "length ct = length (frame_bytes fr) + ctx_aead_overhead cctx" "dec ct (km_key ckm) nonce (hd_bytes h) = Inr (frame_bytes fr)"
    using aead unfolding aead_ok_def by blast
  obtain p3 where "ngtcp2_ppe_final p' = Inr (length (hd_bytes h) + length ct, p3)"
      "take (length (hd_bytes h) + length ct) (b_mem (ppe_buf p3)) = hd_bytes h @ ct"
    using final_ok [OF p'(1,3), of ckm nonce ct] p' ckm n ct by auto
  then have "pkt = hd_bytes h @ ct" using pkt by (simp add: ppe_packet_def)
  then show thesis using that n ct p'(5) fits p by simp
qed

section \<open>The buffer for decrypted packets\<close>

lemma grow_len_ok: "0 < len \<Longrightarrow> n \<le> len * 2 ^ k \<Longrightarrow> n \<le> 2 ^ 62 \<Longrightarrow> \<exists>len'. grow_len (Suc k) len n = Inr len'"
proof (induction k arbitrary: len)
  case (Suc k)
  show ?case
  proof (cases "len < n")
    case True
    then have "szmul len 2 = len * 2" using Suc.prems by (simp add: szmul_def)
    moreover have "n \<le> len * 2 * 2 ^ k" using Suc.prems(2) by (simp add: mult.assoc)
    ultimately show ?thesis using Suc.IH [of "len * 2"] Suc.prems True by auto
  qed simp
qed simp

lemma ensure_decrypt_buffer_ok:
  assumes "mem_ok (c_mem c)" and "n \<le> 2 ^ 62"
  obtains len where "conn_ensure_decrypt_buffer c n = Inr (None, c\<lparr>c_decrypt_buf_len := len\<rparr>)"
proof (cases "c_decrypt_buf_len c \<ge> n")
  case True
  then show thesis using that [of "c_decrypt_buf_len c"] by (simp add: conn_ensure_decrypt_buffer_def)
next
  case False
  define l where "l = (if c_decrypt_buf_len c = 0 then 2048 else szmul (c_decrypt_buf_len c) 2)"
  have "0 < l" using False assms(2) by (simp add: l_def szmul_def)
  then have "n \<le> l * 2 ^ 63" using assms(2) by (cases l) simp_all
  then obtain len where "grow_len (Suc 63) l n = Inr len" using grow_len_ok [OF \<open>0 < l\<close> _ assms(2), of 63] by blast
  then have "grow_len 64 l n = Inr len" by simp
  then show thesis using that [of len] False malloc_mem_ok [OF assms(1)]
    by (simp add: conn_ensure_decrypt_buffer_def l_def [symmetric])
qed

section \<open>The packet of \<^verbatim>\<open>ngtcp2_conn_write_stream\<close>\<close>

lemma short_hd_known: "hd_known (short_hd c)" "hd_flags (short_hd c) = 0" "hd_type (short_hd c) \<noteq> NGTCP2_PKT_0RTT_PROTECTED"
  by (simp_all add: short_hd_def hd_known_def ngtcp2_pkt_hd_init_def conn_select_pkt_type_def Let_def short_pkt_num_len_def)

lemma frame_chain_new_ok: "mem_ok (c_mem c) \<Longrightarrow> conn_frame_chain_new c fr = (Inr [fr], c)"
  by (simp add: conn_frame_chain_new_def ngtcp2_frame_chain_new_def malloc_mem_ok)

lemma single_frame_packet:
  assumes "conn_write_single_frame_pkt cb c dest fr = Inr (Inr pkt, c')"
  obtains p p' fr' where "ngtcp2_ppe_encode_hd (ngtcp2_ppe_init dest (tx_ctx cb c)) (short_hd c) = Inr p"
    "ngtcp2_ppe_encode_frame p fr = Inr (p', fr')" "ppe_packet p' = Inr pkt"
  using assms by (auto simp: conn_write_single_frame_pkt_def Let_def rbind_eq_Inr dest!: wlib_Inr wthen_Inr)

lemma write_stream_packet:
  fixes c :: "'u ngtcp2_conn"
  assumes app: "app_ok cb" and ok: "conn_ok c" and s: "strm_of c k = Some s" and key: "c_tx_ckm c = Some ckm"
    and w: "ngtcp2_conn_write_stream cb c dest k fin data ts = Inr (Inr (pkt, n), c')"
  defines "fr \<equiv> \<lparr>st_flags = 0, st_fin = (fin \<and> n = length data), st_stream_id = k, st_offset = s_tx_offset s, st_datalen = n,
      st_data = take n data\<rparr>"
  obtains p p' fr' where "ngtcp2_ppe_encode_hd (ngtcp2_ppe_init dest (tx_ctx cb c)) (short_hd c) = Inr p"
    "ngtcp2_ppe_encode_frame p (FrStream fr) = Inr (p', fr')" "ppe_packet p' = Inr pkt"
    "n \<le> length data" "n \<le> unat (s_max_tx_offset s - s_tx_offset s)" "n \<le> unat (c_max_tx_offset c - c_tx_offset c)"
    "data \<noteq> [] \<Longrightarrow> 0 < n" "\<not> strm_has s NGTCP2_STRM_FLAG_SHUT_WR" "c_last_tx_pkt_num c \<noteq> UINT64_MAX"
proof -
  have kind: "stream_pkt_kind c = Inr (0, conn_select_pkt_type c (c_last_tx_pkt_num c + 1), c_conn_id c, Some ckm)"
    using key by (simp add: stream_pkt_kind_def)
  have g: "c_last_tx_pkt_num c \<noteq> UINT64_MAX" using w by (auto simp: ngtcp2_conn_write_stream_def)
  have wr: "\<not> strm_has s NGTCP2_STRM_FLAG_SHUT_WR"
    using w g s find_stream_inv [OF ok, of k] by (auto simp: ngtcp2_conn_write_stream_def)
  have eq: "ngtcp2_conn_write_stream cb c dest k fin data ts =
      wlib (ngtcp2_ppe_encode_hd (ngtcp2_ppe_init dest (tx_ctx cb c)) (short_hd c)) c (\<lambda>ppe.
        if ngtcp2_ppe_left ppe \<le> NGTCP2_STREAM_OVERHEAD then Inr (Inl NGTCP2_ERR_NOBUF, c)
        else let m = stream_datalen c s (ngtcp2_ppe_left ppe - NGTCP2_STREAM_OVERHEAD) (length data) in
          if length data > 0 \<and> m = 0 then Inr (Inl NGTCP2_ERR_STREAM_DATA_BLOCKED, c)
          else write_stream_frame cb c (short_hd c) ppe k (fin \<and> m = length data) data m ts)"
    using g wr s kind key unfolding short_hd_def tx_ctx_def
    by (simp add: ngtcp2_conn_write_stream_def find_stream_inv [OF ok] Let_def)
  obtain p where p: "ngtcp2_ppe_encode_hd (ngtcp2_ppe_init dest (tx_ctx cb c)) (short_hd c) = Inr p"
    using wlib_Inr [OF trans [OF eq [symmetric] w]] by blast
  define m where "m = stream_datalen c s (ngtcp2_ppe_left p - NGTCP2_STREAM_OVERHEAD) (length data)"
  have f: "write_stream_frame cb c (short_hd c) p k (fin \<and> m = length data) data m ts = Inr (Inr (pkt, n), c')"
    and m: "\<not> (length data > 0 \<and> m = 0)"
    using trans [OF eq [symmetric] w] unfolding p wlib_simps Let_def m_def [symmetric] by (auto split: if_splits)
  obtain c1 where c1: "conn_call_send_pkt cb c (short_hd c) = (None, c1)"
    using f unfolding write_stream_frame_def by (auto dest!: wthen_Inr)
  have k1: "keeps c c1" using call_keeps(7) [OF app conn_ok_inv [OF ok], of "short_hd c"] c1 by simp
  obtain s1 where s1: "strm_of c1 k = Some s1" "same_rx s s1" using keeps_strm [OF k1 s] .
  have at: "strm_at c1 k = Inr s1" by (rule strm_at_ok [OF conn_inv_map [OF keeps_inv [OF k1]] s1(1)])
  have o1: "s_tx_offset s1 = s_tx_offset s" using s1(2) by (simp add: same_rx_def)
  have "mem_ok (c_mem c1)" using keeps_inv [OF k1] by (simp add: conn_inv_def)
  note f1 = f [unfolded write_stream_frame_def c1 wthen_simps at rbind_simps frame_chain_new_ok [OF this] wbind_simps list.sel o1]
  obtain p' fr' c2 where e: "ngtcp2_ppe_encode_frame p (FrStream \<lparr>st_flags = 0, st_fin = (fin \<and> m = length data), st_stream_id = k,
        st_offset = s_tx_offset s, st_datalen = m, st_data = take m data\<rparr>) = Inr (p', fr')"
      "wlib (ppe_packet p') c2 (\<lambda>pkt. stream_sent c2 (short_hd c) fr' ts k m (fin \<and> m = length data) pkt) = Inr (Inr (pkt, n), c')"
    using f1 by (auto dest!: wlib_Inr wthen_Inr)
  obtain pk where pk: "ppe_packet p' = Inr pk" "stream_sent c2 (short_hd c) fr' ts k m (fin \<and> m = length data) pk = Inr (Inr (pkt, n), c')"
    using wlib_Inr [OF e(2)] by blast
  have n: "pk = pkt" "m = n"
    using pk(2) by (auto simp: stream_sent_def rbind_eq_Inr Let_def dest!: wbind_Inr wthen_Inr)
  have "m \<le> length data" "m \<le> unat (s_max_tx_offset s - s_tx_offset s)" "m \<le> unat (c_max_tx_offset c - c_tx_offset c)"
    by (simp_all add: m_def stream_datalen_def Let_def)
  moreover have "data \<noteq> [] \<Longrightarrow> 0 < m" using m by simp
  ultimately show thesis using that [OF p] e(1) pk(1) wr g unfolding n fr_def by simp
qed

lemma hd_short_length: "short_pkt_num_len (hd_type h) = Some l \<Longrightarrow> hd_flags h = 0 \<Longrightarrow> length (hd_bytes h) \<le> 13"
  by (auto simp: hd_bytes_def short_pkt_num_len_def split: if_splits)

lemma stream_frame_length: "length (frame_bytes (FrStream fr)) \<le> 25 + length (st_data fr)"
  by (simp add: varint_len_eq)

lemma entry_new_ok:
  "mem_ok (c_mem c) \<Longrightarrow> conn_entry_new c h frc ts deadline len fl =
    (Inr \<lparr>re_hd = h, re_frc = frc, re_expiry = ts + NGTCP2_INITIAL_EXPIRY, re_deadline = deadline, re_count = 0, re_pktlen = len,
      re_flags = fl\<rparr>, c)"
  by (simp add: conn_entry_new_def ngtcp2_rtb_entry_new_def malloc_mem_ok)

lemma build_packet:
  fixes c :: "'u ngtcp2_conn"
  assumes wf: "wf_frame fr" and aead: "aead_ok (cb_encrypt cb) dec (c_aead_overhead c)"
    and key: "c_tx_ckm c = Some ckm" "8 \<le> length (km_iv ckm)" "length (km_iv ckm) \<le> 32"
    and room: "13 + length (frame_bytes fr) + c_aead_overhead c \<le> length dest"
  obtains p p' pkt where "ngtcp2_ppe_encode_hd (ngtcp2_ppe_init dest (tx_ctx cb c)) (short_hd c) = Inr p"
    "ngtcp2_ppe_encode_frame p fr = Inr (p', encoded_frame fr)" "ppe_packet p' = Inr pkt" "length pkt \<le> length dest"
    "length dest \<le> ngtcp2_ppe_left p + c_aead_overhead c + 13"
proof -
  define h where "h = short_hd c"
  note kn = short_hd_known [of c, folded h_def]
  obtain l where l: "short_pkt_num_len (hd_type h) = Some l" using kn by (auto simp: hd_known_def)
  have hl: "length (hd_bytes h) \<le> 13" by (rule hd_short_length [OF l kn(2)])
  obtain p where p: "ngtcp2_ppe_encode_hd (ngtcp2_ppe_init dest (tx_ctx cb c)) h = Inr p" "encoding p (hd_bytes h)" "ppe_ctx p = tx_ctx cb c"
      "ppe_hdlen p = length (hd_bytes h)" "ppe_pkt_num p = hd_pkt_num h" "length (b_mem (ppe_buf p)) = length dest"
    using encode_hd_ok [OF kn(1), of "tx_ctx cb c" dest] hl room by (auto simp: tx_ctx_def)
  obtain p' where p': "ngtcp2_ppe_encode_frame p fr = Inr (p', encoded_frame fr)"
      "encoding p' (hd_bytes h @ frame_bytes fr)" "ppe_ctx p' = tx_ctx cb c" "ppe_hdlen p' = length (hd_bytes h)"
      "ppe_pkt_num p' = hd_pkt_num h"
    using encode_frame_ok [OF p(2) wf] p hl room by (auto simp: tx_ctx_def)
  obtain nonce where n: "ngtcp2_crypto_create_nonce (km_iv ckm) (hd_pkt_num h) = Inr nonce" using create_nonce_eq [OF key(2)] by blast
  obtain ct where ct: "cb_encrypt cb (frame_bytes fr) (km_key ckm) nonce (hd_bytes h) = Some ct"
      "length ct = length (frame_bytes fr) + c_aead_overhead c"
    using aead unfolding aead_ok_def by blast
  obtain p3 where "ngtcp2_ppe_final p' = Inr (length (hd_bytes h) + length ct, p3)"
      "take (length (hd_bytes h) + length ct) (b_mem (ppe_buf p3)) = hd_bytes h @ ct"
    using final_ok [OF p'(2,4), of ckm nonce ct] p' key n ct by (auto simp: tx_ctx_def)
  then have pk: "ppe_packet p' = Inr (hd_bytes h @ ct)" by (simp add: ppe_packet_def)
  have "ngtcp2_ppe_left p = length dest - length (hd_bytes h) - c_aead_overhead c"
    using p(2,3,6) hl room by (simp add: ngtcp2_ppe_left_def ngtcp2_buf_left_def encoding_def Let_def tx_ctx_def)
  then show thesis using that [OF p(1) [unfolded h_def] p'(1) pk] hl room ct(2) by simp
qed

lemma send_calls_None:
  assumes "cb_send_pkt cb = None" and "cb_send_frame cb = None"
  shows "conn_call_send_pkt cb c h = (None, c)" "conn_call_send_frame cb c h f = (None, c)"
  using assms by (simp_all add: conn_call_send_pkt_def conn_call_send_frame_def conn_call_def)

lemma single_frame_sends:
  fixes c :: "'u ngtcp2_conn"
  assumes "wf_frame fr" and "aead_ok (cb_encrypt cb) dec (c_aead_overhead c)"
    and "c_tx_ckm c = Some ckm" and "8 \<le> length (km_iv ckm)" and "length (km_iv ckm) \<le> 32"
    and "13 + length (frame_bytes fr) + c_aead_overhead c \<le> length dest"
    and "cb_send_pkt cb = None" and "cb_send_frame cb = None" and fr: "encoded_frame fr = fr" "\<And>a. fr \<noteq> FrAck a"
  obtains pkt where "conn_write_single_frame_pkt cb c dest fr = Inr (Inr pkt, next_pkt_num c)"
proof -
  have "(case fr of FrAck a \<Rightarrow> add_ack c n a False | _ \<Rightarrow> Inr c) = Inr c" for n using fr(2) by (cases fr) auto
  then show thesis
    by (rule_tac build_packet [OF assms(1-6)])
      (use fr(1) that in \<open>simp add: conn_write_single_frame_pkt_def Let_def send_calls_None [OF assms(7,8)]\<close>)
qed

text \<open>The stream after \<open>n\<close> bytes have been sent, and the connection with it.\<close>

definition sent_strm :: "bool \<Rightarrow> nat \<Rightarrow> ngtcp2_strm \<Rightarrow> ngtcp2_strm" where
  "sent_strm fin n s =
     (let s = s\<lparr>s_tx_offset := s_tx_offset s + of_nat n\<rparr> in if fin then ngtcp2_strm_shutdown s NGTCP2_STRM_FLAG_SHUT_WR else s)"

lemma sent_strm_simps:
  "s_tx_offset (sent_strm fin n s) = s_tx_offset s + of_nat n" "strm_inv k (sent_strm fin n s) = strm_inv k s"
  "strm_has (sent_strm fin n s) NGTCP2_STRM_FLAG_SHUT_RD = strm_has s NGTCP2_STRM_FLAG_SHUT_RD"
  "strm_has (sent_strm fin n s) NGTCP2_STRM_FLAG_SHUT_WR = (fin \<or> strm_has s NGTCP2_STRM_FLAG_SHUT_WR)"
  by (auto simp: sent_strm_def Let_def ngtcp2_strm_shutdown_def strm_has_def strm_inv_def bit.conj_disj_distrib2)

lemma stream_sent_ok:
  fixes c :: "'u ngtcp2_conn"
  assumes ok: "conn_ok c" and s: "strm_of c k = Some s" and h: "hd_type h \<noteq> NGTCP2_PKT_0RTT_PROTECTED" "hd_pkt_num h \<notin> pn ` set (rtb_head (c_rtb c))"
    and room: "capacity (rtb_pq (c_rtb c)) < 2 ^ 62" "bytes_in_flight (c_rtb c) + length pkt < 2 ^ 64"
  obtains c' e where "stream_sent c h fr ts k n fin pkt = Inr (Inr (pkt, n), c')" "conn_ok c'"
    "c_last_tx_pkt_num c' = c_last_tx_pkt_num c + 1" "strm_of c' k = Some (sent_strm fin n s)"
    "c_tx_offset c' = c_tx_offset c + (if k = 0 then 0 else of_nat n)" "rtb_head (c_rtb c') = e # rtb_head (c_rtb c)"
    "pn e = hd_pkt_num h" "re_frc e = [fr]"
proof -
  have mem: "mem_ok (c_mem c)" using conn_ok_inv [OF ok] by (simp add: conn_inv_def)
  define e where "e = \<lparr>re_hd = h, re_frc = [fr], re_expiry = ts + NGTCP2_INITIAL_EXPIRY,
      re_deadline = ts + NGTCP2_PKT_DEADLINE_PERIOD, re_count = 0, re_pktlen = length pkt, re_flags = (0 :: u8)\<rparr>"
  have "e \<notin> set (rtb_head (c_rtb c))" using h(2) by (force simp: e_def)
  moreover have "rtb_wf (c_rtb c)" using conn_ok_inv [OF ok] by (simp add: conn_inv_def)
  moreover have "bytes_in_flight (c_rtb c) + re_pktlen e < 2 ^ 64" using room(2) by (simp add: e_def)
  ultimately obtain rtb where rtb: "ngtcp2_rtb_add (c_mem c) (c_rtb c) e = (None, rtb, c_mem c)" "rtb_wf rtb" "rtb_head rtb = e # rtb_head (c_rtb c)"
    using rtb_add_ok [of "c_rtb c" e "c_mem c"] mem room(1) by blast
  define c1 where "c1 = c\<lparr>c_rtb := rtb\<rparr>"
  have ok1: "conn_ok c1" using conn_inv_tables(2) [OF conn_ok_inv [OF ok] rtb(2)] ok by (simp add: conn_ok_def c1_def)
  have s1: "strm_of c1 k = Some s" "strm_at c1 k = Inr s"
    using s strm_at_ok [OF conn_inv_map [OF conn_ok_inv [OF ok1]]] by (simp_all add: c1_def)
  have si: "strm_inv k (sent_strm fin n s)" using conn_inv_strm [OF conn_ok_inv [OF ok] s] by (simp add: sent_strm_simps)
  obtain z where z: "strm_of c 0 = Some z" "\<not> strm_has z NGTCP2_STRM_FLAG_SHUT_RD" by (rule conn_inv_strm0 [OF conn_ok_inv [OF ok]])
  have ok2: "conn_ok (put_strm c1 k (sent_strm fin n s))"
    by (rule conn_ok_put [OF ok1 s1(1) si]) (use z s in \<open>simp add: sent_strm_simps\<close>)
  define c2 where "c2 = next_pkt_num (if k \<noteq> 0 then (put_strm c1 k (sent_strm fin n s))\<lparr>c_tx_offset := c_tx_offset c + of_nat n\<rparr>
    else put_strm c1 k (sent_strm fin n s))"
  have ev: "conn_rtb_add c e = Inr (None, c1)" using rtb(1) by (simp add: conn_rtb_add_def c1_def)
  have "stream_sent c h fr ts k n fin pkt = Inr (Inr (pkt, n), c2)"
    unfolding stream_sent_def entry_new_ok [OF mem] wbind_simps e_def [symmetric] if_not_P [OF h(1)] ev rbind_simps wthen_simps s1(2) Let_def
    by (simp add: c2_def sent_strm_def c1_def)
  moreover have "conn_ok c2" using ok2 by (cases "k = 0") (simp_all add: c2_def next_pkt_num_def conn_ok_def)
  moreover have "strm_of c2 k = Some (sent_strm fin n s)" using s1(1) by (cases "k = 0") (simp_all add: c2_def next_pkt_num_def strm_of_put)
  ultimately show thesis using that [of c2 e] rtb(3) by (simp add: c2_def next_pkt_num_def c1_def e_def put_strm_def)
qed

lemma write_stream_sends_aux:
  fixes c :: "'u ngtcp2_conn" and fin :: bool
  assumes ok: "conn_ok c" and s: "strm_of c k = Some s" "\<not> strm_has s NGTCP2_STRM_FLAG_SHUT_WR" "k \<le> NGTCP2_MAX_VARINT"
    and cb: "cb_send_pkt cb = None" "cb_send_frame cb = None" "aead_ok (cb_encrypt cb) dec (c_aead_overhead c)"
    and key: "c_tx_ckm c = Some ckm" "8 \<le> length (km_iv ckm)" "length (km_iv ckm) \<le> 32"
    and num: "c_last_tx_pkt_num c \<noteq> UINT64_MAX" "c_last_tx_pkt_num c + 1 \<notin> pn ` set (rtb_head (c_rtb c))"
    and lim: "unat (s_tx_offset s) + length data \<le> unat (s_max_tx_offset s)" "unat (c_tx_offset c) + length data \<le> unat (c_max_tx_offset c)"
      "unat (s_tx_offset s) + length data \<le> unat NGTCP2_MAX_VARINT"
    and room: "38 + length data + c_aead_overhead c \<le> length dest" "capacity (rtb_pq (c_rtb c)) < 2 ^ 62"
      "bytes_in_flight (c_rtb c) + length dest < 2 ^ 64"
  defines "fr \<equiv> \<lparr>st_flags = 0, st_fin = fin, st_stream_id = k, st_offset = s_tx_offset s, st_datalen = length data, st_data = data\<rparr>"
  obtains pkt c' s' e where "ngtcp2_conn_write_stream cb c dest k fin data ts = Inr (Inr (pkt, length data), c')"
    "conn_ok c'" "c_last_tx_pkt_num c' = c_last_tx_pkt_num c + 1" "strm_of c' k = Some s'"
    "s_tx_offset s' = s_tx_offset s + of_nat (length data)" "strm_has s' NGTCP2_STRM_FLAG_SHUT_WR = fin"
    "c_tx_offset c' = c_tx_offset c + (if k = 0 then 0 else of_nat (length data))"
    "rtb_head (c_rtb c') = e # rtb_head (c_rtb c)" "pn e = c_last_tx_pkt_num c + 1" "re_frc e = [encoded_frame (FrStream fr)]"
proof -
  define h where "h = short_hd c"
  note kn = short_hd_known [of c, folded h_def]
  have mem: "mem_ok (c_mem c)" using conn_ok_inv [OF ok] by (simp add: conn_inv_def)
  have wf: "wf_frame (FrStream fr)" using lim(3) s(3) by (auto simp: fr_def word_less_nat_alt word_le_nat_alt)
  have fl: "length (frame_bytes (FrStream fr)) \<le> 25 + length data" using stream_frame_length [of fr] by (simp add: fr_def del: frame_bytes.simps)
  have "13 + length (frame_bytes (FrStream fr)) + c_aead_overhead c \<le> length dest" using fl room(1) by linarith
  then obtain p p' pkt where p: "ngtcp2_ppe_encode_hd (ngtcp2_ppe_init dest (tx_ctx cb c)) h = Inr p"
      "ngtcp2_ppe_encode_frame p (FrStream fr) = Inr (p', encoded_frame (FrStream fr))" "ppe_packet p' = Inr pkt"
      "length pkt \<le> length dest" "length dest \<le> ngtcp2_ppe_left p + c_aead_overhead c + 13"
    unfolding h_def by (rule build_packet [OF wf cb(3) key])
  have "unat (s_max_tx_offset s - s_tx_offset s) \<ge> length data" "unat (c_max_tx_offset c - c_tx_offset c) \<ge> length data"
    using lim(1,2) by (simp_all add: unat_sub word_le_nat_alt)
  then have len: "stream_datalen c s (ngtcp2_ppe_left p - NGTCP2_STREAM_OVERHEAD) (length data) = length data" "\<not> ngtcp2_ppe_left p \<le> NGTCP2_STREAM_OVERHEAD"
    using p(5) room(1) by (simp_all add: stream_datalen_def)
  have at: "strm_at c k = Inr s" by (rule strm_at_ok [OF conn_inv_map [OF conn_ok_inv [OF ok]] s(1)])
  have kind: "stream_pkt_kind c = Inr (0, conn_select_pkt_type c (c_last_tx_pkt_num c + 1), c_conn_id c, Some ckm)"
    using key by (simp add: stream_pkt_kind_def)
  note send = send_calls_None [OF cb(1,2)]
  have p0: "ngtcp2_ppe_encode_hd (ngtcp2_ppe_init dest \<lparr>ctx_ckm = Some ckm, ctx_aead_overhead = c_aead_overhead c, ctx_encrypt = cb_encrypt cb\<rparr>)
      (ngtcp2_pkt_hd_init 0 (conn_select_pkt_type c (c_last_tx_pkt_num c + 1)) (c_conn_id c) (c_last_tx_pkt_num c + 1) (c_version c)) = Inr p"
    using p(1) key(1) by (simp add: h_def short_hd_def tx_ctx_def)
  have "ngtcp2_conn_write_stream cb c dest k fin data ts = write_stream_frame cb c h p k fin data (length data) ts"
    unfolding ngtcp2_conn_write_stream_def find_stream_inv [OF ok] s(1) kind
    using num(1) s(2) p0 len by (simp add: h_def short_hd_def Let_def)
  also have "\<dots> = stream_sent c h (encoded_frame (FrStream fr)) ts k (length data) fin pkt"
    unfolding write_stream_frame_def send(1) using at p(2,3)
    by (simp add: frame_chain_new_ok [OF mem] send(2) fr_def del: encoded_frame.simps)
  finally have w: "ngtcp2_conn_write_stream cb c dest k fin data ts = \<dots>" .
  have hn: "hd_pkt_num h = c_last_tx_pkt_num c + 1" by (simp add: h_def short_hd_def ngtcp2_pkt_hd_init_def)
  have "bytes_in_flight (c_rtb c) + length pkt < 2 ^ 64" using room(3) p(4) by simp
  then obtain c' e where c': "stream_sent c h (encoded_frame (FrStream fr)) ts k (length data) fin pkt = Inr (Inr (pkt, length data), c')"
      "conn_ok c'" "c_last_tx_pkt_num c' = c_last_tx_pkt_num c + 1" "strm_of c' k = Some (sent_strm fin (length data) s)"
      "c_tx_offset c' = c_tx_offset c + (if k = 0 then 0 else of_nat (length data))" "rtb_head (c_rtb c') = e # rtb_head (c_rtb c)"
      "pn e = hd_pkt_num h" "re_frc e = [encoded_frame (FrStream fr)]"
    by (rule stream_sent_ok [OF ok s(1) kn(3) num(2) [folded hn] room(2)])
  show thesis by (rule that [OF trans [OF w c'(1)] c'(2-4) _ _ c'(5,6) _ c'(8)]) (use s(2) c'(7) hn in \<open>simp_all add: sent_strm_simps\<close>)
qed

section \<open>Receiving the packet\<close>

lemma recv_short_pkt:
  assumes h: "hd_flags h = 0" "short_pkt_num_len (hd_type h) = Some l"
    and num: "ngtcp2_pkt_adjust_pkt_num (c_max_rx_pkt_num c) (take_bit (8 * l) (hd_pkt_num h)) (8 * l) = hd_pkt_num h"
    and key: "c_rx_ckm c = Some ckm" "length (km_iv ckm) \<le> 64" "ngtcp2_crypto_create_nonce (km_iv ckm) (hd_pkt_num h) = Inr nonce"
    and dec: "cb_decrypt cb ct (km_key ckm) nonce (hd_bytes h) = Inr plain" "length plain \<le> length ct"
    and id: "c_conn_id c = hd_conn_id h" and cb: "cb_recv_pkt cb = None" and mem: "mem_ok (c_mem c)" "length ct \<le> 2 ^ 62"
  obtains len h' where "conn_recv_pkt cb c (hd_bytes h @ ct) ts =
      rbind (recv_pkt_frames cb h' (Suc (length plain)) plain False
        (c\<lparr>c_decrypt_buf_len := len, c_flags := c_flags c OR NGTCP2_CONN_FLAG_RECV_PROTECTED_PKT\<rparr>)) (recv_pkt_done h' ts False)"
    "hd_pkt_num h' = hd_pkt_num h" "hd_flags h' = 0"
proof -
  have b: "hd_bytes h = hd_short_bytes h l" using h by (simp add: hd_bytes_def)
  have rd: "rd (hd_bytes h @ ct) 0 = Inr (hd_short_first h)" by (simp add: b hd_short_bytes_def)
  have at: "holds_at (hd_bytes h @ ct) 0 (hd_short_bytes h l)" unfolding b by (rule holds_at_prefix)
  have fl: "short_flags h = 0" using h(1) by (simp add: short_flags_eq)
  define h1 where "h1 = \<lparr>hd_flags = 0, hd_type = hd_type h, hd_conn_id = hd_conn_id h, hd_pkt_num = take_bit (8 * l) (hd_pkt_num h),
      hd_version = 0\<rparr>"
  have d: "ngtcp2_pkt_decode_hd_short (hd_bytes h @ ct) = Inr (h1, length (hd_bytes h))"
    using decode_hd_short_at [OF at h(2)] h(1) fl by (simp add: h1_def b)
  define h' where "h' = h1\<lparr>hd_pkt_num := hd_pkt_num h\<rparr>"
  have bits: "pkt_num_bits h1 = Some (8 * l)" using h(2) by (auto simp: pkt_num_bits_def h1_def short_pkt_num_len_def split: if_splits)
  have "conn_recv_pkt cb c (hd_bytes h @ ct) ts = recv_pkt_body cb c (hd_bytes h @ ct) h1 (length (hd_bytes h)) ts"
    unfolding conn_recv_pkt_def rd using hd_short_first_bits(1) [OF h(2)] d by (simp add: h1_def)
  also have "\<dots> = recv_protected_pkt cb c h' ct (hd_bytes h) (Some ckm) ts"
    using bits num key(1) cb by (simp add: recv_pkt_body_def Let_def h'_def conn_call_recv_pkt_def conn_call_def h1_def)
  finally have r: "conn_recv_pkt cb c (hd_bytes h @ ct) ts = recv_protected_pkt cb c h' ct (hd_bytes h) (Some ckm) ts" .
  obtain len where len: "conn_ensure_decrypt_buffer c (length ct) = Inr (None, c\<lparr>c_decrypt_buf_len := len\<rparr>)"
    using ensure_decrypt_buffer_ok [OF mem] by blast
  have "conn_decrypt_pkt (length ct) ct (hd_bytes h) (hd_pkt_num h) (Some ckm) (cb_decrypt cb) = Inr plain"
    using key(2,3) dec by (simp add: conn_decrypt_pkt_def)
  then have "recv_protected_pkt cb c h' ct (hd_bytes h) (Some ckm) ts =
      rbind (recv_pkt_frames cb h' (Suc (length plain)) plain False
        (c\<lparr>c_decrypt_buf_len := len, c_flags := c_flags c OR NGTCP2_CONN_FLAG_RECV_PROTECTED_PKT\<rparr>)) (recv_pkt_done h' ts False)"
    unfolding recv_protected_pkt_def len using id by (simp add: h'_def h1_def Let_def)
  then show thesis using that [of h' len] r by (simp add: h'_def h1_def)
qed

lemma recv_one_frame:
  assumes wf: "wf_frame fr" and len: "length (frame_bytes fr) < 2 ^ 63" and foll: "may_follow fr []" and ne: "frame_bytes fr \<noteq> []"
    and cb: "cb_recv_frame cb = None" and r: "recv_frame cb h c (encoded_frame fr) = Inr (None, c')"
  shows "recv_pkt_frames cb h (Suc (length (frame_bytes fr))) (frame_bytes fr) False c = Inr (None, requires_ack (encoded_frame fr), c')"
proof -
  let ?b = "frame_bytes fr"
  have d: "ngtcp2_pkt_decode_frame ?b = Inr (Some (encoded_frame fr), length ?b)"
    using decode_frame_at [OF wf, of "[]"] len foll by (simp del: frame_bytes.simps)
  obtain m where m: "length ?b = Suc m" using ne by (cases "length ?b") auto
  have "recv_pkt_frames cb h (Suc (length ?b)) ?b False c = recv_pkt_frames cb h (length ?b) [] (requires_ack (encoded_frame fr)) c'"
    using ne d cb r by (simp add: conn_call_recv_frame_def conn_call_def del: frame_bytes.simps)
  then show ?thesis unfolding m by simp
qed

lemma sched_ack_ok:
  assumes "mem_ok (c_mem c)" and "acktr_wf (c_acktr c)" and "n \<notin> pkt_num ` set (ent (c_acktr c))"
  obtains a e where "ngtcp2_conn_sched_ack c n active ts unprot = Inr (None, c\<lparr>c_acktr := a, c_next_ack_expiry := e\<rparr>)" "acktr_wf a"
proof -
  let ?e = "\<lparr>pkt_num = n, tstamp = ts, unprotected = unprot\<rparr>"
  obtain a where a: "ngtcp2_acktr_add (c_acktr c) ?e active = Inr (None, a)" "acktr_wf a"
    using acktr_add_ok [OF assms(2), of ?e active] assms(3) by auto
  show thesis
  proof (cases "\<not> c_immediate_ack c \<and> c_next_ack_expiry c = 0 \<and> active_ack a")
    case True
    then show thesis using that [of "ts + NGTCP2_DELAYED_ACK_TIMEOUT" a] a
      by (simp add: ngtcp2_conn_sched_ack_def ngtcp2_acktr_entry_new_def malloc_mem_ok [OF assms(1)] conn_set_next_ack_expiry_def)
  next
    case False
    then show thesis using that [of "c_next_ack_expiry c" a] a
      by (auto simp: ngtcp2_conn_sched_ack_def ngtcp2_acktr_entry_new_def malloc_mem_ok [OF assms(1)])
  qed
qed

section \<open>The truncated packet number\<close>

lemma select_num_len:
  fixes c :: "'u ngtcp2_conn"
  assumes "largest_acked (c_rtb c) \<le> mx" and "mx < t" and "unat t < 2 ^ 62" and "unat t < unat (largest_acked (c_rtb c)) + 2 ^ 31"
  obtains l where "short_pkt_num_len (conn_select_pkt_type c t) = Some l"
    "ngtcp2_pkt_adjust_pkt_num mx (take_bit (8 * l) t) (8 * l) = t"
proof -
  define d where "d = unat t - unat (largest_acked (c_rtb c))"
  have la: "largest_acked (c_rtb c) \<le> t" "unat (largest_acked (c_rtb c)) \<le> unat mx" "unat mx < unat t"
    using assms(1,2) by (simp_all add: word_le_nat_alt word_less_nat_alt)
  have d31: "d < 2 ^ 31" using assms(4) la by (simp add: d_def)
  have ok: "ngtcp2_pkt_adjust_pkt_num mx (take_bit (8 * l) t) (8 * l) = t" if l: "8 * l \<le> 32" "2 * d < 2 ^ (8 * l)" for l
  proof (rule adjust_next)
    have "(2 :: nat) ^ (8 * l) \<le> 2 ^ 32" using l(1) by (intro power_increasing) simp_all
    then show "unat mx + 2 * 2 ^ (8 * l) < 2 ^ 64" using la assms(3) by simp
    show "2 * unat t < 2 * (unat mx + 1) + 2 ^ (8 * l)" using l(2) la by (simp add: d_def)
  qed (use l assms(2) in simp_all)
  note ty = select_pkt_type_bits [OF la(1) assms(3), folded d_def]
  consider "d < 2 ^ 7" | "2 ^ 7 \<le> d" "d < 2 ^ 15" | "2 ^ 15 \<le> d" by linarith
  then show thesis
  proof cases
    case 1
    then show thesis using that [of 1] ok [of 1] ty by (simp add: short_pkt_num_len_def)
  next
    case 2
    then show thesis using that [of 2] ok [of 2] ty by (simp add: short_pkt_num_len_def)
  next
    case 3
    then show thesis using that [of 4] ok [of 4] ty d31 by (simp add: short_pkt_num_len_def)
  qed
qed



section \<open>Two endpoints\<close>

text \<open>
  The receiver \<open>cr\<close> has the keys of the sender \<open>cs\<close> and its connection ID; what the sender knows to be acknowledged has been
  received, nothing has been received that was not sent, fewer than \<open>2 ^ 31\<close> packets are unacknowledged, and the next
  packet number is not one that the receiver still has to acknowledge.
\<close>

definition paired :: "'a ngtcp2_conn_callbacks \<Rightarrow> 'a ngtcp2_conn \<Rightarrow> 'b ngtcp2_conn_callbacks \<Rightarrow> 'b ngtcp2_conn \<Rightarrow> bool" where
  "paired cbs cs cbr cr =
     (c_state cr = NGTCP2_CS_POST_HANDSHAKE \<and> c_conn_id cr = c_conn_id cs \<and> c_rx_ckm cr = c_tx_ckm cs \<and>
      (\<exists>ckm. c_tx_ckm cs = Some ckm \<and> 8 \<le> length (km_iv ckm) \<and> length (km_iv ckm) \<le> 32) \<and>
      aead_ok (cb_encrypt cbs) (cb_decrypt cbr) (c_aead_overhead cs) \<and>
      largest_acked (c_rtb cs) \<le> c_max_rx_pkt_num cr \<and> c_max_rx_pkt_num cr \<le> c_last_tx_pkt_num cs \<and>
      unat (c_last_tx_pkt_num cs) + 1 < unat (largest_acked (c_rtb cs)) + 2 ^ 31 \<and> unat (c_last_tx_pkt_num cs) + 1 < 2 ^ 62 \<and>
      c_last_tx_pkt_num cs + 1 \<notin> pkt_num ` set (ent (c_acktr cr)))"

text \<open>A packet with one frame, from the sender's buffer to the receiver's loop over the frames.\<close>

lemma paired_recv:
  fixes cs :: "'a ngtcp2_conn" and cr :: "'b ngtcp2_conn"
  assumes pr: "paired cbs cs cbr cr" and wf: "wf_frame fr"
    and p: "ngtcp2_ppe_encode_hd (ngtcp2_ppe_init dest (tx_ctx cbs cs)) (short_hd cs) = Inr p"
      "ngtcp2_ppe_encode_frame p fr = Inr (p', fr')" "ppe_packet p' = Inr pkt"
    and dest: "length dest < 2 ^ 62" and cr: "conn_ok cr" "cb_recv_pkt cbr = None"
  obtains len h' where "ngtcp2_conn_recv cbr cr pkt ts =
      rbind (recv_pkt_frames cbr h' (Suc (length (frame_bytes fr))) (frame_bytes fr) False
        (cr\<lparr>c_decrypt_buf_len := len, c_flags := c_flags cr OR NGTCP2_CONN_FLAG_RECV_PROTECTED_PKT\<rparr>)) (recv_pkt_done h' ts False)"
    "hd_pkt_num h' = c_last_tx_pkt_num cs + 1" "hd_flags h' = 0" "length (frame_bytes fr) < 2 ^ 63" "pkt \<noteq> []"
proof -
  define t where "t = c_last_tx_pkt_num cs + 1"
  obtain ckm where ckm: "c_tx_ckm cs = Some ckm" "8 \<le> length (km_iv ckm)" "length (km_iv ckm) \<le> 32" "c_rx_ckm cr = Some ckm"
    using pr by (auto simp: paired_def)
  have aead: "aead_ok (ctx_encrypt (tx_ctx cbs cs)) (cb_decrypt cbr) (ctx_aead_overhead (tx_ctx cbs cs))"
    using pr by (simp add: paired_def tx_ctx_def)
  obtain nonce ct where ct: "pkt = hd_bytes (short_hd cs) @ ct" "ngtcp2_crypto_create_nonce (km_iv ckm) (hd_pkt_num (short_hd cs)) = Inr nonce"
      "cb_decrypt cbr ct (km_key ckm) nonce (hd_bytes (short_hd cs)) = Inr (frame_bytes fr)"
      "length ct = length (frame_bytes fr) + ctx_aead_overhead (tx_ctx cbs cs)" "length pkt \<le> length dest"
    by (rule one_frame_packet [OF short_hd_known(1) p(1) wf p(2,3) _ ckm(2,3) aead]) (simp_all add: tx_ctx_def ckm(1))
  have tn: "unat t = unat (c_last_tx_pkt_num cs) + 1" using pr by (simp add: t_def paired_def unat_word_ariths)
  have win: "largest_acked (c_rtb cs) \<le> c_max_rx_pkt_num cr" "c_max_rx_pkt_num cr < t" "unat t < 2 ^ 62"
      "unat t < unat (largest_acked (c_rtb cs)) + 2 ^ 31"
    using pr tn by (auto simp: paired_def word_le_nat_alt word_less_nat_alt)
  obtain l where l: "short_pkt_num_len (conn_select_pkt_type cs t) = Some l"
      "ngtcp2_pkt_adjust_pkt_num (c_max_rx_pkt_num cr) (take_bit (8 * l) t) (8 * l) = t"
    by (rule select_num_len [OF win])
  have hs: "hd_type (short_hd cs) = conn_select_pkt_type cs t" "hd_pkt_num (short_hd cs) = t" "hd_conn_id (short_hd cs) = c_conn_id cr"
    using pr by (simp_all add: short_hd_def ngtcp2_pkt_hd_init_def t_def paired_def)
  have f: "short_pkt_num_len (hd_type (short_hd cs)) = Some l"
      "ngtcp2_pkt_adjust_pkt_num (c_max_rx_pkt_num cr) (take_bit (8 * l) (hd_pkt_num (short_hd cs))) (8 * l) = hd_pkt_num (short_hd cs)"
      "length (km_iv ckm) \<le> 64" "length (frame_bytes fr) \<le> length ct" "c_conn_id cr = hd_conn_id (short_hd cs)"
      "mem_ok (c_mem cr)" "length ct \<le> 2 ^ 62"
    using l hs ckm(3) ct(1,4,5) dest conn_ok_inv [OF cr(1)] by (simp_all add: conn_inv_def)
  obtain len h' where r: "conn_recv_pkt cbr cr pkt ts =
      rbind (recv_pkt_frames cbr h' (Suc (length (frame_bytes fr))) (frame_bytes fr) False
        (cr\<lparr>c_decrypt_buf_len := len, c_flags := c_flags cr OR NGTCP2_CONN_FLAG_RECV_PROTECTED_PKT\<rparr>)) (recv_pkt_done h' ts False)"
      "hd_pkt_num h' = t" "hd_flags h' = 0"
    by (rule recv_short_pkt [OF short_hd_known(2) f(1,2) ckm(4) f(3) ct(2,3) f(4,5) cr(2) f(6,7), where ts = ts])
      (use ct(1) hs(2) in simp)
  have ne: "pkt \<noteq> []" using ct(1) short_hd_known(1) [of cs] l(1) hs(1) short_hd_known(2) [of cs]
    by (auto simp: hd_bytes_def hd_short_bytes_def)
  then have "ngtcp2_conn_recv cbr cr pkt ts = conn_recv_pkt cbr cr pkt ts" using pr by (simp add: ngtcp2_conn_recv_def paired_def)
  then show thesis using that [OF trans [OF _ r(1)]] r(2,3) ne ct(1,4,5) dest by (simp add: t_def)
qed

lemma segment_take: "segment_of S off data \<Longrightarrow> segment_of S off (take n data)"
  by (simp add: segment_of_def)

lemma conn_ok_flags_buf: "conn_ok (c\<lparr>c_decrypt_buf_len := len, c_flags := f\<rparr>) = conn_ok c"
  by (simp add: conn_ok_def)

lemma conn_ok_acked:
  assumes "acktr_wf a" and "conn_ok c"
  shows "conn_ok (c\<lparr>c_max_rx_pkt_num := x, c_acktr := a, c_next_ack_expiry := e\<rparr>)"
  using conn_inv_tables(1) [of "c\<lparr>c_max_rx_pkt_num := x\<rparr>", OF _ assms(1)] assms(2) by (simp add: conn_ok_def)

lemma recv_done_ok:
  fixes c :: "'u ngtcp2_conn"
  assumes "conn_ok c" and "hd_pkt_num h \<notin> pkt_num ` set (ent (c_acktr c))"
  obtains c' where "recv_pkt_done h ts False (None, req, c) = Inr (None, c')" "conn_ok c'" "strm_of c' = strm_of c"
    "c_user_data c' = c_user_data c" "c_state c' = c_state c"
proof -
  define c3 where "c3 = c\<lparr>c_max_rx_pkt_num := max (c_max_rx_pkt_num c) (hd_pkt_num h)\<rparr>"
  have c3: "mem_ok (c_mem c3)" "acktr_wf (c_acktr c3)" "hd_pkt_num h \<notin> pkt_num ` set (ent (c_acktr c3))"
    using conn_ok_inv [OF assms(1)] assms(2) by (simp_all add: c3_def conn_inv_def)
  obtain e a where a: "ngtcp2_conn_sched_ack c3 (hd_pkt_num h) req ts False = Inr (None, c3\<lparr>c_acktr := a, c_next_ack_expiry := e\<rparr>)" "acktr_wf a"
    by (rule sched_ack_ok [OF c3])
  have "conn_ok (c3\<lparr>c_acktr := a, c_next_ack_expiry := e\<rparr>)" using conn_ok_acked [OF a(2) assms(1)] by (simp add: c3_def)
  then show thesis using that [of "c3\<lparr>c_acktr := a, c_next_ack_expiry := e\<rparr>"] a(1)
    by (simp add: recv_pkt_done_def c3_def fun_eq_iff strm_of_def)
qed

section \<open>An established pair\<close>

text \<open>
  A recorder with a toy AEAD that appends one byte, and a connection as it is after the handshake: both endpoints have the
  same key, and the peer allows 5000 bytes.
\<close>

definition tagger :: "recording ngtcp2_conn_callbacks" where
  "tagger = recorder\<lparr>cb_encrypt := \<lambda>p _ _ _. Some (p @ [0]), cb_decrypt := \<lambda>p _ _ _. Inr (butlast p)\<rparr>"

definition example_km :: ngtcp2_crypto_km where
  "example_km = \<lparr>km_key = [1, 2, 3], km_iv = replicate 12 0\<rparr>"

definition established :: "'u ngtcp2_conn \<Rightarrow> 'u ngtcp2_conn" where
  "established c =
     c\<lparr>c_state := NGTCP2_CS_POST_HANDSHAKE, c_conn_id := 7, c_tx_ckm := Some example_km, c_rx_ckm := Some example_km,
       c_aead_overhead := 1, c_tx_offset := 0, c_max_tx_offset := 5000\<rparr>"

definition peer_settings :: ngtcp2_settings where
  "peer_settings = zero_settings\<lparr>set_max_stream_data := 65535, set_max_data := 5000\<rparr>"

lemma tagger_ok: "app_ok tagger" "records tagger k (\<lambda>u. u k)" "aead_ok (cb_encrypt tagger) (cb_decrypt tagger) 1"
  "cb_send_pkt tagger = None" "cb_send_frame tagger = None" "cb_recv_pkt tagger = None" "cb_recv_frame tagger = None"
proof -
  show "app_ok tagger" using recorder_app by (simp add: app_ok_def tagger_def)
  have "deliver tagger = deliver recorder" "conn_call_stream_close tagger = conn_call_stream_close recorder"
    by (simp_all add: fun_eq_iff tagger_def deliver_def conn_call_recv_stream0_data_def conn_call_recv_stream_data_def
        conn_call_stream_close_def)
  then show "records tagger k (\<lambda>u. u k)" using recorder_records [of k] by (simp add: records_def)
qed (simp_all add: tagger_def aead_ok_def recorder_def)

lemma established_simps:
  "strm_of (established c) k = strm_of c k" "conn_ok (established c) = conn_ok c" "c_user_data (established c) = c_user_data c"
  "c_rtb (established c) = c_rtb c" "c_last_tx_pkt_num (established c) = c_last_tx_pkt_num c" "c_tx_offset (established c) = 0"
  "c_max_tx_offset (established c) = 5000" "c_aead_overhead (established c) = 1" "c_tx_ckm (established c) = Some example_km"
  by (simp_all add: established_def conn_ok_def)

abbreviation peer_stream :: ngtcp2_strm where
  "peer_stream \<equiv> new_strm 0 65535 NGTCP2_STRM0_MAX_STREAM_DATA"

lemma peer_client:
  obtains c :: "recording ngtcp2_conn" where "ngtcp2_conn_client_new (\<lambda>_. True) 7 1 peer_settings (\<lambda>_. []) = Inr (None, Some c)" "conn_ok c"
    "fresh_conn c" "strm_of c 0 = Some peer_stream"
proof -
  obtain c :: "recording ngtcp2_conn" where
      c: "ngtcp2_conn_client_new (\<lambda>_. True) 7 1 peer_settings (\<lambda>_. []) = Inr (None, Some c)" "conn_ok c" "fresh_conn c"
      "c_local_settings c = peer_settings"
    using client_new_ok [OF mem_ok_True, of 7 1 peer_settings "\<lambda>_. []"] by blast
  have "strm_of c 0 = Some peer_stream" using c(3,4) by (simp add: fresh_conn_def peer_settings_def zero_settings_def)
  then show thesis using that c by blast
qed

lemma peer_server:
  obtains c :: "recording ngtcp2_conn" where "ngtcp2_conn_server_new (\<lambda>_. True) 7 1 peer_settings (\<lambda>_. []) = Inr (None, Some c)" "conn_ok c"
    "fresh_conn c" "strm_of c 0 = Some peer_stream" "c_user_data c = (\<lambda>_. [])"
proof -
  obtain c :: "recording ngtcp2_conn" where
      c: "ngtcp2_conn_server_new (\<lambda>_. True) 7 1 peer_settings (\<lambda>_. []) = Inr (None, Some c)" "conn_ok c" "fresh_conn c"
      "c_local_settings c = peer_settings" "c_user_data c = (\<lambda>_. [])"
    using server_new_ok [OF mem_ok_True, of 7 1 peer_settings "\<lambda>_. []"] by blast
  have "strm_of c 0 = Some peer_stream" using c(3,4) by (simp add: fresh_conn_def peer_settings_def zero_settings_def)
  then show thesis using that c by blast
qed

lemma peer_stream_simps: "s_tx_offset peer_stream = 0" "s_max_tx_offset peer_stream = 65535" "s_max_rx_offset peer_stream = 65535"
  "strm_has peer_stream x = False" "ngtcp2_strm_rx_offset peer_stream = 0"
  by (simp_all add: new_strm_def strm_has_def ngtcp2_strm_rx_offset_def ngtcp2_rob_first_gap_offset_def ngtcp2_range_init_def)

lemma peers_paired: "fresh_conn c \<Longrightarrow> fresh_conn d \<Longrightarrow> paired tagger (established c) tagger (established d)"
  using tagger_ok(3) by (simp add: paired_def established_def example_km_def fresh_conn_def ngtcp2_rtb_init_def)

section \<open>Properties\<close>

text \<open>
  C4. Sending stream data. When the limits of the stream and of the connection allow for the data and the buffer has room
  for it (38 bytes for header and frame, and the AEAD's overhead), \<^verbatim>\<open>ngtcp2_conn_write_stream\<close> sends all of it in one packet:
  the packet number and the offsets advance, the stream is shut for writing exactly when the end was sent, and the packet
  is in the retransmission buffer with the frame.
\<close>

theorem write_stream_sends:
  fixes c :: "'u ngtcp2_conn" and fin :: bool
  assumes "conn_ok c" and "strm_of c k = Some s" and "\<not> strm_has s NGTCP2_STRM_FLAG_SHUT_WR" and "k \<le> NGTCP2_MAX_VARINT"
    and "cb_send_pkt cb = None" and "cb_send_frame cb = None" and "aead_ok (cb_encrypt cb) dec (c_aead_overhead c)"
    and "c_tx_ckm c = Some ckm" and "8 \<le> length (km_iv ckm)" and "length (km_iv ckm) \<le> 32"
    and "c_last_tx_pkt_num c \<noteq> UINT64_MAX" and "c_last_tx_pkt_num c + 1 \<notin> pn ` set (rtb_head (c_rtb c))"
    and "unat (s_tx_offset s) + length data \<le> unat (s_max_tx_offset s)" and "unat (c_tx_offset c) + length data \<le> unat (c_max_tx_offset c)"
    and "unat (s_tx_offset s) + length data \<le> unat NGTCP2_MAX_VARINT"
    and "38 + length data + c_aead_overhead c \<le> length dest" and "capacity (rtb_pq (c_rtb c)) < 2 ^ 62"
    and "bytes_in_flight (c_rtb c) + length dest < 2 ^ 64"
  shows "\<exists>pkt c' s' e. ngtcp2_conn_write_stream cb c dest k fin data ts = Inr (Inr (pkt, length data), c') \<and>
    conn_ok c' \<and> c_last_tx_pkt_num c' = c_last_tx_pkt_num c + 1 \<and> strm_of c' k = Some s' \<and>
    s_tx_offset s' = s_tx_offset s + of_nat (length data) \<and> strm_has s' NGTCP2_STRM_FLAG_SHUT_WR = fin \<and>
    c_tx_offset c' = c_tx_offset c + (if k = 0 then 0 else of_nat (length data)) \<and>
    rtb_head (c_rtb c') = e # rtb_head (c_rtb c) \<and> pn e = c_last_tx_pkt_num c + 1 \<and>
    re_frc e = [encoded_frame (FrStream \<lparr>st_flags = 0, st_fin = fin, st_stream_id = k, st_offset = s_tx_offset s,
      st_datalen = length data, st_data = data\<rparr>)]"
  by (rule write_stream_sends_aux [OF assms, where ts = ts]) blast

lemma peer_sends:
  assumes "conn_ok c" and "fresh_conn c" and "strm_of c 0 = Some peer_stream"
  shows "conn_ok (established c)" "strm_of (established c) 0 = Some peer_stream" "(0 :: u64) \<le> NGTCP2_MAX_VARINT"
    "aead_ok (cb_encrypt tagger) (cb_decrypt tagger) (c_aead_overhead (established c))" "8 \<le> length (km_iv example_km)"
    "length (km_iv example_km) \<le> 32" "c_last_tx_pkt_num (established c) \<noteq> UINT64_MAX"
    "c_last_tx_pkt_num (established c) + 1 \<notin> pn ` set (rtb_head (c_rtb (established c)))"
    "unat (s_tx_offset peer_stream) + length [0, 1, 2 :: u8] \<le> unat (s_max_tx_offset peer_stream)"
    "unat (c_tx_offset (established c)) + length [0, 1, 2 :: u8] \<le> unat (c_max_tx_offset (established c))"
    "unat (s_tx_offset peer_stream) + length [0, 1, 2 :: u8] \<le> unat NGTCP2_MAX_VARINT"
    "38 + length [0, 1, 2 :: u8] + c_aead_overhead (established c) \<le> length (replicate 1200 (0 :: u8))"
    "capacity (rtb_pq (c_rtb (established c))) < 2 ^ 62" "bytes_in_flight (c_rtb (established c)) + length (replicate 1200 (0 :: u8)) < 2 ^ 64"
  using assms tagger_ok(3) less_UINT64_MAX [of 0]
  by (simp_all add: established_simps peer_stream_simps example_km_def fresh_conn_def ngtcp2_rtb_init_def ngtcp2_pq_init_def)

lemma write_stream_sends_witness:
  "\<exists>c :: recording ngtcp2_conn. \<exists>pkt c'. ngtcp2_conn_client_new (\<lambda>_. True) 7 1 peer_settings (\<lambda>_. []) = Inr (None, Some c) \<and>
     ngtcp2_conn_write_stream tagger (established c) (replicate 1200 0) 0 True [0, 1, 2] 5 = Inr (Inr (pkt, 3), c') \<and>
     c_last_tx_pkt_num c' = c_last_tx_pkt_num c + 1"
proof -
  obtain c :: "recording ngtcp2_conn" where
      c: "ngtcp2_conn_client_new (\<lambda>_. True) 7 1 peer_settings (\<lambda>_. []) = Inr (None, Some c)" "conn_ok c" "fresh_conn c" "strm_of c 0 = Some peer_stream"
    by (rule peer_client)
  note f = peer_sends [OF c(2-4)]
  have "\<not> strm_has peer_stream NGTCP2_STRM_FLAG_SHUT_WR" by (simp add: peer_stream_simps)
  from write_stream_sends [OF f(1,2) this f(3) tagger_ok(4,5) f(4) established_simps(9) f(5-14), of True 5]
  show ?thesis using c(1) by (auto simp: established_simps)
qed

text \<open>
  C1. What one endpoint sends arrives at the other. The packet that \<^verbatim>\<open>ngtcp2_conn_write_stream\<close> of the sender produced, given
  to \<^verbatim>\<open>ngtcp2_conn_recv\<close> of the receiver, is accepted: the packet number is recovered, the packet is decrypted, its frame is
  decoded, the bytes that were sent are not missing any more, and the application is given everything up to the first
  missing byte, in order; the receiver's invariant holds again and the packet will be acknowledged. The AEAD only has to
  decrypt what it encrypted.
\<close>

theorem stream_data_arrives:
  fixes cs :: "'a ngtcp2_conn" and cr :: "'b ngtcp2_conn"
  assumes snd: "app_ok cbs" "conn_ok cs" "strm_of cs k = Some ss" "s_tx_offset ss \<le> s_max_tx_offset ss" "k \<le> NGTCP2_MAX_VARINT"
    and w: "ngtcp2_conn_write_stream cbs cs dest k False data ts = Inr (Inr (pkt, n), cs')" "data \<noteq> []" "length dest < 2 ^ 62"
    and rcv: "app_ok cbr" "records cbr k log" "cb_recv_pkt cbr = None" "cb_recv_frame cbr = None" "conn_ok cr" "strm_of cr k = Some sr"
      "receiving S sr" "credit k sr cr" "bidi_stream k \<or> \<not> conn_local_stream cr k"
    and lim: "s_max_tx_offset ss \<le> s_max_rx_offset sr" "s_max_rx_offset sr \<le> NGTCP2_MAX_VARINT"
    and seg: "segment_of S (s_tx_offset ss) data" and pr: "paired cbs cs cbr cr"
  shows "\<exists>cr' sr'. ngtcp2_conn_recv cbr cr pkt ts' = Inr (None, cr') \<and> conn_ok cr' \<and> strm_of cr' k = Some sr' \<and> receiving S sr' \<and> 0 < n \<and>
    gap_set (rob_gap (s_rob sr')) = gap_set (rob_gap (s_rob sr)) - {s_tx_offset ss ..< s_tx_offset ss + of_nat n} \<and>
    log (c_user_data cr') = log (c_user_data cr) @ map Some (slice S (ngtcp2_strm_rx_offset sr) (ngtcp2_strm_rx_offset sr'))"
proof -
  obtain ckm where ckm: "c_tx_ckm cs = Some ckm" using pr by (auto simp: paired_def)
  define fr where "fr = \<lparr>st_flags = 0, st_fin = False, st_stream_id = k, st_offset = s_tx_offset ss, st_datalen = n, st_data = take n data\<rparr>"
  obtain p p' fr' where p: "ngtcp2_ppe_encode_hd (ngtcp2_ppe_init dest (tx_ctx cbs cs)) (short_hd cs) = Inr p"
      "ngtcp2_ppe_encode_frame p (FrStream fr) = Inr (p', fr')" "ppe_packet p' = Inr pkt"
      "n \<le> length data" "n \<le> unat (s_max_tx_offset ss - s_tx_offset ss)" "0 < n"
    by (rule write_stream_packet [OF snd(1,2,3) ckm w(1)]) (use w(2) in \<open>simp add: fr_def\<close>)
  have end_lim: "unat (s_tx_offset ss) + n \<le> unat (s_max_rx_offset sr)" "unat (s_tx_offset ss) + n \<le> unat NGTCP2_MAX_VARINT"
    using p(5) snd(4) lim by (auto simp: unat_sub word_le_nat_alt)
  have wf: "wf_frame (FrStream fr)" using end_lim snd(5) p(4) by (auto simp: fr_def word_less_nat_alt word_le_nat_alt)
  obtain len h' where r: "ngtcp2_conn_recv cbr cr pkt ts' =
      rbind (recv_pkt_frames cbr h' (Suc (length (frame_bytes (FrStream fr)))) (frame_bytes (FrStream fr)) False
        (cr\<lparr>c_decrypt_buf_len := len, c_flags := c_flags cr OR NGTCP2_CONN_FLAG_RECV_PROTECTED_PKT\<rparr>)) (recv_pkt_done h' ts' False)"
      "hd_pkt_num h' = c_last_tx_pkt_num cs + 1" "hd_flags h' = 0" "length (frame_bytes (FrStream fr)) < 2 ^ 63"
    by (rule paired_recv [OF pr wf p(1-3) w(3) rcv(5,3)])
  define c1 where "c1 = cr\<lparr>c_decrypt_buf_len := len, c_flags := c_flags cr OR NGTCP2_CONN_FLAG_RECV_PROTECTED_PKT\<rparr>"
  define fe where "fe = fr\<lparr>st_flags := stream_type fr AND NOT NGTCP2_FRAME_STREAM\<rparr>"
  have c1: "conn_ok c1" "strm_of c1 k = Some sr" "credit k sr c1" "bidi_stream k \<or> \<not> conn_local_stream c1 k"
    using rcv by (simp_all add: c1_def conn_ok_flags_buf credit_def conn_local_stream_def)
  have fe: "fits k (s_max_rx_offset sr) fe" "segment_of S (st_offset fe) (st_data fe)" "st_offset fe = s_tx_offset ss"
      "fr_end fe = s_tx_offset ss + of_nat n"
    using end_lim p(4,6) segment_take [OF seg] by (simp_all add: fits_def fe_def fr_def fr_end_def)
  obtain c2 where c2: "conn_recv_stream cbr c1 fe = Inr (None, c2)"
      "stream_step S log k {s_tx_offset ss ..< s_tx_offset ss + of_nat n} sr c1 c2"
    using conn_recv_stream_delivers [OF rcv(1,2) c1(1,2) rcv(7) c1(3,4) fe(1,2)] unfolding fe(3,4) by blast
  have "recv_frame cbr h' c1 (encoded_frame (FrStream fr)) = Inr (None, c2)" using c2(1) r(3) by (simp add: recv_frame_def fe_def)
  then have fs: "recv_pkt_frames cbr h' (Suc (length (frame_bytes (FrStream fr)))) (frame_bytes (FrStream fr)) False c1 = Inr (None, True, c2)"
    using recv_one_frame [OF wf r(4) _ _ rcv(4)] by (simp add: may_follow_def requires_ack_def)
  obtain s2 where s2: "strm_of c2 k = Some s2" "conn_ok c2" "c_acktr c2 = c_acktr cr" "receiving S s2"
      "gap_set (rob_gap (s_rob s2)) = gap_set (rob_gap (s_rob sr)) - {s_tx_offset ss ..< s_tx_offset ss + of_nat n}"
      "log (c_user_data c2) = log (c_user_data cr) @ map Some (slice S (ngtcp2_strm_rx_offset sr) (ngtcp2_strm_rx_offset s2))"
    using c2(2) unfolding stream_step_def c1_def by auto
  obtain c' where c': "recv_pkt_done h' ts' False (None, True, c2) = Inr (None, c')" "conn_ok c'" "strm_of c' = strm_of c2"
      "c_user_data c' = c_user_data c2"
    by (rule recv_done_ok [OF s2(2), of h']) (use s2(3) r(2) pr in \<open>simp_all add: paired_def\<close>)
  then have "ngtcp2_conn_recv cbr cr pkt ts' = Inr (None, c')" unfolding r(1) c1_def [symmetric] fs by simp
  then show ?thesis using s2 p(6) c' by simp
qed

lemma stream_data_arrives_witness:
  "\<exists>(c :: recording ngtcp2_conn) (d :: recording ngtcp2_conn) pkt c' d'.
     ngtcp2_conn_client_new (\<lambda>_. True) 7 1 peer_settings (\<lambda>_. []) = Inr (None, Some c) \<and>
     ngtcp2_conn_server_new (\<lambda>_. True) 7 1 peer_settings (\<lambda>_. []) = Inr (None, Some d) \<and>
     ngtcp2_conn_write_stream tagger (established c) (replicate 1200 0) 0 False [0, 1, 2] 5 = Inr (Inr (pkt, 3), c') \<and>
     ngtcp2_conn_recv tagger (established d) pkt 6 = Inr (None, d') \<and> c_user_data d' 0 = map Some [0, 1, 2]"
proof -
  obtain c :: "recording ngtcp2_conn" where
      c: "ngtcp2_conn_client_new (\<lambda>_. True) 7 1 peer_settings (\<lambda>_. []) = Inr (None, Some c)" "conn_ok c" "fresh_conn c" "strm_of c 0 = Some peer_stream"
    by (rule peer_client)
  obtain d :: "recording ngtcp2_conn" where
      d: "ngtcp2_conn_server_new (\<lambda>_. True) 7 1 peer_settings (\<lambda>_. []) = Inr (None, Some d)" "conn_ok d" "fresh_conn d" "strm_of d 0 = Some peer_stream"
      "c_user_data d = (\<lambda>_. [])"
    by (rule peer_server)
  note f = peer_sends [OF c(2-4)]
  have nw: "\<not> strm_has peer_stream NGTCP2_STRM_FLAG_SHUT_WR" by (simp add: peer_stream_simps)
  obtain pkt c' where w: "ngtcp2_conn_write_stream tagger (established c) (replicate 1200 0) 0 False [0, 1, 2] 5 = Inr (Inr (pkt, 3), c')"
    by (rule write_stream_sends_aux [OF f(1,2) nw f(3) tagger_ok(4,5) f(4) established_simps(9) f(5-14), where fin = False and ts = 5]) simp
  have rc: "receiving ucast peer_stream" "gap_set (rob_gap (s_rob peer_stream)) = {0 ..< UINT64_MAX}"
    by (rule new_strm_receiving, simp)+
  have g: "segment_of ucast (s_tx_offset peer_stream) [0, 1, 2 :: u8]"
    by (auto simp: segment_of_def peer_stream_simps less_Suc_eq numeral_3_eq_3)
  have "s_tx_offset peer_stream \<le> s_max_tx_offset peer_stream" "[0, 1, 2 :: u8] \<noteq> []" "length (replicate 1200 (0 :: u8)) < 2 ^ 62"
    "credit 0 peer_stream (established d)" "bidi_stream 0 \<or> \<not> conn_local_stream (established d) 0"
    "s_max_tx_offset peer_stream \<le> s_max_rx_offset peer_stream" "s_max_rx_offset peer_stream \<le> NGTCP2_MAX_VARINT"
    by (simp_all add: peer_stream_simps credit_def bidi_stream_def)
  note h = this
  have ed: "conn_ok (established d)" "strm_of (established d) 0 = Some peer_stream" using d by (simp_all add: established_simps)
  obtain d' s' where r: "ngtcp2_conn_recv tagger (established d) pkt 6 = Inr (None, d')" "receiving ucast s'"
      "gap_set (rob_gap (s_rob s')) = {0 ..< UINT64_MAX} - {0 ..< 3}"
      "c_user_data d' 0 = map Some (slice ucast 0 (ngtcp2_strm_rx_offset s'))"
    using stream_data_arrives [OF tagger_ok(1) f(1,2) h(1) f(3) w h(2,3) tagger_ok(1,2,6,7) ed rc(1) h(4,5,6,7) g peers_paired [OF c(3) d(3)], of 6] d(5) rc(2)
    by (auto simp: established_simps peer_stream_simps)
  have "rob_inv ucast (ngtcp2_strm_rx_offset s') (s_rob s')" using r(2) by (simp add: receiving_def pending_def)
  then have "ngtcp2_rob_first_gap_offset (s_rob s') = 3"
    by (rule first_gap_unique) (auto simp: r(3) less_UINT64_MAX)
  then have "slice ucast 0 (ngtcp2_strm_rx_offset s') = [0, 1, 2 :: u8]" by (simp add: ngtcp2_strm_rx_offset_def slice_def upt_rec)
  then show ?thesis using c(1) d(1) w r(1,4) by auto
qed

text \<open>
  C8. Closing a connection. After \<^verbatim>\<open>ngtcp2_conn_write_connection_close\<close> has written a packet the sender is in the closing
  period; the packet puts the receiver into the draining period; and from then on both ignore whatever they receive:
  their state does not change any more.
\<close>

theorem connection_close_arrives:
  fixes cs :: "'a ngtcp2_conn" and cr :: "'b ngtcp2_conn"
  assumes "ngtcp2_conn_write_connection_close cbs cs dest code = Inr (Inr pkt, cs')" and "length dest < 2 ^ 62"
    and "cb_recv_pkt cbr = None" and "cb_recv_frame cbr = None" and "conn_ok cr" and "paired cbs cs cbr cr"
  shows "\<exists>cr'. ngtcp2_conn_recv cbr cr pkt ts = Inr (None, cr') \<and> conn_ok cr' \<and> ngtcp2_conn_in_closing_period cs' \<and>
    ngtcp2_conn_in_draining_period cr' \<and>
    (\<forall>x ts. x \<noteq> [] \<longrightarrow> ngtcp2_conn_recv cbs cs' x ts = Inr (None, cs') \<and> ngtcp2_conn_recv cbr cr' x ts = Inr (None, cr'))"
proof -
  define fr where "fr = FrConnectionClose \<lparr>cc_error_code = code, cc_reasonlen = 0, cc_reason = []\<rparr>"
  obtain c1 where w: "conn_write_single_frame_pkt cbs cs dest fr = Inr (Inr pkt, c1)"
      "cs' = (if pkt \<noteq> [] then c1\<lparr>c_state := NGTCP2_CS_CLOSING\<rparr> else c1)"
    using assms(1) by (auto simp: ngtcp2_conn_write_connection_close_def rbind_eq_Inr fr_def split: if_splits dest!: wbind_Inr)
  obtain p p' fr' where p: "ngtcp2_ppe_encode_hd (ngtcp2_ppe_init dest (tx_ctx cbs cs)) (short_hd cs) = Inr p"
      "ngtcp2_ppe_encode_frame p fr = Inr (p', fr')" "ppe_packet p' = Inr pkt"
    by (rule single_frame_packet [OF w(1)])
  have wf: "wf_frame fr" by (simp add: fr_def)
  obtain len h' where r: "ngtcp2_conn_recv cbr cr pkt ts =
      rbind (recv_pkt_frames cbr h' (Suc (length (frame_bytes fr))) (frame_bytes fr) False
        (cr\<lparr>c_decrypt_buf_len := len, c_flags := c_flags cr OR NGTCP2_CONN_FLAG_RECV_PROTECTED_PKT\<rparr>)) (recv_pkt_done h' ts False)"
      "hd_pkt_num h' = c_last_tx_pkt_num cs + 1" "hd_flags h' = 0" "length (frame_bytes fr) < 2 ^ 63" "pkt \<noteq> []"
    by (rule paired_recv [OF assms(6) wf p assms(2,5,3)])
  define c2 where "c2 = cr\<lparr>c_decrypt_buf_len := len, c_flags := c_flags cr OR NGTCP2_CONN_FLAG_RECV_PROTECTED_PKT,
    c_state := NGTCP2_CS_DRAINING\<rparr>"
  have ok: "conn_ok c2" using assms(5) by (simp add: c2_def conn_ok_def)
  have num: "hd_pkt_num h' \<notin> pkt_num ` set (ent (c_acktr c2))" using assms(6) r(2) by (simp add: c2_def paired_def)
  have fs: "recv_pkt_frames cbr h' (Suc (length (frame_bytes fr))) (frame_bytes fr) False
        (cr\<lparr>c_decrypt_buf_len := len, c_flags := c_flags cr OR NGTCP2_CONN_FLAG_RECV_PROTECTED_PKT\<rparr>) = Inr (None, False, c2)"
    using recv_one_frame [OF wf r(4) _ _ assms(4), of h' _ c2] r(3)
    by (simp add: fr_def may_follow_def requires_ack_def recv_frame_def conn_recv_connection_close_def c2_def)
  obtain c' where c': "recv_pkt_done h' ts False (None, False, c2) = Inr (None, c')" "conn_ok c'" "c_state c' = NGTCP2_CS_DRAINING"
    by (rule recv_done_ok [OF ok num, where ts = ts and req = False]) (simp add: c2_def)
  then have "ngtcp2_conn_recv cbr cr pkt ts = Inr (None, c')" unfolding r(1) fs by simp
  then show ?thesis using c' w(2) r(5)
    by (simp add: ngtcp2_conn_in_closing_period_def ngtcp2_conn_in_draining_period_def ngtcp2_conn_recv_def)
qed

lemma connection_close_arrives_witness:
  "\<exists>(c :: recording ngtcp2_conn) (d :: recording ngtcp2_conn) pkt c' d'.
     ngtcp2_conn_client_new (\<lambda>_. True) 7 1 peer_settings (\<lambda>_. []) = Inr (None, Some c) \<and>
     ngtcp2_conn_server_new (\<lambda>_. True) 7 1 peer_settings (\<lambda>_. []) = Inr (None, Some d) \<and>
     ngtcp2_conn_write_connection_close tagger (established c) (replicate 1200 0) 10 = Inr (Inr pkt, c') \<and>
     ngtcp2_conn_recv tagger (established d) pkt 6 = Inr (None, d') \<and> ngtcp2_conn_in_draining_period d'"
proof -
  obtain c :: "recording ngtcp2_conn" where
      c: "ngtcp2_conn_client_new (\<lambda>_. True) 7 1 peer_settings (\<lambda>_. []) = Inr (None, Some c)" "conn_ok c" "fresh_conn c" "strm_of c 0 = Some peer_stream"
    by (rule peer_client)
  obtain d :: "recording ngtcp2_conn" where
      d: "ngtcp2_conn_server_new (\<lambda>_. True) 7 1 peer_settings (\<lambda>_. []) = Inr (None, Some d)" "conn_ok d" "fresh_conn d"
    by (rule peer_server)
  note f = peer_sends [OF c(2-4)]
  define fr where "fr = FrConnectionClose \<lparr>cc_error_code = 10, cc_reasonlen = 0, cc_reason = []\<rparr>"
  have fr: "wf_frame fr" "encoded_frame fr = fr" "\<And>a. fr \<noteq> FrAck a" "length (frame_bytes fr) = 4" by (simp_all add: fr_def varint_len_eq)
  have room: "13 + length (frame_bytes fr) + c_aead_overhead (established c) \<le> length (replicate 1200 (0 :: u8))"
    unfolding fr(4) established_simps length_replicate by simp
  obtain pkt where "conn_write_single_frame_pkt tagger (established c) (replicate 1200 0) fr = Inr (Inr pkt, next_pkt_num (established c))"
    by (rule single_frame_sends [OF fr(1) f(4) established_simps(9) f(5,6) room tagger_ok(4,5) fr(2,3)])
  then obtain c' where w: "ngtcp2_conn_write_connection_close tagger (established c) (replicate 1200 0) 10 = Inr (Inr pkt, c')"
    using f(7) by (auto simp: ngtcp2_conn_write_connection_close_def established_def fr_def)
  have ed: "conn_ok (established d)" using d(2) by (simp add: established_simps)
  have "length (replicate 1200 (0 :: u8)) < 2 ^ 62" by simp
  from connection_close_arrives [OF w this tagger_ok(6,7) ed peers_paired [OF c(3) d(3)], of 6]
  show ?thesis using c(1) d(1) w by blast
qed

end
