(* ===== verification/Conn_Input.thy ===== *)
theory Conn_Input
  imports Conn_Peer
begin

text \<open>
  Whole packets from the network: what \<^verbatim>\<open>ngtcp2_conn_recv\<close> does with any bytes in a packet with a short header, from the
  header to the acknowledgement that is scheduled.
\<close>

section \<open>Scheduling an acknowledgement\<close>



section \<open>Decryption\<close>




section \<open>A packet with a short header\<close>









end
