(* ===== verification/Conn_Retransmit.thy ===== *)
theory Conn_Retransmit
  imports Conn_Tx Conn_Inv
begin

text \<open>
  The loop of \<^verbatim>\<open>conn_retransmit\<close> ends: a pass either returns or drops a packet and leaves the buffer otherwise as it is.
\<close>

section \<open>Computations that end\<close>

text \<open>The only source of \<open>OutOfFuel\<close> in a computation of the model are the loops with a bound on their passes.\<close>

named_theorems ends_intros

definition ends :: "'a res \<Rightarrow> bool" where
  "ends r = (r \<noteq> Inl OutOfFuel)"

lemma ends_basic [ends_intros]: "ends (Inr x)" "ends (fail e)" "ends (Inl OutOfBounds)" "ends (Inl AssertFail)"
  by (simp_all add: ends_def)

lemma ends_bind [ends_intros]: "ends r \<Longrightarrow> (\<And>x. r = Inr x \<Longrightarrow> ends (k x)) \<Longrightarrow> ends (rbind r k)"
  by (cases r) (auto simp: ends_def)

lemma ends_case [ends_intros]:
  "(b \<Longrightarrow> ends x) \<Longrightarrow> (\<not> b \<Longrightarrow> ends y) \<Longrightarrow> ends (if b then x else y)"
  "ends z \<Longrightarrow> ends (rassert b z)"
  "ends (f t) \<Longrightarrow> ends (Let t f)"
  "(\<And>a b. ends (g a b)) \<Longrightarrow> ends (case p of (a, b) \<Rightarrow> g a b)"
  "(\<And>a b. ends (g2 a b v)) \<Longrightarrow> ends ((case p2 of (a, b) \<Rightarrow> g2 a b) v)"
  "ends x \<Longrightarrow> (\<And>a. ends (h a)) \<Longrightarrow> ends (case q' of None \<Rightarrow> x | Some a \<Rightarrow> h a)"
  "ends x \<Longrightarrow> (\<And>a as. l = a # as \<Longrightarrow> ends (g' a as)) \<Longrightarrow> ends (case l of [] \<Rightarrow> x | a # as \<Rightarrow> g' a as)"
  "(\<And>a. s = Inl a \<Longrightarrow> ends (h1 a)) \<Longrightarrow> (\<And>a. s = Inr a \<Longrightarrow> ends (h2 a)) \<Longrightarrow> ends (case s of Inl a \<Rightarrow> h1 a | Inr a \<Rightarrow> h2 a)"
  by (auto simp: rassert_def ends_def split: prod.splits option.splits list.splits sum.splits)

lemma ends_written [ends_intros]:
  "ends r \<Longrightarrow> (\<And>x. ends (k x)) \<Longrightarrow> ends (wlib r c k)"
  "(\<And>c. ends (k2 c)) \<Longrightarrow> ends (wthen r2 k2)"
  "(\<And>x c. ends (k3 x c)) \<Longrightarrow> ends (wbind r3 k3)"
  by (auto simp: ends_def wlib_def wthen_def wbind_def split: sum.splits err.splits prod.splits option.splits)

lemma ends_bytes [ends_intros]: "ends (rd b i)" "ends (rdn b i n)" "ends (wr out bs)" "ends (ngtcp2_cpymem out bs n)"
  by (simp_all add: ends_def rd_def rdn_def wr_def ngtcp2_cpymem_def rbind_def split: prod.splits sum.splits)

lemma ends_put [ends_intros]:
  "ends (ngtcp2_put_uint64be out n)" "ends (ngtcp2_put_uint32be out m)" "ends (ngtcp2_put_uint16be out l)"
  "ends (or_at i x out)" "ends (ngtcp2_put_varint out n)" "ends (ngtcp2_put_varint_len n)"
  unfolding ngtcp2_put_uint64be_def ngtcp2_put_uint32be_def ngtcp2_put_uint16be_def or_at_def ngtcp2_put_varint_def ngtcp2_put_varint_len_def
  by (intro ends_intros)+

lemma ends_ack_blks_len [ends_intros]: "ends (ack_blks_len bl k n)"
  by (induction bl k n rule: ack_blks_len.induct) (auto simp: Let_def intro!: ends_intros)

lemma ends_put_ack_blks [ends_intros]: "ends (put_ack_blks bl k out)"
  by (induction bl k out rule: put_ack_blks.induct) (auto intro!: ends_intros)

lemma ends_encode_frame [ends_intros]: "ends (ngtcp2_pkt_encode_frame out outlen fr)"
  unfolding ngtcp2_pkt_encode_frame_def keep_frame_def ngtcp2_pkt_encode_stream_frame_def ngtcp2_pkt_encode_ack_frame_def
    ngtcp2_pkt_encode_padding_frame_def ngtcp2_pkt_encode_rst_stream_frame_def ngtcp2_pkt_encode_connection_close_frame_def
    ngtcp2_pkt_encode_application_close_frame_def ngtcp2_pkt_encode_max_data_frame_def ngtcp2_pkt_encode_max_stream_data_frame_def
    ngtcp2_pkt_encode_max_stream_id_frame_def ngtcp2_pkt_encode_ping_frame_def ngtcp2_pkt_encode_blocked_frame_def
    ngtcp2_pkt_encode_stream_blocked_frame_def ngtcp2_pkt_encode_stream_id_blocked_frame_def
    ngtcp2_pkt_encode_new_connection_id_frame_def ngtcp2_pkt_encode_stop_sending_frame_def ngtcp2_pkt_encode_pong_frame_def
  by (cases fr) (simp only: ngtcp2_frame.case, intro ends_intros)+

lemma ends_encode_hd [ends_intros]: "ends (ngtcp2_ppe_encode_hd ppe h)"
  unfolding ngtcp2_ppe_encode_hd_def ngtcp2_pkt_encode_hd_long_def ngtcp2_pkt_encode_hd_short_def by (intro ends_intros)

lemma ends_xor_bytes [ends_intros]: "ends (xor_bytes dest i bs)"
  by (induction dest i bs rule: xor_bytes.induct) (auto intro!: ends_intros)

lemma ends_nonce [ends_intros]: "ends (ngtcp2_crypto_create_nonce iv n)"
  unfolding ngtcp2_crypto_create_nonce_def by (intro ends_intros)

lemma ends_ppe_encode_frame [ends_intros]: "ends (ngtcp2_ppe_encode_frame ppe fr)"
  unfolding ngtcp2_ppe_encode_frame_def by (intro ends_intros)

lemma ends_ppe_packet [ends_intros]: "ends (ppe_packet ppe)"
  unfolding ppe_packet_def ngtcp2_ppe_final_def by (intro ends_intros)

lemma ends_ppe_padding [ends_intros]: "ends (ngtcp2_ppe_padding ppe)"
  unfolding ngtcp2_ppe_padding_def by (intro ends_intros)

lemma ends_find_stream [ends_intros]: "ends (ngtcp2_conn_find_stream c k)"
  unfolding ngtcp2_conn_find_stream_def ngtcp2_map_find_def by (intro ends_intros)

lemma ends_frame_stale [ends_intros]: "ends (frame_stale c fr)"
  unfolding frame_stale_def by (cases fr) (simp only: ngtcp2_frame.case, intro ends_intros)+

lemma ends_write_frame [ends_intros]: "ends (conn_ppe_write_frame cb h fr w)"
  using ends_ppe_encode_frame [of "w_ppe w" fr] unfolding conn_ppe_write_frame_def
  by (auto simp: ends_def Let_def split: sum.splits err.splits prod.splits)

lemma ends_add_ack [ends_intros]: "ends (add_ack c n ack unprot)"
  unfolding add_ack_def ngtcp2_acktr_add_ack_def rb_push_def rb_store_def by (intro ends_intros)

lemma ends_close_run [ends_intros]: "ends (close_run m b)"
  unfolding close_run_def by (intro ends_intros)

lemma ends_ack_runs [ends_intros]: "ends (ack_runs m unprot ps b)"
  by (induction m unprot ps b rule: ack_runs.induct) (auto simp: Let_def intro!: ends_intros)

lemma ends_retransmit_ack [ends_intros]: "ends (retransmit_ack cb h ts w)"
  unfolding retransmit_ack_def write_ack_frame_def conn_create_ack_frame_def by (intro ends_intros)

lemma ends_retransmit_frames [ends_intros]: "ends (retransmit_frames cb h frs w)"
  by (induction frs arbitrary: w) (auto intro!: ends_intros)

lemma ends_retransmit_live_frames [ends_intros]: "ends (retransmit_live_frames cb h frs w)"
proof (induction "length frs" arbitrary: frs w rule: less_induct)
  case less
  then show ?case by (cases frs) (auto intro!: ends_intros split: if_splits)
qed

lemma ends_extend_expiry [ends_intros]: "ends (ngtcp2_rtb_entry_extend_expiry e ts)"
  unfolding ngtcp2_rtb_entry_extend_expiry_def by (intro ends_intros)

lemma ends_split [ends_intros]: "ends (retransmit_split fl h ts e sent rest pkt c)"
  unfolding retransmit_split_def conn_rtb_add_def by (intro ends_intros)

lemma ends_retransmit_entry [ends_intros]: "ends (retransmit_entry cb c dest e ts)"
  unfolding retransmit_entry_def conn_retransmit_unprotected_def conn_retransmit_protected_def by (intro ends_intros)

section \<open>A packet is dropped\<close>

text \<open>A packet encoder with a header: the packet it makes is not empty.\<close>

definition started :: "ngtcp2_ppe \<Rightarrow> bool" where
  "started ppe = (0 < ppe_hdlen ppe \<and> b_pos (ppe_buf ppe) = 0)"

lemma wr_Inr: "wr (m, p) bs = Inr (out, p') \<Longrightarrow> p' = p + length bs \<and> length out = length m \<and> p' \<le> length m"
  by (auto simp: wr_def split: if_splits)

lemma packet_not_empty:
  assumes "started ppe" and "ppe_packet ppe = Inr pkt"
  shows "pkt \<noteq> []"
proof -
  obtain n ppe' where f: "ngtcp2_ppe_final ppe = Inr (n, ppe')" "pkt = take n (b_mem (ppe_buf ppe'))"
    using assms(2) by (auto simp: ppe_packet_def rbind_eq_Inr)
  obtain ct out p where w: "wr (b_mem (ppe_buf ppe), ppe_hdlen ppe) ct = Inr (out, p)" "b_mem (ppe_buf ppe') = out" "n = p - b_pos (ppe_buf ppe)"
    using f(1) unfolding ngtcp2_ppe_final_def Let_def
    by (auto simp: rbind_eq_Inr ngtcp2_buf_len_def split: option.splits if_splits)
  show ?thesis using wr_Inr [OF w(1)] f(2) w(2,3) assms(1) by (auto simp: started_def)
qed

lemma encode_hd_started:
  assumes "hd_flags h AND NGTCP2_PKT_FLAG_LONG_FORM \<noteq> 0 \<or> short_pkt_num_len (hd_type h) \<noteq> None"
    and "ngtcp2_ppe_encode_hd (ngtcp2_ppe_init out cctx) h = Inr p"
  shows "started p"
proof -
  show ?thesis
  proof (cases "hd_flags h AND NGTCP2_PKT_FLAG_LONG_FORM \<noteq> 0")
    case True
    then show ?thesis using assms(2)
      by (auto simp: started_def ngtcp2_ppe_encode_hd_def ngtcp2_ppe_init_def ngtcp2_buf_init_def ngtcp2_buf_left_def Let_def encode_hd_long_eq
          wr_or_nobuf_def wr_def rbind_eq_Inr split: if_splits)
  next
    case False
    then obtain k where k: "short_pkt_num_len (hd_type h) = Some k" using assms(1) by auto
    show ?thesis using assms(2) False
      by (auto simp: started_def ngtcp2_ppe_encode_hd_def ngtcp2_ppe_init_def ngtcp2_buf_init_def ngtcp2_buf_left_def Let_def encode_hd_short_eq [OF k]
          wr_or_nobuf_def wr_def rbind_eq_Inr hd_short_bytes_def split: if_splits)
  qed
qed

lemma write_frame_started:
  "conn_ppe_write_frame cb h fr w = Inr (rv, fr', w') \<Longrightarrow>
   w_empty w' = w_empty w \<and> (started (w_ppe w) \<longrightarrow> started (w_ppe w'))"
  by (auto simp: conn_ppe_write_frame_def ngtcp2_ppe_encode_frame_def Let_def started_def rbind_def
      split: sum.splits err.splits prod.splits if_splits)

text \<open>Frames leave the packet empty only when nothing happened.\<close>

lemma retransmit_frames_empty:
  "retransmit_frames cb h frs w = Inr (rv, sent, rest, w') \<Longrightarrow>
   (w_empty w' \<longrightarrow> w_empty w \<and> (rv = None \<longrightarrow> w' = w)) \<and> (started (w_ppe w) \<longrightarrow> started (w_ppe w'))"
proof (induction frs arbitrary: w sent)
  case (Cons fr frs)
  then obtain rv1 fr1 w1 where w: "conn_ppe_write_frame cb h fr w = Inr (rv1, fr1, w1)" by (auto simp: rbind_eq_Inr)
  note s = write_frame_started [OF w]
  show ?case
  proof (cases rv1)
    case None
    then obtain sent1 where r: "retransmit_frames cb h frs (w1\<lparr>w_empty := False\<rparr>) = Inr (rv, sent1, rest, w')"
      using Cons(2) w by (auto simp: rbind_eq_Inr)
    show ?thesis using Cons(1) [OF r] s by simp
  next
    case (Some x)
    then show ?thesis using Cons(2) w s by auto
  qed
qed simp

lemma retransmit_live_frames_empty:
  "retransmit_live_frames cb h frs w = Inr (rv, sent, rest, w') \<Longrightarrow>
   (w_empty w' \<longrightarrow> w_empty w \<and> (rv = None \<longrightarrow> w' = w)) \<and> (started (w_ppe w) \<longrightarrow> started (w_ppe w'))"
proof (induction "length frs" arbitrary: frs w sent rule: less_induct)
  case less
  show ?case
  proof (cases frs)
    case (Cons fr frs')
    obtain stale where st: "frame_stale (w_conn w) fr = Inr stale" using less(2) Cons by (auto simp: rbind_eq_Inr)
    show ?thesis
    proof (cases "stale \<and> \<not> is_stop_sending fr")
      case True
      then show ?thesis using less(1) [of frs' w sent] less(2) Cons st by simp
    next
      case False
      define rst where "rst = (if stale then frs' else fr # frs')"
      obtain f fs where rst: "rst = f # fs" using less(2) Cons st False by (cases rst) (simp_all add: rst_def [symmetric])
      have l: "length fs < length frs" using rst Cons by (auto simp: rst_def split: if_splits)
      have r: "rbind (conn_ppe_write_frame cb h f w) (\<lambda>(rv, fr, w). if rv \<noteq> None then Inr (rv, [], fr # fs, w)
          else rbind (retransmit_live_frames cb h fs (w\<lparr>w_empty := False\<rparr>)) (\<lambda>(rv, sent, rest, w). Inr (rv, fr # sent, rest, w))) =
          Inr (rv, sent, rest, w')"
        using less(2) Cons st False rst by (simp add: rst_def [symmetric])
      obtain rv1 f1 w1 where w: "conn_ppe_write_frame cb h f w = Inr (rv1, f1, w1)" using r by (auto simp: rbind_eq_Inr)
      note s = write_frame_started [OF w]
      show ?thesis
      proof (cases rv1)
        case None
        then obtain sent1 where r1: "retransmit_live_frames cb h fs (w1\<lparr>w_empty := False\<rparr>) = Inr (rv, sent1, rest, w')"
          using r w by (auto simp: rbind_eq_Inr)
        show ?thesis using less(1) [OF l r1] s by simp
      next
        case (Some x)
        then show ?thesis using r w s by auto
      qed
    qed
  qed (use less(2) in simp)
qed

lemma split_not_empty: "retransmit_split fl h ts e sent rest pkt c = Inr (Inr x, e', c') \<Longrightarrow> x = pkt"
  by (auto simp: retransmit_split_def rbind_eq_Inr Let_def split: if_splits prod.splits sum.splits option.splits)

lemma retransmit_unprotected_dropped:
  assumes "hd_flags (re_hd e) AND NGTCP2_PKT_FLAG_LONG_FORM \<noteq> 0"
    and "conn_retransmit_unprotected cb c dest e ts = Inr (Inr [], e', c')"
  shows "c' = c"
proof -
  define h where "h = (re_hd e)\<lparr>hd_version := c_version c, hd_conn_id := c_conn_id c, hd_pkt_num := c_last_tx_pkt_num c + 1\<rparr>"
  obtain p where p: "ngtcp2_ppe_encode_hd (ngtcp2_ppe_init dest (hs_ctx cb c)) h = Inr p"
    using assms(2) unfolding conn_retransmit_unprotected_def Let_def h_def [symmetric] by (auto dest!: wlib_Inr)
  have st: "started p" by (rule encode_hd_started [OF _ p]) (use assms(1) in \<open>simp add: h_def\<close>)
  obtain rv sent rest w where f: "retransmit_frames cb h (re_frc e) \<lparr>w_ppe = p, w_called = False, w_empty = True, w_conn = c\<rparr> =
      Inr (rv, sent, rest, w)"
    using assms(2) unfolding conn_retransmit_unprotected_def Let_def h_def [symmetric] p by (auto simp: rbind_eq_Inr)
  note em = retransmit_frames_empty [OF f]
  have pk: "ppe_packet (w_ppe w) \<noteq> Inr []" using packet_not_empty em st by force
  note r = assms(2) [unfolded conn_retransmit_unprotected_def Let_def h_def [symmetric] p wlib_simps f rbind_simps split]
  show ?thesis
  proof (cases rv)
    case (Some x)
    then show ?thesis using r pk by (auto split: if_splits dest!: wlib_Inr split_not_empty)
  next
    case None
    show ?thesis
    proof (cases "w_empty w")
      case True
      then show ?thesis using r em None by simp
    next
      case False
      have "ppe_packet q' \<noteq> Inr []" if "ngtcp2_ppe_padding (w_ppe w) = Inr (n, q')" for n q'
        using that packet_not_empty [of q'] em st
        by (force simp: ngtcp2_ppe_padding_def started_def Let_def rassert_def rbind_eq_Inr split: if_splits)
      then show ?thesis using r None False pk
        by (auto simp: rbind_eq_Inr split: if_splits option.splits dest!: wlib_Inr)
    qed
  qed
qed

lemma retransmit_ack_started:
  "retransmit_ack cb h ts w = Inr (rv, w') \<Longrightarrow> started (w_ppe w) \<Longrightarrow> started (w_ppe w')"
  by (auto simp: retransmit_ack_def write_ack_frame_def Let_def rbind_eq_Inr dest!: write_frame_started split: if_splits option.splits)

lemma retransmit_protected_dropped:
  assumes "conn_retransmit_protected cb c dest e ts = Inr (Inr [], e', c')"
  shows "c' = c"
proof -
  define h where "h = (re_hd e)\<lparr>hd_version := c_version c, hd_conn_id := c_conn_id c, hd_pkt_num := c_last_tx_pkt_num c + 1,
      hd_type := conn_select_pkt_type c (c_last_tx_pkt_num c + 1)\<rparr>"
  obtain p where p: "ngtcp2_ppe_encode_hd (ngtcp2_ppe_init dest (tx_ctx cb c)) h = Inr p"
    using assms unfolding conn_retransmit_protected_def Let_def h_def [symmetric] by (auto dest!: wlib_Inr)
  have st: "started p"
    by (rule encode_hd_started [OF _ p]) (simp add: h_def conn_select_pkt_type_def Let_def short_pkt_num_len_def)
  obtain rv sent rest w where f: "retransmit_live_frames cb h (re_frc e) \<lparr>w_ppe = p, w_called = False, w_empty = True, w_conn = c\<rparr> =
      Inr (rv, sent, rest, w)"
    using assms unfolding conn_retransmit_protected_def Let_def h_def [symmetric] p by (auto simp: rbind_eq_Inr)
  note em = retransmit_live_frames_empty [OF f]
  note r = assms [unfolded conn_retransmit_protected_def Let_def h_def [symmetric] p wlib_simps f rbind_simps split]
  show ?thesis
  proof (cases "rv \<noteq> None \<and> rv \<noteq> Some NGTCP2_ERR_NOBUF \<or> w_empty w")
    case True
    then show ?thesis using r em by (auto split: option.splits)
  next
    case False
    have "ppe_packet (w_ppe w2) \<noteq> Inr []"
      if "(if conn_next_ack_expired c ts then retransmit_ack cb h ts w else Inr (None, w)) = Inr (rv2, w2)" for rv2 w2
      using that packet_not_empty [of "w_ppe w2"] retransmit_ack_started [of cb h ts w] em st by (auto split: if_splits)
    then show ?thesis using r unfolding if_not_P [OF False]
      by (fastforce simp: rbind_eq_Inr split: if_splits option.splits dest!: wlib_Inr split_not_empty)
  qed
qed

lemma retransmit_entry_dropped:
  assumes "retransmit_entry cb c dest e ts = Inr (Inr [], e', c')"
  shows "c' = c"
  using assms retransmit_protected_dropped retransmit_unprotected_dropped
  unfolding retransmit_entry_def Let_def by (auto split: if_splits)

lemma retransmit_loop_ends:
  assumes "rtb_wf (c_rtb c)" and "length (rtb_head (c_rtb c)) < k"
  shows "ends (retransmit_loop cb k c dest ts)"
  using assms
proof (induction k arbitrary: c)
  case (Suc k)
  show ?case
  proof (cases "ngtcp2_rtb_top (c_rtb c)")
    case (Some e)
    obtain rtb where rtb: "ngtcp2_rtb_pop (c_rtb c) = Inr rtb" "rtb_wf rtb" "rtb_head rtb = remove1 e (rtb_head (c_rtb c))"
      using rtb_pop_ok [OF Suc(2) Some] by blast
    have e: "e \<in> set (rtb_head (c_rtb c))" using rtb_top_ok(2) [OF Suc(2) Some] by blast
    then have "length (rtb_head rtb) = length (rtb_head (c_rtb c)) - 1" using rtb(3) by (simp add: length_remove1)
    then have "length (rtb_head rtb) < k" using Suc(3) length_pos_if_in_set [OF e] by linarith
    then have loop: "ends (retransmit_loop cb k (c\<lparr>c_rtb := rtb\<rparr>) dest ts)" using Suc(1) [of "c\<lparr>c_rtb := rtb\<rparr>"] rtb(2) by simp
    have rd: "ends (readd c e r)" for c :: "'a ngtcp2_conn" and e r unfolding readd_def by (intro ends_intros)
    show ?thesis unfolding retransmit_loop.simps Some option.case rtb(1) rbind_simps Let_def
      by (auto intro!: ends_intros rd dest!: retransmit_entry_dropped simp: loop split: sum.split)
  qed (simp add: ends_basic)
qed simp

section \<open>Properties\<close>

text \<open>
  C9. Retransmission ends. Each pass of the loop of \<^verbatim>\<open>conn_retransmit\<close> either returns or drops the packet that expires
  first, so the loop returns within as many passes as there are packets in the buffer, and one more, whatever the frames
  are and whatever the application does in its callbacks.
\<close>

theorem conn_retransmit_returns:
  fixes c :: "'u ngtcp2_conn"
  assumes "conn_ok c"
  shows "conn_retransmit cb c dest ts \<noteq> Inl OutOfFuel"
proof -
  have "rtb_wf (c_rtb c)" using assms by (simp add: conn_ok_def conn_inv_def)
  then show ?thesis using retransmit_loop_ends [of c "Suc (length (rtb_head (c_rtb c)))" cb dest ts] by (simp add: conn_retransmit_def ends_def)
qed

lemma conn_retransmit_returns_witness:
  "\<exists>c :: nat ngtcp2_conn. ngtcp2_conn_client_new (\<lambda>_. True) 7 1 zero_settings 0 = Inr (None, Some c) \<and>
     (\<forall>cb. conn_retransmit cb c (replicate 1200 0) 5 \<noteq> Inl OutOfFuel)"
  using client_new_ok [OF mem_ok_True, of 7 1 zero_settings "0 :: nat"] conn_retransmit_returns by blast

text \<open>
  The missing \<^verbatim>\<open>continue\<close> after a stale STOP_SENDING: when it is the last frame of the packet, the null pointer at the end
  of the chain is dereferenced.
\<close>

lemma stale_stop_sending_null:
  assumes "ngtcp2_conn_find_stream (w_conn w) (ss_stream_id f) = Inr None"
  shows "retransmit_live_frames cb h [FrStopSending f] w = Inl OutOfBounds"
  using assms by (simp add: frame_stale_def is_stop_sending_def)

end
