(* ===== verification/Spec2Isabelle.thy ===== *)
theory Spec2Isabelle
  imports Pkt_Encode Pkt_Misc Pq Crypto Conn_Ack Conn_Main Conn_Peer Conn_Input Conn_Retransmit
begin

text \<open>
  \<^bold>\<open>ngtcp2: the transport library in \<^verbatim>\<open>src/lib\<close>\<close>

  ngtcp2 implements the QUIC transport protocol (draft 8) as a library without input and output of its own. The
  application reads a UDP datagram and hands it to \<^verbatim>\<open>ngtcp2_conn_recv\<close>; it asks \<^verbatim>\<open>ngtcp2_conn_write_pkt\<close> and
  \<^verbatim>\<open>ngtcp2_conn_write_stream\<close> for the next packet to send; the library calls back with stream data, handshake messages,
  and for encryption. This development models all of the library, function by function, and proves what its parts promise
  and what the connection as a whole does with them.

  \<^bold>\<open>The parts and their theories\<close>

  \<^item> \<open>Prelude\<close>: the words of the C types, the results \<open>'a res\<close> with library errors, failed assertions, accesses outside of an
    object and loops that do not end as values, bounds-checked reads and writes, and the allocator as the sequence of its
    answers. \<open>Err\<close>: \<^verbatim>\<open>ngtcp2_err.c\<close>.
  \<^item> \<open>Ranges\<close>, \<open>Gaptr\<close>, \<open>Idtr\<close>, \<open>Rob\<close>: \<^verbatim>\<open>ngtcp2_range.c\<close>, \<^verbatim>\<open>ngtcp2_gaptr.c\<close> (acknowledged offsets), \<^verbatim>\<open>ngtcp2_idtr.c\<close>
    (used stream IDs), \<^verbatim>\<open>ngtcp2_rob.c\<close> (the reorder buffer of a stream). Lists of ranges stand for sets of offsets; the
    reorder buffer stands for a part of a stream \<open>S\<close>.
  \<^item> \<open>Pq\<close>, \<open>Hash_Map\<close>, \<open>Ringbuf\<close>: \<^verbatim>\<open>ngtcp2_pq.c\<close>, \<^verbatim>\<open>ngtcp2_map.c\<close>, \<^verbatim>\<open>ngtcp2_ringbuf.c\<close>, the containers.
  \<^item> \<open>Conv\<close>, \<open>Pkt_Hd\<close>, \<open>Pkt_Frame\<close>, \<open>Pkt_Encode\<close>, \<open>Pkt_Misc\<close>: \<^verbatim>\<open>ngtcp2_conv.c\<close>, \<^verbatim>\<open>ngtcp2_str.c\<close> and \<^verbatim>\<open>ngtcp2_pkt.c\<close>: integers, packet
    headers, frames in both directions, Version Negotiation, Stateless Reset, truncated packet numbers, validation of ACKs.
  \<^item> \<open>Acktr\<close>, \<open>Rtb\<close>: \<^verbatim>\<open>ngtcp2_acktr.c\<close> (received packets that are to be acknowledged) and \<^verbatim>\<open>ngtcp2_rtb.c\<close> (sent packets that
    wait for their acknowledgement).
  \<^item> \<open>Crypto\<close>, \<open>Ppe\<close>, \<open>Strm\<close>: \<^verbatim>\<open>ngtcp2_crypto.c\<close> (nonces, transport parameters), \<^verbatim>\<open>ngtcp2_ppe.c\<close> with \<^verbatim>\<open>ngtcp2_buf.c\<close> (packet
    protection), \<^verbatim>\<open>ngtcp2_strm.c\<close>.
  \<^item> \<open>Conn\<close>, \<open>Conn_New\<close>: the connection as a record, its callbacks, creation, keys and settings (\<^verbatim>\<open>ngtcp2_conn.c\<close>,
    \<^verbatim>\<open>ngtcp2_conn.h\<close>). \<open>Conn_Ack\<close>, \<open>Conn_Stream\<close>, \<open>Conn_Frame\<close>: acknowledgements, streams and flow control, the handlers of
    received frames. \<open>Conn_Pkt\<close>, \<open>Conn_Handshake\<close>: received packets and the state machine of \<^verbatim>\<open>ngtcp2_conn_recv\<close>. \<open>Conn_Tx\<close>,
    \<open>Conn_Write\<close>: retransmission, the handshake, stream and other packets, and the state machine of
    \<^verbatim>\<open>ngtcp2_conn_write_pkt\<close>.
  \<^item> \<open>Conn_Inv\<close>, \<open>Conn_Api\<close>, \<open>Conn_Safe\<close>, \<open>Conn_Deliver\<close>, \<open>Conn_Recv\<close>, \<open>Conn_Order\<close>, \<open>Conn_Robust\<close>, \<open>Conn_Main\<close>, \<open>Conn_Peer\<close>,
    \<open>Conn_Input\<close>, \<open>Conn_Retransmit\<close>: the proofs about the connection.

  \<^bold>\<open>How state and operations correspond to the code\<close>

  A struct is a record with the same fields, a linked list is a HOL list, a pointer into one is a position or the list from
  there on. The connection owns its streams in the hash table \<open>c_strms\<close>; a pointer to a stream is its ID, and using it after
  the stream was closed is the error \<open>OutOfBounds\<close>. A function of the code is the definition of the same name: it takes the
  object and returns it changed, with the return value. Integers keep their width (\<open>u8\<close>, \<open>u16\<close>, \<open>u32\<close>, \<open>u64\<close>), so
  wrap-around is that of the code; \<^verbatim>\<open>size_t\<close> is \<open>nat\<close>, with the wrap-around written out where the code adds or multiplies
  unchecked values. Every \<^verbatim>\<open>assert\<close> is a branch \<open>AssertFail\<close>. Parts of a long C function (the body of a loop, a \<^verbatim>\<open>switch\<close>) are
  definitions of their own. The callbacks of the application are fields of \<open>ngtcp2_conn_callbacks\<close>, functions that may change
  the connection; \<open>api_step\<close> (an inductive relation) lists what the interface allows them to do, and \<open>app_ok\<close> is the
  assumption that they do nothing else.

  \<^bold>\<open>What is proved\<close>

  \<^item> Wire format: encoders and decoders are inverse (integers, headers, frames, transport parameters, protected packets);
    the decoders read within the payload for any input.
  \<^item> Data structures: each implements a mathematical object, through a locale that states its interface and an
    interpretation on the code's functions: \<open>gap_tracker\<close> (sets), \<open>stream_buffer\<close> (a stream in order), \<open>priority_queue\<close>
    (multisets with a minimum), \<open>dictionary\<close> (maps), \<open>bounded_history\<close> (the latest elements), \<open>frame_codec\<close> (payloads).
  \<^item> Acknowledgements: the tracker reports exactly the packets received, an ACK frame covers exactly them, and an ACK of the
    peer removes exactly the packets it names.
  \<^item> The connection, receiving: the invariant \<open>conn_ok\<close> holds from creation on under all calls of the interface; any
    packet with a short header, and any payload, is processed without failed assertion and within its bounds; streams are delivered in order, whatever the
    order of the frames; flow control is enforced.
  \<^item> The connection, sending: \<^verbatim>\<open>ngtcp2_conn_write_stream\<close> sends what the limits allow; retransmission ends; and between two
    connections the packet that one writes is understood by the other: the packet number is recovered, the data is
    delivered, closing is noticed.

  \<^bold>\<open>Bounds\<close>

  Loops over lists are structural recursion. Loops that call the application, or whose number of passes depends on data, have
  fuel, and running out of it is the error \<open>OutOfFuel\<close>, which the theorems exclude: the loops over the frames of a packet get one
  more than the payload has bytes (every frame has at least one); the delivery of buffered data two more than there are
  chunks; the buffered packets 17 (the code keeps at most 16); the doubling of the decryption buffer 64 (the width of
  \<^verbatim>\<open>size_t\<close>); retransmission one more than there are packets in flight. The model is that of a little-endian host with
  64-bit \<^verbatim>\<open>size_t\<close>.

  \<^bold>\<open>Assumptions\<close>

  Theorems about the connection assume that allocation succeeds (\<open>mem_ok\<close>) where they promise success; the definitions have every
  failure. Encryption and decryption are parameters with \<open>aead_ok\<close>: a ciphertext is longer by the overhead and is
  decrypted to the text. The hash table and the queues have room below \<open>2 ^ 61\<close> and \<open>2 ^ 62\<close> entries.

  \<^bold>\<open>Not modelled\<close>

  Functions that only free memory (deallocation has no effect on the model); \<^verbatim>\<open>ngtcp2_mem.c\<close>, which forwards to the allocator
  of the application; the sample client and server under \<^verbatim>\<open>examples\<close> (sockets, event loop, TLS library, terminal output), the
  tests, and the third-party HTTP parser. Encryption and the TLS handshake are callbacks of the application, not code of the
  library.
\<close>

end
